(* ===== verification/Kernel_Prelude.thy ===== *)
theory Kernel_Prelude
  imports Main "HOL-Library.Word" "HOL-Library.Monad_Syntax"
begin

unbundle bit_operations_syntax

text \<open>
  Shared vocabulary of the development.

  \<^item> the machine integers of the C sources (\<open>uint8_t\<close>, \<open>uint16_t\<close>, \<open>uint32_t\<close>, and
    \<open>size_t\<close>, which has 32 bits under \<^verbatim>\<open>-m32\<close>) as words of that width;
  \<^item> the collections of rewrite rules that the component theories extend;
  \<^item> generic facts on words seen as natural numbers, on masks, and on lists.

  A 32-bit address is treated in proofs as \<open>of_nat a\<close> for a natural number \<open>a\<close> below
  \<open>2 ^ 32\<close>; the lemmas of the collection \<open>addr_simps\<close> move between the two views.
\<close>

section \<open>Machine integers\<close>

type_synonym u8 = "8 word"
type_synonym u16 = "16 word"
type_synonym u32 = "32 word"

named_theorems addr_simps \<open>32-bit address arithmetic as arithmetic on natural numbers\<close>
named_theorems layout_defs \<open>numeric constants of the kernel sources\<close>

section \<open>Words as natural numbers\<close>

lemma unat_of_nat_u32 [addr_simps]: "n < 2 ^ 32 \<Longrightarrow> unat (of_nat n :: u32) = n"
  by (simp add: unat_of_nat take_bit_nat_eq_self)

lemma of_nat_u32_eq_iff:
  "a < 2 ^ 32 \<Longrightarrow> b < 2 ^ 32 \<Longrightarrow> (of_nat a :: u32) = of_nat b \<longleftrightarrow> a = b"
  by (metis unat_of_nat_u32)

lemma of_nat_u32_le_iff:
  "a < 2 ^ 32 \<Longrightarrow> b < 2 ^ 32 \<Longrightarrow> (of_nat a :: u32) \<le> of_nat b \<longleftrightarrow> a \<le> b"
  by (simp add: word_le_nat_alt unat_of_nat_u32)

lemma of_nat_u32_less_iff:
  "a < 2 ^ 32 \<Longrightarrow> b < 2 ^ 32 \<Longrightarrow> (of_nat a :: u32) < of_nat b \<longleftrightarrow> a < b"
  by (simp add: word_less_nat_alt unat_of_nat_u32)

lemma of_nat_u32_eq_0_iff: "a < 2 ^ 32 \<Longrightarrow> (of_nat a :: u32) = 0 \<longleftrightarrow> a = 0"
  using of_nat_u32_eq_iff [of a 0] by simp

lemma unat_u32_less: "unat (x :: u32) < 2 ^ 32"
  using unsigned_less [of x, where 'a = nat] by simp

lemma eq_of_natI: "unat x = n \<Longrightarrow> (x :: 'a::len word) = of_nat n"
  by auto

lemma u32_cases: obtains n where "x = (of_nat n :: u32)" and "n < 2 ^ 32"
  using unat_u32_less [of x] that [of "unat x"] by simp

lemma unat_add_u32:
  "unat (a :: u32) + unat b < 2 ^ 32 \<Longrightarrow> unat (a + b) = unat a + unat b"
  by (simp add: unat_word_ariths)

lemma unat_sub_u32: "(b :: u32) \<le> a \<Longrightarrow> unat (a - b) = unat a - unat b"
  by (simp add: unat_sub)

lemma unat_diff_u32:
  "unat (a - b :: u32) = (if unat b \<le> unat a then unat a - unat b else unat a + 2 ^ 32 - unat b)"
  by (simp add: unat_sub_if_size word_size)

lemma unat_dist_add:
  fixes a b :: u32
  assumes "n \<le> unat (a - b)" and "n \<le> unat (b - a)" and "i < n"
  shows "unat (a + of_nat i - b) = unat (a - b) + i"
proof -
  have "unat (a - b) + n \<le> 2 ^ 32"
    using assms unat_diff_u32 [of 0 "a - b"] by (simp split: if_splits)
  then have "unat (a - b + of_nat i) = unat (a - b) + i"
    using assms(3) by (subst unat_add_u32) (simp_all add: unat_of_nat_u32)
  then show ?thesis by (simp add: diff_add_eq)
qed

lemma all_less_Suc_iff: "(\<forall>i<Suc n. P i) \<longleftrightarrow> P 0 \<and> (\<forall>i<n. P (Suc i))"
  by (auto simp: less_Suc_eq_0_disj)

section \<open>Masks and alignment\<close>

text \<open>Clearing the low \<open>n\<close> bits of a word rounds its value down to a multiple of \<open>2 ^ n\<close>.\<close>

lemma and_not_mask_eq_minus:
  fixes x :: "'a::len word"
  shows "x AND NOT (mask n) = x - take_bit n x"
proof -
  have "x = (x AND NOT (mask n)) + take_bit n x"
    by (subst disjunctive_add) (auto simp: bit_simps bit_eq_iff)
  then show ?thesis by (metis add_diff_cancel_right')
qed

lemma unat_and_not_mask:
  fixes x :: "'a::len word"
  shows "unat (x AND NOT (mask n)) = unat x div 2 ^ n * 2 ^ n"
proof -
  have t: "unat (take_bit n x) = unat x mod 2 ^ n"
    by (subst unsigned_take_bit_eq) (simp add: take_bit_nat_def)
  then have "take_bit n x \<le> x"
    by (simp add: word_le_nat_alt)
  with t show ?thesis
    by (simp add: and_not_mask_eq_minus unat_sub minus_mod_eq_div_mult)
qed

lemma unat_drop_bit: "unat (drop_bit n (w :: 'a::len word)) = unat w div 2 ^ n"
  using unsigned_less [of w, where 'a = nat]
  by (simp add: unsigned_drop_bit_eq drop_bit_nat_def take_bit_nat_eq_self)

lemma unat_take_bit: "unat (take_bit n (w :: 'a::len word)) = unat w mod 2 ^ n"
  by (subst unsigned_take_bit_eq) (simp add: take_bit_nat_def)

lemma unat_or_less:
  fixes x y :: "'a::len word"
  assumes "unat x < 2 ^ n" and "unat y < 2 ^ n"
  shows "unat (x OR y) < 2 ^ n"
proof -
  have "take_bit n (unat x OR unat y) = unat x OR unat y"
    using assms by (simp add: take_bit_nat_eq_self)
  then show ?thesis by (metis take_bit_nat_less_exp unsigned_or_eq)
qed

lemma not_mask_4: "NOT (15 :: u32) = NOT (mask 4)"
  by (simp add: mask_eq_exp_minus_1)

lemma not_mask_12: "(0xFFFFF000 :: u32) = NOT (mask 12)" "NOT (4095 :: u32) = NOT (mask 12)"
  by (simp_all add: mask_eq_exp_minus_1)

lemma mask_12: "(0xFFF :: u32) = mask 12"
  by (simp add: mask_eq_exp_minus_1)

lemma mask_10: "(0x3FF :: u32) = mask 10"
  by (simp add: mask_eq_exp_minus_1)

lemma and_FF: "(x :: 'a::len word) AND 0xFF = take_bit 8 x"
  using take_bit_eq_mask [of 8 x] by (simp add: mask_eq_exp_minus_1)

lemma unat_ucast_u8: "unat (ucast (x :: 'a::len word) :: u8) = unat x mod 256"
  by (simp add: unsigned_ucast_eq take_bit_nat_def)

lemma unat_ucast_u16_u32 [simp]: "unat (ucast (x :: u16) :: u32) = unat x"
  using unsigned_less [of x, where 'a = nat] by (simp add: unsigned_ucast_eq take_bit_nat_eq_self)

text \<open>Rounding a natural number up to a multiple of \<open>k\<close>, the value the C idiom computes.\<close>

definition round_up :: "nat \<Rightarrow> nat \<Rightarrow> nat" where
  "round_up k n = (n + k - 1) div k * k"

lemma round_up_ge: "0 < k \<Longrightarrow> n \<le> round_up k n"
proof -
  assume "0 < k"
  then have "n + k - 1 - (k - 1) \<le> n + k - 1 - (n + k - 1) mod k"
    using mod_less_divisor [of k "n + k - 1"] by linarith
  with \<open>0 < k\<close> show ?thesis
    by (simp add: round_up_def minus_mod_eq_div_mult)
qed

lemma round_up_less: "0 < k \<Longrightarrow> round_up k n < n + k"
proof -
  assume "0 < k"
  moreover have "round_up k n \<le> n + k - 1" by (simp add: round_up_def)
  ultimately show ?thesis by linarith
qed

lemma round_up_dvd [simp]: "k dvd round_up k n"
  by (simp add: round_up_def)

lemma round_up_self: "k dvd n \<Longrightarrow> 0 < k \<Longrightarrow> round_up k n = n"
proof -
  assume "k dvd n" and "0 < k"
  from \<open>k dvd n\<close> obtain j where n: "n = k * j" by (rule dvdE)
  have "(k - 1 + k * j) div k = j" using \<open>0 < k\<close> by (subst div_mult_self2) auto
  moreover have "n + k - 1 = k - 1 + k * j" using \<open>0 < k\<close> n by simp
  ultimately show ?thesis using n by (simp add: round_up_def)
qed

section \<open>Lists and sets of pairs\<close>

lemma ball_pairI: "(\<And>q k. (q, k) \<in> S \<Longrightarrow> P q k) \<Longrightarrow> \<forall>(q, k) \<in> S. P q k"
  by auto

lemma sum_list_map_take_le:
  fixes f :: "'a \<Rightarrow> nat"
  shows "sum_list (map f (take k xs)) \<le> sum_list (map f xs)"
  by (metis append_take_drop_id le_add1 map_append sum_list_append)

end
