(* ===== verification/Memory_Bytes.thy ===== *)
theory Memory_Bytes
  imports Kernel_Prelude
begin

text \<open>
  Byte-addressed memory and the C string-and-memory routines of \<^verbatim>\<open>arch/memory.c\<close>
  (\<open>memset\<close>, \<open>memcpy\<close>, \<open>memmove\<close>, \<open>memcmp\<close>).

  Memory is a function from 32-bit addresses to bytes. 32-bit objects are stored
  little-endian, as the i386 does. The four loops of the source are recursions on the
  remaining count \<open>n\<close>; pointers advance with wrap-around, so each characterisation
  below is stated with the wrapping distance \<open>x - p\<close> and holds for every count that a
  \<open>size_t\<close> can have.
\<close>

section \<open>Loads and stores\<close>

type_synonym mem = "u32 \<Rightarrow> u8"

definition load32 :: "mem \<Rightarrow> u32 \<Rightarrow> u32" where
  "load32 m a = ucast (m a) OR push_bit 8 (ucast (m (a + 1)))
     OR push_bit 16 (ucast (m (a + 2))) OR push_bit 24 (ucast (m (a + 3)))"

definition load16 :: "mem \<Rightarrow> u32 \<Rightarrow> u16" where
  "load16 m a = ucast (m a) OR push_bit 8 (ucast (m (a + 1)))"

definition store32 :: "u32 \<Rightarrow> u32 \<Rightarrow> mem \<Rightarrow> mem" where
  "store32 a v m = m(a := ucast v, a + 1 := ucast (drop_bit 8 v),
     a + 2 := ucast (drop_bit 16 v), a + 3 := ucast (drop_bit 24 v))"

lemma load32_store32_same [simp]: "load32 (store32 a v m) a = v"
proof (rule bit_word_eqI)
  fix n assume "n < LENGTH(32)"
  then consider "n < 8" | "8 \<le> n" "n < 16" | "16 \<le> n" "n < 24" | "24 \<le> n" "n < 32"
    by fastforce
  then show "bit (load32 (store32 a v m) a) n = bit v n"
    by cases (auto simp: load32_def store32_def bit_simps)
qed

lemma store32_other:
  "unat (x - a) \<ge> 4 \<Longrightarrow> store32 a v m x = m x"
  by (auto simp: store32_def)

lemma load32_cong:
  assumes "\<And>i. i < 4 \<Longrightarrow> m' (a + of_nat i) = m (a + of_nat i)"
  shows "load32 m' a = load32 m a"
  using assms [of 0] assms [of 1] assms [of 2] assms [of 3] by (simp add: load32_def)

lemma load32_store32_dist:
  assumes "4 \<le> unat (a - b)" and "4 \<le> unat (b - a)"
  shows "load32 (store32 b v m) a = load32 m a"
  using assms by (intro load32_cong store32_other) (simp add: unat_dist_add)

text \<open>Entries of 4-aligned tables are equal or do not overlap.\<close>

lemma dvd4_unat_diff: "4 dvd unat a \<Longrightarrow> 4 dvd unat b \<Longrightarrow> 4 dvd unat (a - b :: u32)"
  by (auto simp: unat_diff_u32 intro!: dvd_diff_nat)

lemma load32_store32_apart:
  assumes "4 dvd unat a" and "4 dvd unat b" and "a \<noteq> b"
  shows "load32 (store32 a v m) b = load32 m b"
proof -
  have "4 \<le> unat (x - y)" if "4 dvd unat x" "4 dvd unat y" "x \<noteq> y" for x y :: u32
    using dvd_imp_le [OF dvd4_unat_diff [OF that(1,2)]] that(3) by (simp add: unat_gt_0)
  from this [OF assms] this [OF assms(2,1)] assms(3) show ?thesis
    by (intro load32_store32_dist) auto
qed

section \<open>memset, memcpy, memmove, memcmp\<close>

primrec memset_loop :: "nat \<Rightarrow> u32 \<Rightarrow> u8 \<Rightarrow> mem \<Rightarrow> mem" where
  "memset_loop 0 p c m = m"
| "memset_loop (Suc n) p c m = memset_loop n (p + 1) c (m(p := c))"

definition memset :: "u32 \<Rightarrow> u32 \<Rightarrow> u32 \<Rightarrow> mem \<Rightarrow> mem" where
  "memset dst c n m = memset_loop (unat n) dst (ucast c) m"

primrec memcpy_loop :: "nat \<Rightarrow> u32 \<Rightarrow> u32 \<Rightarrow> mem \<Rightarrow> mem" where
  "memcpy_loop 0 d s m = m"
| "memcpy_loop (Suc n) d s m = memcpy_loop n (d + 1) (s + 1) (m(d := m s))"

definition memcpy :: "u32 \<Rightarrow> u32 \<Rightarrow> u32 \<Rightarrow> mem \<Rightarrow> mem" where
  "memcpy dst src n m = memcpy_loop (unat n) dst src m"

primrec memmove_down_loop :: "nat \<Rightarrow> u32 \<Rightarrow> u32 \<Rightarrow> mem \<Rightarrow> mem" where
  "memmove_down_loop 0 d s m = m"
| "memmove_down_loop (Suc n) d s m = memmove_down_loop n (d - 1) (s - 1) (m(d - 1 := m (s - 1)))"

definition memmove :: "u32 \<Rightarrow> u32 \<Rightarrow> u32 \<Rightarrow> mem \<Rightarrow> mem" where
  "memmove dst src n m =
     (if dst = src \<or> n = 0 then m
      else if dst < src then memcpy_loop (unat n) dst src m
      else memmove_down_loop (unat n) (dst + n) (src + n) m)"

primrec memcmp_loop :: "nat \<Rightarrow> u32 \<Rightarrow> u32 \<Rightarrow> mem \<Rightarrow> int" where
  "memcmp_loop 0 a b m = 0"
| "memcmp_loop (Suc n) a b m =
     (if m a \<noteq> m b then uint (m a) - uint (m b) else memcmp_loop n (a + 1) (b + 1) m)"

definition memcmp :: "u32 \<Rightarrow> u32 \<Rightarrow> u32 \<Rightarrow> mem \<Rightarrow> int" where
  "memcmp a b n m = memcmp_loop (unat n) a b m"

text \<open>The wrapping distance of the next pointer.\<close>

lemma dist_Suc:
  fixes x p :: u32
  assumes "n < 2 ^ 32 - 1"
  shows "unat (x - p) < Suc n \<longleftrightarrow> x = p \<or> unat (x - (p + 1)) < n \<and> x \<noteq> p"
proof (cases "x = p")
  case False
  then have "0 < unat (x - p)" by (simp add: unat_gt_0)
  moreover have "unat (x - (p + 1)) = unat (x - p) - 1"
    using False unat_minus_one [of "x - p"] by (simp add: diff_diff_eq)
  ultimately have "unat (x - p) < Suc n \<longleftrightarrow> unat (x - (p + 1)) < n" by linarith
  with False show ?thesis by simp
qed simp

lemma memset_loop_apply:
  "n < 2 ^ 32 \<Longrightarrow> memset_loop n p c m x = (if unat (x - p) < n then c else m x)"
proof (induction n arbitrary: p m)
  case (Suc n)
  then have IH: "memset_loop n (p + 1) c (m(p := c)) x =
      (if unat (x - (p + 1)) < n then c else (m(p := c)) x)" by simp
  show ?case
    using dist_Suc [of n x p] Suc.prems by (auto simp: IH)
qed simp

lemma memset_apply:
  "memset dst c n m x = (if unat (x - dst) < unat n then ucast c else m x)"
  using unat_u32_less [of n] by (simp add: memset_def memset_loop_apply)

text \<open>
  The ascending copy is right when no byte is overwritten before it is read: the wrapping
  distance from source to destination is zero or at least the count.
\<close>

lemma memcpy_loop_apply:
  assumes "n < 2 ^ 32" and "d = s \<or> n \<le> unat (d - s)"
  shows "memcpy_loop n d s m x = (if unat (x - d) < n then m (s + (x - d)) else m x)"
  using assms
proof (induction n arbitrary: d s m)
  case (Suc n)
  let ?m = "m(d := m s)"
  have "memcpy_loop n (d + 1) (s + 1) ?m x =
      (if unat (x - (d + 1)) < n then ?m (s + 1 + (x - (d + 1))) else ?m x)"
    using Suc.prems by (intro Suc.IH) auto
  then have IH: "memcpy_loop n (d + 1) (s + 1) ?m x =
      (if unat (x - (d + 1)) < n then ?m (s + (x - d)) else ?m x)" by (simp add: algebra_simps)
  have unread: "?m (s + (x - d)) = m (s + (x - d))" if "x \<noteq> d" "unat (x - d) < Suc n"
  proof (cases "s + (x - d) = d")
    case True
    then have "d - s = x - d" by (simp add: algebra_simps)
    with Suc.prems(2) that show ?thesis by auto
  qed simp
  show ?case
    using dist_Suc [of n x d] Suc.prems(1) unread by (auto simp: IH)
qed simp

lemma memcpy_apply:
  assumes "d = s \<or> unat n \<le> unat (d - s)"
  shows "memcpy d s n m x = (if unat (x - d) < unat n then m (s + (x - d)) else m x)"
  using assms unat_u32_less [of n] by (simp add: memcpy_def memcpy_loop_apply)

lemma memmove_down_loop_apply:
  assumes "n < 2 ^ 32" and "d = s \<or> n \<le> unat (s - d)"
  shows "memmove_down_loop n (d + of_nat n) (s + of_nat n) m x =
    (if unat (x - d) < n then m (s + (x - d)) else m x)"
  using assms
proof (induction n arbitrary: m)
  case (Suc n)
  let ?m = "m(d + of_nat n := m (s + of_nat n))"
  have IH: "memmove_down_loop n (d + of_nat n) (s + of_nat n) ?m x =
      (if unat (x - d) < n then ?m (s + (x - d)) else ?m x)"
    using Suc.prems by (intro Suc.IH) auto
  have step: "memmove_down_loop (Suc n) (d + of_nat (Suc n)) (s + of_nat (Suc n)) m x =
      memmove_down_loop n (d + of_nat n) (s + of_nat n) ?m x"
    by (simp add: algebra_simps)
  have top: "unat (x - d) = n \<longleftrightarrow> x = d + of_nat n"
    using Suc.prems(1) by (auto simp: unat_of_nat_u32 algebra_simps)
  have unread: "?m (s + (x - d)) = m (s + (x - d))" if "unat (x - d) < n"
  proof (cases "s + (x - d) = d + of_nat n")
    case True
    then have "s - d = of_nat n - (x - d)" by (simp add: algebra_simps)
    moreover have "x - d \<le> of_nat n"
      using that Suc.prems(1) by (simp add: word_le_nat_alt unat_of_nat_u32)
    ultimately have "unat (s - d) = n - unat (x - d)"
      using Suc.prems(1) by (simp only: unat_sub) (simp add: unat_of_nat_u32)
    with Suc.prems(2) that show ?thesis by auto
  qed simp
  show ?case
    unfolding step IH using unread top less_Suc_eq [of "unat (x - d)" n] by auto
qed simp

lemma memmove_apply:
  assumes "unat d + unat n \<le> 2 ^ 32" and "unat s + unat n \<le> 2 ^ 32"
  shows "memmove d s n m x = (if unat (x - d) < unat n then m (s + (x - d)) else m x)"
proof -
  consider "d = s \<or> n = 0" | "d < s" | "s < d" by fastforce
  then show ?thesis
  proof cases
    case 2
    then have "unat n \<le> unat (d - s)"
      using assms(2) by (simp add: unat_diff_u32 word_less_nat_alt)
    with 2 show ?thesis
      using memcpy_loop_apply [of "unat n" d s m x] unat_u32_less [of n]
      by (auto simp: memmove_def)
  next
    case 3
    then have "unat n \<le> unat (s - d)"
      using assms(1) by (simp add: unat_diff_u32 word_less_nat_alt)
    with 3 show ?thesis
      using memmove_down_loop_apply [of "unat n" d s m x] unat_u32_less [of n]
      by (auto simp: memmove_def)
  qed (auto simp: memmove_def)
qed

lemma memcmp_loop_zero:
  "memcmp_loop n a b m = 0 \<longleftrightarrow> (\<forall>i<n. m (a + of_nat i) = m (b + of_nat i))"
proof (induction n arbitrary: a b)
  case (Suc n)
  show ?case
  proof (cases "m a = m b")
    case True
    then show ?thesis
      by (simp add: Suc all_less_Suc_iff algebra_simps)
  next
    case False
    then have "uint (m a) \<noteq> uint (m b)" by (simp add: word_uint_eq_iff)
    with False show ?thesis by (auto intro!: exI [of _ 0])
  qed
qed simp

text \<open>A memory that differs from another only inside the range of \<open>l\<close> bytes at \<open>a\<close>.\<close>

definition changes_only :: "nat \<Rightarrow> nat \<Rightarrow> mem \<Rightarrow> mem \<Rightarrow> bool" where
  "changes_only a l m m' \<longleftrightarrow>
     (\<forall>x<2 ^ 32. x < a \<or> a + l \<le> x \<longrightarrow> m' (of_nat x) = m (of_nat x))"

lemma changes_onlyD:
  "changes_only a l m m' \<Longrightarrow> x < 2 ^ 32 \<Longrightarrow> x < a \<or> a + l \<le> x \<Longrightarrow> m' (of_nat x) = m (of_nat x)"
  by (auto simp: changes_only_def)

lemma nat_dist_u32:
  assumes "x < 2 ^ 32" and "a + n \<le> 2 ^ 32" and "x < a \<or> a + n \<le> x" and "0 < n"
  shows "n \<le> unat (of_nat x - of_nat a :: u32)"
  using assms by (auto simp: unat_diff_u32 unat_of_nat_u32)

lemma nat_dist_u32_in:
  assumes "x < 2 ^ 32" and "a \<le> x"
  shows "unat (of_nat x - of_nat a :: u32) = x - a"
  using assms by (simp add: unat_diff_u32 unat_of_nat_u32)

end
