(* ===== verification/Mm_State.thy ===== *)
theory Mm_State
  imports Memory_Bytes
begin

text \<open>
  The state of \<^verbatim>\<open>arch/memory.c\<close> and its constants.

  The file keeps static variables (\<open>g_heap_head\<close>, \<open>g_total_frames\<close>, ...) and static
  arrays. \<open>g_heap\<close>, \<open>g_page_directory\<close> and \<open>g_page_tables\<close> are reached through their
  addresses, so they live in the byte memory \<open>mm_mem\<close> at the addresses the linker gave
  them, which are the fields of \<open>link_map\<close>, a parameter of the model. The frame bitmap is only ever
  indexed by name and is a field of its own. \<open>cr0\<close> and \<open>cr3\<close> are the control registers
  that \<open>enable_paging\<close> writes.
\<close>

section \<open>Constants\<close>

definition PAGE_SIZE :: u32 where [simp]: "PAGE_SIZE = 4096"
definition PAGE_PRESENT :: u32 where [simp]: "PAGE_PRESENT = 0x001"
definition PAGE_WRITE :: u32 where [simp]: "PAGE_WRITE = 0x002"
definition PAGE_USER :: u32 where [simp]: "PAGE_USER = 0x004"
definition MAX_PHYS_MEM_BYTES :: u32 where [simp]: "MAX_PHYS_MEM_BYTES = 512 * 1024 * 1024"
definition MAX_FRAMES :: u32 where [simp]: "MAX_FRAMES = MAX_PHYS_MEM_BYTES div PAGE_SIZE"
definition FRAME_BITMAP_BYTES :: u32 where [simp]: "FRAME_BITMAP_BYTES = MAX_FRAMES div 8"
definition IDENTITY_MAP_BYTES :: u32 where [simp]: "IDENTITY_MAP_BYTES = 128 * 1024 * 1024"
definition IDENTITY_TABLES :: u32 where [simp]: "IDENTITY_TABLES = IDENTITY_MAP_BYTES div (4 * 1024 * 1024)"
definition HEAP_SIZE :: u32 where [simp]: "HEAP_SIZE = 512 * 1024"
definition HEAP_ALIGN :: u32 where [simp]: "HEAP_ALIGN = 16"
definition BLOCK_MAGIC :: u32 where [simp]: "BLOCK_MAGIC = 0xC0FFEE42"
definition USER_PROGRAM_BASE :: u32 where [simp]: "USER_PROGRAM_BASE = 0x00800000"
definition USER_PROGRAM_MAX_SIZE :: u32 where [simp]: "USER_PROGRAM_MAX_SIZE = 1024 * 1024"
definition USER_STACK_TOP :: u32 where [simp]: "USER_STACK_TOP = 0x00C00000"
definition USER_STACK_SIZE :: u32 where [simp]: "USER_STACK_SIZE = 0x00001000"

section \<open>State\<close>

record link_map =
  g_heap_at :: u32
  g_page_directory_at :: u32
  g_page_tables_at :: u32
  kernel_end_at :: u32

record mm =
  mm_mem :: mem
  g_heap_head :: u32
  g_heap_ready :: bool
  g_total_memory_bytes :: u32
  g_total_frames :: u32
  g_frame_bitmap :: "nat \<Rightarrow> u32"
  g_paging_ready :: bool
  cr0 :: u32
  cr3 :: u32

text \<open>The state before \<open>memory_init\<close>: the initialisers of the source, zeroed \<open>.bss\<close>.\<close>

definition mm_boot :: mm where
  "mm_boot = \<lparr>mm_mem = (\<lambda>_. 0), g_heap_head = 0, g_heap_ready = False,
     g_total_memory_bytes = 0, g_total_frames = 0, g_frame_bitmap = (\<lambda>_. 0),
     g_paging_ready = False, cr0 = 0, cr3 = 0\<rparr>"

section \<open>Alignment\<close>

definition align_up_u32 :: "u32 \<Rightarrow> u32 \<Rightarrow> u32" where
  "align_up_u32 value align = (value + align - 1) AND NOT (align - 1)"

text \<open>\<open>size_t\<close> has 32 bits on the target, so \<open>align_up\<close> is the same function.\<close>

definition align_up :: "u32 \<Rightarrow> u32 \<Rightarrow> u32" where
  "align_up value align = (value + align - 1) AND NOT (align - 1)"

lemma align_up_eq: "align_up = align_up_u32"
  by (simp add: align_up_def align_up_u32_def fun_eq_iff)

lemma align_up_of_nat:
  assumes "n + 2 ^ k - 1 < 2 ^ 32" and "k < 32"
  shows "align_up_u32 (of_nat n) (2 ^ k) = of_nat (round_up (2 ^ k) n)"
proof -
  have mask: "(2 ^ k :: u32) - 1 = mask k" by (simp add: mask_eq_exp_minus_1)
  have "(of_nat n + 2 ^ k - 1 :: u32) = of_nat (n + 2 ^ k - 1)"
    using of_nat_diff [of 1 "n + 2 ^ k", where 'a = u32] by (simp add: trans_le_add2)
  then have "unat (align_up_u32 (of_nat n) (2 ^ k)) = (n + 2 ^ k - 1) div 2 ^ k * 2 ^ k"
    using assms by (simp add: align_up_u32_def mask unat_and_not_mask unat_of_nat_u32 del: of_nat_diff of_nat_add of_nat_power)
  moreover have "round_up (2 ^ k) n < 2 ^ 32"
    using assms by (simp add: round_up_def) (meson div_times_less_eq_dividend le_less_trans)
  ultimately show ?thesis
    by (metis round_up_def unat_of_nat_u32 word_unat_eq_iff)
qed

end
