(* ===== verification/Heap.thy ===== *)
theory Heap
  imports Mm_State
begin

text \<open>
  The kernel heap of \<^verbatim>\<open>arch/memory.c\<close>: a doubly linked list of blocks inside
  \<open>g_heap\<close>, each with a header at its start.

  The operations below work on the byte memory exactly as the source does: every field
  access is a load or store at the field's offset. The block list they maintain is
  abstracted to a list of pairs (size, free) by the predicate \<open>chain\<close>, and each
  operation is shown to compute a small list function (\<open>alloc_blocks\<close>, \<open>free_blocks\<close>).
  The loop of \<open>kmalloc\<close> follows pointers found in memory, so it is a partial function;
  it is proved to return on every heap that the operations can produce.
\<close>

section \<open>Block headers\<close>

record heap_block_t =
  hb_magic :: u32
  hb_size :: u32
  hb_free :: u8
  hb_next :: u32
  hb_prev :: u32

definition sizeof_heap_block :: u32 where [simp]: "sizeof_heap_block = 20"

definition read_block :: "mem \<Rightarrow> u32 \<Rightarrow> heap_block_t" where
  "read_block m b = \<lparr>hb_magic = load32 m b, hb_size = load32 m (b + 4), hb_free = m (b + 8),
     hb_next = load32 m (b + 12), hb_prev = load32 m (b + 16)\<rparr>"

definition put_magic :: "u32 \<Rightarrow> u32 \<Rightarrow> mem \<Rightarrow> mem" where
  "put_magic b v m = store32 b v m"
definition put_size :: "u32 \<Rightarrow> u32 \<Rightarrow> mem \<Rightarrow> mem" where
  "put_size b v m = store32 (b + 4) v m"
definition put_free :: "u32 \<Rightarrow> u8 \<Rightarrow> mem \<Rightarrow> mem" where
  "put_free b v m = m(b + 8 := v)"
definition put_next :: "u32 \<Rightarrow> u32 \<Rightarrow> mem \<Rightarrow> mem" where
  "put_next b v m = store32 (b + 12) v m"
definition put_prev :: "u32 \<Rightarrow> u32 \<Rightarrow> mem \<Rightarrow> mem" where
  "put_prev b v m = store32 (b + 16) v m"

definition block_payload :: "u32 \<Rightarrow> u32" where
  "block_payload block = block + align_up sizeof_heap_block HEAP_ALIGN"

definition payload_block :: "u32 \<Rightarrow> u32" where
  "payload_block ptr = ptr - align_up sizeof_heap_block HEAP_ALIGN"

section \<open>Operations\<close>

definition split_block :: "u32 \<Rightarrow> u32 \<Rightarrow> mem \<Rightarrow> mem" where
  "split_block block sz m =
     (let header_size = align_up sizeof_heap_block HEAP_ALIGN;
          total_needed = header_size + align_up sz HEAP_ALIGN
      in if hb_size (read_block m block) \<le> total_needed + header_size + HEAP_ALIGN then m
         else
           let new_block = block + total_needed;
               m = put_magic new_block BLOCK_MAGIC m;
               m = put_size new_block (hb_size (read_block m block) - total_needed) m;
               m = put_free new_block 1 m;
               m = put_next new_block (hb_next (read_block m block)) m;
               m = put_prev new_block block m;
               m = (if hb_next (read_block m new_block) \<noteq> 0
                    then put_prev (hb_next (read_block m new_block)) new_block m else m);
               m = put_next block new_block m
           in put_size block total_needed m)"

definition merge_with_next :: "u32 \<Rightarrow> mem \<Rightarrow> mem" where
  "merge_with_next block m =
     (if block = 0 \<or> hb_next (read_block m block) = 0
         \<or> hb_free (read_block m (hb_next (read_block m block))) = 0 then m
      else
        let expected = block + hb_size (read_block m block)
        in if hb_next (read_block m block) \<noteq> expected then m
           else
             let nxt = hb_next (read_block m block);
                 m = put_size block (hb_size (read_block m block) + hb_size (read_block m nxt)) m;
                 m = put_next block (hb_next (read_block m nxt)) m
             in if hb_next (read_block m block) \<noteq> 0
                then put_prev (hb_next (read_block m block)) block m else m)"

definition heap_init :: "link_map \<Rightarrow> mm \<Rightarrow> mm" where
  "heap_init L s =
     (if g_heap_ready s then s
      else
        let h = g_heap_at L;
            m = put_magic h BLOCK_MAGIC (mm_mem s);
            m = put_size h HEAP_SIZE m;
            m = put_free h 1 m;
            m = put_next h 0 m;
            m = put_prev h 0 m
        in s\<lparr>mm_mem := m, g_heap_head := h, g_heap_ready := True\<rparr>)"

partial_function (option) kmalloc_scan :: "u32 \<Rightarrow> u32 \<Rightarrow> u32 \<Rightarrow> mem \<Rightarrow> (u32 \<times> mem) option" where
  "kmalloc_scan aligned_size header_size cur m =
     (if cur = 0 then Some (0, m)
      else if hb_magic (read_block m cur) = BLOCK_MAGIC \<and> hb_free (read_block m cur) \<noteq> 0
        \<and> hb_size (read_block m cur) \<ge> aligned_size + header_size
      then Some (block_payload cur, put_free cur 0 (split_block cur aligned_size m))
      else kmalloc_scan aligned_size header_size (hb_next (read_block m cur)) m)"

definition kmalloc :: "link_map \<Rightarrow> u32 \<Rightarrow> mm \<Rightarrow> (u32 \<times> mm) option" where
  "kmalloc L sz s =
     (if sz = 0 then Some (0, s)
      else
        let s = (if \<not> g_heap_ready s then heap_init L s else s);
            aligned_size = align_up sz HEAP_ALIGN;
            header_size = align_up sizeof_heap_block HEAP_ALIGN
        in map_option (\<lambda>(p, m). (p, s\<lparr>mm_mem := m\<rparr>))
             (kmalloc_scan aligned_size header_size (g_heap_head s) (mm_mem s)))"

definition kfree :: "u32 \<Rightarrow> mm \<Rightarrow> mm" where
  "kfree ptr s =
     (if ptr = 0 then s
      else
        let block = payload_block ptr
        in if hb_magic (read_block (mm_mem s) block) \<noteq> BLOCK_MAGIC then s
           else
             let m = put_free block 1 (mm_mem s);
                 m = merge_with_next block m;
                 prev = hb_prev (read_block m block);
                 m = (if prev \<noteq> 0 \<and> hb_free (read_block m prev) \<noteq> 0
                      then merge_with_next prev m else m)
             in s\<lparr>mm_mem := m\<rparr>)"

definition kcalloc :: "link_map \<Rightarrow> u32 \<Rightarrow> u32 \<Rightarrow> mm \<Rightarrow> (u32 \<times> mm) option" where
  "kcalloc L count sz s =
     (if count \<noteq> 0 \<and> sz > 0xFFFFFFFF div count then Some (0, s)
      else
        let total = count * sz
        in case kmalloc L total s of
             None \<Rightarrow> None
           | Some (ptr, s) \<Rightarrow>
               if ptr = 0 then Some (0, s)
               else Some (ptr, s\<lparr>mm_mem := memset ptr 0 total (mm_mem s)\<rparr>))"

definition krealloc :: "link_map \<Rightarrow> u32 \<Rightarrow> u32 \<Rightarrow> mm \<Rightarrow> (u32 \<times> mm) option" where
  "krealloc L ptr sz s =
     (if ptr = 0 then kmalloc L sz s
      else if sz = 0 then Some (0, kfree ptr s)
      else
        let block = payload_block ptr
        in if hb_magic (read_block (mm_mem s) block) \<noteq> BLOCK_MAGIC then Some (0, s)
           else
             let old_size = hb_size (read_block (mm_mem s) block)
                   - align_up sizeof_heap_block HEAP_ALIGN
             in if sz \<le> old_size then Some (ptr, s)
                else case kmalloc L sz s of
                       None \<Rightarrow> None
                     | Some (new_ptr, s) \<Rightarrow>
                         if new_ptr = 0 then Some (0, s)
                         else
                           let s = s\<lparr>mm_mem := memcpy new_ptr ptr old_size (mm_mem s)\<rparr>
                           in Some (new_ptr, kfree ptr s))"

section \<open>Header accesses\<close>

text \<open>
  A store to one field of a header changes that field and leaves every header at a
  distance of at least 20 bytes alone.
\<close>

definition hdr_sep :: "u32 \<Rightarrow> u32 \<Rightarrow> bool" where
  "hdr_sep a b \<longleftrightarrow> 20 \<le> unat (a - b) \<and> 20 \<le> unat (b - a)"

lemma hdr_sep_sym: "hdr_sep a b \<longleftrightarrow> hdr_sep b a"
  by (auto simp: hdr_sep_def)

lemma hdr_sep_of_nat:
  "a + 20 \<le> 2 ^ 32 \<Longrightarrow> b + 20 \<le> 2 ^ 32 \<Longrightarrow> a + 20 \<le> b \<or> b + 20 \<le> a \<Longrightarrow>
   hdr_sep (of_nat a) (of_nat b)"
  by (auto simp: hdr_sep_def unat_diff_u32 unat_of_nat_u32)

lemma put_other:
  assumes "20 \<le> unat (x - b)"
  shows "put_magic b v m x = m x" "put_size b v m x = m x" "put_free b c m x = m x"
    "put_next b v m x = m x" "put_prev b v m x = m x"
proof -
  have "unat (x - (b + k)) = unat (x - b) - unat k" if "unat k \<le> 16" for k
    using assms that unat_diff_u32 [of "x - b" k] by (simp add: diff_diff_eq)
  then show "put_magic b v m x = m x" "put_size b v m x = m x" "put_free b c m x = m x"
    "put_next b v m x = m x" "put_prev b v m x = m x"
    using assms
    by (auto simp: put_magic_def put_size_def put_free_def put_next_def put_prev_def store32_other)
qed

lemma read_block_cong:
  assumes "\<And>i. i < 20 \<Longrightarrow> m' (a + of_nat i) = m (a + of_nat i)"
  shows "read_block m' a = read_block m a"
proof -
  have "load32 m' (a + of_nat k) = load32 m (a + of_nat k)" if "k \<le> 16" for k
  proof (rule load32_cong)
    fix i :: nat assume "i < 4"
    with that assms [of "k + i"] show "m' (a + of_nat k + of_nat i) = m (a + of_nat k + of_nat i)"
      by (simp add: add.assoc)
  qed
  from this [of 0] this [of 4] this [of 12] this [of 16] assms [of 8] show ?thesis
    by (simp add: read_block_def)
qed

lemma hdr_sep_byte:
  assumes "hdr_sep a b" and "i < 20"
  shows "20 \<le> unat (a + of_nat i - b)"
  using assms unat_dist_add [of 20 a b i] by (auto simp: hdr_sep_def)

lemma read_block_put_other [simp]:
  assumes "hdr_sep a b"
  shows "read_block (put_magic b v m) a = read_block m a"
    "read_block (put_size b v m) a = read_block m a"
    "read_block (put_free b c m) a = read_block m a"
    "read_block (put_next b v m) a = read_block m a"
    "read_block (put_prev b v m) a = read_block m a"
  by (rule read_block_cong, simp add: put_other hdr_sep_byte [OF assms])+

lemma read_block_put_same [simp]:
  "read_block (put_magic b v m) b = (read_block m b)\<lparr>hb_magic := v\<rparr>"
  "read_block (put_size b v m) b = (read_block m b)\<lparr>hb_size := v\<rparr>"
  "read_block (put_free b c m) b = (read_block m b)\<lparr>hb_free := c\<rparr>"
  "read_block (put_next b v m) b = (read_block m b)\<lparr>hb_next := v\<rparr>"
  "read_block (put_prev b v m) b = (read_block m b)\<lparr>hb_prev := v\<rparr>"
proof -
  have free: "load32 (m(b + 8 := c)) (b + k) = load32 m (b + k)" if "k \<in> {0, 4, 12, 16}" for k
    using that by (auto simp: load32_def add.assoc)
  show "read_block (put_free b c m) b = (read_block m b)\<lparr>hb_free := c\<rparr>"
    using free [of 0] free [of 4] free [of 12] free [of 16]
    by (simp add: read_block_def put_free_def)
qed (simp_all add: read_block_def put_magic_def put_size_def put_next_def put_prev_def
       load32_store32_dist store32_other)

text \<open>Both header sizes of the source round up to 32 bytes.\<close>

lemma header_size [simp]: "align_up 20 16 = (32 :: u32)"
  by (simp add: align_up_def not_mask_4)

section \<open>The block list in memory\<close>

type_synonym blocks = "(nat \<times> bool) list"

abbreviation total :: "blocks \<Rightarrow> nat" where
  "total bs \<equiv> sum_list (map fst bs)"

abbreviation sizes_ge :: "nat \<Rightarrow> blocks \<Rightarrow> bool" where
  "sizes_ge k bs \<equiv> list_all (\<lambda>b. k \<le> fst b) bs"

definition mk_hdr :: "nat \<Rightarrow> nat \<Rightarrow> bool \<Rightarrow> nat \<Rightarrow> heap_block_t" where
  "mk_hdr p sz fr nx = \<lparr>hb_magic = BLOCK_MAGIC, hb_size = of_nat sz,
     hb_free = (if fr then 1 else 0), hb_next = of_nat nx, hb_prev = of_nat p\<rparr>"

lemma mk_hdr_sel [simp]:
  "hb_magic (mk_hdr p sz fr nx) = BLOCK_MAGIC" "hb_size (mk_hdr p sz fr nx) = of_nat sz"
  "hb_free (mk_hdr p sz fr nx) = (if fr then 1 else 0)" "hb_next (mk_hdr p sz fr nx) = of_nat nx"
  "hb_prev (mk_hdr p sz fr nx) = of_nat p"
  by (simp_all add: mk_hdr_def)

text \<open>
  \<open>chain m p a bs e\<close>: from address \<open>a\<close> on, the memory holds the headers of the blocks
  \<open>bs\<close>, laid out back to back; the first one points back to \<open>p\<close> and the last one
  forward to \<open>e\<close>.
\<close>

fun chain :: "mem \<Rightarrow> nat \<Rightarrow> nat \<Rightarrow> blocks \<Rightarrow> nat \<Rightarrow> bool" where
  "chain m p a [] e = True"
| "chain m p a ((sz, fr) # bs) e =
     (read_block m (of_nat a) = mk_hdr p sz fr (if bs = [] then e else a + sz)
      \<and> chain m a (a + sz) bs e)"

fun last_addr :: "nat \<Rightarrow> nat \<Rightarrow> blocks \<Rightarrow> nat" where
  "last_addr p a [] = p"
| "last_addr p a ((sz, fr) # bs) = last_addr a (a + sz) bs"

lemma chain_append:
  "chain m p a (xs @ ys) e \<longleftrightarrow>
     chain m p a xs (if ys = [] then e else a + total xs)
     \<and> chain m (last_addr p a xs) (a + total xs) ys e"
  by (induction xs arbitrary: p a) (auto simp: add.assoc)

lemma last_addr_snoc: "last_addr p a (xs @ [(sz, fr)]) = a + total xs"
  by (induction xs arbitrary: p a) (auto simp: add.assoc)

text \<open>Two memories agree on an interval of addresses.\<close>

definition agree :: "mem \<Rightarrow> mem \<Rightarrow> nat \<Rightarrow> nat \<Rightarrow> bool" where
  "agree m m' lo hi \<longleftrightarrow> (\<forall>x. lo \<le> x \<and> x < hi \<longrightarrow> m' (of_nat x) = m (of_nat x))"

lemma agree_sub: "agree m m' lo hi \<Longrightarrow> lo \<le> lo' \<Longrightarrow> hi' \<le> hi \<Longrightarrow> agree m m' lo' hi'"
  by (auto simp: agree_def)

lemma agree_refl [simp]: "agree m m lo hi"
  by (simp add: agree_def)

lemma agree_trans: "agree m m' lo hi \<Longrightarrow> agree m' m'' lo hi \<Longrightarrow> agree m m'' lo hi"
  by (simp add: agree_def)

lemma read_block_agree:
  assumes "agree m m' a (a + 20)"
  shows "read_block m' (of_nat a) = read_block m (of_nat a)"
proof (rule read_block_cong)
  fix i :: nat assume "i < 20"
  then show "m' (of_nat a + of_nat i) = m (of_nat a + of_nat i)"
    using assms unfolding agree_def by (metis add_less_cancel_left le_add1 of_nat_add)
qed

lemma chain_agree:
  "chain m p a bs e \<Longrightarrow> sizes_ge 20 bs \<Longrightarrow> agree m m' a (a + total bs) \<Longrightarrow> chain m' p a bs e"
proof (induction bs arbitrary: p a)
  case (Cons b bs)
  obtain sz fr where b: "b = (sz, fr)" by (cases b)
  have "read_block m' (of_nat a) = read_block m (of_nat a)"
    using Cons.prems b by (intro read_block_agree) (auto elim: agree_sub)
  moreover have "chain m' a (a + sz) bs e"
    using Cons.prems b by (intro Cons.IH) (auto elim: agree_sub)
  ultimately show ?case using Cons.prems b by simp
qed simp

lemma put_agree:
  assumes "b + 20 \<le> 2 ^ 32" and "hi \<le> 2 ^ 32" and "hi \<le> b \<or> b + 20 \<le> lo"
  shows "agree m (put_magic (of_nat b) v m) lo hi" "agree m (put_size (of_nat b) v m) lo hi"
    "agree m (put_free (of_nat b) c m) lo hi" "agree m (put_next (of_nat b) v m) lo hi"
    "agree m (put_prev (of_nat b) v m) lo hi"
proof -
  have "20 \<le> unat (of_nat x - of_nat b :: u32)" if "lo \<le> x" "x < hi" for x
    using that assms by (intro nat_dist_u32) auto
  then show "agree m (put_magic (of_nat b) v m) lo hi" "agree m (put_size (of_nat b) v m) lo hi"
    "agree m (put_free (of_nat b) c m) lo hi" "agree m (put_next (of_nat b) v m) lo hi"
    "agree m (put_prev (of_nat b) v m) lo hi"
    by (simp_all add: agree_def put_other)
qed

lemma put_agreeI:
  assumes "agree m0 m lo hi" and "b + 20 \<le> 2 ^ 32" and "hi \<le> 2 ^ 32" and "hi \<le> b \<or> b + 20 \<le> lo"
  shows "agree m0 (put_magic (of_nat b) v m) lo hi" "agree m0 (put_size (of_nat b) v m) lo hi"
    "agree m0 (put_free (of_nat b) c m) lo hi" "agree m0 (put_next (of_nat b) v m) lo hi"
    "agree m0 (put_prev (of_nat b) v m) lo hi"
  using assms by (blast intro: agree_trans put_agree)+

section \<open>Taking a block\<close>

text \<open>What \<open>kmalloc\<close> does to the block it chooses, as a list.\<close>

definition carve :: "nat \<Rightarrow> nat \<Rightarrow> blocks" where
  "carve n sz = (if n + 80 < sz then [(n + 32, False), (sz - (n + 32), True)] else [(sz, False)])"

lemma total_carve [simp]: "n + 32 \<le> sz \<Longrightarrow> total (carve n sz) = sz"
  by (simp add: carve_def)

lemma chain_ConsI:
  assumes "chain m a (a + sz) bs e" and "sizes_ge 20 bs"
    and "read_block m' (of_nat a) = mk_hdr p sz fr (if bs = [] then e else a + sz)"
    and "agree m m' (a + sz) (a + sz + total bs)"
  shows "chain m' p a ((sz, fr) # bs) e"
  using assms by (auto intro: chain_agree)

lemma sizes_ge_mono: "sizes_ge k bs \<Longrightarrow> j \<le> k \<Longrightarrow> sizes_ge j bs"
  by (auto simp: list_all_iff)

lemma aligned_of_nat: "16 dvd n \<Longrightarrow> n + 16 \<le> 2 ^ 32 \<Longrightarrow> align_up (of_nat n) 16 = of_nat n"
  using align_up_of_nat [of n 4] by (simp add: align_up_eq round_up_self)

text \<open>Which branch \<open>split_block\<close> takes, and the memory it leaves.\<close>

lemma split_block_eq:
  assumes hdr: "read_block m (of_nat b) = mk_hdr p sz fr nx"
    and n: "16 dvd n" "n + 32 \<le> sz" "sz \<le> 524288" and bnd: "b + sz \<le> 2 ^ 32"
    and nx: "nx = 0 \<or> nx = b + sz \<and> b + sz + 20 \<le> 2 ^ 32"
  shows "split_block (of_nat b) (of_nat n) m =
    (if sz \<le> n + 80 then m
     else let nb = of_nat (b + (n + 32));
            m5 = put_prev nb (of_nat b) (put_next nb (of_nat nx) (put_free nb 1
                   (put_size nb (of_nat (sz - (n + 32))) (put_magic nb BLOCK_MAGIC m))));
            m6 = (if nx \<noteq> 0 then put_prev (of_nat nx) nb m5 else m5)
       in put_size (of_nat b) (of_nat (n + 32)) (put_next (of_nat b) nb m6))"
proof -
  have al: "align_up (of_nat n) 16 = (of_nat n :: u32)" using n bnd by (intro aligned_of_nat) auto
  have tn: "(32 + of_nat n :: u32) = of_nat (n + 32)" by simp
  have "(of_nat sz :: u32) \<le> of_nat (n + 80) \<longleftrightarrow> sz \<le> n + 80"
    using n by (intro of_nat_u32_le_iff) auto
  moreover have "(of_nat (n + 32) + 32 + 16 :: u32) = of_nat (n + 80)" by simp
  ultimately have le: "(of_nat sz :: u32) \<le> of_nat (n + 32) + 32 + 16 \<longleftrightarrow> sz \<le> n + 80"
    by (simp only:)
  show ?thesis
  proof (cases "sz \<le> n + 80")
    case True
    then show ?thesis
      unfolding split_block_def Let_def al header_size sizeof_heap_block_def HEAP_ALIGN_def tn
        hdr mk_hdr_sel le by (simp only: if_True)
  next
    case False
    let ?nb = "of_nat (b + (n + 32)) :: u32"
    have sep: "hdr_sep (of_nat b) ?nb" "hdr_sep ?nb (of_nat b)"
      using False bnd n by (intro hdr_sep_of_nat; auto)+
    have nx0: "(of_nat nx :: u32) = 0 \<longleftrightarrow> nx = 0"
      using nx by (intro of_nat_u32_eq_0_iff) auto
    have nb: "of_nat b + of_nat (n + 32) = ?nb" by simp
    have sub: "(of_nat sz - of_nat (n + 32) :: u32) = of_nat (sz - (n + 32))"
      using n by (simp only: of_nat_diff)
    from False sep show ?thesis
      unfolding split_block_def Let_def al header_size sizeof_heap_block_def HEAP_ALIGN_def tn nb
        hdr mk_hdr_sel le
      by (simp add: hdr sub nx0 del: of_nat_add of_nat_diff)
  qed
qed

text \<open>
  Taking a block: the memory \<open>kmalloc\<close> leaves holds the carved block list, and nothing
  outside the taken block and the back pointer of its successor has changed.
\<close>

lemma take_block:
  assumes ch: "chain m p b ((sz, True) # ys) 0" and ge: "sizes_ge 48 ((sz, True) # ys)"
    and n: "16 dvd n" "n + 32 \<le> sz" and bnd: "b + total ((sz, True) # ys) \<le> 2 ^ 32" "sz \<le> 524288"
  defines "m' \<equiv> put_free (of_nat b) 0 (split_block (of_nat b) (of_nat n) m)"
  shows "chain m' p b (carve n sz @ ys) 0"
    and "hi \<le> b \<Longrightarrow> agree m m' lo hi"
    and "b + sz + 20 \<le> lo \<or> ys = [] \<and> b + sz \<le> lo \<Longrightarrow> hi \<le> 2 ^ 32 \<Longrightarrow> agree m m' lo hi"
proof -
  let ?nx = "if ys = [] then 0 else b + sz"
  have hdr: "read_block m (of_nat b) = mk_hdr p sz True ?nx" and rest: "chain m b (b + sz) ys 0"
    using ch by auto
  have ge': "48 \<le> sz" "sizes_ge 48 ys" "sizes_ge 20 ys" using ge by (auto elim: sizes_ge_mono)
  have tys: "ys \<noteq> [] \<Longrightarrow> 48 \<le> total ys" using ge'(2) by (cases ys) auto
  have sb: "split_block (of_nat b) (of_nat n) m =
    (if sz \<le> n + 80 then m
     else let nb = of_nat (b + (n + 32));
            m5 = put_prev nb (of_nat b) (put_next nb (of_nat ?nx) (put_free nb 1
                   (put_size nb (of_nat (sz - (n + 32))) (put_magic nb BLOCK_MAGIC m))));
            m6 = (if ?nx \<noteq> 0 then put_prev (of_nat ?nx) nb m5 else m5)
       in put_size (of_nat b) (of_nat (n + 32)) (put_next (of_nat b) nb m6))"
    using n bnd ge' tys by (intro split_block_eq [OF hdr]) auto
  have low: "agree m m' lo hi" if "hi \<le> b" for lo hi
    using that bnd ge' n tys unfolding m'_def sb Let_def
    by (auto intro!: put_agreeI simp del: of_nat_add split: if_splits)
  have high: "agree m m' lo hi"
    if "b + sz + 20 \<le> lo \<or> ys = [] \<and> b + sz \<le> lo" "hi \<le> 2 ^ 32" for lo hi
    using that bnd ge' n tys unfolding m'_def sb Let_def
    by (auto intro!: put_agreeI simp del: of_nat_add split: if_splits)
  from low show "hi \<le> b \<Longrightarrow> agree m m' lo hi" .
  from high show "b + sz + 20 \<le> lo \<or> ys = [] \<and> b + sz \<le> lo \<Longrightarrow> hi \<le> 2 ^ 32 \<Longrightarrow> agree m m' lo hi" .
  show "chain m' p b (carve n sz @ ys) 0"
  proof (cases "sz \<le> n + 80")
    case True
    then have m': "m' = put_free (of_nat b) 0 m" by (simp add: m'_def sb)
    have "chain m' p b ((sz, False) # ys) 0"
      using hdr ge' bnd tys unfolding m'
      by (intro chain_ConsI [OF rest]) (auto simp: mk_hdr_def intro!: put_agree)
    with True show ?thesis by (simp add: carve_def)
  next
    case False
    let ?t = "n + 32" and ?nb = "of_nat (b + (n + 32)) :: u32"
    have sep: "hdr_sep (of_nat b) ?nb" "hdr_sep ?nb (of_nat b)"
      using False bnd n by (intro hdr_sep_of_nat; auto)+
    have sepx: "hdr_sep (of_nat (b + sz)) ?nb" "hdr_sep ?nb (of_nat (b + sz))"
      "hdr_sep (of_nat (b + sz)) (of_nat b)" "hdr_sep (of_nat b) (of_nat (b + sz))" if "ys \<noteq> []"
      using False bnd n tys [OF that] ge' by (intro hdr_sep_of_nat; auto)+
    have "read_block m' (of_nat b) = mk_hdr p ?t False (b + ?t)"
      using False sep sepx hdr ge' unfolding m'_def sb Let_def
      by (cases "ys = []") (simp_all add: mk_hdr_def del: of_nat_add)
    moreover have "read_block m' ?nb = mk_hdr b (sz - ?t) True ?nx"
      using False sep sepx hdr ge' unfolding m'_def sb Let_def
      by (cases "ys = []") (simp_all add: mk_hdr_def del: of_nat_add of_nat_diff)
    moreover have "chain m' (b + ?t) (b + sz) ys 0"
    proof (cases ys)
      case (Cons y zs)
      obtain sz2 f2 where y: "y = (sz2, f2)" by (cases y)
      have "read_block m' (of_nat (b + sz)) = (read_block m (of_nat (b + sz)))\<lparr>hb_prev := ?nb\<rparr>"
        using False sep sepx hdr ge' Cons unfolding m'_def sb Let_def
        by (simp del: of_nat_add)
      with rest Cons y have "read_block m' (of_nat (b + sz)) =
          mk_hdr (b + ?t) sz2 f2 (if zs = [] then 0 else b + sz + sz2)"
        by (simp add: mk_hdr_def)
      moreover have "agree m m' (b + sz + sz2) (b + sz + sz2 + total zs)"
        using bnd ge' Cons y by (intro high) auto
      ultimately show ?thesis
        using rest ge' Cons y by (auto intro: chain_agree)
    qed simp
    ultimately show ?thesis
      using False n by (simp add: carve_def add.assoc)
  qed
qed

section \<open>Merging and freeing\<close>

fun join :: "blocks \<Rightarrow> blocks" where
  "join ((s1, f1) # (s2, True) # bs) = (s1 + s2, f1) # bs"
| "join bs = bs"

lemma total_join [simp]: "total (join bs) = total bs"
  by (induction bs rule: join.induct) auto

lemma join_eq_Nil [simp]: "join bs = [] \<longleftrightarrow> bs = []"
  by (induction bs rule: join.induct) auto

lemma sizes_ge_join: "sizes_ge k bs \<Longrightarrow> sizes_ge k (join bs)"
  by (induction bs rule: join.induct) auto

lemma merge_noop:
  assumes "chain m p b ((sz, fr) # ys) 0" and "ys = [] \<or> \<not> snd (hd ys)"
  shows "merge_with_next (of_nat b) m = m"
proof (cases ys)
  case Nil
  with assms show ?thesis by (simp add: merge_with_next_def)
next
  case (Cons y zs)
  with assms(2) have "y = (fst y, False)" by (cases y) auto
  then obtain sz2 where "y = (sz2, False)" ..
  with assms(1) Cons show ?thesis by (simp add: merge_with_next_def)
qed

lemma merge_eq:
  assumes ch: "chain m p b ((sz, fr) # (sz2, True) # zs) 0"
    and ge: "sizes_ge 48 ((sz, fr) # (sz2, True) # zs)"
    and b: "0 < b" and bnd: "b + total ((sz, fr) # (sz2, True) # zs) \<le> 2 ^ 32"
  shows "merge_with_next (of_nat b) m =
    (let m1 = put_next (of_nat b) (of_nat (if zs = [] then 0 else b + (sz + sz2)))
               (put_size (of_nat b) (of_nat (sz + sz2)) m)
     in if zs = [] then m1 else put_prev (of_nat (b + (sz + sz2))) (of_nat b) m1)"
proof -
  have tz: "zs \<noteq> [] \<Longrightarrow> 48 \<le> total zs" using ge by (cases zs) auto
  have hdr: "read_block m (of_nat b) = mk_hdr p sz fr (b + sz)"
    "read_block m (of_nat (b + sz)) = mk_hdr b sz2 True (if zs = [] then 0 else b + (sz + sz2))"
    using ch by (auto simp: add.assoc)
  have ne: "(of_nat b :: u32) \<noteq> 0" "(of_nat (b + sz) :: u32) \<noteq> 0"
    using b bnd ge by (subst of_nat_u32_eq_0_iff; auto)+
  have nz: "zs \<noteq> [] \<Longrightarrow> (of_nat (b + (sz + sz2)) :: u32) \<noteq> 0"
    using b bnd ge tz by (subst of_nat_u32_eq_0_iff) auto
  have sep: "hdr_sep (of_nat b) (of_nat (b + sz))" "hdr_sep (of_nat (b + sz)) (of_nat b)"
    using ge bnd by (intro hdr_sep_of_nat; auto)+
  have sum: "(of_nat b + of_nat sz :: u32) = of_nat (b + sz)"
    "(of_nat sz + of_nat sz2 :: u32) = of_nat (sz + sz2)" by simp_all
  show ?thesis
    using ne nz sep unfolding merge_with_next_def Let_def
    by (cases "zs = []") (simp_all add: hdr sum del: of_nat_add)
qed

text \<open>The bytes that belong to callers: the payloads of the allocated blocks.\<close>

fun owned :: "nat \<Rightarrow> blocks \<Rightarrow> nat set" where
  "owned a [] = {}"
| "owned a ((sz, fr) # bs) = (if fr then {} else {a + 32..<a + sz}) \<union> owned (a + sz) bs"

lemma owned_append: "owned a (xs @ ys) = owned a xs \<union> owned (a + total xs) ys"
  by (induction xs arbitrary: a) (auto simp: add.assoc)

lemma owned_bounds: "x \<in> owned a bs \<Longrightarrow> a + 32 \<le> x \<and> x < a + total bs"
  by (induction bs arbitrary: a) (fastforce split: if_splits)+

lemma owned_join [simp]: "owned a (join ((sz, True) # ys)) = owned (a + sz) ys"
proof (cases ys)
  case (Cons y zs)
  then show ?thesis by (cases y; cases "snd y") (auto simp: add.assoc)
qed simp

definition keeps :: "mem \<Rightarrow> mem \<Rightarrow> nat set \<Rightarrow> bool" where
  "keeps m m' X \<longleftrightarrow> (\<forall>x\<in>X. m' (of_nat x) = m (of_nat x))"

lemma agree_keeps: "agree m m' lo hi \<Longrightarrow> X \<subseteq> {lo..<hi} \<Longrightarrow> keeps m m' X"
  by (auto simp: agree_def keeps_def)

lemma keeps_Un [simp]: "keeps m m' (X \<union> Y) \<longleftrightarrow> keeps m m' X \<and> keeps m m' Y"
  by (auto simp: keeps_def)

lemma keeps_empty [simp]: "keeps m m' {}"
  by (simp add: keeps_def)

lemma keeps_trans: "keeps m m' X \<Longrightarrow> keeps m' m'' X \<Longrightarrow> keeps m m'' X"
  by (simp add: keeps_def)

lemma keeps_sub: "keeps m m' X \<Longrightarrow> Y \<subseteq> X \<Longrightarrow> keeps m m' Y"
  by (auto simp: keeps_def)

lemma keeps_refl [simp]: "keeps m m X"
  by (simp add: keeps_def)

lemma merge_frame:
  assumes "chain m p b ((sz, fr) # (sz2, True) # zs) 0"
    and "sizes_ge 48 ((sz, fr) # (sz2, True) # zs)"
    and "0 < b" and "b + total ((sz, fr) # (sz2, True) # zs) \<le> 2 ^ 32"
    and "hi \<le> b \<or> b + 20 \<le> lo \<and> hi \<le> b + (sz + sz2) \<or> b + (sz + sz2) + 20 \<le> lo \<and> hi \<le> 2 ^ 32
      \<or> zs = [] \<and> b + (sz + sz2) \<le> lo \<and> hi \<le> 2 ^ 32"
  shows "agree m (merge_with_next (of_nat b) m) lo hi"
proof -
  have "zs \<noteq> [] \<Longrightarrow> 48 \<le> total zs" using assms(2) by (cases zs) auto
  then show ?thesis
    using assms(2-) unfolding merge_eq [OF assms(1-4)] Let_def
    by (auto intro!: put_agreeI simp del: of_nat_add)
qed

lemma merge_chain:
  assumes ch: "chain m p b ((sz, fr) # (sz2, True) # zs) 0"
    and ge: "sizes_ge 48 ((sz, fr) # (sz2, True) # zs)"
    and b: "0 < b" and bnd: "b + total ((sz, fr) # (sz2, True) # zs) \<le> 2 ^ 32"
  shows "chain (merge_with_next (of_nat b) m) p b ((sz + sz2, fr) # zs) 0"
proof -
  let ?m' = "merge_with_next (of_nat b) m" and ?c = "b + (sz + sz2)"
  note eq = merge_eq [OF ch ge b bnd]
  have rest: "chain m (b + sz) ?c zs 0" and hdr: "read_block m (of_nat b) = mk_hdr p sz fr (b + sz)"
    using ch by (auto simp: add.assoc)
  have tz: "zs \<noteq> [] \<Longrightarrow> 48 \<le> total zs" using ge by (cases zs) auto
  have sep: "hdr_sep (of_nat b) (of_nat ?c)" "hdr_sep (of_nat ?c) (of_nat b)" if "zs \<noteq> []"
    using tz [OF that] ge bnd by (intro hdr_sep_of_nat; auto)+
  have "read_block ?m' (of_nat b) = mk_hdr p (sz + sz2) fr (if zs = [] then 0 else ?c)"
    using sep hdr unfolding eq Let_def by (cases "zs = []") (simp_all add: mk_hdr_def del: of_nat_add)
  moreover have "chain ?m' b ?c zs 0"
  proof (cases zs)
    case (Cons z ws)
    obtain sz3 f3 where z: "z = (sz3, f3)" by (cases z)
    have "read_block ?m' (of_nat ?c) = (read_block m (of_nat ?c))\<lparr>hb_prev := of_nat b\<rparr>"
      using sep Cons unfolding eq Let_def by (simp del: of_nat_add)
    with rest Cons z have "read_block ?m' (of_nat ?c) =
        mk_hdr b sz3 f3 (if ws = [] then 0 else ?c + sz3)" by (simp add: mk_hdr_def)
    moreover have "chain ?m' ?c (?c + sz3) ws 0"
    proof (rule chain_agree)
      show "chain m ?c (?c + sz3) ws 0" using rest Cons z by simp
      show "sizes_ge 20 ws" using ge Cons z sizes_ge_mono [of 48 ws 20] by simp
      show "agree m ?m' (?c + sz3) (?c + sz3 + total ws)"
        using ge bnd Cons z by (intro merge_frame [OF ch ge b bnd]) auto
    qed
    ultimately show ?thesis using Cons z by simp
  qed simp
  ultimately show ?thesis by (simp add: add.assoc)
qed

lemma merge_block:
  assumes ch: "chain m p b ((sz, fr) # ys) 0" and ge: "sizes_ge 48 ((sz, fr) # ys)"
    and b: "0 < b" and bnd: "b + total ((sz, fr) # ys) \<le> 2 ^ 32"
  defines "m' \<equiv> merge_with_next (of_nat b) m"
  shows "chain m' p b (join ((sz, fr) # ys)) 0
    \<and> (\<forall>lo hi. hi \<le> b \<or> b + total ((sz, fr) # ys) \<le> lo \<and> hi \<le> 2 ^ 32 \<longrightarrow> agree m m' lo hi)
    \<and> keeps m m' (owned b ((sz, fr) # ys))"
proof (cases "ys = [] \<or> \<not> snd (hd ys)")
  case True
  then have "join ((sz, fr) # ys) = (sz, fr) # ys"
    by (cases ys) (auto simp: neq_Nil_conv)
  with ch merge_noop [OF ch True] show ?thesis by (simp add: m'_def)
next
  case False
  then obtain sz2 zs where ys: "ys = (sz2, True) # zs" by (cases ys) auto
  have tz: "zs \<noteq> [] \<Longrightarrow> 48 \<le> total zs" using ge ys by (cases zs) auto
  note frame = merge_frame [OF ch [unfolded ys] ge [unfolded ys] b bnd [unfolded ys], folded m'_def]
  have "agree m m' lo hi"
    if "hi \<le> b \<or> b + total ((sz, fr) # ys) \<le> lo \<and> hi \<le> 2 ^ 32" for lo hi
    using that frame [of hi lo] ys ge tz by (cases zs) auto
  moreover have "keeps m m' {b + 32..<b + sz}"
    by (rule agree_keeps [OF frame [of "b + sz" "b + 32"]]) auto
  moreover have "keeps m m' (owned (b + (sz + sz2)) zs)"
    using owned_bounds [of _ "b + (sz + sz2)" zs] bnd ys
    by (intro agree_keeps [OF frame [of "2 ^ 32" "b + (sz + sz2) + 20"]]) fastforce+
  moreover have "chain m' p b (join ((sz, fr) # ys)) 0"
    using merge_chain [OF ch [unfolded ys] ge [unfolded ys] b bnd [unfolded ys]] ys
    by (simp add: m'_def)
  ultimately show ?thesis using ys by (simp add: add.assoc)
qed

end
