(* ===== verification/Heap_Spec.thy ===== *)
theory Heap_Spec
  imports Heap
begin

text \<open>
  The heap as a list: what \<open>kmalloc\<close> and \<open>kfree\<close> do to the list of blocks, without memory.

  \<open>first_fit\<close> is allocation: the first free block with room for the request and its
  header is taken, and cut in two when what is left can hold a header and more than 16
  bytes. \<open>free_blocks\<close> is release: the block becomes free and is joined with a free right
  neighbour and a free left neighbour. The invariant \<open>heap_wf\<close> says that the blocks tile
  the heap, that sizes are multiples of 16, and that no two neighbours are both free.
\<close>

section \<open>Allocation and release on block lists\<close>

fun first_fit :: "nat \<Rightarrow> blocks \<Rightarrow> (nat \<times> blocks) option" where
  "first_fit n [] = None"
| "first_fit n ((sz, fr) # bs) =
     (if fr \<and> n + 32 \<le> sz then Some (0, carve n sz @ bs)
      else map_option (\<lambda>(off, bs'). (sz + off, (sz, fr) # bs')) (first_fit n bs))"

definition free_blocks :: "blocks \<Rightarrow> nat \<Rightarrow> blocks \<Rightarrow> blocks" where
  "free_blocks xs sz ys =
     (let r = join ((sz, True) # ys)
      in if xs \<noteq> [] \<and> snd (last xs) then butlast xs @ join (last xs # r) else xs @ r)"

fun coalesced :: "blocks \<Rightarrow> bool" where
  "coalesced ((s1, f1) # (s2, f2) # bs) = (\<not> (f1 \<and> f2) \<and> coalesced ((s2, f2) # bs))"
| "coalesced bs = True"

definition heap_wf :: "blocks \<Rightarrow> bool" where
  "heap_wf bs \<longleftrightarrow> total bs = 524288 \<and> sizes_ge 48 bs \<and> list_all (\<lambda>b. 16 dvd fst b) bs \<and> coalesced bs"

lemma first_fit_SomeE:
  assumes "first_fit n bs = Some (off, bs')"
  obtains xs sz ys where "bs = xs @ (sz, True) # ys" "off = total xs" "n + 32 \<le> sz"
    "bs' = xs @ carve n sz @ ys" "\<forall>(s, f) \<in> set xs. f \<longrightarrow> s < n + 32"
proof -
  from assms have "\<exists>xs sz ys. bs = xs @ (sz, True) # ys \<and> off = total xs \<and> n + 32 \<le> sz
    \<and> bs' = xs @ carve n sz @ ys \<and> (\<forall>(s, f) \<in> set xs. f \<longrightarrow> s < n + 32)"
  proof (induction n bs arbitrary: off bs' rule: first_fit.induct)
    case (2 n sz fr bs)
    show ?case
    proof (cases "fr \<and> n + 32 \<le> sz")
      case True
      with 2 show ?thesis by (intro exI [of _ "[]"]) auto
    next
      case False
      with "2.prems" obtain off1 bs1 where 1: "first_fit n bs = Some (off1, bs1)"
        "off = sz + off1" "bs' = (sz, fr) # bs1" by auto
      from "2.IH" [OF False 1(1)] obtain xs sz1 ys where "bs = xs @ (sz1, True) # ys" "off1 = total xs"
        "n + 32 \<le> sz1" "bs1 = xs @ carve n sz1 @ ys" "\<forall>(s, f) \<in> set xs. f \<longrightarrow> s < n + 32" by blast
      with 1 False show ?thesis by (intro exI [of _ "(sz, fr) # xs"]) auto
    qed
  qed simp
  then show thesis using that by blast
qed

lemma first_fit_None_iff: "first_fit n bs = None \<longleftrightarrow> (\<forall>(s, f) \<in> set bs. f \<longrightarrow> s < n + 32)"
  by (induction n bs rule: first_fit.induct) auto

section \<open>Coalescing\<close>

lemma coalesced_append:
  "coalesced (xs @ ys) \<longleftrightarrow>
     coalesced xs \<and> coalesced ys \<and> (xs \<noteq> [] \<and> ys \<noteq> [] \<longrightarrow> \<not> (snd (last xs) \<and> snd (hd ys)))"
proof (induction xs rule: coalesced.induct, goal_cases)
  case (3 v)
  then show ?case by (cases v; cases ys) auto
qed auto

lemma coalesced_Cons:
  "coalesced (b # bs) \<longleftrightarrow> coalesced bs \<and> (bs \<noteq> [] \<longrightarrow> \<not> (snd b \<and> snd (hd bs)))"
  using coalesced_append [of "[b]" bs] by (cases b) auto

lemma coalesced_carve:
  assumes "coalesced (xs @ (sz, True) # ys)"
  shows "coalesced (xs @ carve n sz @ ys)"
  using assms by (auto simp: coalesced_append coalesced_Cons carve_def)

lemma join_free_head:
  assumes "coalesced ys"
  obtains s zs where "join ((sz, True) # ys) = (s, True) # zs" "coalesced zs"
    "zs \<noteq> [] \<Longrightarrow> \<not> snd (hd zs)" "sz \<le> s" "sz + total ys = s + total zs" "set zs \<subseteq> set ys"
proof (cases ys)
  case Nil
  show thesis by (rule that [of sz "[]"]) (use Nil in auto)
next
  case (Cons y zs)
  obtain s2 f2 where y: "y = (s2, f2)" by (cases y)
  show thesis
  proof (cases f2)
    case True
    show thesis
      by (rule that [of "sz + s2" zs]) (use Cons y True assms in \<open>auto simp: coalesced_Cons\<close>)
  next
    case False
    show thesis
      by (rule that [of sz ys]) (use Cons y False assms in \<open>auto simp: coalesced_Cons\<close>)
  qed
qed

text \<open>The two shapes of a release, by the left neighbour.\<close>

lemma free_blocks_cases:
  assumes "coalesced ys"
  obtains (left) ws s0 s zs where "xs = ws @ [(s0, True)]" "join ((sz, True) # ys) = (s, True) # zs"
      "free_blocks xs sz ys = ws @ (s0 + s, True) # zs" "coalesced zs" "zs \<noteq> [] \<Longrightarrow> \<not> snd (hd zs)"
      "sz \<le> s" "sz + total ys = s + total zs" "set zs \<subseteq> set ys"
  | (alone) s zs where "xs = [] \<or> \<not> snd (last xs)" "join ((sz, True) # ys) = (s, True) # zs"
      "free_blocks xs sz ys = xs @ (s, True) # zs" "coalesced zs" "zs \<noteq> [] \<Longrightarrow> \<not> snd (hd zs)"
      "sz \<le> s" "sz + total ys = s + total zs" "set zs \<subseteq> set ys"
proof -
  obtain s zs where r: "join ((sz, True) # ys) = (s, True) # zs" "coalesced zs"
    "zs \<noteq> [] \<Longrightarrow> \<not> snd (hd zs)" "sz \<le> s" "sz + total ys = s + total zs" "set zs \<subseteq> set ys"
    using join_free_head [OF assms] by metis
  show thesis
  proof (cases "xs \<noteq> [] \<and> snd (last xs)")
    case True
    then obtain ws s0 where xs: "xs = ws @ [(s0, True)]"
      by (metis append_butlast_last_id prod.collapse)
    then have "free_blocks xs sz ys = ws @ (s0 + s, True) # zs"
      by (simp add: free_blocks_def Let_def r)
    then show thesis by (rule left [OF xs r(1) _ r(2-6)])
  next
    case False
    then have "free_blocks xs sz ys = xs @ (s, True) # zs"
      by (auto simp: free_blocks_def Let_def r)
    with False show thesis by (intro alone [OF _ r(1) _ r(2-6)]) auto
  qed
qed

lemma heap_wf_free:
  assumes "heap_wf (xs @ (sz, False) # ys)"
  shows "heap_wf (free_blocks xs sz ys)"
proof -
  have ys: "coalesced ys" and co: "coalesced (xs @ (sz, False) # ys)"
    using assms by (auto simp: heap_wf_def coalesced_append coalesced_Cons)
  have dvd: "16 dvd s" if "join ((sz, True) # ys) = (s, True) # zs" for s zs
    using that assms by (cases ys) (auto simp: heap_wf_def split: prod.splits elim!: join.elims)
  from ys show ?thesis
  proof (cases rule: free_blocks_cases [of ys xs sz])
    case (left ws s0 s zs)
    then show ?thesis
      using assms dvd [OF left(2)] by (auto simp: heap_wf_def coalesced_append coalesced_Cons list_all_iff)
  next
    case (alone s zs)
    then show ?thesis
      using assms dvd [OF alone(2)] by (auto simp: heap_wf_def coalesced_append coalesced_Cons list_all_iff)
  qed
qed

lemma heap_wf_carve:
  assumes "heap_wf (xs @ (sz, True) # ys)" and "16 dvd n" and "0 < n" and "n + 32 \<le> sz"
  shows "heap_wf (xs @ carve n sz @ ys)"
proof -
  have "16 \<le> n" using assms(2,3) by (simp add: dvd_imp_le)
  moreover have "16 dvd sz" using assms(1) by (simp add: heap_wf_def)
  ultimately have "sizes_ge 48 (carve n sz)" "list_all (\<lambda>b. 16 dvd fst b) (carve n sz)"
    using assms by (auto simp: heap_wf_def carve_def dvd_diff_nat)
  moreover have "coalesced (xs @ carve n sz @ ys)"
    using assms(1) by (intro coalesced_carve) (simp add: heap_wf_def)
  ultimately show ?thesis using assms by (simp add: heap_wf_def)
qed

lemma heap_wf_first_fit:
  "heap_wf bs \<Longrightarrow> 16 dvd n \<Longrightarrow> 0 < n \<Longrightarrow> first_fit n bs = Some (off, bs') \<Longrightarrow> heap_wf bs'"
  by (erule first_fit_SomeE) (auto intro: heap_wf_carve)

text \<open>Releasing what was just allocated gives back the list as it was.\<close>

lemma free_carve:
  assumes "coalesced (xs @ (sz, True) # ys)" and "n + 32 \<le> sz"
  shows "\<exists>c zs. xs @ carve n sz @ ys = xs @ (c, False) # zs \<and> free_blocks xs c zs = xs @ (sz, True) # ys"
proof -
  have last: "xs = [] \<or> \<not> snd (last xs)" and hd: "ys = [] \<or> \<not> snd (hd ys)"
    using assms(1) by (auto simp: coalesced_append coalesced_Cons)
  have j: "join ((sz, True) # ys) = (sz, True) # ys"
    using hd by (cases ys) auto
  show ?thesis
  proof (cases "n + 80 < sz")
    case True
    with last assms(2) show ?thesis
      by (auto simp: carve_def free_blocks_def)
  next
    case False
    with last j show ?thesis
      by (auto simp: carve_def free_blocks_def Let_def)
  qed
qed

lemma total_dvd: "list_all (\<lambda>b. k dvd fst b) bs \<Longrightarrow> k dvd total bs"
  by (induction bs) auto

end
