(* ===== verification/Heap_Correct.thy ===== *)
theory Heap_Correct
  imports Heap_Spec
begin

text \<open>
  Correctness of the heap operations against \<open>Heap_Spec\<close>.

  \<open>heap_blocks\<close> reads the block list back from memory by following the \<open>next\<close> pointers;
  \<open>heap_inv\<close> is the invariant of an initialised heap. \<open>heap_link\<close> states what the
  linker guarantees of \<open>g_heap\<close>: it is aligned to 16, not at address 0, and inside the
  address space. The walk's fuel of 10923 is enough because no block is smaller than 48
  bytes and the heap has 524288.
\<close>

section \<open>Abstraction and invariant\<close>

fun walk :: "nat \<Rightarrow> mem \<Rightarrow> u32 \<Rightarrow> blocks" where
  "walk 0 m a = []"
| "walk (Suc k) m a =
     (let h = read_block m a
      in (unat (hb_size h), hb_free h \<noteq> 0) # (if hb_next h = 0 then [] else walk k m (hb_next h)))"

definition heap_base :: "link_map \<Rightarrow> nat" where
  "heap_base L = unat (g_heap_at L)"

definition heap_link :: "link_map \<Rightarrow> bool" where
  "heap_link L \<longleftrightarrow> 16 dvd heap_base L \<and> 0 < heap_base L \<and> heap_base L + 524288 \<le> 2 ^ 32"

definition heap_blocks :: "link_map \<Rightarrow> mm \<Rightarrow> blocks" where
  "heap_blocks L s = walk 10923 (mm_mem s) (g_heap_at L)"

definition heap_inv :: "link_map \<Rightarrow> mm \<Rightarrow> bool" where
  "heap_inv L s \<longleftrightarrow> g_heap_ready s \<and> g_heap_head s = g_heap_at L \<and> heap_wf (heap_blocks L s)
     \<and> chain (mm_mem s) 0 (heap_base L) (heap_blocks L s) 0"

lemma of_nat_heap_base [simp]: "of_nat (heap_base L) = g_heap_at L"
  by (simp add: heap_base_def)

lemma walk_chain:
  assumes "chain m p a bs 0" and "bs \<noteq> []" and "length bs \<le> k" and "sizes_ge 20 bs"
    and "total bs < 2 ^ 32" and "a + total bs \<le> 2 ^ 32"
  shows "walk k m (of_nat a) = bs"
  using assms
proof (induction bs arbitrary: p a k)
  case (Cons b bs)
  obtain sz fr where b: "b = (sz, fr)" by (cases b)
  obtain k' where k: "k = Suc k'" using Cons.prems(3) by (cases k) auto
  have hdr: "read_block m (of_nat a) = mk_hdr p sz fr (if bs = [] then 0 else a + sz)"
    and rest: "chain m a (a + sz) bs 0" using Cons.prems(1) b by auto
  have "bs \<noteq> [] \<Longrightarrow> walk k' m (of_nat (a + sz)) = bs"
    using Cons.prems b k rest by (intro Cons.IH) auto
  moreover have "bs \<noteq> [] \<Longrightarrow> (of_nat (a + sz) :: u32) \<noteq> 0"
    using Cons.prems b by (subst of_nat_u32_eq_0_iff; cases bs) auto
  moreover have "unat (of_nat sz :: u32) = sz"
    using Cons.prems b by (intro unat_of_nat_u32) auto
  ultimately show ?case using k b hdr by (auto simp: Let_def)
qed simp

lemma length_blocks: "sizes_ge 48 bs \<Longrightarrow> 48 * length bs \<le> total bs"
  by (induction bs) auto

lemma heap_wf_facts:
  assumes "heap_wf bs"
  shows "total bs = 524288" "sizes_ge 48 bs" "sizes_ge 20 bs" "bs \<noteq> []" "length bs \<le> 10923"
    "coalesced bs"
  using assms length_blocks [of bs] sizes_ge_mono [of 48 bs 20] by (auto simp: heap_wf_def)

lemma heap_invI:
  assumes "heap_link L" and "g_heap_ready s" and "g_heap_head s = g_heap_at L"
    and "heap_wf bs" and "chain (mm_mem s) 0 (heap_base L) bs 0"
  shows "heap_inv L s" and "heap_blocks L s = bs"
proof -
  show eq: "heap_blocks L s = bs"
    using walk_chain [OF assms(5), of 10923] heap_wf_facts [OF assms(4)] assms(1)
    by (simp add: heap_blocks_def heap_link_def)
  then show "heap_inv L s" using assms by (simp add: heap_inv_def)
qed

section \<open>heap\_init\<close>

lemma heap_init_ok:
  assumes "heap_link L" and "\<not> g_heap_ready s"
  shows "heap_inv L (heap_init L s)" and "heap_blocks L (heap_init L s) = [(524288, True)]"
proof -
  let ?s = "heap_init L s"
  have "chain (mm_mem ?s) 0 (heap_base L) [(524288, True)] 0"
    using assms(2) by (simp add: heap_init_def Let_def mk_hdr_def)
  moreover have "heap_wf [(524288, True)]" by (simp add: heap_wf_def)
  moreover have "g_heap_ready ?s" "g_heap_head ?s = g_heap_at L"
    using assms(2) by (simp_all add: heap_init_def Let_def)
  ultimately show "heap_inv L ?s" "heap_blocks L ?s = [(524288, True)]"
    using assms(1) heap_invI [of L ?s] by blast+
qed

section \<open>kmalloc\<close>

lemma kmalloc_scan_first_fit:
  assumes "chain m p a bs 0" and "sizes_ge 48 bs" and "total bs \<le> 524288" and "0 < a"
    and "a + total bs \<le> 2 ^ 32" and "n + 32 < 2 ^ 32"
  shows "kmalloc_scan (of_nat n) 32 (if bs = [] then 0 else of_nat a) m =
    (case first_fit n bs of None \<Rightarrow> Some (0, m)
     | Some (off, _) \<Rightarrow> Some (of_nat (a + off + 32),
         put_free (of_nat (a + off)) 0 (split_block (of_nat (a + off)) (of_nat n) m)))"
  using assms(1-5)
proof (induction bs arbitrary: p a)
  case Nil
  then show ?case by (simp add: kmalloc_scan.simps)
next
  case (Cons b bs)
  obtain sz fr where b: "b = (sz, fr)" by (cases b)
  let ?nx = "if bs = [] then 0 else a + sz"
  have hdr: "read_block m (of_nat a) = mk_hdr p sz fr ?nx" and rest: "chain m a (a + sz) bs 0"
    using Cons.prems(1) b by auto
  have a0: "(of_nat a :: u32) \<noteq> 0"
    using Cons.prems b by (subst of_nat_u32_eq_0_iff) auto
  have fit: "(of_nat n + 32 :: u32) \<le> of_nat sz \<longleftrightarrow> n + 32 \<le> sz"
    using of_nat_u32_le_iff [of "n + 32" sz] Cons.prems b assms(6) by simp
  have IH: "kmalloc_scan (of_nat n) 32 (if bs = [] then 0 else of_nat (a + sz)) m =
      (case first_fit n bs of None \<Rightarrow> Some (0, m)
       | Some (off, _) \<Rightarrow> Some (of_nat (a + sz + off + 32),
           put_free (of_nat (a + sz + off)) 0 (split_block (of_nat (a + sz + off)) (of_nat n) m)))"
    using Cons.prems b rest by (intro Cons.IH [of a "a + sz"]) auto
  show ?case
  proof (cases "fr \<and> n + 32 \<le> sz")
    case True
    then show ?thesis
      using a0 fit hdr b by (simp add: kmalloc_scan.simps [of _ _ "of_nat a"] block_payload_def)
  next
    case False
    have "kmalloc_scan (of_nat n) 32 (of_nat a) m =
        kmalloc_scan (of_nat n) 32 (of_nat ?nx) m"
      using a0 fit hdr False by (subst kmalloc_scan.simps) auto
    with IH False b show ?thesis
      by (auto split: option.splits if_splits simp: add.assoc)
  qed
qed

text \<open>
  The bytes outside \<open>g_heap\<close> and the payloads of allocated blocks are the frame of every
  heap operation.
\<close>

definition outside_heap :: "link_map \<Rightarrow> nat set" where
  "outside_heap L = {x. x < 2 ^ 32 \<and> (x < heap_base L \<or> heap_base L + 524288 \<le> x)}"

lemma outside_heapI:
  "agree m m' 0 (heap_base L) \<Longrightarrow> agree m m' (heap_base L + 524288) (2 ^ 32) \<Longrightarrow>
   keeps m m' (outside_heap L)"
  by (auto simp: agree_def keeps_def outside_heap_def)

lemma round_up_16_bounds:
  assumes "0 < k" and "k \<le> 0xFFFFFFD0"
  shows "16 dvd round_up 16 k" "0 < round_up 16 k" "round_up 16 k + 32 < 2 ^ 32" "k \<le> round_up 16 k"
proof -
  show "k \<le> round_up 16 k" by (simp add: round_up_ge)
  then show "0 < round_up 16 k" using assms by simp
  have "(k + 15) div 16 \<le> 0xFFFFFFD" using assms(2) by simp
  then show "round_up 16 k + 32 < 2 ^ 32" by (simp add: round_up_def)
qed simp

lemma kmalloc_aligned:
  assumes "unat n \<le> 0xFFFFFFD0"
  shows "align_up n 16 = of_nat (round_up 16 (unat n))"
  using align_up_of_nat [of "unat n" 4] assms by (simp add: align_up_eq)

lemma kmalloc_none:
  assumes inv: "heap_inv L s" and link: "heap_link L" and n: "n \<noteq> 0" "unat n \<le> 0xFFFFFFD0"
    and ff: "first_fit (round_up 16 (unat n)) (heap_blocks L s) = None"
  shows "kmalloc L n s = Some (0, s)"
proof -
  let ?bs = "heap_blocks L s"
  have wf: "heap_wf ?bs" and ch: "chain (mm_mem s) 0 (heap_base L) ?bs 0"
    using inv by (auto simp: heap_inv_def)
  have "kmalloc_scan (of_nat (round_up 16 (unat n))) 32 (g_heap_at L) (mm_mem s) = Some (0, mm_mem s)"
    using kmalloc_scan_first_fit [OF ch, of "round_up 16 (unat n)"] heap_wf_facts [OF wf] link ff
      round_up_16_bounds [of "unat n"] n by (simp add: heap_link_def unat_gt_0)
  with inv n show ?thesis
    by (simp add: kmalloc_def kmalloc_aligned heap_inv_def)
qed

text \<open>What the invariant says around one block of the list.\<close>

lemma heap_wf_split:
  assumes "heap_wf (xs @ (sz, fr) # ys)"
  shows "sizes_ge 48 ((sz, fr) # ys)" "sizes_ge 48 xs" "sizes_ge 20 xs" "sizes_ge 20 ys"
    "total xs + (sz + total ys) = 524288" "sz \<le> 524288" "48 \<le> sz"
proof -
  have f: "total (xs @ (sz, fr) # ys) = 524288" "sizes_ge 48 (xs @ (sz, fr) # ys)"
    "sizes_ge 20 (xs @ (sz, fr) # ys)" using heap_wf_facts [OF assms] by auto
  then show "sizes_ge 48 ((sz, fr) # ys)" "sizes_ge 48 xs" "sizes_ge 20 xs" "sizes_ge 20 ys"
    "total xs + (sz + total ys) = 524288" "48 \<le> sz" by simp_all
  then show "sz \<le> 524288" by linarith
qed

lemma heap_split:
  assumes inv: "heap_inv L s" and link: "heap_link L" and bs: "heap_blocks L s = xs @ (sz, fr) # ys"
  defines "b \<equiv> heap_base L + total xs"
  shows "chain (mm_mem s) 0 (heap_base L) xs b"
    and "chain (mm_mem s) (last_addr 0 (heap_base L) xs) b ((sz, fr) # ys) 0"
    and "0 < b" and "b + total ((sz, fr) # ys) \<le> 2 ^ 32"
    and "b + total ((sz, fr) # ys) = heap_base L + 524288"
proof -
  have ch: "chain (mm_mem s) 0 (heap_base L) (xs @ (sz, fr) # ys) 0" and wf: "heap_wf (xs @ (sz, fr) # ys)"
    using inv bs by (auto simp: heap_inv_def)
  from ch show "chain (mm_mem s) 0 (heap_base L) xs b"
    "chain (mm_mem s) (last_addr 0 (heap_base L) xs) b ((sz, fr) # ys) 0"
    by (simp_all add: chain_append b_def)
  show "0 < b" using link by (simp add: heap_link_def b_def)
  show "b + total ((sz, fr) # ys) = heap_base L + 524288"
    using heap_wf_split(5) [OF wf] by (simp add: b_def)
  then show "b + total ((sz, fr) # ys) \<le> 2 ^ 32" using link by (simp add: heap_link_def)
qed

lemma owned_around:
  assumes "agree m m' lo0 b" and "agree m m' (b + sz + 20) hi0"
    and "lo0 \<le> a" and "b = a + total xs" and "b + sz + total ys \<le> hi0"
  shows "keeps m m' (owned a (xs @ (sz, True) # ys))"
proof -
  have "keeps m m' (owned a xs)"
    using assms(3,4) owned_bounds [of _ a xs] by (intro agree_keeps [OF assms(1)]) force
  moreover have "keeps m m' (owned (b + sz) ys)"
    using assms(5) owned_bounds [of _ "b + sz" ys] by (intro agree_keeps [OF assms(2)]) force
  ultimately show ?thesis using assms(4) by (simp add: owned_append)
qed

lemma kmalloc_some:
  assumes inv: "heap_inv L s" and link: "heap_link L" and n: "n \<noteq> 0" "unat n \<le> 0xFFFFFFD0"
    and ff: "first_fit (round_up 16 (unat n)) (heap_blocks L s) = Some (off, bs')"
  obtains m where "kmalloc L n s = Some (of_nat (heap_base L + off + 32), s\<lparr>mm_mem := m\<rparr>)"
    "heap_inv L (s\<lparr>mm_mem := m\<rparr>)" "heap_blocks L (s\<lparr>mm_mem := m\<rparr>) = bs'"
    "keeps (mm_mem s) m (owned (heap_base L) (heap_blocks L s))"
    "keeps (mm_mem s) m (outside_heap L)"
proof -
  let ?bs = "heap_blocks L s" and ?H = "heap_base L" and ?n = "round_up 16 (unat n)"
  have wf: "heap_wf ?bs" and ch: "chain (mm_mem s) 0 ?H ?bs 0"
    and rdy: "g_heap_ready s" "g_heap_head s = g_heap_at L"
    using inv by (auto simp: heap_inv_def)
  have H: "0 < ?H" "?H + 524288 \<le> 2 ^ 32" using link by (auto simp: heap_link_def)
  have k: "16 dvd ?n" "0 < ?n" "?n + 32 < 2 ^ 32"
    using round_up_16_bounds [of "unat n"] n by (auto simp: unat_gt_0)
  from ff obtain xs sz ys where bs: "?bs = xs @ (sz, True) # ys" and off: "off = total xs"
    and fit: "?n + 32 \<le> sz" and bs': "bs' = xs @ carve ?n sz @ ys" by (rule first_fit_SomeE)
  note w = heap_wf_split [OF wf [unfolded bs]]
  let ?b = "?H + total xs"
  define m where "m = put_free (of_nat ?b) 0 (split_block (of_nat ?b) (of_nat ?n) (mm_mem s))"
  have scan: "kmalloc_scan (of_nat ?n) 32 (g_heap_at L) (mm_mem s) = Some (of_nat (?b + 32), m)"
    using kmalloc_scan_first_fit [OF ch, of ?n] heap_wf_facts [OF wf] H k ff off by (simp add: m_def)
  note sp = heap_split [OF inv link bs]
  note tb = take_block [OF sp(2) w(1) k(1) fit sp(4) w(6), folded m_def]
  have "chain m 0 ?H xs ?b" by (rule chain_agree [OF sp(1) w(3) tb(2)]) simp
  with tb(1) have chm: "chain m 0 ?H bs' 0"
    unfolding bs' by (simp add: chain_append carve_def)
  have wf': "heap_wf bs'" using heap_wf_first_fit [OF wf k(1,2) ff] .
  show thesis
  proof (rule that [of m])
    show "kmalloc L n s = Some (of_nat (?H + off + 32), s\<lparr>mm_mem := m\<rparr>)"
      using n rdy scan off by (simp add: kmalloc_def kmalloc_aligned)
    show "heap_inv L (s\<lparr>mm_mem := m\<rparr>)" "heap_blocks L (s\<lparr>mm_mem := m\<rparr>) = bs'"
      using heap_invI [OF link _ _ wf', of "s\<lparr>mm_mem := m\<rparr>"] rdy chm by auto
    show "keeps (mm_mem s) m (owned ?H ?bs)"
      unfolding bs using sp(4)
      by (intro owned_around [OF tb(2) [of ?b 0] tb(3) [of "?b + sz + 20" "2 ^ 32"]]) auto
    show "keeps (mm_mem s) m (outside_heap L)"
      using tb(2) [of ?H 0] tb(3) [of "?H + 524288" "2 ^ 32"] sp(5) w(1)
      by (intro outside_heapI) (cases ys; auto)+
  qed
qed

section \<open>kfree\<close>

text \<open>The first half of \<open>kfree\<close>: the block is marked free and joined with its right neighbour.\<close>

lemma kfree_right:
  assumes inv: "heap_inv L s" and link: "heap_link L" and bs: "heap_blocks L s = xs @ (sz, False) # ys"
  defines "b \<equiv> heap_base L + total xs"
  defines "m2 \<equiv> merge_with_next (of_nat b) (put_free (of_nat b) 1 (mm_mem s))"
  shows "chain m2 0 (heap_base L) (xs @ join ((sz, True) # ys)) 0"
    and "keeps (mm_mem s) m2 (owned (heap_base L) (xs @ (sz, True) # ys))"
    and "keeps (mm_mem s) m2 (outside_heap L)"
proof -
  let ?m = "mm_mem s" and ?H = "heap_base L" and ?m1 = "put_free (of_nat b) 1 (mm_mem s)"
  let ?p = "last_addr 0 ?H xs"
  have wf: "heap_wf (xs @ (sz, False) # ys)" using inv bs by (simp add: heap_inv_def)
  note w = heap_wf_split [OF wf] and sp = heap_split [OF inv link bs, folded b_def]
  have hdr: "read_block ?m (of_nat b) = mk_hdr ?p sz False (if ys = [] then 0 else b + sz)"
    and rest: "chain ?m b (b + sz) ys 0" using sp(2) by auto
  have low: "agree ?m ?m1 lo hi" if "hi \<le> b \<or> b + 20 \<le> lo \<and> hi \<le> 2 ^ 32" for lo hi
    using that sp(4) w(7) by (intro put_agree(3)) auto
  have ch1: "chain ?m1 ?p b ((sz, True) # ys) 0"
  proof (rule chain_ConsI [OF rest w(4)])
    show "read_block ?m1 (of_nat b) = mk_hdr ?p sz True (if ys = [] then 0 else b + sz)"
      by (simp add: hdr mk_hdr_def)
    show "agree ?m ?m1 (b + sz) (b + sz + total ys)" using w(7) sp(4) by (intro low) auto
  qed
  have ge: "sizes_ge 48 ((sz, True) # ys)" and bnd: "b + total ((sz, True) # ys) \<le> 2 ^ 32"
    "b + total ((sz, True) # ys) = ?H + 524288"
    using w(1) sp(4,5) by simp_all
  have mb: "chain m2 ?p b (join ((sz, True) # ys)) 0"
    "hi \<le> b \<or> b + total ((sz, True) # ys) \<le> lo \<and> hi \<le> 2 ^ 32 \<Longrightarrow> agree ?m1 m2 lo hi"
    "keeps ?m1 m2 (owned b ((sz, True) # ys))" for lo hi
    using merge_block [OF ch1 ge sp(3) bnd(1), folded m2_def] by blast+
  have agr: "agree ?m m2 lo hi" if "hi \<le> b \<or> b + total ((sz, True) # ys) \<le> lo \<and> hi \<le> 2 ^ 32" for lo hi
    by (rule agree_trans [OF low mb(2)]) (use that w(7) in auto)
  have "chain m2 0 ?H xs b" by (rule chain_agree [OF sp(1) w(3) agr]) (simp add: b_def)
  with mb(1) show "chain m2 0 ?H (xs @ join ((sz, True) # ys)) 0"
    by (simp add: chain_append b_def)
  have "keeps ?m m2 (owned ?H xs)"
    using owned_bounds [of _ ?H xs] by (intro agree_keeps [OF agr [of b ?H]]) (force simp: b_def)+
  moreover have "keeps ?m m2 (owned b ((sz, True) # ys))"
  proof (rule keeps_trans [OF _ mb(3)])
    show "keeps ?m ?m1 (owned b ((sz, True) # ys))"
      using owned_bounds [of _ "b + sz" ys] bnd w(7)
      by (intro agree_keeps [OF low [of "2 ^ 32" "b + 20"]]) fastforce+
  qed
  ultimately show "keeps ?m m2 (owned ?H (xs @ (sz, True) # ys))"
    by (simp add: owned_append b_def)
  show "keeps ?m m2 (outside_heap L)"
    using bnd(2) by (intro outside_heapI agr) (auto simp: b_def)
qed

text \<open>The second half: joining with a free left neighbour.\<close>

lemma kfree_left:
  assumes ch: "chain m2 0 H (ws @ (s0, True) # (s, True) # zs) 0"
    and ge: "sizes_ge 48 (ws @ (s0, True) # (s, True) # zs)" and H: "0 < H"
    and bnd: "H + total (ws @ (s0, True) # (s, True) # zs) \<le> 2 ^ 32"
  defines "m3 \<equiv> merge_with_next (of_nat (H + total ws)) m2"
  shows "chain m3 0 H (ws @ (s0 + s, True) # zs) 0"
    and "keeps m2 m3 (owned H (ws @ (s0, True) # (s, True) # zs))"
    and "\<And>lo hi. hi \<le> H \<or> H + total (ws @ (s0, True) # (s, True) # zs) \<le> lo \<and> hi \<le> 2 ^ 32 \<Longrightarrow> agree m2 m3 lo hi"
proof -
  let ?c = "H + total ws"
  have chc: "chain m2 (last_addr 0 H ws) ?c ((s0, True) # (s, True) # zs) 0" and chw: "chain m2 0 H ws ?c"
    using ch by (auto simp: chain_append)
  have ge': "sizes_ge 48 ((s0, True) # (s, True) # zs)" "sizes_ge 20 ws"
    using ge sizes_ge_mono [of 48 ws 20] by auto
  have bnd': "?c + total ((s0, True) # (s, True) # zs) \<le> 2 ^ 32" using bnd by (simp add: add.assoc)
  have mb: "chain m3 (last_addr 0 H ws) ?c ((s0 + s, True) # zs) 0"
    "hi \<le> ?c \<or> ?c + total ((s0, True) # (s, True) # zs) \<le> lo \<and> hi \<le> 2 ^ 32 \<Longrightarrow> agree m2 m3 lo hi"
    "keeps m2 m3 (owned ?c ((s0, True) # (s, True) # zs))" for lo hi
    using merge_block [OF chc ge'(1) _ bnd', folded m3_def] H unfolding join.simps by blast+
  have "chain m3 0 H ws ?c" by (rule chain_agree [OF chw ge'(2) mb(2)]) simp
  with mb(1) show "chain m3 0 H (ws @ (s0 + s, True) # zs) 0" by (simp add: chain_append)
  have "keeps m2 m3 (owned H ws)"
    using owned_bounds [of _ H ws] by (intro agree_keeps [OF mb(2) [of ?c H]]) force+
  with mb(3) show "keeps m2 m3 (owned H (ws @ (s0, True) # (s, True) # zs))"
    by (simp add: owned_append)
  show "agree m2 m3 lo hi"
    if "hi \<le> H \<or> H + total (ws @ (s0, True) # (s, True) # zs) \<le> lo \<and> hi \<le> 2 ^ 32" for lo hi
    using that by (intro mb(2)) auto
qed

lemma kfree_ok:
  assumes inv: "heap_inv L s" and link: "heap_link L" and bs: "heap_blocks L s = xs @ (sz, False) # ys"
    and ptr: "ptr = of_nat (heap_base L + total xs + 32)"
  obtains m where "kfree ptr s = s\<lparr>mm_mem := m\<rparr>" "heap_inv L (s\<lparr>mm_mem := m\<rparr>)"
    "heap_blocks L (s\<lparr>mm_mem := m\<rparr>) = free_blocks xs sz ys"
    "keeps (mm_mem s) m (owned (heap_base L) (xs @ (sz, True) # ys))"
    "keeps (mm_mem s) m (outside_heap L)"
proof -
  let ?H = "heap_base L"
  let ?b = "?H + total xs" and ?p = "last_addr 0 ?H xs"
  define m2 where "m2 = merge_with_next (of_nat ?b) (put_free (of_nat ?b) 1 (mm_mem s))"
  note r = kfree_right [OF inv link bs, folded m2_def]
  have wf: "heap_wf (xs @ (sz, False) # ys)" and rdy: "g_heap_ready s" "g_heap_head s = g_heap_at L"
    using inv bs by (simp_all add: heap_inv_def)
  have H: "0 < ?H" "?H + 524288 \<le> 2 ^ 32" using link by (auto simp: heap_link_def)
  note w = heap_wf_split [OF wf] and sp = heap_split [OF inv link bs]
  have co: "coalesced ys" using wf by (simp add: heap_wf_def coalesced_append coalesced_Cons)
  have pb: "payload_block ptr = of_nat ?b" by (simp add: payload_block_def ptr)
  have p0: "ptr \<noteq> 0" unfolding ptr using w(7) sp(4) by (subst of_nat_u32_eq_0_iff) auto
  have magic: "hb_magic (read_block (mm_mem s) (of_nat ?b)) = BLOCK_MAGIC" using sp(2) by simp
  define m where "m = (let prev = hb_prev (read_block m2 (of_nat ?b)) in
      if prev \<noteq> 0 \<and> hb_free (read_block m2 prev) \<noteq> 0 then merge_with_next prev m2 else m2)"
  have kf: "kfree ptr s = s\<lparr>mm_mem := m\<rparr>"
    using p0 magic by (simp add: kfree_def pb Let_def m_def m2_def)
  have main: "chain m 0 ?H (free_blocks xs sz ys) 0
    \<and> keeps m2 m (owned ?H (xs @ join ((sz, True) # ys))) \<and> keeps m2 m (outside_heap L)"
    using co
  proof (cases rule: free_blocks_cases [of ys xs sz])
    case (left ws s0 s zs)
    have p: "?p = ?H + total ws" using left(1) by (simp add: last_addr_snoc)
    have ch2: "chain m2 0 ?H (ws @ (s0, True) # (s, True) # zs) 0"
      using r(1) left by simp
    have ge: "sizes_ge 48 (ws @ (s0, True) # (s, True) # zs)"
      using w(1,2,7) left by (auto simp: list_all_iff)
    have tot: "total (ws @ (s0, True) # (s, True) # zs) = 524288"
      using w(5) left by simp
    have hdrs: "read_block m2 (of_nat ?b) = mk_hdr (?H + total ws) s True (if zs = [] then 0 else ?b + s)"
      "hb_free (read_block m2 (of_nat (?H + total ws))) = 1"
      using ch2 left(1) by (auto simp: chain_append add.assoc)
    have "(of_nat (?H + total ws) :: u32) \<noteq> 0"
      using H tot w(7) left(6) by (subst of_nat_u32_eq_0_iff) auto
    with hdrs have "m = merge_with_next (of_nat (?H + total ws)) m2"
      by (simp add: m_def Let_def del: of_nat_add)
    moreover note kl = kfree_left [OF ch2 ge H(1)]
    ultimately show ?thesis
      using left H tot by (auto intro!: outside_heapI)
  next
    case (alone s zs)
    have "m = m2"
    proof (cases xs rule: rev_cases)
      case Nil
      with r(1) alone have "hb_prev (read_block m2 (of_nat ?b)) = 0" by simp
      then show ?thesis by (simp add: m_def)
    next
      case (snoc ws x)
      then obtain s0 where x: "x = (s0, False)" using alone(1) by (cases x) auto
      have "hb_prev (read_block m2 (of_nat ?b)) = of_nat (?H + total ws)"
        "hb_free (read_block m2 (of_nat (?H + total ws))) = 0"
        using r(1) alone snoc x by (auto simp: chain_append add.assoc)
      then show ?thesis by (simp add: m_def Let_def)
    qed
    with r alone show ?thesis by simp
  qed
  have ow: "owned ?H (xs @ join ((sz, True) # ys)) = owned ?H (xs @ (sz, True) # ys)"
    by (simp add: owned_append)
  show thesis
    by (rule that [OF kf]) (use heap_invI [OF link _ _ heap_wf_free [OF wf], of "s\<lparr>mm_mem := m\<rparr>"]
      rdy main r ow in \<open>auto elim: keeps_trans\<close>)
qed

end
