(* ===== verification/Allocator.thy ===== *)
theory Allocator
  imports Memory_Bytes
begin

text \<open>
  The contract between the heap and its clients (the ELF loader and the directory
  readers call \<open>kmalloc\<close> and \<open>kfree\<close>).

  An allocator has a set of live blocks, pairs of payload address and length. The laws
  say what \<open>alloc\<close> and \<open>free\<close> do to that set, that live blocks never overlap, that
  neither operation touches the bytes of a live block, and that a client may write
  inside its own block. What a client needs is proved once from these laws: a block
  that is allocated, filled and released leaves no trace, and any sequence of calls
  keeps the laws.
\<close>

locale allocator =
  fixes inv :: "'s \<Rightarrow> bool"
    and alloc :: "u32 \<Rightarrow> 's \<Rightarrow> (u32 \<times> 's) option"
    and free :: "u32 \<Rightarrow> 's \<Rightarrow> 's"
    and live :: "'s \<Rightarrow> (nat \<times> nat) set"
    and bytes :: "'s \<Rightarrow> mem"
    and set_bytes :: "mem \<Rightarrow> 's \<Rightarrow> 's"
    and max_req :: nat
  assumes alloc_returns: "inv s \<Longrightarrow> unat n \<le> max_req \<Longrightarrow> \<exists>p s'. alloc n s = Some (p, s')"
    and alloc_null: "inv s \<Longrightarrow> unat n \<le> max_req \<Longrightarrow> alloc n s = Some (0, s') \<Longrightarrow> s' = s"
    and alloc_inv: "inv s \<Longrightarrow> unat n \<le> max_req \<Longrightarrow> alloc n s = Some (p, s') \<Longrightarrow> inv s'"
    and alloc_live: "inv s \<Longrightarrow> unat n \<le> max_req \<Longrightarrow> alloc n s = Some (p, s') \<Longrightarrow> p \<noteq> 0 \<Longrightarrow>
      \<exists>len\<ge>unat n. (unat p, len) \<notin> live s \<and> live s' = insert (unat p, len) (live s)"
    and alloc_keeps: "inv s \<Longrightarrow> unat n \<le> max_req \<Longrightarrow> alloc n s = Some (p, s') \<Longrightarrow>
      (q, k) \<in> live s \<Longrightarrow> q \<le> x \<Longrightarrow> x < q + k \<Longrightarrow> bytes s' (of_nat x) = bytes s (of_nat x)"
    and live_disjoint: "inv s \<Longrightarrow> (a, l) \<in> live s \<Longrightarrow> (q, k) \<in> live s \<Longrightarrow> (a, l) \<noteq> (q, k) \<Longrightarrow>
      a + l \<le> q \<or> q + k \<le> a"
    and live_bound: "inv s \<Longrightarrow> (a, l) \<in> live s \<Longrightarrow> a + l \<le> 2 ^ 32"
    and free_inv: "inv s \<Longrightarrow> (unat p, l) \<in> live s \<Longrightarrow> inv (free p s)"
    and free_live: "inv s \<Longrightarrow> (unat p, l) \<in> live s \<Longrightarrow> live (free p s) = live s - {(unat p, l)}"
    and free_keeps: "inv s \<Longrightarrow> (unat p, l) \<in> live s \<Longrightarrow> (q, k) \<in> live s - {(unat p, l)} \<Longrightarrow>
      q \<le> x \<Longrightarrow> x < q + k \<Longrightarrow> bytes (free p s) (of_nat x) = bytes s (of_nat x)"
    and free_null: "free 0 s = s"
    and write_inv: "inv s \<Longrightarrow> (a, l) \<in> live s \<Longrightarrow> changes_only a l (bytes s) m \<Longrightarrow>
      inv (set_bytes m s) \<and> live (set_bytes m s) = live s"
    and write_bytes: "bytes (set_bytes m s) = m"
begin

text \<open>Allocate, fill, release: the live set and every other live byte are as before.\<close>

lemma borrow:
  assumes inv: "inv s" and n: "unat n \<le> max_req" and al: "alloc n s = Some (p, s1)" and p: "p \<noteq> 0"
    and len: "(unat p, l) \<in> live s1" "(unat p, l) \<notin> live s"
    and wr: "changes_only (unat p) l (bytes s1) m"
  defines "s2 \<equiv> free p (set_bytes m s1)"
  shows "inv s2" and "live s2 = live s"
    and "(q, k) \<in> live s \<Longrightarrow> q \<le> x \<Longrightarrow> x < q + k \<Longrightarrow> bytes s2 (of_nat x) = bytes s (of_nat x)"
proof -
  have i1: "inv s1" using inv n al by (rule alloc_inv)
  have w: "inv (set_bytes m s1)" "live (set_bytes m s1) = live s1"
    using write_inv [OF i1 len(1) wr] by auto
  obtain l' where "(unat p, l') \<notin> live s" and l': "live s1 = insert (unat p, l') (live s)"
    using alloc_live [OF inv n al p] by blast
  with len have "l' = l" by auto
  with l' have ls: "live s1 = insert (unat p, l) (live s)" by simp
  have in2: "(unat p, l) \<in> live (set_bytes m s1)" using w(2) len(1) by simp
  show "inv s2" unfolding s2_def using w(1) in2 by (rule free_inv)
  show "live s2 = live s"
    unfolding s2_def using free_live [OF w(1) in2] w(2) ls len(2) by auto
  assume q: "(q, k) \<in> live s" and x: "q \<le> x" "x < q + k"
  then have q1: "(q, k) \<in> live s1" "(q, k) \<noteq> (unat p, l)" using ls len(2) by auto
  have "x < 2 ^ 32" using live_bound [OF i1 q1(1)] x by linarith
  moreover have "x < unat p \<or> unat p + l \<le> x"
    using live_disjoint [OF i1 q1(1) len(1) q1(2)] x by linarith
  ultimately have "m (of_nat x) = bytes s1 (of_nat x)" using wr by (auto dest: changes_onlyD)
  moreover have "bytes s2 (of_nat x) = bytes (set_bytes m s1) (of_nat x)"
    unfolding s2_def using free_keeps [OF w(1) in2 _ x] q1 w(2) by simp
  moreover have "bytes s1 (of_nat x) = bytes s (of_nat x)"
    using inv n al q x by (rule alloc_keeps)
  ultimately show "bytes s2 (of_nat x) = bytes s (of_nat x)" by (simp add: write_bytes)
qed

text \<open>Allocate and fill: the new block is live, and every other live byte is as before.\<close>

lemma alloc_fill:
  assumes inv: "inv s" and n: "unat n \<le> max_req" and al: "alloc n s = Some (p, s1)" and p: "p \<noteq> 0"
    and wr: "changes_only (unat p) (unat n) (bytes s1) m"
  obtains len where "unat n \<le> len" "(unat p, len) \<notin> live s" "unat p + len \<le> 2 ^ 32"
    "inv (set_bytes m s1)" "live (set_bytes m s1) = insert (unat p, len) (live s)"
    "\<And>q k x. (q, k) \<in> live s \<Longrightarrow> q \<le> x \<Longrightarrow> x < q + k \<Longrightarrow> m (of_nat x) = bytes s (of_nat x)"
proof -
  have i1: "inv s1" using inv n al by (rule alloc_inv)
  obtain len where len: "unat n \<le> len" "(unat p, len) \<notin> live s" "live s1 = insert (unat p, len) (live s)"
    using alloc_live [OF inv n al p] by blast
  have in1: "(unat p, len) \<in> live s1" by (simp add: len(3))
  have wr': "changes_only (unat p) len (bytes s1) m" using wr len(1) by (auto simp: changes_only_def)
  note w = write_inv [OF i1 in1 wr']
  show thesis
  proof (rule that [OF len(1,2) live_bound [OF i1 in1]])
    show "inv (set_bytes m s1)" "live (set_bytes m s1) = insert (unat p, len) (live s)"
      using w len(3) by auto
    fix q k x assume q: "(q, k) \<in> live s" and x: "q \<le> x" "x < q + k"
    then have "(q, k) \<in> live s1" "(q, k) \<noteq> (unat p, len)" using len by auto
    then have "x < 2 ^ 32" "x < unat p \<or> unat p + len \<le> x"
      using live_bound [OF i1, of q k] live_disjoint [OF i1, of q k "unat p" len] in1 x by auto
    then have "m (of_nat x) = bytes s1 (of_nat x)" by (rule changes_onlyD [OF wr'])
    with alloc_keeps [OF inv n al q x] show "m (of_nat x) = bytes s (of_nat x)" by simp
  qed
qed

text \<open>A call of a client: any request of legal size, or the release of a live block.\<close>

inductive client_step :: "'s \<Rightarrow> 's \<Rightarrow> bool" where
  call_alloc: "unat n \<le> max_req \<Longrightarrow> alloc n s = Some (p, s') \<Longrightarrow> client_step s s'"
| call_free: "(unat p, l) \<in> live s \<Longrightarrow> client_step s (free p s)"
| call_write: "(a, l) \<in> live s \<Longrightarrow> changes_only a l (bytes s) m \<Longrightarrow>
    client_step s (set_bytes m s)"

lemma client_step_inv: "client_step s s' \<Longrightarrow> inv s \<Longrightarrow> inv s'"
  by (induction rule: client_step.induct) (blast intro: alloc_inv free_inv dest: write_inv)+

lemma client_steps_inv: "client_step\<^sup>*\<^sup>* s s' \<Longrightarrow> inv s \<Longrightarrow> inv s'"
  by (induction rule: rtranclp_induct) (auto intro: client_step_inv)

end

end
