(* ===== verification/Heap_Api.thy ===== *)
theory Heap_Api
  imports Heap_Correct Allocator
begin

text \<open>
  The heap as its callers see it: the interpretation of the \<open>allocator\<close> contract on
  \<open>kmalloc\<close> and \<open>kfree\<close>, the derived operations \<open>kcalloc\<close> and \<open>krealloc\<close>, and the
  properties of the heap.
\<close>

section \<open>Live blocks\<close>

fun live :: "nat \<Rightarrow> blocks \<Rightarrow> (nat \<times> nat) set" where
  "live a [] = {}"
| "live a ((sz, fr) # bs) = (if fr then {} else {(a + 32, sz - 32)}) \<union> live (a + sz) bs"

definition heap_live :: "link_map \<Rightarrow> mm \<Rightarrow> (nat \<times> nat) set" where
  "heap_live L s = live (heap_base L) (heap_blocks L s)"

lemma live_append: "live a (xs @ ys) = live a xs \<union> live (a + total xs) ys"
  by (induction xs arbitrary: a) (auto simp: add.assoc)

lemma live_iff:
  "(q, k) \<in> live a bs \<longleftrightarrow>
     (\<exists>xs sz ys. bs = xs @ (sz, False) # ys \<and> q = a + total xs + 32 \<and> k = sz - 32)"
proof (induction bs arbitrary: a)
  case (Cons b bs)
  obtain sz fr where b: "b = (sz, fr)" by (cases b)
  show ?case
  proof
    assume "(q, k) \<in> live a (b # bs)"
    with b consider "\<not> fr" "q = a + 32" "k = sz - 32" | "(q, k) \<in> live (a + sz) bs"
      by (auto split: if_splits)
    then show "\<exists>xs sz ys. b # bs = xs @ (sz, False) # ys \<and> q = a + total xs + 32 \<and> k = sz - 32"
    proof cases
      case 1
      with b show ?thesis by (intro exI [of _ "[]"]) auto
    next
      case 2
      then obtain xs sz' ys where "bs = xs @ (sz', False) # ys" "q = a + sz + total xs + 32"
        "k = sz' - 32" unfolding Cons.IH by (elim exE conjE)
      with b have "b # bs = ((sz, fr) # xs) @ (sz', False) # ys \<and> q = a + total ((sz, fr) # xs) + 32
        \<and> k = sz' - 32" by simp
      then show ?thesis by blast
    qed
  next
    assume "\<exists>xs sz ys. b # bs = xs @ (sz, False) # ys \<and> q = a + total xs + 32 \<and> k = sz - 32"
    then show "(q, k) \<in> live a (b # bs)" by (auto simp: live_append)
  qed
qed simp

lemma live_bounds: "sizes_ge 32 bs \<Longrightarrow> (q, k) \<in> live a bs \<Longrightarrow> a + 32 \<le> q \<and> q + k \<le> a + total bs"
  by (auto simp: live_iff)

lemma live_disjoint_list:
  "sizes_ge 32 bs \<Longrightarrow> (q, k) \<in> live a bs \<Longrightarrow> (r, j) \<in> live a bs \<Longrightarrow> (q, k) \<noteq> (r, j) \<Longrightarrow>
   q + k \<le> r \<or> r + j \<le> q"
proof (induction bs arbitrary: a)
  case (Cons b bs)
  obtain sz fr where b: "b = (sz, fr)" by (cases b)
  have "a + sz + 32 \<le> x" if "(x, y) \<in> live (a + sz) bs" for x y
    using live_bounds [of bs x y "a + sz"] that Cons.prems(1) b by auto
  with Cons b show ?case by (force split: if_splits)
qed simp

lemma live_owned: "(q, k) \<in> live a bs \<Longrightarrow> {q..<q + k} \<subseteq> owned a bs"
  by (induction bs arbitrary: a) (force split: if_splits)+

lemma live_join: "live a (join ((sz, True) # ys)) = live (a + sz) ys"
proof (cases ys)
  case (Cons y zs)
  then show ?thesis by (cases y; cases "snd y") (auto simp: add.assoc)
qed simp

lemma live_free_blocks: "live a (free_blocks xs sz ys) = live a xs \<union> live (a + total xs + sz) ys"
proof (cases "xs \<noteq> [] \<and> snd (last xs)")
  case True
  then obtain ws s0 where xs: "xs = ws @ [(s0, True)]"
    by (metis append_butlast_last_id prod.collapse)
  then show ?thesis
    by (simp add: free_blocks_def live_append live_join)
      (metis (no_types, lifting) add.assoc live_join sup_bot_left sup_commute)
next
  case False
  then show ?thesis by (auto simp: free_blocks_def live_append live_join)
qed

lemma live_carve:
  "n + 32 \<le> sz \<Longrightarrow> \<exists>len\<ge>n. live a (carve n sz) = {(a + 32, len)} \<and> len < sz"
  by (auto simp: carve_def)

section \<open>Writing inside a live block\<close>

lemma heap_write:
  assumes inv: "heap_inv L s" and link: "heap_link L" and lv: "(a, l) \<in> heap_live L s"
    and ch: "changes_only a l (mm_mem s) m"
  shows "heap_inv L (s\<lparr>mm_mem := m\<rparr>)" and "heap_blocks L (s\<lparr>mm_mem := m\<rparr>) = heap_blocks L s"
proof -
  from lv obtain xs sz ys where bs: "heap_blocks L s = xs @ (sz, False) # ys"
    and a: "a = heap_base L + total xs + 32" and l: "l = sz - 32"
    by (auto simp: heap_live_def live_iff)
  let ?b = "heap_base L + total xs" and ?m = "mm_mem s"
  have wf: "heap_wf (xs @ (sz, False) # ys)" and rdy: "g_heap_ready s" "g_heap_head s = g_heap_at L"
    using inv bs by (auto simp: heap_inv_def)
  note w = heap_wf_split [OF wf] and sp = heap_split [OF inv link bs]
  have agr: "agree ?m m lo hi" if "hi \<le> ?b + 32 \<or> ?b + sz \<le> lo" "hi \<le> 2 ^ 32" for lo hi
    using ch that w(7) a l by (auto simp: agree_def changes_only_def)
  have "chain m 0 (heap_base L) xs ?b"
    using sp(4) by (intro chain_agree [OF sp(1) w(3) agr]) auto
  moreover have "chain m (last_addr 0 (heap_base L) xs) ?b ((sz, False) # ys) 0"
  proof (rule chain_ConsI)
    show "chain ?m ?b (?b + sz) ys 0" using sp(2) by simp
    show "sizes_ge 20 ys" by (rule w(4))
    have "read_block m (of_nat ?b) = read_block ?m (of_nat ?b)"
      using w(7) sp(4) by (intro read_block_agree agr) auto
    with sp(2) show "read_block m (of_nat ?b) =
        mk_hdr (last_addr 0 (heap_base L) xs) sz False (if ys = [] then 0 else ?b + sz)" by simp
    show "agree ?m m (?b + sz) (?b + sz + total ys)" using sp(4) by (intro agr) auto
  qed
  ultimately have "chain m 0 (heap_base L) (xs @ (sz, False) # ys) 0" by (simp add: chain_append)
  then show "heap_inv L (s\<lparr>mm_mem := m\<rparr>)" "heap_blocks L (s\<lparr>mm_mem := m\<rparr>) = heap_blocks L s"
    using heap_invI [OF link _ _ wf, of "s\<lparr>mm_mem := m\<rparr>"] rdy bs by auto
qed

section \<open>The contract\<close>

lemma kmalloc_cases:
  assumes "heap_inv L s" and "heap_link L" and "unat n \<le> 0xFFFFFFD0"
  obtains (null) "kmalloc L n s = Some (0, s)"
      "n = 0 \<or> first_fit (round_up 16 (unat n)) (heap_blocks L s) = None"
  | (block) m off bs' where "n \<noteq> 0"
      "first_fit (round_up 16 (unat n)) (heap_blocks L s) = Some (off, bs')"
      "kmalloc L n s = Some (of_nat (heap_base L + off + 32), s\<lparr>mm_mem := m\<rparr>)"
      "heap_inv L (s\<lparr>mm_mem := m\<rparr>)" "heap_blocks L (s\<lparr>mm_mem := m\<rparr>) = bs'"
      "keeps (mm_mem s) m (owned (heap_base L) (heap_blocks L s))"
      "keeps (mm_mem s) m (outside_heap L)"
proof (cases "n = 0")
  case True
  then show thesis by (intro null) (simp_all add: kmalloc_def)
next
  case False
  show thesis
  proof (cases "first_fit (round_up 16 (unat n)) (heap_blocks L s)")
    case None
    then show thesis using kmalloc_none [OF assms(1,2) False assms(3)] null by blast
  next
    case (Some r)
    then obtain off bs' where "first_fit (round_up 16 (unat n)) (heap_blocks L s) = Some (off, bs')"
      by (cases r) auto
    with kmalloc_some [OF assms(1,2) False assms(3)] block False show thesis by metis
  qed
qed

text \<open>The payload address of a fitting block is a proper pointer.\<close>

lemma first_fit_ptr:
  assumes "heap_inv L s" and "heap_link L" and "first_fit n (heap_blocks L s) = Some (off, bs')"
  shows "heap_base L + off + 32 < 2 ^ 32"
    "unat (of_nat (heap_base L + off + 32) :: u32) = heap_base L + off + 32"
    "(of_nat (heap_base L + off + 32) :: u32) \<noteq> 0"
proof -
  from assms(3) obtain xs sz ys where bs: "heap_blocks L s = xs @ (sz, True) # ys" and off: "off = total xs"
    by (rule first_fit_SomeE)
  have "heap_wf (xs @ (sz, True) # ys)" using assms(1) bs by (simp add: heap_inv_def)
  then show b: "heap_base L + off + 32 < 2 ^ 32"
    using heap_wf_split(5,7) [of xs sz True ys] assms(2) off by (simp add: heap_link_def)
  then show "unat (of_nat (heap_base L + off + 32) :: u32) = heap_base L + off + 32"
    by (rule unat_of_nat_u32)
  from b show "(of_nat (heap_base L + off + 32) :: u32) \<noteq> 0"
    by (subst of_nat_u32_eq_0_iff) auto
qed

lemma heap_live_disjoint:
  assumes "heap_inv L s" and "(q, k) \<in> heap_live L s" and "(r, j) \<in> heap_live L s" and "(q, k) \<noteq> (r, j)"
  shows "q + k \<le> r \<or> r + j \<le> q"
  using assms live_disjoint_list [of "heap_blocks L s"] sizes_ge_mono [of 48 _ 32]
  by (auto simp: heap_live_def heap_inv_def heap_wf_def)

lemma heap_live_bounds:
  assumes "heap_inv L s" and "(q, k) \<in> heap_live L s"
  shows "heap_base L + 32 \<le> q" "q + k \<le> heap_base L + 524288"
  using assms live_bounds [of "heap_blocks L s" q k "heap_base L"] sizes_ge_mono [of 48 "heap_blocks L s" 32]
  by (auto simp: heap_live_def heap_inv_def heap_wf_def)

lemma kmalloc_live:
  assumes inv: "heap_inv L s" and link: "heap_link L" and n: "unat n \<le> 0xFFFFFFD0"
    and al: "kmalloc L n s = Some (p, s')" and p: "p \<noteq> 0"
  shows "\<exists>len\<ge>unat n. (unat p, len) \<notin> heap_live L s \<and> heap_live L s' = insert (unat p, len) (heap_live L s)"
  using inv link n
proof (cases rule: kmalloc_cases [of L s n])
  case (block m off bs')
  let ?n = "round_up 16 (unat n)" and ?H = "heap_base L"
  from block(2) obtain xs sz ys where bs: "heap_blocks L s = xs @ (sz, True) # ys"
    and off: "off = total xs" and fit: "?n + 32 \<le> sz" and bs': "bs' = xs @ carve ?n sz @ ys"
    by (rule first_fit_SomeE)
  note pt = first_fit_ptr [OF inv link block(2)]
  have s': "s' = s\<lparr>mm_mem := m\<rparr>" and up: "unat p = ?H + off + 32" using block(3) al pt(2) by auto
  obtain len where len: "?n \<le> len" "live (?H + total xs) (carve ?n sz) = {(?H + total xs + 32, len)}"
    "len < sz" using live_carve [OF fit, of "?H + total xs"] by blast
  have "heap_live L s' = insert (unat p, len) (heap_live L s)"
    using len(2) fit by (simp add: heap_live_def s' block(5) bs bs' live_append up off add.assoc)
  moreover have "(unat p, len) \<notin> heap_live L s"
  proof
    assume "(unat p, len) \<in> heap_live L s"
    then consider "(unat p, len) \<in> live ?H xs" | "(unat p, len) \<in> live (?H + total xs + sz) ys"
      by (auto simp: heap_live_def bs live_append)
    moreover have "sizes_ge 32 xs" "sizes_ge 32 ys"
      using heap_wf_split(1,2) [of xs sz True ys] inv bs sizes_ge_mono [of 48 _ 32]
      by (auto simp: heap_inv_def)
    ultimately show False
      using live_bounds [of xs _ _ ?H] live_bounds [of ys _ _ "?H + total xs + sz"] up off fit
      by cases fastforce+
  qed
  moreover have "unat n \<le> len" using len(1) round_up_ge [of 16 "unat n"] by simp
  ultimately show ?thesis by blast
qed (use al p in simp)

text \<open>\<open>kfree\<close> of a live block, in terms of the live set.\<close>

lemma kfree_live:
  assumes inv: "heap_inv L s" and link: "heap_link L" and lv: "(unat p, l) \<in> heap_live L s"
  shows "heap_inv L (kfree p s)" and "heap_live L (kfree p s) = heap_live L s - {(unat p, l)}"
    and "keeps (mm_mem s) (mm_mem (kfree p s)) (outside_heap L)"
    and "(q, k) \<in> heap_live L s - {(unat p, l)} \<Longrightarrow> q \<le> x \<Longrightarrow> x < q + k \<Longrightarrow>
      mm_mem (kfree p s) (of_nat x) = mm_mem s (of_nat x)"
proof -
  let ?H = "heap_base L"
  from lv obtain xs sz ys where bs: "heap_blocks L s = xs @ (sz, False) # ys"
    and p: "unat p = ?H + total xs + 32" and l: "l = sz - 32"
    by (auto simp: heap_live_def live_iff)
  have "p = of_nat (unat p)" by simp
  then have pw: "p = of_nat (?H + total xs + 32)" by (simp only: p)
  obtain m where m: "kfree p s = s\<lparr>mm_mem := m\<rparr>" "heap_inv L (s\<lparr>mm_mem := m\<rparr>)"
    "heap_blocks L (s\<lparr>mm_mem := m\<rparr>) = free_blocks xs sz ys"
    "keeps (mm_mem s) m (owned ?H (xs @ (sz, True) # ys))" "keeps (mm_mem s) m (outside_heap L)"
    by (rule kfree_ok [OF inv link bs pw])
  show "heap_inv L (kfree p s)" "keeps (mm_mem s) (mm_mem (kfree p s)) (outside_heap L)"
    using m by simp_all
  have ls: "heap_live L s = insert (unat p, l) (live ?H xs \<union> live (?H + total xs + sz) ys)"
    by (auto simp: heap_live_def bs live_append p l)
  have wf: "heap_wf (xs @ (sz, False) # ys)" using inv bs by (simp add: heap_inv_def)
  have "sizes_ge 32 xs" "sizes_ge 32 ys" "48 \<le> sz"
    using heap_wf_split(1,2,7) [OF wf] sizes_ge_mono [of 48 _ 32] by auto
  then have "(unat p, l) \<notin> live ?H xs \<union> live (?H + total xs + sz) ys"
    using live_bounds [of xs "unat p" l ?H] live_bounds [of ys "unat p" l "?H + total xs + sz"] p l
    by fastforce
  with ls show eq: "heap_live L (kfree p s) = heap_live L s - {(unat p, l)}"
    by (auto simp: heap_live_def m live_free_blocks)
  assume q: "(q, k) \<in> heap_live L s - {(unat p, l)}" and x: "q \<le> x" "x < q + k"
  with ls have "(q, k) \<in> live ?H (xs @ (sz, True) # ys)" by (auto simp: live_append)
  then have "{q..<q + k} \<subseteq> owned ?H (xs @ (sz, True) # ys)" by (rule live_owned)
  with m(4) x show "mm_mem (kfree p s) (of_nat x) = mm_mem s (of_nat x)"
    by (auto simp: keeps_def m(1))
qed

interpretation kheap: allocator "\<lambda>s. heap_link L \<and> heap_inv L s" "kmalloc L" kfree "heap_live L"
  mm_mem "\<lambda>m s. s\<lparr>mm_mem := m\<rparr>" "0xFFFFFFD0" for L
proof (unfold_locales, goal_cases)
  case (1 s n)
  then show ?case by (auto elim: kmalloc_cases [of L s n])
next
  case (2 s n s')
  then show ?case using first_fit_ptr [of L s] by (auto elim!: kmalloc_cases [of L s n])
next
  case (3 s n p s')
  then have "heap_inv L s" "heap_link L" "unat n \<le> 0xFFFFFFD0" by auto
  then show ?case by (cases rule: kmalloc_cases) (use 3 in auto)
next
  case (4 s n p s')
  then show ?case using kmalloc_live [of L s n p s'] by blast
next
  case (5 s n p s' q k x)
  then have "x \<in> owned (heap_base L) (heap_blocks L s)"
    using live_owned [of q k "heap_base L" "heap_blocks L s"] by (auto simp: heap_live_def)
  with 5 show ?case by (auto elim!: kmalloc_cases [of L s n] simp: keeps_def)
next
  case (6 s a l q k)
  then show ?case using heap_live_disjoint [of L s] by blast
next
  case (7 s a l)
  then show ?case using heap_live_bounds(2) [of L s a l] by (auto simp: heap_link_def)
next
  case (8 s p l)
  then show ?case using kfree_live(1) by blast
next
  case (9 s p l)
  then show ?case using kfree_live(2) by blast
next
  case (10 s p l q k x)
  then show ?case using kfree_live(4) by blast
next
  case (11 s)
  then show ?case by (simp add: kfree_def)
next
  case (12 s a l m)
  then show ?case using heap_write [of L s a l m] by (simp add: heap_live_def)
next
  case (13 m s)
  then show ?case by simp
qed

section \<open>kcalloc and krealloc\<close>

lemma mult_overflow_check:
  assumes "c \<noteq> (0 :: u32)"
  shows "n > 0xFFFFFFFF div c \<longleftrightarrow> 2 ^ 32 \<le> unat c * unat n"
proof -
  have "unat (0xFFFFFFFF div c) = 4294967295 div unat c" by (simp add: unat_div)
  then have "n > 0xFFFFFFFF div c \<longleftrightarrow> 4294967295 div unat c < unat n"
    by (simp add: word_less_nat_alt)
  also have "\<dots> \<longleftrightarrow> 4294967295 < unat n * unat c"
    using assms by (simp add: div_less_iff_less_mult unat_gt_0)
  also have "\<dots> \<longleftrightarrow> 2 ^ 32 \<le> unat c * unat n" by (auto simp: mult.commute)
  finally show ?thesis .
qed

lemma unat_dist_in:
  fixes x p :: u32
  assumes "unat p \<le> unat x"
  shows "unat (x - p) = unat x - unat p"
  using assms by (simp add: unat_diff_u32)

lemma unat_add_less:
  fixes x p :: u32
  assumes "unat (x - p) < k" and "unat p + k \<le> 2 ^ 32"
  shows "unat p \<le> unat x" "unat x < unat p + k"
  using assms unat_u32_less [of x] by (auto simp: unat_diff_u32 split: if_splits)

lemma memset_changes_only:
  assumes "unat p + unat n \<le> 2 ^ 32"
  shows "changes_only (unat p) (unat n) m (memset p c n m)"
  unfolding changes_only_def
proof (intro allI impI)
  fix x :: nat assume x: "x < 2 ^ 32" "x < unat p \<or> unat p + unat n \<le> x"
  have "\<not> unat (of_nat x - p) < unat n"
    using unat_add_less [of "of_nat x" p "unat n"] assms x by (auto simp: unat_of_nat_u32)
  then show "memset p c n m (of_nat x) = m (of_nat x)" by (simp add: memset_apply)
qed

text \<open>A block that \<open>kmalloc\<close> returned has room for the request below the end of memory.\<close>

lemma kmalloc_fits:
  assumes "heap_inv L s" and "heap_link L" and "unat n \<le> 0xFFFFFFD0"
    and "kmalloc L n s = Some (p, s')" and "p \<noteq> 0"
  shows "unat p + unat n \<le> 2 ^ 32"
proof -
  have hl: "heap_link L \<and> heap_inv L s" using assms by simp
  have "changes_only (unat p) (unat n) (mm_mem s') (mm_mem s')" by (simp add: changes_only_def)
  from kheap.alloc_fill [OF hl assms(3-5) this] obtain len
    where "unat n \<le> len" "unat p + len \<le> 2 ^ 32" by metis
  then show ?thesis by linarith
qed

lemma kcalloc_ok:
  assumes inv: "heap_inv L s" and link: "heap_link L" and n: "unat c * unat n \<le> 0xFFFFFFD0"
  obtains (null) "kcalloc L c n s = Some (0, s)"
  | (block) p s' len where "kcalloc L c n s = Some (p, s')" "p \<noteq> 0" "heap_inv L s'"
      "unat c * unat n \<le> len" "(unat p, len) \<notin> heap_live L s"
      "heap_live L s' = insert (unat p, len) (heap_live L s)"
      "\<And>i. i < unat c * unat n \<Longrightarrow> mm_mem s' (p + of_nat i) = 0"
      "\<And>q k x. (q, k) \<in> heap_live L s \<Longrightarrow> q \<le> x \<Longrightarrow> x < q + k \<Longrightarrow>
         mm_mem s' (of_nat x) = mm_mem s (of_nat x)"
proof -
  have chk: "\<not> (c \<noteq> 0 \<and> n > 0xFFFFFFFF div c)" using mult_overflow_check [of c n] n by auto
  have tot: "unat (c * n) = unat c * unat n" using n by (simp add: unat_word_ariths)
  then have req: "unat (c * n) \<le> 0xFFFFFFD0" using n by simp
  have hl: "heap_link L \<and> heap_inv L s" using inv link by simp
  obtain p s0 where km: "kmalloc L (c * n) s = Some (p, s0)"
    using kheap.alloc_returns [OF hl req] by auto
  show thesis
  proof (cases "p = 0")
    case True
    with km kheap.alloc_null [OF hl req] have "kcalloc L c n s = Some (0, s)"
      using chk by (auto simp: kcalloc_def)
    then show thesis by (rule null)
  next
    case False
    let ?m = "memset p 0 (c * n) (mm_mem s0)"
    have "changes_only (unat p) (unat (c * n)) (mm_mem s0) ?m"
      using kmalloc_fits [OF inv link req km False] by (rule memset_changes_only)
    from kheap.alloc_fill [OF hl req km False this] obtain len where
      len: "unat (c * n) \<le> len" "(unat p, len) \<notin> heap_live L s" "heap_inv L (s0\<lparr>mm_mem := ?m\<rparr>)"
        "heap_live L (s0\<lparr>mm_mem := ?m\<rparr>) = insert (unat p, len) (heap_live L s)"
      and keep: "\<And>q k x. (q, k) \<in> heap_live L s \<Longrightarrow> q \<le> x \<Longrightarrow> x < q + k \<Longrightarrow>
        ?m (of_nat x) = mm_mem s (of_nat x)" by metis
    have z: "?m (p + of_nat i) = 0" if "i < unat c * unat n" for i
    proof -
      have "i < 2 ^ 32" using that n by simp
      then show ?thesis using that tot by (simp add: memset_apply unat_of_nat_u32)
    qed
    show thesis
      by (rule block [of p "s0\<lparr>mm_mem := ?m\<rparr>" len]) (use False chk km len tot z keep in \<open>auto simp: kcalloc_def\<close>)
  qed
qed

text \<open>The header of a live block, as \<open>krealloc\<close> reads it.\<close>

lemma live_header:
  assumes "heap_inv L s" and "heap_link L" and "(unat p, l) \<in> heap_live L s"
  shows "hb_magic (read_block (mm_mem s) (payload_block p)) = BLOCK_MAGIC"
    and "hb_size (read_block (mm_mem s) (payload_block p)) - 32 = of_nat l" and "l < 2 ^ 32" and "p \<noteq> 0"
proof -
  let ?H = "heap_base L"
  from assms(3) obtain xs sz ys where bs: "heap_blocks L s = xs @ (sz, False) # ys"
    and p: "unat p = ?H + total xs + 32" and l: "l = sz - 32"
    by (auto simp: heap_live_def live_iff)
  have "p = of_nat (unat p)" by simp
  then have "payload_block p = of_nat (?H + total xs)" by (simp add: payload_block_def p)
  moreover have "heap_wf (xs @ (sz, False) # ys)" using assms(1) bs by (simp add: heap_inv_def)
  note w = heap_wf_split [OF this]
  ultimately show "hb_magic (read_block (mm_mem s) (payload_block p)) = BLOCK_MAGIC"
    "hb_size (read_block (mm_mem s) (payload_block p)) - 32 = of_nat l"
    using heap_split(2) [OF assms(1,2) bs] w(7) l by simp_all
  show "l < 2 ^ 32" using w(6) l by simp
  show "p \<noteq> 0" using p by auto
qed

lemma memcpy_disjoint:
  assumes "unat d + unat n \<le> 2 ^ 32" and "unat s + unat n \<le> 2 ^ 32"
    and "unat d + unat n \<le> unat s \<or> unat s + unat n \<le> unat d"
  shows "changes_only (unat d) (unat n) m (memcpy d s n m)"
    and "i < unat n \<Longrightarrow> memcpy d s n m (d + of_nat i) = m (s + of_nat i)"
proof -
  have dist: "unat n \<le> unat (d - s)" using assms by (auto simp: unat_diff_u32)
  show "changes_only (unat d) (unat n) m (memcpy d s n m)"
    unfolding changes_only_def
  proof (intro allI impI)
    fix x :: nat assume x: "x < 2 ^ 32" "x < unat d \<or> unat d + unat n \<le> x"
    have "\<not> unat (of_nat x - d) < unat n"
      using unat_add_less [of "of_nat x" d "unat n"] assms x by (auto simp: unat_of_nat_u32)
    then show "memcpy d s n m (of_nat x) = m (of_nat x)" using dist by (simp add: memcpy_apply)
  qed
  assume "i < unat n"
  moreover from this have "unat (of_nat i :: u32) = i"
    using unat_u32_less [of n] by (intro unat_of_nat_u32) linarith
  ultimately show "memcpy d s n m (d + of_nat i) = m (s + of_nat i)"
    using dist by (simp add: memcpy_apply)
qed

text \<open>The first half of a growing \<open>krealloc\<close>: a new block with a copy of the old contents.\<close>

lemma kmalloc_copy:
  assumes inv: "heap_inv L s" and link: "heap_link L" and lv: "(unat p, l) \<in> heap_live L s"
    and n: "unat n \<le> 0xFFFFFFD0" "l < unat n" and km: "kmalloc L n s = Some (p', s0)" and p': "p' \<noteq> 0"
  defines "s1 \<equiv> s0\<lparr>mm_mem := memcpy p' p (of_nat l) (mm_mem s0)\<rparr>"
  obtains len where "unat n \<le> len" "(unat p', len) \<notin> heap_live L s" "heap_inv L s1"
    "heap_live L s1 = insert (unat p', len) (heap_live L s)" "unat p' + len \<le> 2 ^ 32"
    "\<And>q k x. (q, k) \<in> heap_live L s \<Longrightarrow> q \<le> x \<Longrightarrow> x < q + k \<Longrightarrow> mm_mem s1 (of_nat x) = mm_mem s (of_nat x)"
    "\<And>i. i < l \<Longrightarrow> mm_mem s1 (p' + of_nat i) = mm_mem s (p + of_nat i)"
proof -
  let ?m = "memcpy p' p (of_nat l) (mm_mem s0)"
  have hl: "heap_link L \<and> heap_inv L s" using inv link by simp
  have ul: "unat (of_nat l :: u32) = l" by (rule unat_of_nat_u32 [OF live_header(3) [OF inv link lv]])
  have i0: "heap_link L \<and> heap_inv L s0" by (rule kheap.alloc_inv [OF hl n(1) km])
  obtain len0 where len0: "unat n \<le> len0" "(unat p', len0) \<notin> heap_live L s"
    "heap_live L s0 = insert (unat p', len0) (heap_live L s)"
    using kheap.alloc_live [OF hl n(1) km p'] by blast
  have in0: "(unat p, l) \<in> heap_live L s0" "(unat p', len0) \<in> heap_live L s0"
    "(unat p', len0) \<noteq> (unat p, l)" using len0 lv by auto
  have fits: "unat p' + l \<le> 2 ^ 32" "unat p + l \<le> 2 ^ 32"
    "unat p' + l \<le> unat p \<or> unat p + l \<le> unat p'"
    using kheap.live_bound [OF i0 in0(2)] kheap.live_bound [OF i0 in0(1)]
      kheap.live_disjoint [OF i0 in0(2) in0(1) in0(3)] len0(1) n(2) by auto
  have "changes_only (unat p') l (mm_mem s0) ?m"
    using memcpy_disjoint(1) [of p' "of_nat l" p "mm_mem s0"] fits ul by auto
  then have "changes_only (unat p') (unat n) (mm_mem s0) ?m"
    using n(2) by (auto simp: changes_only_def)
  from kheap.alloc_fill [OF hl n(1) km p' this] obtain len where
    len: "unat n \<le> len" "(unat p', len) \<notin> heap_live L s" "unat p' + len \<le> 2 ^ 32" "heap_inv L s1"
      "heap_live L s1 = insert (unat p', len) (heap_live L s)"
    and keep: "\<And>q k x. (q, k) \<in> heap_live L s \<Longrightarrow> q \<le> x \<Longrightarrow> x < q + k \<Longrightarrow>
      ?m (of_nat x) = mm_mem s (of_nat x)" unfolding s1_def by metis
  have copied: "mm_mem s1 (p' + of_nat i) = mm_mem s (p + of_nat i)" if "i < l" for i
  proof -
    have "?m (p' + of_nat i) = mm_mem s0 (p + of_nat i)"
      using memcpy_disjoint(2) [of p' "of_nat l" p i "mm_mem s0"] fits ul that by auto
    moreover have "mm_mem s0 (of_nat (unat p + i)) = mm_mem s (of_nat (unat p + i))"
      using that by (intro kheap.alloc_keeps [OF hl n(1) km lv]) auto
    ultimately show ?thesis by (simp add: s1_def)
  qed
  show thesis
    by (rule that [OF len(1,2,4,5,3)]) (use keep copied in \<open>auto simp: s1_def\<close>)
qed

lemma krealloc_grow:
  assumes inv: "heap_inv L s" and link: "heap_link L" and lv: "(unat p, l) \<in> heap_live L s"
    and n: "unat n \<le> 0xFFFFFFD0" "l < unat n"
  obtains (null) "krealloc L p n s = Some (0, s)"
  | (moved) p' s' len where "krealloc L p n s = Some (p', s')" "p' \<noteq> 0" "heap_inv L s'"
      "unat n \<le> len" "heap_live L s' = insert (unat p', len) (heap_live L s - {(unat p, l)})"
      "\<And>i. i < l \<Longrightarrow> mm_mem s' (p' + of_nat i) = mm_mem s (p + of_nat i)"
      "\<And>q k x. (q, k) \<in> heap_live L s - {(unat p, l)} \<Longrightarrow> q \<le> x \<Longrightarrow> x < q + k \<Longrightarrow>
         mm_mem s' (of_nat x) = mm_mem s (of_nat x)"
proof -
  note h = live_header [OF inv link lv]
  have hl: "heap_link L \<and> heap_inv L s" using inv link by simp
  have n0: "n \<noteq> 0" using n(2) by auto
  have big: "\<not> n \<le> of_nat l" using n(2) by (simp add: word_le_nat_alt unat_of_nat_u32 [OF h(3)])
  obtain p' s0 where km: "kmalloc L n s = Some (p', s0)"
    using kheap.alloc_returns [OF hl n(1)] by auto
  define s1 where "s1 = s0\<lparr>mm_mem := memcpy p' p (of_nat l) (mm_mem s0)\<rparr>"
  have kr: "krealloc L p n s = Some (if p' = 0 then (0, s0) else (p', kfree p s1))"
    using h n0 big km by (simp add: krealloc_def Let_def s1_def)
  show thesis
  proof (cases "p' = 0")
    case True
    with kr km kheap.alloc_null [OF hl n(1)] null show thesis by auto
  next
    case False
    from kmalloc_copy [OF inv link lv n km False] obtain len where
      len: "unat n \<le> len" "(unat p', len) \<notin> heap_live L s" "heap_inv L s1"
        "heap_live L s1 = insert (unat p', len) (heap_live L s)" "unat p' + len \<le> 2 ^ 32"
      and keep: "\<And>q k x. (q, k) \<in> heap_live L s \<Longrightarrow> q \<le> x \<Longrightarrow> x < q + k \<Longrightarrow>
        mm_mem s1 (of_nat x) = mm_mem s (of_nat x)"
      and copied: "\<And>i. i < l \<Longrightarrow> mm_mem s1 (p' + of_nat i) = mm_mem s (p + of_nat i)"
      unfolding s1_def by metis
    have i1: "heap_link L \<and> heap_inv L s1" and lv1: "(unat p, l) \<in> heap_live L s1"
      using link len(3,4) lv by simp_all
    have keep1: "mm_mem (kfree p s1) (of_nat x) = mm_mem s1 (of_nat x)"
      if "(q, k) \<in> insert (unat p', len) (heap_live L s) - {(unat p, l)}" "q \<le> x" "x < q + k" for q k x
      using kheap.free_keeps [OF i1 lv1 _ that(2,3)] that(1) len(4) by simp
    have ne: "(unat p', len) \<noteq> (unat p, l)" using len(2) lv by auto
    show thesis
    proof (rule moved [of p' "kfree p s1" len])
      show "heap_live L (kfree p s1) = insert (unat p', len) (heap_live L s - {(unat p, l)})"
        using kheap.free_live [OF i1 lv1] len(4) ne by auto
      show "mm_mem (kfree p s1) (p' + of_nat i) = mm_mem s (p + of_nat i)" if "i < l" for i
        using keep1 [of "unat p'" len "unat p' + i"] copied [OF that] that len(1) n(2) ne by simp
      show "mm_mem (kfree p s1) (of_nat x) = mm_mem s (of_nat x)"
        if "(q, k) \<in> heap_live L s - {(unat p, l)}" "q \<le> x" "x < q + k" for q k x
        using keep1 [of q k x] keep [of q k x] that by simp
    qed (use False kr len kheap.free_inv [OF i1 lv1] in simp_all)
  qed
qed

section \<open>What a successful \<open>kmalloc\<close> gives\<close>

lemma first_fit_aligned:
  assumes "heap_inv L s" and "heap_link L" and "first_fit n (heap_blocks L s) = Some (off, bs')"
  shows "16 dvd unat (of_nat (heap_base L + off + 32) :: u32)"
proof -
  from assms(3) obtain xs sz ys where bs: "heap_blocks L s = xs @ (sz, True) # ys"
    and off: "off = total xs" by (rule first_fit_SomeE)
  have "list_all (\<lambda>b. 16 dvd fst b) xs" using assms(1) bs by (simp add: heap_inv_def heap_wf_def)
  then have "16 dvd off" unfolding off by (rule total_dvd)
  then show ?thesis using first_fit_ptr(2) [OF assms] assms(2) by (simp add: heap_link_def)
qed

lemma kmalloc_block:
  assumes inv: "heap_inv L s" and link: "heap_link L" and n: "unat n \<le> 0xFFFFFFD0"
    and km: "kmalloc L n s = Some (p, s')" and p: "p \<noteq> 0"
  shows "\<exists>len\<ge>unat n. heap_live L s' = insert (unat p, len) (heap_live L s)
          \<and> heap_base L \<le> unat p \<and> unat p + len \<le> heap_base L + 524288
          \<and> (\<forall>(q, k) \<in> heap_live L s. q + k \<le> unat p \<or> unat p + len \<le> q)"
    and "\<forall>(q, k) \<in> heap_live L s. \<forall>x\<in>{q..<q + k}. mm_mem s' (of_nat x) = mm_mem s (of_nat x)"
    and "\<forall>x\<in>outside_heap L. mm_mem s' (of_nat x) = mm_mem s (of_nat x)"
    and "16 dvd unat p"
proof -
  have hl: "heap_link L \<and> heap_inv L s" using inv link by simp
  have inv': "heap_inv L s'" using kheap.alloc_inv [OF hl n km] by simp
  obtain len where len: "unat n \<le> len" "(unat p, len) \<notin> heap_live L s"
    "heap_live L s' = insert (unat p, len) (heap_live L s)"
    using kmalloc_live [OF inv link n km p] by blast
  then have "(unat p, len) \<in> heap_live L s'" by simp
  note b = heap_live_bounds [OF inv' this]
  have "q + k \<le> unat p \<or> unat p + len \<le> q" if "(q, k) \<in> heap_live L s" for q k
    using heap_live_disjoint [OF inv', of q k "unat p" len] len that by auto
  with len b show "\<exists>len\<ge>unat n. heap_live L s' = insert (unat p, len) (heap_live L s)
          \<and> heap_base L \<le> unat p \<and> unat p + len \<le> heap_base L + 524288
          \<and> (\<forall>(q, k) \<in> heap_live L s. q + k \<le> unat p \<or> unat p + len \<le> q)"
    by (intro exI [of _ len]) auto
  show "\<forall>(q, k) \<in> heap_live L s. \<forall>x\<in>{q..<q + k}. mm_mem s' (of_nat x) = mm_mem s (of_nat x)"
    using kheap.alloc_keeps [OF hl n km] by auto
  from inv link n show "\<forall>x\<in>outside_heap L. mm_mem s' (of_nat x) = mm_mem s (of_nat x)"
    by (cases rule: kmalloc_cases) (use km in \<open>auto simp: keeps_def\<close>)
  from inv link n show "16 dvd unat p"
    by (cases rule: kmalloc_cases) (use km p first_fit_aligned [OF inv link] in auto)
qed

text \<open>When \<open>kmalloc\<close> returns \<open>NULL\<close>.\<close>

lemma kmalloc_null_iff:
  assumes "heap_inv L s" and "heap_link L" and "unat n \<le> 0xFFFFFFD0" and "kmalloc L n s = Some (p, s')"
  shows "p = 0 \<longleftrightarrow>
    n = 0 \<or> (\<forall>(sz, fr) \<in> set (heap_blocks L s). fr \<longrightarrow> sz < round_up 16 (unat n) + 32)"
  using assms(1-3)
proof (cases rule: kmalloc_cases)
  case null
  then show ?thesis using assms(4) by (auto simp: first_fit_None_iff)
next
  case (block m off bs')
  have "\<not> (\<forall>(sz, fr) \<in> set (heap_blocks L s). fr \<longrightarrow> sz < round_up 16 (unat n) + 32)"
    using block(2) first_fit_None_iff [of "round_up 16 (unat n)" "heap_blocks L s"] by simp
  moreover have "p \<noteq> 0" using first_fit_ptr(3) [OF assms(1,2) block(2)] block(3) assms(4) by simp
  ultimately show ?thesis using block(1) by blast
qed

section \<open>Release after allocation\<close>

lemma kfree_kmalloc:
  assumes inv: "heap_inv L s" and link: "heap_link L" and n: "unat n \<le> 0xFFFFFFD0"
    and km: "kmalloc L n s = Some (p, s')" and p: "p \<noteq> 0"
  shows "heap_inv L (kfree p s')" and "heap_blocks L (kfree p s') = heap_blocks L s"
proof -
  from inv link n show "heap_blocks L (kfree p s') = heap_blocks L s"
  proof (cases rule: kmalloc_cases)
    case (block m off bs')
    let ?n = "round_up 16 (unat n)"
    from block(2) obtain xs sz ys where bs: "heap_blocks L s = xs @ (sz, True) # ys"
      and off: "off = total xs" and fit: "?n + 32 \<le> sz" and bs': "bs' = xs @ carve ?n sz @ ys"
      by (rule first_fit_SomeE)
    have "coalesced (xs @ (sz, True) # ys)" using inv bs by (simp add: heap_inv_def heap_wf_def)
    from free_carve [OF this fit] obtain c zs where
      c: "xs @ carve ?n sz @ ys = xs @ (c, False) # zs" "free_blocks xs c zs = xs @ (sz, True) # ys"
      by blast
    have s': "s' = s\<lparr>mm_mem := m\<rparr>" "p = of_nat (heap_base L + total xs + 32)"
      using block(3) km off by auto
    have "heap_blocks L s' = xs @ (c, False) # zs" using block(5) bs' c(1) s'(1) by simp
    from kfree_ok [OF _ link this s'(2)] block(4) s'(1) obtain m' where
      "kfree p s' = s'\<lparr>mm_mem := m'\<rparr>" "heap_blocks L (s'\<lparr>mm_mem := m'\<rparr>) = free_blocks xs c zs" by metis
    then show ?thesis using c(2) bs by simp
  qed (use km p in simp)
  obtain len where "(unat p, len) \<in> heap_live L s'"
    using kmalloc_live [OF inv link n km p] by blast
  moreover have "heap_inv L s'" using kheap.alloc_inv [of L s n p s'] inv link n km by simp
  ultimately show "heap_inv L (kfree p s')" using kfree_live(1) link by blast
qed

end
