(* ===== verification/Heap_Props.thy ===== *)
theory Heap_Props
  imports Heap_Api
begin

text \<open>
  The properties of the kernel heap, with witnesses on the heap that \<open>heap_init\<close> makes of
  a zeroed memory with \<open>g_heap\<close> at \<open>0x200000\<close>.
\<close>

section \<open>A concrete heap\<close>

definition wit_link :: link_map where
  "wit_link = \<lparr>g_heap_at = 0x200000, g_page_directory_at = 0x180000, g_page_tables_at = 0x181000,
     kernel_end_at = 0x300000\<rparr>"

definition wit_heap :: mm where
  "wit_heap = heap_init wit_link mm_boot"

lemma wit_link_ok: "heap_link wit_link"
  by (simp add: heap_link_def heap_base_def wit_link_def)

lemma wit_base: "heap_base wit_link = 0x200000"
  by (simp add: heap_base_def wit_link_def)

lemma wit_heap_ok: "heap_inv wit_link wit_heap" "heap_blocks wit_link wit_heap = [(524288, True)]"
  "heap_live wit_link wit_heap = {}"
  using heap_init_ok [OF wit_link_ok, of mm_boot]
  by (simp_all add: wit_heap_def mm_boot_def heap_live_def)

text \<open>The first request on the concrete heap gets the first payload address.\<close>

lemma wit_kmalloc:
  obtains s where "kmalloc wit_link 100 wit_heap = Some (0x200020, s)" "heap_inv wit_link s"
    "heap_blocks wit_link s = [(144, False), (524144, True)]" "heap_live wit_link s = {(0x200020, 112)}"
proof -
  have "first_fit (round_up 16 (unat (100 :: u32))) (heap_blocks wit_link wit_heap)
      = Some (0, [(144, False), (524144, True)])"
    by (simp add: wit_heap_ok round_up_def carve_def)
  from kmalloc_some [OF wit_heap_ok(1) wit_link_ok _ _ this] obtain m where
    "kmalloc wit_link 100 wit_heap = Some (of_nat (heap_base wit_link + 0 + 32), wit_heap\<lparr>mm_mem := m\<rparr>)"
    "heap_inv wit_link (wit_heap\<lparr>mm_mem := m\<rparr>)"
    "heap_blocks wit_link (wit_heap\<lparr>mm_mem := m\<rparr>) = [(144, False), (524144, True)]" by auto
  then show thesis by (intro that [of "wit_heap\<lparr>mm_mem := m\<rparr>"]) (simp_all add: wit_base heap_live_def)
qed

section \<open>Properties\<close>

text \<open>
  C2: \<open>kmalloc\<close> always returns. It returns \<open>NULL\<close> and changes nothing exactly when the
  request is zero or no free block has room for the request rounded up to 16 and a
  32-byte header. Otherwise it returns a 16-byte aligned pointer inside \<open>g_heap\<close> to a
  fresh block of at least the requested length that overlaps no live block, keeps the heap
  invariant, and changes neither the contents of a live block nor any byte outside
  \<open>g_heap\<close>. (Requests above \<open>0xFFFFFFD0\<close> are excluded: for them the rounding wraps.)
\<close>

theorem kmalloc_correct:
  assumes "heap_link L" and "heap_inv L s" and "unat n \<le> 0xFFFFFFD0"
  shows "\<exists>p s'. kmalloc L n s = Some (p, s') \<and> heap_inv L s' \<and>
    (p = 0 \<longleftrightarrow> n = 0 \<or> (\<forall>(sz, fr) \<in> set (heap_blocks L s). fr \<longrightarrow> sz < round_up 16 (unat n) + 32)) \<and>
    (if p = 0 then s' = s
     else 16 dvd unat p \<and>
       (\<exists>len\<ge>unat n. heap_live L s' = insert (unat p, len) (heap_live L s)
          \<and> heap_base L \<le> unat p \<and> unat p + len \<le> heap_base L + 524288
          \<and> (\<forall>(q, k) \<in> heap_live L s. q + k \<le> unat p \<or> unat p + len \<le> q))
       \<and> (\<forall>(q, k) \<in> heap_live L s. \<forall>x\<in>{q..<q + k}. mm_mem s' (of_nat x) = mm_mem s (of_nat x))
       \<and> (\<forall>x\<in>outside_heap L. mm_mem s' (of_nat x) = mm_mem s (of_nat x)))"
proof -
  obtain p s' where km: "kmalloc L n s = Some (p, s')"
    using kheap.alloc_returns [of L s n] assms by auto
  show ?thesis
    using km kheap.alloc_inv [OF _ assms(3) km] kheap.alloc_null [of L s n s'] assms
      kmalloc_null_iff [OF assms(2,1,3) km] kmalloc_block [OF assms(2,1,3) km]
    by (intro exI [of _ p] exI [of _ s'] conjI) (simp_all split: if_split)
qed

theorem kmalloc_correct_witness:
  "unat (100 :: u32) \<le> 0xFFFFFFD0 \<and> (\<exists>s'. kmalloc wit_link 100 wit_heap = Some (0x200020, s') \<and>
     heap_inv wit_link s' \<and> (\<exists>len\<ge>100. heap_live wit_link s' = {(0x200020, len)}))"
proof -
  have n: "unat (100 :: u32) \<le> 0xFFFFFFD0" by simp
  obtain s where "kmalloc wit_link 100 wit_heap = Some (0x200020, s)" by (rule wit_kmalloc)
  with kmalloc_correct [OF wit_link_ok wit_heap_ok(1) n] n show ?thesis
    by (auto simp: wit_heap_ok split: if_splits)
qed

text \<open>
  C26: Freeing what \<open>kmalloc\<close> has just returned restores the heap: the block list is the one
  before the allocation (the split is undone by the merge), so an allocation followed by
  its release neither leaks nor fragments.
\<close>

theorem kfree_kmalloc_roundtrip:
  assumes "heap_link L" and "heap_inv L s" and "unat n \<le> 0xFFFFFFD0"
    and "kmalloc L n s = Some (p, s')" and "p \<noteq> 0"
  shows "heap_inv L (kfree p s') \<and> heap_blocks L (kfree p s') = heap_blocks L s"
  using kfree_kmalloc [OF assms(2,1,3-5)] by simp

theorem kfree_kmalloc_roundtrip_witness:
  "\<exists>s'. kmalloc wit_link 100 wit_heap = Some (0x200020, s') \<and> heap_blocks wit_link s' \<noteq> [(524288, True)]
     \<and> heap_blocks wit_link (kfree 0x200020 s') = [(524288, True)]"
proof -
  obtain s where s: "kmalloc wit_link 100 wit_heap = Some (0x200020, s)"
    "heap_blocks wit_link s = [(144, False), (524144, True)]" by (rule wit_kmalloc)
  have "heap_blocks wit_link (kfree 0x200020 s) = [(524288, True)]"
    using kfree_kmalloc_roundtrip [OF wit_link_ok wit_heap_ok(1) _ s(1)] by (simp add: wit_heap_ok)
  with s show ?thesis by simp
qed

text \<open>
  C3: \<open>kfree\<close> of a live block removes exactly that block from the live set, keeps the heap
  invariant (in particular no two neighbouring blocks are left free), and changes neither
  the contents of any other live block nor a byte outside \<open>g_heap\<close>.
\<close>

theorem kfree_correct:
  assumes "heap_link L" and "heap_inv L s" and "(unat p, l) \<in> heap_live L s"
  shows "heap_inv L (kfree p s) \<and> heap_live L (kfree p s) = heap_live L s - {(unat p, l)}
    \<and> coalesced (heap_blocks L (kfree p s))
    \<and> (\<forall>(q, k) \<in> heap_live L s - {(unat p, l)}. \<forall>x\<in>{q..<q + k}.
         mm_mem (kfree p s) (of_nat x) = mm_mem s (of_nat x))
    \<and> (\<forall>x\<in>outside_heap L. mm_mem (kfree p s) (of_nat x) = mm_mem s (of_nat x))"
proof -
  note k = kfree_live [OF assms(2,1,3)]
  have "\<forall>(q, k) \<in> heap_live L s - {(unat p, l)}. \<forall>x\<in>{q..<q + k}.
         mm_mem (kfree p s) (of_nat x) = mm_mem s (of_nat x)"
    by (intro ball_pairI ballI, rule k(4)) (assumption | simp)+
  moreover have "coalesced (heap_blocks L (kfree p s))"
    using k(1) by (simp add: heap_inv_def heap_wf_def)
  ultimately show ?thesis using k(1-3) by (simp add: keeps_def)
qed

theorem kfree_correct_witness:
  "\<exists>s. kmalloc wit_link 100 wit_heap = Some (0x200020, s) \<and> (0x200020, 112) \<in> heap_live wit_link s
     \<and> heap_live wit_link (kfree 0x200020 s) = {}"
proof -
  obtain s where s: "kmalloc wit_link 100 wit_heap = Some (0x200020, s)" "heap_inv wit_link s"
    "heap_live wit_link s = {(0x200020, 112)}" by (rule wit_kmalloc)
  have "(unat (0x200020 :: u32), 112) \<in> heap_live wit_link s" using s(3) by simp
  from kfree_correct [OF wit_link_ok s(2) this] s show ?thesis by auto
qed

section \<open>Every reachable heap\<close>

text \<open>
  The heaps the kernel can reach: initialisation, then any sequence of calls with requests
  below the wrap-around, releases and reallocations of live blocks, and writes of the
  owners inside their blocks.
\<close>

inductive heap_reach :: "link_map \<Rightarrow> mm \<Rightarrow> bool" for L where
  init: "\<not> g_heap_ready s \<Longrightarrow> heap_reach L (heap_init L s)"
| malloc: "heap_reach L s \<Longrightarrow> unat n \<le> 0xFFFFFFD0 \<Longrightarrow> kmalloc L n s = Some (p, s') \<Longrightarrow> heap_reach L s'"
| calloc: "heap_reach L s \<Longrightarrow> unat c * unat n \<le> 0xFFFFFFD0 \<Longrightarrow> kcalloc L c n s = Some (p, s') \<Longrightarrow>
    heap_reach L s'"
| realloc: "heap_reach L s \<Longrightarrow> p = 0 \<or> (\<exists>l. (unat p, l) \<in> heap_live L s) \<Longrightarrow> unat n \<le> 0xFFFFFFD0 \<Longrightarrow>
    krealloc L p n s = Some (p', s') \<Longrightarrow> heap_reach L s'"
| release: "heap_reach L s \<Longrightarrow> p = 0 \<or> (\<exists>l. (unat p, l) \<in> heap_live L s) \<Longrightarrow> heap_reach L (kfree p s)"
| owner_write: "heap_reach L s \<Longrightarrow> (a, l) \<in> heap_live L s \<Longrightarrow> changes_only a l (mm_mem s) m \<Longrightarrow>
    heap_reach L (s\<lparr>mm_mem := m\<rparr>)"

lemma krealloc_inv:
  assumes inv: "heap_inv L s" and link: "heap_link L" and n: "unat n \<le> 0xFFFFFFD0"
    and p: "p = 0 \<or> (\<exists>l. (unat p, l) \<in> heap_live L s)" and kr: "krealloc L p n s = Some (p', s')"
  shows "heap_inv L s'"
proof -
  have hl: "heap_link L \<and> heap_inv L s" using inv link by simp
  consider "p = 0" | l where "p \<noteq> 0" "(unat p, l) \<in> heap_live L s" using p by blast
  then show ?thesis
  proof cases
    case 1
    with kr kheap.alloc_inv [OF hl n] show ?thesis by (simp add: krealloc_def)
  next
    case (2 l)
    note h = live_header [OF inv link 2(2)]
    consider "n = 0" | "n \<noteq> 0" "unat n \<le> l" | "l < unat n" by linarith
    then show ?thesis
    proof cases
      case 1
      with kr 2 kfree_live(1) [OF inv link 2(2)] show ?thesis by (simp add: krealloc_def)
    next
      case 2
      then have "n \<le> of_nat l" by (simp add: word_le_nat_alt unat_of_nat_u32 [OF h(3)])
      with 2 kr h inv \<open>p \<noteq> 0\<close> show ?thesis by (simp add: krealloc_def Let_def)
    next
      case 3
      from inv link 2(2) n 3 show ?thesis by (cases rule: krealloc_grow) (use kr inv in auto)
    qed
  qed
qed

lemma heap_reach_inv:
  assumes "heap_link L" and "heap_reach L s"
  shows "heap_inv L s"
  using assms(2)
proof induction
  case (init s)
  then show ?case using heap_init_ok(1) [OF assms(1)] by simp
next
  case (malloc s n p s')
  then show ?case using kheap.alloc_inv [of L s n p s'] assms(1) by simp
next
  case (calloc s c n p s')
  from calloc.IH assms(1) calloc.hyps(2) show ?case
    by (cases rule: kcalloc_ok) (use calloc in auto)
next
  case (realloc s p n p' s')
  then show ?case using krealloc_inv assms(1) by blast
next
  case (release s p)
  then show ?case using kfree_live(1) assms(1) kheap.free_null by metis
next
  case (owner_write s a l m)
  then show ?case using heap_write(1) assms(1) by blast
qed

text \<open>
  C1: In every reachable heap the blocks tile \<open>g_heap\<close> exactly, no two neighbours are
  both free, and the live blocks are pairwise disjoint and lie inside \<open>g_heap\<close>, whatever
  sequence of \<open>kmalloc\<close>, \<open>kcalloc\<close>, \<open>krealloc\<close>, \<open>kfree\<close> and owner writes led there.
\<close>

theorem heap_always_consistent:
  assumes "heap_link L" and "heap_reach L s"
  shows "sum_list (map fst (heap_blocks L s)) = 524288 \<and> coalesced (heap_blocks L s)
    \<and> (\<forall>(q, k) \<in> heap_live L s. heap_base L \<le> q \<and> q + k \<le> heap_base L + 524288)
    \<and> (\<forall>(q, k) \<in> heap_live L s. \<forall>(r, j) \<in> heap_live L s.
         (q, k) \<noteq> (r, j) \<longrightarrow> q + k \<le> r \<or> r + j \<le> q)"
proof -
  have inv: "heap_inv L s" using assms by (rule heap_reach_inv)
  have "\<forall>(q, k) \<in> heap_live L s. heap_base L \<le> q \<and> q + k \<le> heap_base L + 524288"
    using heap_live_bounds [OF inv] by fastforce
  moreover have "\<forall>(q, k) \<in> heap_live L s. \<forall>(r, j) \<in> heap_live L s.
      (q, k) \<noteq> (r, j) \<longrightarrow> q + k \<le> r \<or> r + j \<le> q"
    by (intro ball_pairI impI, rule heap_live_disjoint [OF inv])
  ultimately show ?thesis using inv by (simp add: heap_inv_def heap_wf_def)
qed

theorem heap_always_consistent_witness:
  "\<exists>s. heap_reach wit_link s \<and> heap_live wit_link s = {(0x200020, 112)}
     \<and> sum_list (map fst (heap_blocks wit_link s)) = 524288"
proof -
  obtain s where s: "kmalloc wit_link 100 wit_heap = Some (0x200020, s)"
    "heap_live wit_link s = {(0x200020, 112)}" by (rule wit_kmalloc)
  have "heap_reach wit_link wit_heap"
    unfolding wit_heap_def by (rule heap_reach.init) (simp add: mm_boot_def)
  then have "heap_reach wit_link s" by (rule heap_reach.malloc [OF _ _ s(1)]) simp
  with heap_always_consistent [OF wit_link_ok this] s show ?thesis by blast
qed

section \<open>kcalloc and krealloc\<close>

text \<open>
  C27: \<open>kcalloc\<close> refuses every request whose product does not fit in 32 bits: it returns
  \<open>NULL\<close> and leaves the state alone; a request that fits and succeeds yields a live block
  of at least \<open>count * size\<close> bytes, all of them zero, with every other live block intact.
\<close>

theorem kcalloc_correct:
  assumes "heap_link L" and "heap_inv L s" and "unat c * unat n \<le> 0xFFFFFFD0 \<or> 2 ^ 32 \<le> unat c * unat n"
  shows "\<exists>p s'. kcalloc L c n s = Some (p, s') \<and> heap_inv L s' \<and>
    (2 ^ 32 \<le> unat c * unat n \<longrightarrow> p = 0) \<and>
    (if p = 0 then s' = s
     else (\<exists>len\<ge>unat c * unat n. heap_live L s' = insert (unat p, len) (heap_live L s))
       \<and> (\<forall>i<unat c * unat n. mm_mem s' (p + of_nat i) = 0)
       \<and> (\<forall>(q, k) \<in> heap_live L s. \<forall>x\<in>{q..<q + k}. mm_mem s' (of_nat x) = mm_mem s (of_nat x)))"
proof (cases "2 ^ 32 \<le> unat c * unat n")
  case True
  then have "c \<noteq> 0" by auto
  with True have "kcalloc L c n s = Some (0, s)"
    using mult_overflow_check [of c n] by (simp add: kcalloc_def)
  with assms(2) show ?thesis by simp
next
  case False
  with assms(3) have n: "unat c * unat n \<le> 0xFFFFFFD0" by simp
  from assms(2,1) n show ?thesis
  proof (cases rule: kcalloc_ok)
    case null
    then show ?thesis using assms(2) False by simp
  next
    case (block p s' len)
    have "\<forall>(q, k) \<in> heap_live L s. \<forall>x\<in>{q..<q + k}. mm_mem s' (of_nat x) = mm_mem s (of_nat x)"
      by (intro ball_pairI ballI, rule block(8)) (assumption | simp)+
    with block False show ?thesis by (intro exI [of _ p] exI [of _ s']) auto
  qed
qed

theorem kcalloc_correct_witness:
  "unat (4 :: u32) * unat (0x40000000 :: u32) = 2 ^ 32 \<and> kcalloc wit_link 4 0x40000000 wit_heap = Some (0, wit_heap)
     \<and> (\<exists>p s'. kcalloc wit_link 4 8 wit_heap = Some (p, s') \<and> heap_inv wit_link s')"
  using kcalloc_correct [OF wit_link_ok wit_heap_ok(1), of 4 "0x40000000"]
    kcalloc_correct [OF wit_link_ok wit_heap_ok(1), of 4 8]
  by auto

text \<open>
  C25: \<open>krealloc\<close> that must grow a live block either fails with \<open>NULL\<close> and leaves the old
  block alone, or returns a new live block of at least the new size that begins with the
  whole contents of the old one; the old block is released and every other live block is
  intact.
\<close>

theorem krealloc_preserves_contents:
  assumes "heap_link L" and "heap_inv L s" and "(unat p, l) \<in> heap_live L s"
    and "l < unat n" and "unat n \<le> 0xFFFFFFD0"
  shows "\<exists>p' s'. krealloc L p n s = Some (p', s') \<and> heap_inv L s' \<and>
    (if p' = 0 then s' = s
     else (\<exists>len\<ge>unat n. heap_live L s' = insert (unat p', len) (heap_live L s - {(unat p, l)}))
       \<and> (\<forall>i<l. mm_mem s' (p' + of_nat i) = mm_mem s (p + of_nat i))
       \<and> (\<forall>(q, k) \<in> heap_live L s - {(unat p, l)}. \<forall>x\<in>{q..<q + k}.
            mm_mem s' (of_nat x) = mm_mem s (of_nat x)))"
  using assms(2,1,3,5,4)
proof (cases rule: krealloc_grow)
  case null
  then show ?thesis using assms(2) by simp
next
  case (moved p' s' len)
  have "\<forall>(q, k) \<in> heap_live L s - {(unat p, l)}. \<forall>x\<in>{q..<q + k}.
      mm_mem s' (of_nat x) = mm_mem s (of_nat x)"
    by (intro ball_pairI ballI, rule moved(7)) (assumption | simp)+
  with moved show ?thesis by (intro exI [of _ p'] exI [of _ s']) auto
qed

theorem krealloc_preserves_contents_witness:
  "\<exists>s p' s'. kmalloc wit_link 100 wit_heap = Some (0x200020, s) \<and>
     krealloc wit_link 0x200020 200 s = Some (p', s') \<and> heap_inv wit_link s'"
proof -
  obtain s where s: "kmalloc wit_link 100 wit_heap = Some (0x200020, s)" "heap_inv wit_link s"
    "heap_live wit_link s = {(0x200020, 112)}" by (rule wit_kmalloc)
  have "(unat (0x200020 :: u32), 112) \<in> heap_live wit_link s" using s(3) by simp
  from krealloc_preserves_contents [OF wit_link_ok s(2) this, of 200] s(1) show ?thesis by auto
qed

section \<open>The wrap-around of large requests\<close>

lemma align_up_wraps:
  assumes "0xFFFFFFF1 \<le> unat n"
  shows "align_up n 16 = 0"
proof -
  have "unat (n + 15) = unat n + 15 - 2 ^ 32"
    using assms unat_u32_less [of n] by (simp add: unat_word_ariths mod_if)
  then have "unat (n + 15) div 16 = 0" using unat_u32_less [of n] by simp
  moreover have "align_up n 16 = (n + 15) AND NOT (mask 4)"
    by (simp add: align_up_def mask_eq_exp_minus_1 add.commute)
  ultimately have "unat (align_up n 16) = 0" by (simp add: unat_and_not_mask)
  then show ?thesis by (simp add: unat_eq_zero)
qed

text \<open>
  For a request above \<open>0xFFFFFFF0\<close> bytes the rounding in \<open>align_up\<close> wraps to zero. On a
  fresh heap \<open>kmalloc\<close> then does not fail: it returns a non-null pointer to a block whose
  payload has length zero, although almost 4 GiB were asked for.
\<close>

theorem kmalloc_huge_request_succeeds:
  assumes "heap_link L" and "\<not> g_heap_ready s" and "0xFFFFFFF1 \<le> unat n"
  shows "\<exists>p s'. kmalloc L n s = Some (p, s') \<and> p \<noteq> 0 \<and> heap_live L s' = {(unat p, 0)}"
proof -
  let ?s = "heap_init L s" and ?H = "heap_base L"
  note h = heap_init_ok [OF assms(1,2)]
  have H: "0 < ?H" "?H + 524288 \<le> 2 ^ 32" using assms(1) by (auto simp: heap_link_def)
  have ch: "chain (mm_mem ?s) 0 ?H [(524288, True)] 0" and rdy: "g_heap_head ?s = g_heap_at L"
    using h by (auto simp: heap_inv_def)
  define m where "m = put_free (of_nat ?H) 0 (split_block (of_nat ?H) (of_nat 0) (mm_mem ?s))"
  have scan: "kmalloc_scan 0 32 (g_heap_at L) (mm_mem ?s) = Some (of_nat (?H + 32), m)"
    using kmalloc_scan_first_fit [OF ch, of 0] H by (simp add: m_def carve_def)
  have "n \<noteq> 0" using assms(3) by auto
  then have km: "kmalloc L n s = Some (of_nat (?H + 32), ?s\<lparr>mm_mem := m\<rparr>)"
    using assms(2) scan rdy align_up_wraps [OF assms(3)] by (simp add: kmalloc_def)
  have "chain m 0 ?H (carve 0 524288 @ []) 0"
    using take_block(1) [OF ch, of 0] H by (simp add: m_def)
  then have "chain m 0 ?H [(32, False), (524256, True)] 0" by (simp add: carve_def)
  then have "walk 10923 m (of_nat ?H) = [(32, False), (524256, True)]"
    using H by (intro walk_chain) auto
  then have "heap_live L (?s\<lparr>mm_mem := m\<rparr>) = {(?H + 32, 0)}"
    by (simp add: heap_live_def heap_blocks_def)
  moreover have "unat (of_nat (?H + 32) :: u32) = ?H + 32" using H by (intro unat_of_nat_u32) simp
  moreover have "(of_nat (?H + 32) :: u32) \<noteq> 0" using H by (subst of_nat_u32_eq_0_iff) simp_all
  ultimately have "(of_nat (?H + 32) :: u32) \<noteq> 0 \<and>
      heap_live L (?s\<lparr>mm_mem := m\<rparr>) = {(unat (of_nat (?H + 32) :: u32), 0)}" by (simp del: of_nat_add)
  with km show ?thesis by blast
qed

theorem kmalloc_huge_request_succeeds_witness:
  "\<exists>p s'. kmalloc wit_link 0xFFFFFFFF mm_boot = Some (p, s') \<and> p \<noteq> 0 \<and> heap_live wit_link s' = {(unat p, 0)}"
  by (rule kmalloc_huge_request_succeeds [OF wit_link_ok]) (simp_all add: mm_boot_def)

text \<open>
  Between \<open>0xFFFFFFD1\<close> and \<open>0xFFFFFFE0\<close> it is the sum of payload and header that wraps to zero.
  Every free block is then large enough, and \<open>split_block\<close> cuts it at distance 0: on a fresh
  heap the only block becomes its own successor with size 0, \<open>kmalloc\<close> hands it out, and every
  later request follows that link for ever.
\<close>

lemma align_up_top:
  assumes "0xFFFFFFD1 \<le> unat n" and "unat n \<le> 0xFFFFFFE0"
  shows "align_up n 16 = 0xFFFFFFE0"
proof -
  have "unat (n + 15) = unat n + 15" using assms by (simp add: unat_word_ariths)
  then have "unat (n + 15) div 16 = 0xFFFFFFE" using assms by simp
  moreover have "align_up n 16 = (n + 15) AND NOT (mask 4)"
    by (simp add: align_up_def mask_eq_exp_minus_1 add.commute)
  ultimately have "unat (align_up n 16) = unat (0xFFFFFFE0 :: u32)" by (simp add: unat_and_not_mask)
  then show ?thesis by (rule unsigned_word_eqI)
qed

lemma kmalloc_scan_loops:
  assumes "h \<noteq> 0" and "hb_free (read_block m h) = 0" and "hb_next (read_block m h) = h"
  shows "kmalloc_scan a b h m = None"
proof (rule ccontr)
  assume "kmalloc_scan a b h m \<noteq> None"
  then obtain y where "kmalloc_scan a b h m = Some y" by blast
  then have "\<not> (h = h \<and> m = m)"
    by (rule kmalloc_scan.raw_induct [where P = "\<lambda>_ _ c m' _. \<not> (c = h \<and> m' = m)", rotated])
      (use assms in \<open>force split: if_splits\<close>)
  then show False by simp
qed

theorem kmalloc_self_links:
  assumes "heap_link L" and "\<not> g_heap_ready s" and n: "0xFFFFFFD1 \<le> unat n" "unat n \<le> 0xFFFFFFE0"
  shows "\<exists>p s'. kmalloc L n s = Some (p, s') \<and> p \<noteq> 0 \<and> hb_next (read_block (mm_mem s') (g_heap_at L)) = g_heap_at L \<and>
    (\<forall>k. k \<noteq> 0 \<longrightarrow> kmalloc L k s' = None)"
proof -
  let ?s = "heap_init L s" and ?h = "g_heap_at L" and ?m = "mm_mem (heap_init L s)"
  have H: "0 < heap_base L" "heap_base L + 524288 \<le> 2 ^ 32" using assms(1) by (auto simp: heap_link_def)
  have h: "?h \<noteq> 0" "g_heap_ready ?s" "g_heap_head ?s = ?h" using H(1) assms(2) by (auto simp: heap_base_def heap_init_def Let_def)
  have r: "read_block ?m ?h = \<lparr>hb_magic = BLOCK_MAGIC, hb_size = HEAP_SIZE, hb_free = 1, hb_next = 0, hb_prev = 0\<rparr>"
    using assms(2) by (simp add: heap_init_def Let_def)
  let ?m' = "put_free ?h 0 (split_block ?h 0xFFFFFFE0 ?m)"
  have au: "align_up 20 16 = (32 :: u32)" "align_up 0xFFFFFFE0 16 = (0xFFFFFFE0 :: u32)" by (simp_all add: align_up_def)
  have z: "(0x100000000 :: u32) = 0" by simp
  have r': "hb_free (read_block ?m' ?h) = 0" "hb_next (read_block ?m' ?h) = ?h"
    by (simp_all add: split_block_def r au z Let_def)
  have "n \<noteq> 0" using n by auto
  then have "kmalloc L n s = Some (block_payload ?h, ?s\<lparr>mm_mem := ?m'\<rparr>)"
    using assms(2) h r by (simp add: kmalloc_def align_up_top [OF n] au z kmalloc_scan.simps Let_def)
  moreover have "block_payload ?h \<noteq> 0"
  proof -
    have "unat ?h + 32 < 2 ^ 32" using H by (simp add: heap_base_def)
    then have "unat (?h + 32) = unat ?h + 32" by (simp add: unat_word_ariths)
    then show ?thesis by (auto simp: block_payload_def au)
  qed
  moreover have "kmalloc L k (?s\<lparr>mm_mem := ?m'\<rparr>) = None" if "k \<noteq> 0" for k
    using that h kmalloc_scan_loops [OF h(1) r'(1,2)] by (simp add: kmalloc_def)
  ultimately show ?thesis using r'(2) by auto
qed

theorem kmalloc_self_links_witness:
  "\<exists>p s'. kmalloc wit_link 0xFFFFFFE0 mm_boot = Some (p, s') \<and> p \<noteq> 0 \<and> kmalloc wit_link 16 s' = None"
proof -
  have "\<exists>p s'. kmalloc wit_link 0xFFFFFFE0 mm_boot = Some (p, s') \<and> p \<noteq> 0 \<and>
      hb_next (read_block (mm_mem s') (g_heap_at wit_link)) = g_heap_at wit_link \<and> (\<forall>k. k \<noteq> 0 \<longrightarrow> kmalloc wit_link k s' = None)"
    by (rule kmalloc_self_links [OF wit_link_ok]) (simp_all add: mm_boot_def)
  then show ?thesis by auto
qed

end
