(* ===== verification/Frame_Pool.thy ===== *)
theory Frame_Pool
  imports Kernel_Prelude
begin

text \<open>
  The contract of the physical frame allocator, as its clients (\<open>page_map\<close> and the task
  code) rely on it: allocation takes a free frame and says so with its address, \<open>0\<close>
  means that nothing is free, and releasing a frame makes it free again.

  From the laws alone: whatever sequence of allocations and releases the clients make,
  no frame is handed to two holders, and every frame is either free or held.
\<close>

locale frame_pool =
  fixes inv :: "'s \<Rightarrow> bool"
    and alloc :: "'s \<Rightarrow> u32 \<times> 's"
    and release :: "u32 \<Rightarrow> 's \<Rightarrow> 's"
    and free_set :: "'s \<Rightarrow> nat set"
    and count :: "'s \<Rightarrow> nat"
  assumes alloc_empty: "inv s \<Longrightarrow> free_set s = {} \<Longrightarrow> alloc s = (0, s)"
    and alloc_takes: "inv s \<Longrightarrow> free_set s \<noteq> {} \<Longrightarrow> alloc s = (p, s') \<Longrightarrow>
      p = of_nat (4096 * Min (free_set s)) \<and> inv s' \<and> free_set s' = free_set s - {Min (free_set s)}
      \<and> count s' = count s"
    and release_gives: "inv s \<Longrightarrow> 0 < f \<Longrightarrow> f < count s \<Longrightarrow>
      inv (release (of_nat (4096 * f)) s) \<and> free_set (release (of_nat (4096 * f)) s) = insert f (free_set s)
      \<and> count (release (of_nat (4096 * f)) s) = count s"
    and free_finite: "inv s \<Longrightarrow> finite (free_set s)"
    and free_range: "inv s \<Longrightarrow> f \<in> free_set s \<Longrightarrow> 0 < f \<and> f < count s"
    and count_bound: "inv s \<Longrightarrow> 4096 * count s \<le> 2 ^ 32"
begin

lemma alloc_cases:
  assumes "inv s"
  obtains (empty) "free_set s = {}" "alloc s = (0, s)"
  | (frame) f s' where "f \<in> free_set s" "\<And>g. g \<in> free_set s \<Longrightarrow> f \<le> g" "alloc s = (of_nat (4096 * f), s')"
      "(of_nat (4096 * f) :: u32) \<noteq> 0" "inv s'" "free_set s' = free_set s - {f}" "count s' = count s"
proof (cases "free_set s = {}")
  case True
  then show thesis using assms alloc_empty by (intro empty) auto
next
  case False
  obtain p s' where al: "alloc s = (p, s')" by (cases "alloc s")
  note t = alloc_takes [OF assms False al]
  have m: "Min (free_set s) \<in> free_set s" using False free_finite [OF assms] by simp
  then have "0 < Min (free_set s)" "4096 * Min (free_set s) < 2 ^ 32"
    using free_range [OF assms m] count_bound [OF assms] by auto
  then have "(of_nat (4096 * Min (free_set s)) :: u32) \<noteq> 0" by (subst of_nat_u32_eq_0_iff) auto
  then show thesis
    using t m al free_finite [OF assms] by (intro frame [of "Min (free_set s)" s']) auto
qed

text \<open>Clients holding the frames of the list \<open>held\<close>, most recent first.\<close>

inductive pool_step :: "'s \<times> nat list \<Rightarrow> 's \<times> nat list \<Rightarrow> bool" where
  take: "alloc s = (of_nat (4096 * f), s') \<Longrightarrow> (of_nat (4096 * f) :: u32) \<noteq> 0 \<Longrightarrow> 4096 * f < 2 ^ 32 \<Longrightarrow>
    pool_step (s, held) (s', f # held)"
| fail: "alloc s = (0, s') \<Longrightarrow> pool_step (s, held) (s', held)"
| give: "f \<in> set held \<Longrightarrow> pool_step (s, held) (release (of_nat (4096 * f)) s, remove1 f held)"

definition ledger :: "'s \<times> nat list \<Rightarrow> bool" where
  "ledger = (\<lambda>(s, held). inv s \<and> distinct held \<and> set held \<inter> free_set s = {}
     \<and> (\<forall>f\<in>set held. 0 < f \<and> f < count s))"

lemma take_ledger:
  assumes "ledger (s, held)" and al: "alloc s = (of_nat (4096 * f), s')"
    and nz: "(of_nat (4096 * f) :: u32) \<noteq> 0" and b: "4096 * f < 2 ^ 32"
  shows "ledger (s', f # held)" and "free_set s = insert f (free_set s')" and "f \<notin> set held"
proof -
  have inv: "inv s" using assms(1) by (simp add: ledger_def)
  from inv show "ledger (s', f # held)" "free_set s = insert f (free_set s')" "f \<notin> set held"
  proof (atomize (full), cases rule: alloc_cases)
    case empty
    with al nz show "ledger (s', f # held) \<and> free_set s = insert f (free_set s') \<and> f \<notin> set held" by auto
  next
    case (frame g s'')
    have g: "0 < g" "g < count s" using free_range [OF inv frame(1)] by auto
    then have "4096 * g < 2 ^ 32" using count_bound [OF inv] by simp
    with al frame(3) b have "f = g" by (simp add: of_nat_u32_eq_iff del: of_nat_mult)
    with frame al assms(1) g
    show "ledger (s', f # held) \<and> free_set s = insert f (free_set s') \<and> f \<notin> set held"
      by (auto simp: ledger_def)
  qed
qed

lemma pool_step_ledger:
  assumes "pool_step c c'" and "ledger c"
  shows "ledger c' \<and> free_set (fst c') \<union> set (snd c') = free_set (fst c) \<union> set (snd c)"
  using assms
proof (induction rule: pool_step.induct)
  case (take s f s' held)
  then show ?case using take_ledger [of s held f s'] by auto
next
  case (fail s s' held)
  then have inv: "inv s" by (simp add: ledger_def)
  from inv show ?case using fail by (cases rule: alloc_cases) auto
next
  case (give f held s)
  then have inv: "inv s" and f: "0 < f" "f < count s" and d: "distinct held" by (auto simp: ledger_def)
  from release_gives [OF inv f] give d show ?case
    by (auto simp: ledger_def)
qed

theorem pool_run_ledger:
  assumes "pool_step\<^sup>*\<^sup>* (s, []) (s', held)" and "inv s"
  shows "ledger (s', held)" and "free_set s' \<union> set held = free_set s"
proof -
  have "ledger c' \<and> free_set (fst c') \<union> set (snd c') = free_set (fst c) \<union> set (snd c)"
    if "pool_step\<^sup>*\<^sup>* c c'" "ledger c" for c c'
    using that by (induction rule: rtranclp_induct) (auto dest: pool_step_ledger)
  from this [OF assms(1)] assms(2) show "ledger (s', held)" "free_set s' \<union> set held = free_set s"
    by (auto simp: ledger_def)
qed

end

end
