(* ===== verification/Frames.thy ===== *)
theory Frames
  imports Mm_State Frame_Pool
begin

text \<open>
  The physical frame allocator of \<^verbatim>\<open>arch/memory.c\<close>: the bitmap \<open>g_frame_bitmap\<close> with one
  bit per 4 KiB frame, \<open>reserve_range\<close> and \<open>free_range\<close>, and \<open>pmm_alloc_frame\<close>,
  \<open>pmm_free_frame\<close>, \<open>pmm_alloc_page\<close>.

  The loops over pages run with a 32-bit counter that is advanced by \<open>PAGE_SIZE\<close> and
  could wrap; \<open>for_pages\<close> is therefore a partial function whose value \<open>None\<close> means that
  the loop never ends, and it is proved to end on every range the code gives it.
\<close>

section \<open>Model\<close>

definition frame_index :: "u32 \<Rightarrow> u32" where
  "frame_index phys_addr = phys_addr div PAGE_SIZE"

definition set_frame :: "u32 \<Rightarrow> mm \<Rightarrow> mm" where
  "set_frame frame s = s\<lparr>g_frame_bitmap := (g_frame_bitmap s)
     (unat (frame div 32) := g_frame_bitmap s (unat (frame div 32)) OR push_bit (unat (frame mod 32)) 1)\<rparr>"

definition clear_frame :: "u32 \<Rightarrow> mm \<Rightarrow> mm" where
  "clear_frame frame s = s\<lparr>g_frame_bitmap := (g_frame_bitmap s)
     (unat (frame div 32) := g_frame_bitmap s (unat (frame div 32)) AND NOT (push_bit (unat (frame mod 32)) 1))\<rparr>"

definition test_frame :: "u32 \<Rightarrow> mm \<Rightarrow> bool" where
  "test_frame frame s \<longleftrightarrow>
     drop_bit (unat (frame mod 32)) (g_frame_bitmap s (unat (frame div 32))) AND 1 \<noteq> 0"

text \<open>\<open>for (uint32_t addr = start; addr < end; addr += PAGE_SIZE) body(addr);\<close>\<close>

partial_function (option) for_pages :: "(u32 \<Rightarrow> 's \<Rightarrow> 's) \<Rightarrow> u32 \<Rightarrow> u32 \<Rightarrow> 's \<Rightarrow> 's option" where
  "for_pages body addr stop s =
     (if addr < stop then for_pages body (addr + PAGE_SIZE) stop (body addr s) else Some s)"

definition reserve_range :: "u32 \<Rightarrow> u32 \<Rightarrow> mm \<Rightarrow> mm option" where
  "reserve_range start_phys sz s =
     (if sz = 0 then Some s
      else let start = start_phys AND 0xFFFFF000;
               stop = align_up_u32 (start_phys + sz) PAGE_SIZE;
               stop = (if g_total_memory_bytes s < stop then g_total_memory_bytes s else stop)
           in for_pages (\<lambda>addr s. let frame = frame_index addr in
                if frame < g_total_frames s then set_frame frame s else s) start stop s)"

definition free_range :: "u32 \<Rightarrow> u32 \<Rightarrow> mm \<Rightarrow> mm option" where
  "free_range start_phys sz s =
     (if sz = 0 then Some s
      else let start = start_phys AND 0xFFFFF000;
               stop = align_up_u32 (start_phys + sz) PAGE_SIZE;
               stop = (if g_total_memory_bytes s < stop then g_total_memory_bytes s else stop)
           in for_pages (\<lambda>addr s. let frame = frame_index addr in
                if frame < g_total_frames s then clear_frame frame s else s) start stop s)"

text \<open>The scan of \<open>pmm_alloc_frame\<close>: the counter stays below \<open>g_total_frames\<close>, so it ends.\<close>

function find_frame :: "u32 \<Rightarrow> mm \<Rightarrow> u32 option" where
  "find_frame frame s =
     (if frame < g_total_frames s
      then if \<not> test_frame frame s then Some frame else find_frame (frame + 1) s
      else None)"
  by pat_completeness auto
termination
proof (relation "measure (\<lambda>(frame, s). unat (g_total_frames s) - unat frame)")
  fix frame :: u32 and s :: mm
  assume "frame < g_total_frames s"
  then have "unat frame < unat (g_total_frames s)" "unat (frame + 1) = unat frame + 1"
    using unat_u32_less [of "g_total_frames s"]
    by (simp_all add: word_less_nat_alt unat_add_u32)
  then show "((frame + 1, s), (frame, s)) \<in> measure (\<lambda>(frame, s). unat (g_total_frames s) - unat frame)"
    by simp
qed simp

declare find_frame.simps [simp del]

definition pmm_alloc_frame :: "mm \<Rightarrow> u32 \<times> mm" where
  "pmm_alloc_frame s =
     (case find_frame 0 s of
        Some frame \<Rightarrow> (frame * PAGE_SIZE, set_frame frame s)
      | None \<Rightarrow> (0, s))"

definition pmm_free_frame :: "u32 \<Rightarrow> mm \<Rightarrow> mm" where
  "pmm_free_frame phys_addr s =
     (let frame = frame_index phys_addr in
      if frame < g_total_frames s then clear_frame frame s else s)"

definition pmm_alloc_page :: "mm \<Rightarrow> u32 \<times> mm" where
  "pmm_alloc_page s = pmm_alloc_frame s"

section \<open>The bitmap as a set of frames\<close>

text \<open>The frames marked used, as frame numbers.\<close>

definition used :: "mm \<Rightarrow> nat \<Rightarrow> bool" where
  "used s f \<longleftrightarrow> bit (g_frame_bitmap s (f div 32)) (f mod 32)"

definition frames_wf :: "mm \<Rightarrow> bool" where
  "frames_wf s \<longleftrightarrow> unat (g_total_frames s) \<le> unat MAX_FRAMES \<and>
     unat (g_total_memory_bytes s) = 4096 * unat (g_total_frames s)"

lemma test_frame_used: "test_frame frame s \<longleftrightarrow> used s (unat frame)"
  by (auto simp: test_frame_def used_def and_one_eq odd_iff_mod_2_eq_one bit_iff_odd_drop_bit unat_div unat_mod)

lemma unat_div_32: "unat (x div 32 :: u32) = unat x div 32" "unat (x mod 32 :: u32) = unat x mod 32"
  by (simp_all add: unat_div unat_mod)

lemma div_mod_32_eq: "f div 32 = g div 32 \<and> f mod 32 = g mod 32 \<longleftrightarrow> f = (g :: nat)"
  by (metis div_mult_mod_eq)

lemma set_frame_used: "used (set_frame frame s) f \<longleftrightarrow> f = unat frame \<or> used s f"
  using div_mod_32_eq [of f "unat frame"]
  by (auto simp: set_frame_def used_def unat_div_32 bit_simps)

lemma clear_frame_used: "used (clear_frame frame s) f \<longleftrightarrow> f \<noteq> unat frame \<and> used s f"
  using div_mod_32_eq [of f "unat frame"]
  by (auto simp: clear_frame_def used_def unat_div_32 bit_simps)

lemma frame_sel [simp]:
  "g_total_frames (set_frame f s) = g_total_frames s" "g_total_frames (clear_frame f s) = g_total_frames s"
  "g_total_memory_bytes (set_frame f s) = g_total_memory_bytes s"
  "g_total_memory_bytes (clear_frame f s) = g_total_memory_bytes s"
  "mm_mem (set_frame f s) = mm_mem s" "mm_mem (clear_frame f s) = mm_mem s"
  by (simp_all add: set_frame_def clear_frame_def)

section \<open>The page loop\<close>

text \<open>The loop ends on page-aligned bounds: the last page of the address space is excluded.\<close>

lemma for_pages_eq:
  assumes "4096 * i \<le> 0xFFFFF000" and "4096 * j \<le> 0xFFFFF000"
  shows "for_pages body (of_nat (4096 * i)) (of_nat (4096 * j)) s =
    Some (fold (\<lambda>k. body (of_nat (4096 * k))) [i..<j] s)"
  using assms(1)
proof (induction "j - i" arbitrary: i s)
  case 0
  then have "\<not> (of_nat (4096 * i) :: u32) < of_nat (4096 * j)"
    using assms(2) by (subst of_nat_u32_less_iff) auto
  with 0 show ?case by (subst for_pages.simps) simp
next
  case (Suc d)
  then have "i < j" by simp
  then have less: "(of_nat (4096 * i) :: u32) < of_nat (4096 * j)"
    using assms(2) by (subst of_nat_u32_less_iff) auto
  have step: "(of_nat (4096 * i) + PAGE_SIZE :: u32) = of_nat (4096 * Suc i)" by simp
  have "for_pages body (of_nat (4096 * Suc i)) (of_nat (4096 * j)) (body (of_nat (4096 * i)) s) =
      Some (fold (\<lambda>k. body (of_nat (4096 * k))) [Suc i..<j] (body (of_nat (4096 * i)) s))"
    using Suc \<open>i < j\<close> assms(2) by (intro Suc.hyps) auto
  with \<open>i < j\<close> less show ?case
    by (subst for_pages.simps) (simp add: step upt_conv_Cons del: of_nat_mult of_nat_Suc PAGE_SIZE_def)
qed

text \<open>Page \<open>f\<close> meets the byte range of \<open>n\<close> bytes at \<open>a\<close>.\<close>

definition in_pages :: "nat \<Rightarrow> nat \<Rightarrow> nat \<Rightarrow> bool" where
  "in_pages a n f \<longleftrightarrow> n \<noteq> 0 \<and> a < 4096 * (f + 1) \<and> 4096 * f < a + n"

lemma in_pages_upt: "n \<noteq> 0 \<Longrightarrow> in_pages a n f \<longleftrightarrow> f \<in> set [a div 4096..<(a + n + 4095) div 4096]"
  by (auto simp: in_pages_def less_eq_div_iff_mult_less_eq div_less_iff_less_mult)

lemma page_down: "(a AND 0xFFFFF000 :: u32) = of_nat (4096 * (unat a div 4096))"
proof -
  have "unat (a AND 0xFFFFF000) = 4096 * (unat a div 4096)"
    by (simp add: not_mask_12(1) unat_and_not_mask)
  then show ?thesis by (rule eq_of_natI)
qed

lemma page_up:
  assumes "unat a + unat n \<le> 0xFFFFF000"
  shows "align_up_u32 (a + n) PAGE_SIZE = of_nat (4096 * ((unat a + unat n + 4095) div 4096))"
  using align_up_of_nat [of "unat a + unat n" 12] assms by (simp add: round_up_def ac_simps)

lemma page_bounds:
  assumes "unat a + unat n \<le> 0xFFFFF000"
  shows "4096 * (unat a div 4096) \<le> 0xFFFFF000" "4096 * ((unat a + unat n + 4095) div 4096) \<le> 0xFFFFF000"
  using assms by (auto simp: mult.commute[of 4096] intro: order_trans [OF div_times_less_eq_dividend])

section \<open>Ranges of frames\<close>

lemma frame_index_page: "4096 * k < 2 ^ 32 \<Longrightarrow> unat (frame_index (of_nat (4096 * k))) = k"
  by (simp add: frame_index_def unat_div unat_of_nat_u32 del: of_nat_mult)

text \<open>Two states that differ in the bitmap at most, and the common shape of the two loops.\<close>

definition same_but_frames :: "mm \<Rightarrow> mm \<Rightarrow> bool" where
  "same_but_frames s s' \<longleftrightarrow> s' = s\<lparr>g_frame_bitmap := g_frame_bitmap s'\<rparr>"

definition marks :: "(u32 \<Rightarrow> mm \<Rightarrow> mm) \<Rightarrow> bool \<Rightarrow> bool" where
  "marks mark v \<longleftrightarrow> (\<forall>frame s. same_but_frames s (mark frame s) \<and>
     (\<forall>f. used (mark frame s) f = (if f = unat frame then v else used s f)))"

lemma marks_set: "marks set_frame True" and marks_clear: "marks clear_frame False"
  by (auto simp: marks_def same_but_frames_def set_frame_used clear_frame_used)
    (simp_all add: set_frame_def clear_frame_def)

lemma same_but_frames_refl [simp]: "same_but_frames s s"
  by (simp add: same_but_frames_def)

lemma same_but_framesD:
  assumes "same_but_frames s s'"
  shows "g_total_frames s' = g_total_frames s" "g_total_memory_bytes s' = g_total_memory_bytes s"
    "mm_mem s' = mm_mem s" "frames_wf s' = frames_wf s"
  using assms by (cases s; cases s'; simp add: same_but_frames_def frames_wf_def)+

lemma same_but_frames_trans:
  "same_but_frames s1 s2 \<Longrightarrow> same_but_frames s2 s3 \<Longrightarrow> same_but_frames s1 s3"
  by (cases s1; cases s2; cases s3) (simp add: same_but_frames_def)

lemma fold_marks:
  assumes mk: "marks mark v" and "\<forall>k\<in>set ks. 4096 * k < 2 ^ 32"
  defines "body \<equiv> \<lambda>addr s. let frame = frame_index addr in
    if frame < g_total_frames s then mark frame s else s"
  shows "same_but_frames s (fold (\<lambda>k. body (of_nat (4096 * k))) ks s) \<and>
    (\<forall>f. used (fold (\<lambda>k. body (of_nat (4096 * k))) ks s) f =
      (if f \<in> set ks \<and> f < unat (g_total_frames s) then v else used s f))"
  using assms(2)
proof (induction ks arbitrary: s)
  case (Cons k ks)
  let ?s = "body (of_nat (4096 * k)) s"
  have k: "unat (frame_index (of_nat (4096 * k))) = k"
    using Cons.prems by (simp add: frame_index_page del: of_nat_mult)
  have upd: "same_but_frames s ?s"
    using mk by (simp add: body_def Let_def marks_def)
  have "used ?s f = (if f = k \<and> k < unat (g_total_frames s) then v else used s f)" for f
    using mk k by (auto simp: body_def Let_def marks_def word_less_nat_alt simp del: of_nat_mult)
  with Cons.IH [of ?s] Cons.prems upd show ?case
    by (auto simp: same_but_framesD(1) [OF upd] intro: same_but_frames_trans simp del: of_nat_mult)
qed simp

lemma range_marks:
  assumes mk: "marks mark v" and wf: "frames_wf s" and r: "unat a + unat n \<le> 0xFFFFF000" and n: "n \<noteq> 0"
  defines "stop \<equiv> align_up_u32 (a + n) PAGE_SIZE"
  shows "\<exists>s'. for_pages (\<lambda>addr s. let frame = frame_index addr in
        if frame < g_total_frames s then mark frame s else s) (a AND 0xFFFFF000)
        (if g_total_memory_bytes s < stop then g_total_memory_bytes s else stop) s = Some s' \<and>
      same_but_frames s s' \<and> (\<forall>f. used s' f =
        (if in_pages (unat a) (unat n) f \<and> f < unat (g_total_frames s) then v else used s f))"
proof -
  define j where "j = min ((unat a + unat n + 4095) div 4096) (unat (g_total_frames s))"
  have tot: "g_total_memory_bytes s = of_nat (4096 * unat (g_total_frames s))"
    and tb: "4096 * unat (g_total_frames s) \<le> 0xFFFFF000"
    using wf by (intro eq_of_natI, simp_all add: frames_wf_def)
  note b = page_bounds [OF r]
  have stop: "(if g_total_memory_bytes s < stop then g_total_memory_bytes s else stop) = of_nat (4096 * j)"
    using b tb by (simp add: tot stop_def page_up [OF r] j_def of_nat_u32_less_iff min_def del: of_nat_mult PAGE_SIZE_def)
  have j: "4096 * j \<le> 0xFFFFF000" using b(2) by (simp add: j_def min_def)
  have "unat n \<noteq> 0" using n by (simp add: unat_eq_0)
  then have set: "f \<in> set [unat a div 4096..<j] \<longleftrightarrow> in_pages (unat a) (unat n) f \<and> f < unat (g_total_frames s)" for f
    using in_pages_upt [of "unat n" "unat a" f] by (auto simp: j_def)
  have "\<forall>k\<in>set [unat a div 4096..<j]. 4096 * k < 2 ^ 32" using j by auto
  from fold_marks [OF mk this, of s] show ?thesis
    by (simp only: stop page_down for_pages_eq [OF b(1) j] set option.inject ex_simps simp_thms) simp
qed

lemma reserve_range_ok:
  assumes "frames_wf s" and "unat a + unat n \<le> 0xFFFFF000"
  shows "\<exists>s'. reserve_range a n s = Some s' \<and> same_but_frames s s' \<and>
    (\<forall>f. used s' f \<longleftrightarrow> used s f \<or> in_pages (unat a) (unat n) f \<and> f < unat (g_total_frames s))"
  using range_marks [OF marks_set assms]
  by (cases "n = 0") (auto simp: reserve_range_def Let_def in_pages_def)

lemma free_range_ok:
  assumes "frames_wf s" and "unat a + unat n \<le> 0xFFFFF000"
  shows "\<exists>s'. free_range a n s = Some s' \<and> same_but_frames s s' \<and>
    (\<forall>f. used s' f \<longleftrightarrow> used s f \<and> \<not> (in_pages (unat a) (unat n) f \<and> f < unat (g_total_frames s)))"
  using range_marks [OF marks_clear assms]
  by (cases "n = 0") (auto simp: free_range_def Let_def in_pages_def)

section \<open>Allocation and release\<close>

lemma find_frame_spec:
  "case find_frame frame s of
     Some g \<Rightarrow> frame \<le> g \<and> g < g_total_frames s \<and> \<not> used s (unat g) \<and> (\<forall>f\<in>{unat frame..<unat g}. used s f)
   | None \<Rightarrow> \<forall>f\<in>{unat frame..<unat (g_total_frames s)}. used s f"
proof (induction frame s rule: find_frame.induct)
  case (1 frame s)
  consider "\<not> frame < g_total_frames s" | "frame < g_total_frames s" "\<not> used s (unat frame)"
    | "frame < g_total_frames s" "used s (unat frame)" by blast
  then show ?case
  proof cases
    case 3
    then have Suc: "unat (frame + 1) = unat frame + 1"
      using unat_u32_less [of "g_total_frames s"]
      by (simp add: word_less_nat_alt unat_add_u32)
    have split: "(\<forall>f\<in>{unat frame..<k}. used s f) \<longleftrightarrow> (\<forall>f\<in>{unat (frame + 1)..<k}. used s f)" for k
      using 3(2) Suc by (auto simp: Suc_le_eq le_less)
    have le: "frame \<le> g" if "frame + 1 \<le> g" for g
      using that Suc by (simp add: word_le_nat_alt)
    from 1 [OF 3(1)] 3 show ?thesis
      by (subst find_frame.simps) (auto simp: test_frame_used split le split: option.splits)
  qed (subst find_frame.simps, auto simp: test_frame_used word_less_nat_alt)+
qed

definition free_frames :: "mm \<Rightarrow> nat set" where
  "free_frames s = {f. f < unat (g_total_frames s) \<and> \<not> used s f}"

text \<open>The invariant that \<open>memory_init\<close> sets up: frame 0 is reserved, so address 0 can mean failure.\<close>

definition pmm_inv :: "mm \<Rightarrow> bool" where
  "pmm_inv s \<longleftrightarrow> frames_wf s \<and> used s 0"

lemma finite_free_frames [simp]: "finite (free_frames s)"
  by (simp add: free_frames_def)

lemma find_frame_Min:
  "find_frame 0 s = (if free_frames s = {} then None else Some (of_nat (Min (free_frames s))))"
proof (cases "find_frame 0 s")
  case None
  with find_frame_spec [of 0 s] show ?thesis by (auto simp: free_frames_def)
next
  case (Some g)
  with find_frame_spec [of 0 s]
  have g: "unat g \<in> free_frames s" "\<forall>f\<in>free_frames s. unat g \<le> f"
    by (auto simp: free_frames_def word_less_nat_alt not_less [symmetric])
  then have "Min (free_frames s) = unat g" by (intro Min_eqI) auto
  with Some g(1) show ?thesis by auto
qed

lemma pmm_alloc_frame_ok:
  assumes "pmm_inv s" and "free_frames s \<noteq> {}" and "pmm_alloc_frame s = (p, s')"
  shows "p = of_nat (4096 * Min (free_frames s)) \<and> pmm_inv s' \<and>
    free_frames s' = free_frames s - {Min (free_frames s)} \<and> same_but_frames s s'"
proof -
  let ?f = "Min (free_frames s)"
  have "?f \<in> free_frames s" using assms(2) by simp
  then have "unat (of_nat ?f :: u32) = ?f"
    using unat_u32_less [of "g_total_frames s"] by (intro unat_of_nat_u32) (simp add: free_frames_def)
  moreover have "p = of_nat (4096 * ?f)" and s': "s' = set_frame (of_nat ?f) s"
    using assms(2,3) by (auto simp: pmm_alloc_frame_def find_frame_Min mult.commute)
  moreover have "same_but_frames s s'" using marks_set by (simp add: marks_def s')
  ultimately show ?thesis
    using assms(1) by (auto simp: pmm_inv_def same_but_framesD(4) free_frames_def set_frame_used)
qed

lemma pmm_free_frame_ok:
  assumes "pmm_inv s" and f: "0 < f" "f < unat (g_total_frames s)"
  defines "s' \<equiv> pmm_free_frame (of_nat (4096 * f)) s"
  shows "pmm_inv s' \<and> free_frames s' = insert f (free_frames s) \<and> same_but_frames s s'"
proof -
  have "4096 * f < 2 ^ 32" using assms(1) f by (simp add: pmm_inv_def frames_wf_def)
  then have i: "unat (frame_index (of_nat (4096 * f))) = f" by (rule frame_index_page)
  then have s': "s' = clear_frame (frame_index (of_nat (4096 * f))) s"
    using f(2) by (simp add: s'_def pmm_free_frame_def Let_def word_less_nat_alt del: of_nat_mult)
  then have sb: "same_but_frames s s'" using marks_clear by (simp add: marks_def)
  from s' have "used s' g \<longleftrightarrow> g \<noteq> f \<and> used s g" for g
    by (simp add: clear_frame_used i del: of_nat_mult)
  with sb assms(1) f show ?thesis
    by (auto simp: pmm_inv_def same_but_framesD free_frames_def)
qed

interpretation pmm: frame_pool pmm_inv pmm_alloc_frame pmm_free_frame free_frames "\<lambda>s. unat (g_total_frames s)"
proof (unfold_locales, goal_cases)
  case (1 s) then show ?case by (simp add: pmm_alloc_frame_def find_frame_Min)
next
  case (2 s p s') then show ?case using pmm_alloc_frame_ok [OF 2] same_but_framesD(1) [of s s'] by simp
next
  case (3 s f) then show ?case using pmm_free_frame_ok [OF 3] same_but_framesD(1) [of s "pmm_free_frame (of_nat (4096 * f)) s"] by (simp del: of_nat_mult)
next
  case (5 s f) then show ?case by (auto simp: free_frames_def pmm_inv_def intro: gr0I)
qed (simp_all add: pmm_inv_def frames_wf_def)

end
