(* ===== verification/Run.thy ===== *)
theory Run
  imports Kernel_Prelude
begin

text \<open>
  Outcomes of kernel code that may stop, and the port interface to the hardware.

  A run either stops (\<open>Inl\<close>) or returns a value (\<open>Inr\<close>). \<open>Hang\<close> is a loop that never
  ends (\<^verbatim>\<open>while(1);\<close>, a poll that never succeeds, a halted processor); \<open>Fault\<close> is undefined
  behaviour: an access outside the object it is meant for, or a division by zero.
\<close>

section \<open>Outcomes\<close>

datatype stop = Hang | Fault

definition bindr :: "stop + 'a \<Rightarrow> ('a \<Rightarrow> stop + 'b) \<Rightarrow> stop + 'b" where
  "bindr m f = (case m of Inl e \<Rightarrow> Inl e | Inr x \<Rightarrow> f x)"

lemma bindr_simps [simp]: "bindr (Inr x) f = f x" "bindr (Inl e) f = Inl e"
  by (simp_all add: bindr_def)

lemma bindr_eq_Inr: "bindr m f = Inr y \<longleftrightarrow> (\<exists>x. m = Inr x \<and> f x = Inr y)"
  by (cases m) auto

lemma bindr_cong [fundef_cong]: "m = m' \<Longrightarrow> (\<And>x. m' = Inr x \<Longrightarrow> f x = f' x) \<Longrightarrow> bindr m f = bindr m' f'"
  by (cases m') auto

text \<open>A value, or the reason why there is none.\<close>

definition orelse :: "'a option \<Rightarrow> stop \<Rightarrow> stop + 'a" where
  "orelse m e = (case m of None \<Rightarrow> Inl e | Some x \<Rightarrow> Inr x)"

lemma orelse_simps [simp]: "orelse None e = Inl e" "orelse (Some x) e = Inr x"
  by (simp_all add: orelse_def)

definition guardr :: "bool \<Rightarrow> stop \<Rightarrow> stop + 'a \<Rightarrow> stop + 'a" where
  "guardr b e m = (if b then m else Inl e)"

lemma guardr_simps [simp]: "guardr True e m = m" "guardr False e m = Inl e"
  by (simp_all add: guardr_def)

lemma guardr_cong [fundef_cong]: "b = b' \<Longrightarrow> e = e' \<Longrightarrow> (b' \<Longrightarrow> m = m') \<Longrightarrow> guardr b e m = guardr b' e' m'"
  by (cases b') auto

section \<open>Port input and output\<close>

text \<open>
  \<open>inb\<close>, \<open>outb\<close> and \<open>insw\<close> of \<^verbatim>\<open>include/io.h\<close> on the state \<open>'d\<close> of the devices; \<open>insw\<close>
  gives the bytes of \<open>count\<close> 16-bit reads in the order in which they are stored.
\<close>

record 'd ports =
  inb :: "u16 \<Rightarrow> 'd \<Rightarrow> u8 \<times> 'd"
  outb :: "u16 \<Rightarrow> u8 \<Rightarrow> 'd \<Rightarrow> 'd"
  insw :: "u16 \<Rightarrow> nat \<Rightarrow> 'd \<Rightarrow> u8 list \<times> 'd"

end
