(* ===== verification/Paging.thy ===== *)
theory Paging
  imports Frames Run
begin

text \<open>
  The page tables of \<^verbatim>\<open>arch/memory.c\<close>: the static directory \<open>g_page_directory\<close> and the 32
  static tables \<open>g_page_tables\<close> of the identity map, filled by \<open>identity_map_page\<close>,
  \<open>identity_map_range\<close> and \<open>paging_mark_user_range\<close>; \<open>enable_paging\<close>; and the
  general \<open>page_get_phys\<close> and \<open>page_map\<close>, which walk any directory.

  Directories and tables are arrays of 32-bit entries in byte memory. \<open>mm_mem\<close> is indexed by
  physical addresses. The tables of the identity map are filled before paging is enabled, so
  they are accessed untranslated. \<open>page_map\<close> may run with paging on: each of its accesses goes
  through \<open>virt_to_phys\<close>, the walk of the processor over the tables at \<open>cr3\<close>, and faults when
  the page is not present (ring 0 needs the present bits only: \<^verbatim>\<open>CR0.WP\<close> is never set; the
  translation cache is not modelled). \<open>page_get_phys\<close> is the value it returns when its reads
  do not fault.
\<close>

section \<open>Model\<close>

text \<open>\<open>uint32_t *\<close> indexing: entry \<open>i\<close> of the table at \<open>t\<close>.\<close>

definition entry_at :: "u32 \<Rightarrow> u32 \<Rightarrow> u32" where
  "entry_at t i = t + 4 * i"

definition identity_map_page :: "link_map \<Rightarrow> u32 \<Rightarrow> u32 \<Rightarrow> mm \<Rightarrow> mm" where
  "identity_map_page L phys_addr flags s =
     (if IDENTITY_MAP_BYTES \<le> phys_addr then s
      else let pde = drop_bit 22 phys_addr;
               pte = drop_bit 12 phys_addr AND 0x3FF;
               table_phys = g_page_tables_at L + 4096 * pde;
               dir = entry_at (g_page_directory_at L) pde;
               m = mm_mem s;
               m = store32 dir (load32 m dir OR (table_phys OR PAGE_PRESENT OR PAGE_WRITE
                     OR (flags AND PAGE_USER))) m;
               m = store32 (entry_at table_phys pte) ((phys_addr AND 0xFFFFF000) OR PAGE_PRESENT
                     OR (flags AND (PAGE_WRITE OR PAGE_USER))) m
           in s\<lparr>mm_mem := m\<rparr>)"

definition identity_map_range :: "link_map \<Rightarrow> u32 \<Rightarrow> u32 \<Rightarrow> u32 \<Rightarrow> mm \<Rightarrow> mm option" where
  "identity_map_range L start_phys sz flags s =
     (if sz = 0 then Some s
      else let start = start_phys AND 0xFFFFF000;
               stop = align_up_u32 (start_phys + sz) PAGE_SIZE;
               stop = (if IDENTITY_MAP_BYTES < stop then IDENTITY_MAP_BYTES else stop)
           in for_pages (\<lambda>addr. identity_map_page L addr flags) start stop s)"

definition paging_mark_user_range :: "link_map \<Rightarrow> u32 \<Rightarrow> u32 \<Rightarrow> mm \<Rightarrow> mm option" where
  "paging_mark_user_range L phys_addr sz s =
     (if sz = 0 then Some s
      else let start = phys_addr AND 0xFFFFF000;
               stop = align_up_u32 (phys_addr + sz) PAGE_SIZE
           in for_pages (\<lambda>addr. identity_map_page L addr (PAGE_WRITE OR PAGE_USER)) start stop s)"

definition enable_paging :: "link_map \<Rightarrow> mm \<Rightarrow> mm" where
  "enable_paging L s = s\<lparr>cr3 := g_page_directory_at L, cr0 := cr0 s OR 0x80000000\<rparr>"

definition page_get_phys :: "mem \<Rightarrow> u32 \<Rightarrow> u32 \<Rightarrow> u32" where
  "page_get_phys m pd vaddr =
     (let pde = drop_bit 22 vaddr; pte = drop_bit 12 vaddr AND 0x3FF;
          e = load32 m (entry_at pd pde)
      in if e AND PAGE_PRESENT = 0 then 0
         else let pt = e AND 0xFFFFF000; e' = load32 m (entry_at pt pte)
              in if e' AND PAGE_PRESENT = 0 then 0
                 else (e' AND 0xFFFFF000) OR (vaddr AND 0xFFF))"

section \<open>Address translation\<close>

text \<open>The two entries that the processor reads for the address \<open>v\<close>.\<close>

definition walk_pde :: "mem \<Rightarrow> u32 \<Rightarrow> u32 \<Rightarrow> u32" where
  "walk_pde m pd v = load32 m (entry_at pd (drop_bit 22 v))"

definition walk_pte :: "mem \<Rightarrow> u32 \<Rightarrow> u32 \<Rightarrow> u32" where
  "walk_pte m pd v = load32 m (entry_at (walk_pde m pd v AND 0xFFFFF000) (drop_bit 12 v AND 0x3FF))"

definition virt_to_phys :: "mm \<Rightarrow> u32 \<Rightarrow> u32 option" where
  "virt_to_phys s v =
     (if cr0 s AND 0x80000000 = 0 then Some v
      else if walk_pde (mm_mem s) (cr3 s) v AND PAGE_PRESENT = 0 \<or> walk_pte (mm_mem s) (cr3 s) v AND PAGE_PRESENT = 0
      then None
      else Some ((walk_pte (mm_mem s) (cr3 s) v AND 0xFFFFF000) OR (v AND 0xFFF)))"

text \<open>
  Accesses of kernel code: an aligned 32-bit word and the 4096 bytes of a page lie in one
  page, so one translation serves the whole access.
\<close>

definition vload32 :: "mm \<Rightarrow> u32 \<Rightarrow> stop + u32" where
  "vload32 s a = bindr (orelse (virt_to_phys s a) Fault) (\<lambda>p. Inr (load32 (mm_mem s) p))"

definition vstore32 :: "u32 \<Rightarrow> u32 \<Rightarrow> mm \<Rightarrow> stop + mm" where
  "vstore32 a v s = bindr (orelse (virt_to_phys s a) Fault) (\<lambda>p. Inr (s\<lparr>mm_mem := store32 p v (mm_mem s)\<rparr>))"

definition vmemset_page :: "u32 \<Rightarrow> u32 \<Rightarrow> mm \<Rightarrow> stop + mm" where
  "vmemset_page a c s = bindr (orelse (virt_to_phys s a) Fault) (\<lambda>p. Inr (s\<lparr>mm_mem := memset p c 4096 (mm_mem s)\<rparr>))"

definition page_map :: "u32 \<Rightarrow> u32 \<Rightarrow> u32 \<Rightarrow> u32 \<Rightarrow> mm \<Rightarrow> stop + mm" where
  "page_map pd vaddr paddr flags s =
     (let pde = drop_bit 22 vaddr; pte = drop_bit 12 vaddr AND 0x3FF;
          set_pte = (\<lambda>s. bindr (vload32 s (entry_at pd pde)) (\<lambda>e.
            let pt = e AND 0xFFFFF000
            in vstore32 (entry_at pt pte) ((paddr AND 0xFFFFF000) OR flags OR PAGE_PRESENT) s))
      in bindr (vload32 s (entry_at pd pde)) (\<lambda>e.
         if e AND PAGE_PRESENT = 0
         then case pmm_alloc_frame s of (pt_phys, s) \<Rightarrow>
                if pt_phys = 0 then Inr s
                else bindr (vmemset_page pt_phys 0 s) (\<lambda>s.
                     bindr (vstore32 (entry_at pd pde) (pt_phys OR flags OR PAGE_PRESENT) s) set_pte)
         else set_pte s))"

section \<open>Page-aligned words and their flags\<close>

lemma page_aligned_and: "4096 dvd unat t \<Longrightarrow> (t AND mask 12 :: u32) = 0"
proof -
  assume "4096 dvd unat t"
  then have "unat (take_bit 12 t) = 0"
    by (simp add: unat_take_bit dvd_eq_mod_eq_0)
  then show ?thesis by (simp add: unat_eq_0 take_bit_eq_mask)
qed

lemma frame_or_flags:
  fixes t f :: u32
  assumes "4096 dvd unat t" and "unat f < 4096"
  shows "(t OR f) AND 0xFFFFF000 = t" and "(t OR f) AND 0xFFF = f"
proof -
  have "t AND mask 12 = 0" by (rule page_aligned_and [OF assms(1)])
  then have t: "bit t n \<Longrightarrow> 12 \<le> n" for n using bit_imp_le_length [of t n] by (auto simp: bit_eq_iff bit_simps not_less [symmetric])
  have "take_bit 12 f = f" using assms(2) by (simp add: take_bit_eq_mod word_unat_eq_iff unat_mod)
  then have f: "bit f n \<Longrightarrow> n < 12" for n by (metis bit_take_bit_iff)
  show "(t OR f) AND 0xFFFFF000 = t" "(t OR f) AND 0xFFF = f"
    unfolding not_mask_12(1) mask_12
    by (rule bit_word_eqI, use t f in \<open>force simp: bit_simps\<close>)+
qed

lemma or_and_absorb:
  fixes c :: "'a::len word"
  assumes "f AND c = c"
  shows "(x OR f) AND c = c"
proof -
  have "bit f n" if "bit c n" for n using assms that by (metis bit_and_iff)
  then show ?thesis by (intro bit_word_eqI) (auto simp: bit_simps)
qed

section \<open>The identity tables as a set of pages\<close>

definition page_link :: "link_map \<Rightarrow> bool" where
  "page_link L \<longleftrightarrow> 4096 dvd unat (g_page_directory_at L) \<and> 4096 dvd unat (g_page_tables_at L) \<and>
     unat (g_page_directory_at L) + 4096 \<le> 2 ^ 32 \<and> unat (g_page_tables_at L) + 131072 \<le> 2 ^ 32 \<and>
     (unat (g_page_directory_at L) + 4096 \<le> unat (g_page_tables_at L) \<or>
      unat (g_page_tables_at L) + 131072 \<le> unat (g_page_directory_at L))"

definition pd_entry :: "link_map \<Rightarrow> mm \<Rightarrow> nat \<Rightarrow> u32" where
  "pd_entry L s i = load32 (mm_mem s) (of_nat (unat (g_page_directory_at L) + 4 * i))"

definition pt_entry :: "link_map \<Rightarrow> mm \<Rightarrow> nat \<Rightarrow> u32" where
  "pt_entry L s k = load32 (mm_mem s) (of_nat (unat (g_page_tables_at L) + 4 * k))"

definition table_at :: "link_map \<Rightarrow> nat \<Rightarrow> u32" where
  "table_at L i = of_nat (unat (g_page_tables_at L) + 4096 * i)"

lemma page_bits:
  assumes "4096 * k < 2 ^ 32"
  shows "drop_bit 22 (of_nat (4096 * k) :: u32) = of_nat (k div 1024)"
    and "drop_bit 12 (of_nat (4096 * k) :: u32) AND 0x3FF = of_nat (k mod 1024)"
    and "(of_nat (4096 * k) :: u32) AND 0xFFFFF000 = of_nat (4096 * k)"
proof -
  have u: "unat (of_nat (4096 * k) :: u32) = 4096 * k" using assms by (rule unat_of_nat_u32)
  have "unat (drop_bit 22 (of_nat (4096 * k) :: u32)) = k div 1024"
    unfolding unat_drop_bit u using div_mult_mult1 [of 4096 k 1024] by simp
  then show "drop_bit 22 (of_nat (4096 * k) :: u32) = of_nat (k div 1024)"
    by (metis of_nat_unat ucast_id)
  have "unat (take_bit 10 (drop_bit 12 (of_nat (4096 * k) :: u32))) = k mod 1024"
    unfolding unat_drop_bit unat_take_bit u by simp
  then show "drop_bit 12 (of_nat (4096 * k) :: u32) AND 0x3FF = of_nat (k mod 1024)"
    unfolding mask_10 by (metis of_nat_unat take_bit_eq_mask ucast_id)
  show "(of_nat (4096 * k) :: u32) AND 0xFFFFF000 = of_nat (4096 * k)"
    using u by (simp add: page_down del: of_nat_mult)
qed

lemma identity_map_page_eq:
  assumes "k < 32768"
  shows "identity_map_page L (of_nat (4096 * k)) flags s =
    s\<lparr>mm_mem := store32 (of_nat (unat (g_page_tables_at L) + 4 * k))
        (of_nat (4096 * k) OR PAGE_PRESENT OR (flags AND 6))
       (store32 (of_nat (unat (g_page_directory_at L) + 4 * (k div 1024)))
         (pd_entry L s (k div 1024) OR (table_at L (k div 1024) OR 3 OR (flags AND 4))) (mm_mem s))\<rparr>"
proof -
  have less: "\<not> (0x8000000 :: u32) \<le> of_nat (4096 * k)"
    using assms of_nat_u32_le_iff [of "0x8000000" "4096 * k"] by simp
  have k: "4096 * k < 2 ^ 32" using assms by simp
  have kk: "4096 * (k div 1024) + 4 * (k mod 1024) = 4 * k" using div_mult_mod_eq [of k 1024] by linarith
  have dir: "entry_at (g_page_directory_at L) (of_nat (k div 1024)) =
      of_nat (unat (g_page_directory_at L) + 4 * (k div 1024))" by (simp add: entry_at_def)
  have tab: "g_page_tables_at L + 4096 * of_nat (k div 1024) = table_at L (k div 1024)"
    by (simp add: table_at_def)
  have "entry_at (table_at L (k div 1024)) (of_nat (k mod 1024)) =
      of_nat (unat (g_page_tables_at L) + (4096 * (k div 1024) + 4 * (k mod 1024)))"
    by (simp add: entry_at_def table_at_def)
  then have ent: "entry_at (table_at L (k div 1024)) (of_nat (k mod 1024)) =
      of_nat (unat (g_page_tables_at L) + 4 * k)" by (simp only: kk)
  have three: "1 OR (2 OR x) = 3 OR x" for x :: u32 by (simp flip: or.assoc)
  show ?thesis
    using less unfolding identity_map_page_def Let_def page_bits [OF k] dir tab ent pd_entry_def
    by (simp add: or.assoc three del: of_nat_mult of_nat_add)
qed

text \<open>Two table entries at different indices, or of different tables, do not overlap.\<close>

lemma entries_apart:
  assumes "page_link L" and "i < 1024" and "k < 32768"
  shows "4 dvd unat (of_nat (unat (g_page_directory_at L) + 4 * i) :: u32)"
    and "4 dvd unat (of_nat (unat (g_page_tables_at L) + 4 * k) :: u32)"
    and "(of_nat (unat (g_page_directory_at L) + 4 * i) :: u32) \<noteq> of_nat (unat (g_page_tables_at L) + 4 * k)"
    and "i' < 1024 \<Longrightarrow> (of_nat (unat (g_page_directory_at L) + 4 * i) :: u32) =
      of_nat (unat (g_page_directory_at L) + 4 * i') \<longleftrightarrow> i = i'"
    and "k' < 32768 \<Longrightarrow> (of_nat (unat (g_page_tables_at L) + 4 * k) :: u32) =
      of_nat (unat (g_page_tables_at L) + 4 * k') \<longleftrightarrow> k = k'"
proof -
  have b: "4 dvd unat (g_page_directory_at L)" "4 dvd unat (g_page_tables_at L)"
    using assms(1) dvd_trans [of 4 4096] by (auto simp: page_link_def)
  have i: "unat (g_page_directory_at L) + 4 * i < 2 ^ 32" if "i < 1024" for i
    using assms(1) that by (auto simp: page_link_def)
  have k: "unat (g_page_tables_at L) + 4 * k < 2 ^ 32" if "k < 32768" for k
    using assms(1) that by (auto simp: page_link_def)
  note e = i [OF assms(2)] k [OF assms(3)]
  show "4 dvd unat (of_nat (unat (g_page_directory_at L) + 4 * i) :: u32)"
    "4 dvd unat (of_nat (unat (g_page_tables_at L) + 4 * k) :: u32)"
    using b by (simp_all only: unat_of_nat_u32 [OF e(1)] unat_of_nat_u32 [OF e(2)] dvd_add_left_iff) auto
  show "(of_nat (unat (g_page_directory_at L) + 4 * i) :: u32) \<noteq> of_nat (unat (g_page_tables_at L) + 4 * k)"
    using assms by (subst of_nat_u32_eq_iff [OF e]) (auto simp: page_link_def)
  show "(of_nat (unat (g_page_directory_at L) + 4 * i) :: u32) =
      of_nat (unat (g_page_directory_at L) + 4 * i') \<longleftrightarrow> i = i'" if "i' < 1024"
    using of_nat_u32_eq_iff [OF e(1) i [OF that]] by simp
  show "(of_nat (unat (g_page_tables_at L) + 4 * k) :: u32) =
      of_nat (unat (g_page_tables_at L) + 4 * k') \<longleftrightarrow> k = k'" if "k' < 32768"
    using of_nat_u32_eq_iff [OF e(2) k [OF that]] by simp
qed

lemma identity_map_page_entries:
  fixes s :: mm and flags :: u32
  assumes "page_link L" and "k < 32768"
  defines "s' \<equiv> identity_map_page L (of_nat (4096 * k)) flags s"
  shows "j < 32768 \<Longrightarrow> pt_entry L s' j =
      (if j = k then of_nat (4096 * k) OR PAGE_PRESENT OR (flags AND 6) else pt_entry L s j)"
    and "i < 1024 \<Longrightarrow> pd_entry L s' i =
      (if i = k div 1024 then pd_entry L s i OR (table_at L i OR 3 OR (flags AND 4)) else pd_entry L s i)"
proof -
  have kd: "k div 1024 < 1024" using assms(2) by simp
  note s' = identity_map_page_eq [OF assms(2), of L flags s, folded s'_def]
  show "pt_entry L s' j = (if j = k then of_nat (4096 * k) OR PAGE_PRESENT OR (flags AND 6) else pt_entry L s j)"
    if "j < 32768"
    using entries_apart [OF assms(1) kd that] entries_apart [OF assms(1) kd assms(2)] that
    by (auto simp: s' pt_entry_def load32_store32_apart simp del: of_nat_mult of_nat_add)
  show "pd_entry L s' i =
      (if i = k div 1024 then pd_entry L s i OR (table_at L i OR 3 OR (flags AND 4)) else pd_entry L s i)"
    if "i < 1024"
    using entries_apart [OF assms(1) that assms(2)] entries_apart [OF assms(1) kd assms(2)] that
    by (auto simp: s' pd_entry_def load32_store32_apart simp del: of_nat_mult of_nat_add)
qed

text \<open>
  The tables map exactly the pages in \<open>M\<close>, each to itself and writable, and open exactly
  the pages in \<open>U\<close> to user mode. A directory entry is present when one of its pages is
  mapped, and open to user mode when one of its pages is.
\<close>

definition paged :: "link_map \<Rightarrow> mm \<Rightarrow> nat set \<Rightarrow> nat set \<Rightarrow> bool" where
  "paged L s M U \<longleftrightarrow> U \<subseteq> M \<and> M \<subseteq> {..<32768} \<and>
     (\<forall>k<32768. pt_entry L s k = (if k \<in> M then of_nat (4096 * k) OR 3 OR (if k \<in> U then 4 else 0) else 0)) \<and>
     (\<forall>i<1024. pd_entry L s i = (if i \<in> (\<lambda>k. k div 1024) ` M
        then table_at L i OR 3 OR (if i \<in> (\<lambda>k. k div 1024) ` U then 4 else 0) else 0))"

abbreviation map_flags :: "bool \<Rightarrow> u32" where
  "map_flags user \<equiv> (if user then PAGE_WRITE OR PAGE_USER else PAGE_WRITE)"

lemma or_entry:
  fixes a b c :: u32
  assumes "u \<longrightarrow> m"
  shows "(if m then a OR b OR (if u then c else 0) else 0) OR (a OR b OR (if v then c else 0)) =
    a OR b OR (if u \<or> v then c else 0)"
  using assms by (auto intro!: bit_word_eqI simp: bit_simps)

lemma identity_map_page_paged:
  assumes L: "page_link L" and P: "paged L s M U" and k: "k < 32768" and u: "\<not> user \<longrightarrow> k \<notin> U"
  shows "paged L (identity_map_page L (of_nat (4096 * k)) (map_flags user) s)
    (insert k M) (if user then insert k U else U)"
    (is "paged L ?s ?M ?U")
proof -
  let ?d = "\<lambda>k :: nat. k div 1024"
  note e = identity_map_page_entries [OF L k, where s = s and flags = "map_flags user"]
  have or: "1 OR ((if user then 2 OR 4 else 2) AND 6) = 3 OR (if user then 4 else 0 :: u32)"
    "(if user then 2 OR 4 else 2 :: u32) AND 4 = (if user then 4 else 0)" by simp_all
  have "pt_entry L ?s j = (if j \<in> ?M then of_nat (4096 * j) OR 3 OR (if j \<in> ?U then 4 else 0) else 0)"
    if "j < 32768" for j
    using P that u or(1) e(1) [OF that] by (auto simp: paged_def simp del: of_nat_mult)
  moreover have "pd_entry L ?s i = (if i \<in> ?d ` ?M then table_at L i OR 3 OR (if i \<in> ?d ` ?U then 4 else 0) else 0)"
    if i: "i < 1024" for i
  proof (cases "i = k div 1024")
    case True
    have "pd_entry L ?s i = (if i \<in> ?d ` M then table_at L i OR 3 OR (if i \<in> ?d ` U then 4 else 0) else 0) OR
        (table_at L i OR 3 OR (if user then 4 else 0))"
      using P i e(2) [OF i] True by (simp add: paged_def or(2) del: of_nat_mult)
    also have "\<dots> = table_at L i OR 3 OR (if i \<in> ?d ` U \<or> user then 4 else 0)"
      using P by (intro or_entry) (auto simp: paged_def)
    finally show ?thesis using True by (simp del: of_nat_mult)
  next
    case False
    then show ?thesis using P i e(2) [OF i] by (simp add: paged_def del: of_nat_mult)
  qed
  ultimately show ?thesis using P k by (auto simp: paged_def)
qed

text \<open>What the table operations may write: the directory and the tables.\<close>

definition table_bytes :: "link_map \<Rightarrow> nat set" where
  "table_bytes L = {unat (g_page_directory_at L)..<unat (g_page_directory_at L) + 4096}
     \<union> {unat (g_page_tables_at L)..<unat (g_page_tables_at L) + 131072}"

definition tables_only :: "link_map \<Rightarrow> mm \<Rightarrow> mm \<Rightarrow> bool" where
  "tables_only L s s' \<longleftrightarrow> s' = s\<lparr>mm_mem := mm_mem s'\<rparr> \<and>
     (\<forall>x<2 ^ 32. x \<notin> table_bytes L \<longrightarrow> mm_mem s' (of_nat x) = mm_mem s (of_nat x))"

lemma tables_only_refl [simp]: "tables_only L s s"
  by (simp add: tables_only_def)

lemma tables_only_trans: "tables_only L s1 s2 \<Longrightarrow> tables_only L s2 s3 \<Longrightarrow> tables_only L s1 s3"
  by (cases s1; cases s2; cases s3) (simp add: tables_only_def)

lemma store32_nat_other:
  assumes "x < 2 ^ 32" and "a + 4 \<le> 2 ^ 32" and "x < a \<or> a + 4 \<le> x"
  shows "store32 (of_nat a) v m (of_nat x) = m (of_nat x)"
  using nat_dist_u32 [OF assms] by (intro store32_other) simp

lemma identity_map_page_tables_only:
  assumes "page_link L" and k: "k < 32768"
  shows "tables_only L s (identity_map_page L (of_nat (4096 * k)) flags s)"
proof -
  have d: "4 * (k div 1024) + 4 \<le> 4096" using k by auto
  define a b where "a = unat (g_page_tables_at L) + 4 * k"
    and "b = unat (g_page_directory_at L) + 4 * (k div 1024)"
  have ab: "a + 4 \<le> 2 ^ 32" "b + 4 \<le> 2 ^ 32" "{a..<a + 4} \<subseteq> table_bytes L" "{b..<b + 4} \<subseteq> table_bytes L"
    using assms d by (auto simp: a_def b_def table_bytes_def page_link_def)
  have "store32 (of_nat c) v m (of_nat x) = m (of_nat x)"
    if "x < 2 ^ 32" "x \<notin> table_bytes L" "c + 4 \<le> 2 ^ 32" "{c..<c + 4} \<subseteq> table_bytes L" for x v m c
  proof (rule store32_nat_other [OF that(1,3)])
    show "x < c \<or> c + 4 \<le> x" using that(2,4) by (meson atLeastLessThan_iff not_le subsetD)
  qed
  with ab show ?thesis
    unfolding identity_map_page_eq [OF k] tables_only_def a_def [symmetric] b_def [symmetric] by simp
qed

lemma identity_map_page_high:
  "32768 \<le> k \<Longrightarrow> 4096 * k < 2 ^ 32 \<Longrightarrow> identity_map_page L (of_nat (4096 * k)) flags s = s"
  using of_nat_u32_le_iff [of "0x8000000" "4096 * k"] by (simp add: identity_map_page_def)

lemma fold_paged:
  assumes L: "page_link L" and "paged L s M U" and "\<forall>k\<in>set ks. 4096 * k < 2 ^ 32 \<and> (\<not> user \<longrightarrow> k \<notin> U)"
  defines "s' \<equiv> fold (\<lambda>k. identity_map_page L (of_nat (4096 * k)) (map_flags user)) ks s"
    and "K \<equiv> set ks \<inter> {..<32768}"
  shows "paged L s' (M \<union> K) (if user then U \<union> K else U) \<and> tables_only L s s'"
  unfolding s'_def K_def using assms(2,3)
proof (induction ks arbitrary: s M U)
  case (Cons k ks)
  show ?case
  proof (cases "k < 32768")
    case k: True
    let ?s = "identity_map_page L (of_nat (4096 * k)) (map_flags user) s"
    have ku: "\<not> user \<longrightarrow> k \<notin> U" using Cons.prems by auto
    have "paged L ?s (insert k M) (if user then insert k U else U)"
      using L Cons.prems(1) k ku by (rule identity_map_page_paged)
    note IH = Cons.IH [OF this]
    have "\<forall>j\<in>set ks. 4096 * j < 2 ^ 32 \<and> (\<not> user \<longrightarrow> j \<notin> (if user then insert k U else U))"
      using Cons.prems(2) by auto
    note IH = IH [OF this]
    have "tables_only L s ?s" using L k by (rule identity_map_page_tables_only)
    from tables_only_trans [OF this IH [THEN conjunct2]] IH [THEN conjunct1] k
    show ?thesis by (cases user) (simp_all del: of_nat_mult)
  next
    case False
    then show ?thesis using Cons.IH [of s M U] Cons.prems identity_map_page_high [of k L "map_flags user" s]
      by (cases user) (simp_all del: of_nat_mult)
  qed
qed simp

lemma paged_loop:
  assumes "page_link L" and "paged L s M U" and "4096 * i \<le> 0xFFFFF000" and "4096 * j \<le> 0xFFFFF000"
    and "\<not> user \<longrightarrow> U \<inter> {i..<j} = {}"
  defines "K \<equiv> {i..<j} \<inter> {..<32768}"
  shows "\<exists>s'. for_pages (\<lambda>addr. identity_map_page L addr (map_flags user)) (of_nat (4096 * i)) (of_nat (4096 * j)) s
      = Some s' \<and> paged L s' (M \<union> K) (if user then U \<union> K else U) \<and> tables_only L s s'"
proof -
  have "\<forall>k\<in>set [i..<j]. 4096 * k < 2 ^ 32 \<and> (\<not> user \<longrightarrow> k \<notin> U)" using assms(4,5) by auto
  from fold_paged [OF assms(1,2) this] show ?thesis
    unfolding for_pages_eq [OF assms(3,4)] K_def set_upt by blast
qed

definition page_set :: "nat \<Rightarrow> nat \<Rightarrow> nat set" where
  "page_set a n = {k. k < 32768 \<and> in_pages a n k}"

lemma page_set_eq:
  "n \<noteq> 0 \<Longrightarrow> page_set a n = {a div 4096..<(a + n + 4095) div 4096} \<inter> {..<32768}"
proof (rule set_eqI)
  fix k assume "n \<noteq> 0"
  from in_pages_upt [OF this, of a k]
  show "k \<in> page_set a n \<longleftrightarrow> k \<in> {a div 4096..<(a + n + 4095) div 4096} \<inter> {..<32768}"
    unfolding page_set_def set_upt by blast
qed

lemma identity_map_range_ok:
  assumes "page_link L" and "paged L s M U" and r: "unat a + unat n \<le> 0xFFFFF000"
    and "U \<inter> page_set (unat a) (unat n) = {}"
  shows "\<exists>s'. identity_map_range L a n PAGE_WRITE s = Some s' \<and>
    paged L s' (M \<union> page_set (unat a) (unat n)) U \<and> tables_only L s s'"
proof (cases "n = 0")
  case True
  then show ?thesis using assms by (simp add: identity_map_range_def page_set_def in_pages_def)
next
  case False
  then have n: "unat n \<noteq> 0" by (simp add: unat_eq_0)
  define e where "e = (unat a + unat n + 4095) div 4096"
  note b = page_bounds [OF r, folded e_def]
  have stop: "(if (0x8000000 :: u32) < of_nat (4096 * e) then IDENTITY_MAP_BYTES else of_nat (4096 * e)) =
      (of_nat (4096 * min 32768 e) :: u32)"
    using b of_nat_u32_less_iff [of "0x8000000" "4096 * e"]
    by (auto simp: min_def simp del: of_nat_mult)
  have set: "{unat a div 4096..<min 32768 e} = page_set (unat a) (unat n)"
    unfolding page_set_eq [OF n] e_def by auto
  then have "\<not> False \<longrightarrow> U \<inter> {unat a div 4096..<min 32768 e} = {}" using assms(4) by simp
  moreover have "page_set (unat a) (unat n) \<inter> {..<32768} = page_set (unat a) (unat n)"
    by (auto simp: page_set_def)
  moreover have "4096 * min 32768 e \<le> 0xFFFFF000" by simp
  ultimately obtain s' where "for_pages (\<lambda>addr. identity_map_page L addr PAGE_WRITE)
      (of_nat (4096 * (unat a div 4096))) (of_nat (4096 * min 32768 e)) s = Some s'"
    "paged L s' (M \<union> page_set (unat a) (unat n)) U" "tables_only L s s'"
    using paged_loop [OF assms(1,2) b(1), of "min 32768 e" False] set by (auto simp del: of_nat_mult)
  then show ?thesis
    using False page_up [OF r, folded e_def]
    by (simp add: identity_map_range_def Let_def page_down stop del: of_nat_mult split del: if_split)
qed

lemma paging_mark_user_range_ok:
  assumes "page_link L" and "paged L s M U" and r: "unat a + unat n \<le> 0xFFFFF000"
  defines "K \<equiv> page_set (unat a) (unat n)"
  shows "\<exists>s'. paging_mark_user_range L a n s = Some s' \<and> paged L s' (M \<union> K) (U \<union> K) \<and> tables_only L s s'"
proof (cases "n = 0")
  case True
  then show ?thesis using assms by (simp add: paging_mark_user_range_def page_set_def in_pages_def)
next
  case False
  then have n: "unat n \<noteq> 0" by (simp add: unat_eq_0)
  from paged_loop [OF assms(1,2) page_bounds [OF r], of True] False page_up [OF r]
  show ?thesis
    by (simp add: paging_mark_user_range_def Let_def page_down K_def page_set_eq [OF n] del: of_nat_mult)
qed

section \<open>Walking the tables\<close>

lemma table_at_facts:
  assumes "page_link L" and "i < 32"
  shows "unat (table_at L i) = unat (g_page_tables_at L) + 4096 * i" and "4096 dvd unat (table_at L i)"
proof -
  have "unat (g_page_tables_at L) + 4096 * i < 2 ^ 32" using assms by (auto simp: page_link_def)
  then show "unat (table_at L i) = unat (g_page_tables_at L) + 4096 * i"
    unfolding table_at_def by (rule unat_of_nat_u32)
  then show "4096 dvd unat (table_at L i)" using assms(1) by (simp add: page_link_def)
qed

text \<open>The indices that the walk for address \<open>v\<close> uses.\<close>

lemma vaddr_bits:
  fixes v :: u32
  shows "drop_bit 22 v = of_nat (unat v div 4096 div 1024)" and "unat v div 4096 div 1024 < 1024"
    and "drop_bit 12 v AND 0x3FF = of_nat (unat v div 4096 mod 1024)"
    and "v = of_nat (4096 * (unat v div 4096)) OR (v AND 0xFFF)"
proof -
  have "unat (drop_bit 22 v) = unat v div 4096 div 1024"
    by (simp add: unat_drop_bit div_mult2_eq [symmetric])
  then show "drop_bit 22 v = of_nat (unat v div 4096 div 1024)" by (rule eq_of_natI)
  show "unat v div 4096 div 1024 < 1024" using unat_u32_less [of v] by (simp add: div_mult2_eq [symmetric] less_mult_imp_div_less)
  have "unat (take_bit 10 (drop_bit 12 v)) = unat v div 4096 mod 1024"
    by (simp add: unat_drop_bit unat_take_bit)
  then show "drop_bit 12 v AND 0x3FF = of_nat (unat v div 4096 mod 1024)"
    unfolding mask_10 take_bit_eq_mask [symmetric] by (rule eq_of_natI)
  have "v = (v AND 0xFFFFF000) OR (v AND 0xFFF)"
    unfolding not_mask_12(1) mask_12 by (rule bit_word_eqI) (auto simp: bit_simps)
  then show "v = of_nat (4096 * (unat v div 4096)) OR (v AND 0xFFF)" by (simp only: page_down)
qed

text \<open>The access rule of the processor: user mode needs the user bit at both levels.\<close>

definition user_can_access :: "mem \<Rightarrow> u32 \<Rightarrow> u32 \<Rightarrow> bool" where
  "user_can_access m pd v \<longleftrightarrow> walk_pde m pd v AND (PAGE_PRESENT OR PAGE_USER) = PAGE_PRESENT OR PAGE_USER
     \<and> walk_pte m pd v AND (PAGE_PRESENT OR PAGE_USER) = PAGE_PRESENT OR PAGE_USER"

lemma page_get_phys_walk:
  "page_get_phys m pd v =
     (if walk_pde m pd v AND PAGE_PRESENT = 0 \<or> walk_pte m pd v AND PAGE_PRESENT = 0 then 0
      else (walk_pte m pd v AND 0xFFFFF000) OR (v AND 0xFFF))"
  by (simp add: page_get_phys_def walk_pde_def walk_pte_def Let_def)

lemma paged_walk:
  fixes v :: u32
  assumes L: "page_link L" and P: "paged L s M U"
  defines "k \<equiv> unat v div 4096"
  shows "walk_pde (mm_mem s) (g_page_directory_at L) v = pd_entry L s (k div 1024)"
    and "k \<in> M \<Longrightarrow> walk_pte (mm_mem s) (g_page_directory_at L) v = pt_entry L s k"
    and "k div 1024 \<in> (\<lambda>k. k div 1024) ` M \<Longrightarrow> k \<notin> M \<Longrightarrow> walk_pte (mm_mem s) (g_page_directory_at L) v = 0"
proof -
  show pde: "walk_pde (mm_mem s) (g_page_directory_at L) v = pd_entry L s (k div 1024)"
    by (simp add: walk_pde_def pd_entry_def vaddr_bits k_def entry_at_def)
  have kk: "4096 * (k div 1024) + 4 * (k mod 1024) = 4 * k" using div_mult_mod_eq [of k 1024] by linarith
  have pte: "walk_pte (mm_mem s) (g_page_directory_at L) v = pt_entry L s k \<and> k < 32768"
    if m: "k div 1024 \<in> (\<lambda>k. k div 1024) ` M"
  proof -
    have i: "k div 1024 < 32" using m P by (auto simp: paged_def)
    then have "pd_entry L s (k div 1024) AND 0xFFFFF000 = table_at L (k div 1024)"
      using P m table_at_facts [OF L i] frame_or_flags [of "table_at L (k div 1024)"]
      by (auto simp: paged_def or.assoc)
    then have "walk_pte (mm_mem s) (g_page_directory_at L) v =
        load32 (mm_mem s) (of_nat (unat (g_page_tables_at L) + (4096 * (k div 1024) + 4 * (k mod 1024))))"
      by (simp add: walk_pte_def pde table_at_def entry_at_def vaddr_bits k_def add.assoc)
    with i show ?thesis by (simp only: kk pt_entry_def) auto
  qed
  show "walk_pte (mm_mem s) (g_page_directory_at L) v = pt_entry L s k" if "k \<in> M"
    using pte that by blast
  show "walk_pte (mm_mem s) (g_page_directory_at L) v = 0"
    if "k div 1024 \<in> (\<lambda>k. k div 1024) ` M" "k \<notin> M"
    using pte [OF that(1)] that(2) P by (auto simp: paged_def)
qed

lemma paged_present:
  assumes L: "page_link L" and P: "paged L s M U"
  shows "unat v div 4096 \<in> M \<Longrightarrow> walk_pde (mm_mem s) (g_page_directory_at L) v AND 1 = 1 \<and>
      walk_pte (mm_mem s) (g_page_directory_at L) v AND 1 = 1 \<and>
      (walk_pte (mm_mem s) (g_page_directory_at L) v AND 0xFFFFF000) OR (v AND 0xFFF) = v"
    and "unat v div 4096 \<notin> M \<Longrightarrow> walk_pde (mm_mem s) (g_page_directory_at L) v AND 1 = 0 \<or>
      walk_pte (mm_mem s) (g_page_directory_at L) v AND 1 = 0"
proof -
  define k where "k = unat v div 4096"
  let ?d = "\<lambda>k :: nat. k div 1024"
  note w = paged_walk [OF assms, of v, folded k_def]
  have "k div 1024 < 1024" unfolding k_def by (rule vaddr_bits)
  then have pd: "pd_entry L s (?d k) = (if ?d k \<in> ?d ` M
      then table_at L (?d k) OR 3 OR (if ?d k \<in> ?d ` U then 4 else 0) else 0)"
    using P by (simp add: paged_def)
  have bits: "(x OR 3) AND 1 = 1" "(x OR 7) AND 1 = 1" for x :: u32
    by (rule or_and_absorb, simp)+
  show "walk_pde (mm_mem s) (g_page_directory_at L) v AND 1 = 1 \<and>
      walk_pte (mm_mem s) (g_page_directory_at L) v AND 1 = 1 \<and>
      (walk_pte (mm_mem s) (g_page_directory_at L) v AND 0xFFFFF000) OR (v AND 0xFFF) = v"
    if "unat v div 4096 \<in> M"
  proof -
    have M: "k \<in> M" using that by (simp add: k_def)
    then have k: "k < 32768" and m: "?d k \<in> ?d ` M" using P by (auto simp: paged_def)
    have "4096 dvd unat (of_nat (4096 * k) :: u32)" using k by (subst unat_of_nat_u32) auto
    with P M k have "walk_pte (mm_mem s) (g_page_directory_at L) v AND 0xFFFFF000 = of_nat (4096 * k)"
      "walk_pte (mm_mem s) (g_page_directory_at L) v AND 1 = 1"
      using frame_or_flags [of "of_nat (4096 * k)"] by (auto simp: w(2) paged_def bits or.assoc simp del: of_nat_mult)
    moreover have "walk_pde (mm_mem s) (g_page_directory_at L) v AND 1 = 1"
      using m by (simp add: w(1) pd or.assoc bits)
    moreover have "of_nat (4096 * k) OR (v AND 0xFFF) = v" unfolding k_def by (rule vaddr_bits(4) [symmetric])
    ultimately show ?thesis by (simp del: of_nat_mult)
  qed
  show "walk_pde (mm_mem s) (g_page_directory_at L) v AND 1 = 0 \<or>
      walk_pte (mm_mem s) (g_page_directory_at L) v AND 1 = 0" if "unat v div 4096 \<notin> M"
    using that w(1,3) pd by (auto simp: k_def)
qed

text \<open>The processor's translation of the identity map.\<close>

lemma paged_virt_to_phys:
  assumes "page_link L" and "paged L s M U" and "cr3 s = g_page_directory_at L" and "cr0 s AND 0x80000000 \<noteq> 0"
  shows "virt_to_phys s v = (if unat v div 4096 \<in> M then Some v else None)"
  using paged_present [OF assms(1,2), of v] assms(3,4) by (auto simp: virt_to_phys_def)

theorem paged_translation:
  assumes L: "page_link L" and P: "paged L s M U"
  shows "page_get_phys (mm_mem s) (g_page_directory_at L) v = (if unat v div 4096 \<in> M then v else 0)"
    and "user_can_access (mm_mem s) (g_page_directory_at L) v \<longleftrightarrow> unat v div 4096 \<in> U"
proof -
  define k where "k = unat v div 4096"
  let ?d = "\<lambda>k :: nat. k div 1024"
  note w = paged_walk [OF assms, of v, folded k_def]
  have i: "k div 1024 < 1024" unfolding k_def by (rule vaddr_bits)
  have pd: "pd_entry L s (?d k) = (if ?d k \<in> ?d ` M
      then table_at L (?d k) OR 3 OR (if ?d k \<in> ?d ` U then 4 else 0) else 0)"
    using P i by (simp add: paged_def)
  have bits: "(x OR 3) AND 1 = 1" "(x OR 7) AND 1 = 1" "(x OR 7) AND 5 = 5" for x :: u32
    by (rule or_and_absorb, simp)+
  show "page_get_phys (mm_mem s) (g_page_directory_at L) v = (if unat v div 4096 \<in> M then v else 0)"
    using paged_present [OF assms, of v] by (auto simp: page_get_phys_walk)
  show "user_can_access (mm_mem s) (g_page_directory_at L) v \<longleftrightarrow> unat v div 4096 \<in> U"
  proof (cases "k \<in> U")
    case True
    then have M: "k \<in> M" "k < 32768" and m: "?d k \<in> ?d ` M" "?d k \<in> ?d ` U" using P by (auto simp: paged_def)
    then show ?thesis
      using P True by (simp add: user_can_access_def w pd or.assoc bits paged_def k_def del: of_nat_mult)
  next
    case False
    have "walk_pte (mm_mem s) (g_page_directory_at L) v AND 5 = 1" if "k \<in> M"
    proof -
      have k: "k < 32768" using that P by (auto simp: paged_def)
      then have "4096 dvd unat (of_nat (4096 * k) :: u32)" by (subst unat_of_nat_u32) auto
      then have "((of_nat (4096 * k) OR 3) AND 0xFFF) AND 5 = (1 :: u32)"
        using frame_or_flags(2) [of "of_nat (4096 * k)" 3] by (simp del: of_nat_mult)
      then have "(of_nat (4096 * k) OR 3) AND 5 = (1 :: u32)" by (simp add: and.assoc del: of_nat_mult)
      then show ?thesis using P k that False by (simp add: w paged_def del: of_nat_mult)
    qed
    then show ?thesis
      using False w(1,3) pd by (cases "k \<in> M") (auto simp: user_can_access_def k_def)
  qed
qed

end
