(* ===== verification/Address_Space.thy ===== *)
theory Address_Space
  imports Paging
begin

text \<open>
  \<open>page_map\<close> and \<open>page_get_phys\<close> over an arbitrary page directory: an address space is a
  directory whose present entries point to distinct tables, none of which is the
  directory itself or a free frame. \<open>page_map\<close> keeps that and changes the translation of
  one page, as an update of a function.
\<close>

section \<open>Entries of a table\<close>

lemma entry_unat:
  fixes t :: u32
  assumes "4096 dvd unat t" and "i < 1024"
  shows "unat (entry_at t (of_nat i)) = unat t + 4 * i" and "unat t + 4096 \<le> 2 ^ 32"
proof -
  obtain q where q: "unat t = 4096 * q" using assms(1) by (rule dvdE)
  then have "q < 1048576" using unat_u32_less [of t] by simp
  with q show b: "unat t + 4096 \<le> 2 ^ 32" by simp
  have "entry_at t (of_nat i) = of_nat (unat t + 4 * i)" by (simp add: entry_at_def)
  moreover have "unat t + 4 * i < 2 ^ 32" using b assms(2) by simp
  ultimately show "unat (entry_at t (of_nat i)) = unat t + 4 * i" by (metis unat_of_nat_u32)
qed

lemma entry_dvd:
  fixes t :: u32
  assumes "4096 dvd unat t" and "i < 1024"
  shows "4 dvd unat (entry_at t (of_nat i))"
  using assms dvd_trans [of 4 4096 "unat t"] by (simp add: entry_unat)

lemma aligned_apart:
  fixes t u :: u32
  assumes "4096 dvd unat t" and "4096 dvd unat u" and "t \<noteq> u"
  shows "unat t + 4096 \<le> unat u \<or> unat u + 4096 \<le> unat t"
proof -
  obtain a b where ab: "unat t = 4096 * a" "unat u = 4096 * b" using assms(1,2) by (meson dvdE)
  then have "a \<noteq> b" using assms(3) by (auto simp: word_unat_eq_iff)
  then show ?thesis unfolding ab by linarith
qed

lemma entry_eq_iff:
  fixes t u :: u32
  assumes "4096 dvd unat t" and "4096 dvd unat u" and "i < 1024" and "j < 1024"
  shows "entry_at t (of_nat i) = entry_at u (of_nat j) \<longleftrightarrow> t = u \<and> i = j"
proof -
  have e: "unat (entry_at t (of_nat i)) = unat t + 4 * i" "unat (entry_at u (of_nat j)) = unat u + 4 * j"
    using assms by (simp_all add: entry_unat)
  have "t = u" if "unat t + 4 * i = unat u + 4 * j"
    using aligned_apart [OF assms(1,2)] that assms(3,4) by (cases "t = u") auto
  then show ?thesis using e by (auto simp: word_unat_eq_iff)
qed

lemma load_entry_store:
  fixes t u :: u32
  assumes "4096 dvd unat t" and "4096 dvd unat u" and "i < 1024" and "j < 1024"
  shows "load32 (store32 (entry_at t (of_nat i)) x m) (entry_at u (of_nat j)) =
    (if t = u \<and> i = j then x else load32 m (entry_at u (of_nat j)))"
  using load32_store32_apart [of "entry_at t (of_nat i)" "entry_at u (of_nat j)" x m]
    entry_eq_iff [OF assms] entry_dvd assms by auto

lemma load_entry_memset:
  fixes t u :: u32
  assumes "4096 dvd unat t" and "4096 dvd unat u" and "j < 1024"
  shows "load32 (memset t 0 4096 m) (entry_at u (of_nat j)) =
    (if t = u then 0 else load32 m (entry_at u (of_nat j)))"
proof -
  have d: "entry_at u (of_nat j) + of_nat b = of_nat (unat u + 4 * j + b)" for b
    by (simp add: entry_at_def)
  have byte: "memset t 0 4096 m (entry_at u (of_nat j) + of_nat b) =
      (if t = u then 0 else m (entry_at u (of_nat j) + of_nat b))" if "b < 4" for b
  proof -
    have x: "unat u + 4 * j + b < 2 ^ 32" using entry_unat(2) [OF assms(2,3)] assms(3) that by simp
    have t: "t = of_nat (unat t)" by simp
    show ?thesis
    proof (cases "t = u")
      case True
      have "unat (of_nat (unat u + 4 * j + b) - t) = 4 * j + b"
        using nat_dist_u32_in [OF x, of "unat t"] True by (simp del: of_nat_add)
      with True assms(3) that show ?thesis by (simp add: memset_apply d del: of_nat_add)
    next
      case False
      have "unat u + 4 * j + b < unat t \<or> unat t + 4096 \<le> unat u + 4 * j + b"
        using aligned_apart [OF assms(1,2) False] assms(3) that by linarith
      from nat_dist_u32 [OF x entry_unat(2) [OF assms(1,3)] this] False
      show ?thesis by (simp add: memset_apply d del: of_nat_add)
    qed
  qed
  show ?thesis
  proof (cases "t = u")
    case True
    then show ?thesis using byte [of 0] byte [of 1] byte [of 2] byte [of 3] by (simp add: load32_def)
  next
    case False
    then have "load32 (memset t 0 4096 m) (entry_at u (of_nat j)) = load32 m (entry_at u (of_nat j))"
      using byte by (intro load32_cong) simp
    with False show ?thesis by simp
  qed
qed

section \<open>Address spaces\<close>

abbreviation pde_at :: "mem \<Rightarrow> u32 \<Rightarrow> nat \<Rightarrow> u32" where
  "pde_at m pd i \<equiv> load32 m (entry_at pd (of_nat i))"

definition present :: "mem \<Rightarrow> u32 \<Rightarrow> nat \<Rightarrow> bool" where
  "present m pd i \<longleftrightarrow> pde_at m pd i AND PAGE_PRESENT \<noteq> 0"

definition table_of :: "mem \<Rightarrow> u32 \<Rightarrow> nat \<Rightarrow> u32" where
  "table_of m pd i = pde_at m pd i AND 0xFFFFF000"

definition aspace :: "u32 \<Rightarrow> mm \<Rightarrow> bool" where
  "aspace pd s \<longleftrightarrow> 4096 dvd unat pd \<and> unat pd div 4096 \<notin> free_frames s \<and>
     (\<forall>i<1024. present (mm_mem s) pd i \<longrightarrow> table_of (mm_mem s) pd i \<noteq> pd \<and>
        unat (table_of (mm_mem s) pd i) div 4096 \<notin> free_frames s \<and>
        (\<forall>j<1024. present (mm_mem s) pd j \<and> table_of (mm_mem s) pd i = table_of (mm_mem s) pd j \<longrightarrow> i = j))"

lemma table_of_dvd: "4096 dvd unat (table_of m pd i)"
  by (simp add: table_of_def not_mask_12(1) unat_and_not_mask)

lemma page_get_phys_table:
  "page_get_phys m pd v =
     (let i = unat v div 4096 div 1024; e = load32 m (entry_at (table_of m pd i) (of_nat (unat v div 4096 mod 1024)))
      in if present m pd i \<and> e AND PAGE_PRESENT \<noteq> 0 then (e AND 0xFFFFF000) OR (v AND 0xFFF) else 0)"
  by (simp add: page_get_phys_def vaddr_bits Let_def table_of_def present_def)

lemma present_cong: "pde_at m' pd i = pde_at m pd i \<Longrightarrow> present m' pd i = present m pd i"
  "pde_at m' pd i = pde_at m pd i \<Longrightarrow> table_of m' pd i = table_of m pd i"
  by (simp_all add: present_def table_of_def)

text \<open>Writing one entry of a table that is in place.\<close>

lemma set_pte_translation:
  fixes v paddr :: u32
  assumes A: "aspace pd s" and fl: "unat flags < 4096"
  defines "k \<equiv> unat v div 4096"
  assumes p: "present (mm_mem s) pd (k div 1024)"
  defines "m' \<equiv> store32 (entry_at (table_of (mm_mem s) pd (k div 1024)) (of_nat (k mod 1024)))
      ((paddr AND 0xFFFFF000) OR flags OR PAGE_PRESENT) (mm_mem s)"
  shows "aspace pd (s\<lparr>mm_mem := m'\<rparr>)"
    and "page_get_phys m' pd w = (if unat w div 4096 = k then (paddr AND 0xFFFFF000) OR (w AND 0xFFF)
      else page_get_phys (mm_mem s) pd w)"
    and "walk_pde m' pd v = walk_pde (mm_mem s) pd v"
    and "walk_pte m' pd v = (paddr AND 0xFFFFF000) OR flags OR PAGE_PRESENT"
proof -
  let ?m = "mm_mem s" let ?t = "table_of (mm_mem s) pd"
  have k: "k div 1024 < 1024" "k mod 1024 < 1024" unfolding k_def by (simp_all add: vaddr_bits)
  have pd: "4096 dvd unat pd" using A by (simp add: aspace_def)
  have "?t (k div 1024) \<noteq> pd" using A p k by (simp add: aspace_def)
  then have pde: "pde_at m' pd i = pde_at ?m pd i" if "i < 1024" for i
    unfolding m'_def using that pd k by (subst load_entry_store) (auto simp: table_of_dvd)
  then have same: "present m' pd i = present ?m pd i" "table_of m' pd i = ?t i" if "i < 1024" for i
    using that present_cong by blast+
  have "free_frames (s\<lparr>mm_mem := m'\<rparr>) = free_frames s" by (simp add: free_frames_def used_def)
  with A same show "aspace pd (s\<lparr>mm_mem := m'\<rparr>)" by (simp add: aspace_def)
  show "walk_pde m' pd v = walk_pde (mm_mem s) pd v"
    using pde [OF k(1)] by (simp add: walk_pde_def vaddr_bits k_def)
  show "walk_pte m' pd v = (paddr AND 0xFFFFF000) OR flags OR PAGE_PRESENT"
    using same(2) [OF k(1)]
    by (simp add: walk_pte_def walk_pde_def vaddr_bits k_def [symmetric] table_of_def [symmetric]) (simp add: m'_def)
  define i where "i = unat w div 4096 div 1024"
  define j where "j = unat w div 4096 mod 1024"
  have ij: "i < 1024" "j < 1024" unfolding i_def j_def by (simp_all add: vaddr_bits)
  have eq: "unat w div 4096 = k \<longleftrightarrow> i = k div 1024 \<and> j = k mod 1024"
    unfolding i_def j_def by (metis div_mult_mod_eq)
  let ?x = "(paddr AND 0xFFFFF000) OR flags OR 1"
  have ent: "load32 m' (entry_at (?t i) (of_nat j)) =
      (if unat w div 4096 = k then ?x else load32 ?m (entry_at (?t i) (of_nat j)))" if "present ?m pd i"
  proof -
    have "?t (k div 1024) = ?t i \<longleftrightarrow> k div 1024 = i" using A that p ij k by (auto simp: aspace_def)
    then show ?thesis
      unfolding m'_def using k ij by (subst load_entry_store) (auto simp: table_of_dvd eq)
  qed
  have "unat (flags OR 1) < 4096" using unat_or_less [of flags 12 1] fl by simp
  then have "?x AND 0xFFFFF000 = paddr AND 0xFFFFF000" "?x AND 1 = 1"
    using frame_or_flags(1) [of "paddr AND 0xFFFFF000" "flags OR 1"] or_and_absorb [of 1 1 "(paddr AND 0xFFFFF000) OR flags"]
    by (simp_all add: or.assoc not_mask_12(1) unat_and_not_mask)
  with ent p same(1) [OF ij(1)] same(2) [OF ij(1)]
  show "page_get_phys m' pd w = (if unat w div 4096 = k then (paddr AND 0xFFFFF000) OR (w AND 0xFFF)
      else page_get_phys (mm_mem s) pd w)"
    by (auto simp: page_get_phys_table Let_def i_def [symmetric] j_def [symmetric] eq)
qed

text \<open>Installing a fresh, empty table changes no translation.\<close>

lemma new_table_translation:
  assumes A: "aspace pd s" and fl: "unat flags < 4096" and i: "i < 1024" "\<not> present (mm_mem s) pd i"
    and f: "f \<in> free_frames s" "4096 * f < 2 ^ 32"
    and s1: "mm_mem s1 = mm_mem s" "free_frames s1 = free_frames s - {f}"
  defines "t \<equiv> of_nat (4096 * f) :: u32"
  defines "m' \<equiv> store32 (entry_at pd (of_nat i)) (t OR flags OR PAGE_PRESENT) (memset t 0 4096 (mm_mem s))"
  shows "aspace pd (s1\<lparr>mm_mem := m'\<rparr>)" and "present m' pd i"
    and "page_get_phys m' pd w = page_get_phys (mm_mem s) pd w"
proof -
  let ?m = "mm_mem s"
  have t: "unat t = 4096 * f" unfolding t_def using f(2) by (rule unat_of_nat_u32)
  then have td: "4096 dvd unat t" by simp
  have pd: "4096 dvd unat pd" "unat pd div 4096 \<notin> free_frames s" using A by (simp_all add: aspace_def)
  have tpd: "t \<noteq> pd" using pd(2) f(1) t by auto
  have fl1: "unat (flags OR 1) < 4096" using unat_or_less [of flags 12 1] fl by simp
  have pde: "pde_at m' pd j = (if j = i then t OR flags OR 1 else pde_at ?m pd j)" if "j < 1024" for j
    unfolding m'_def using that i(1) pd(1) td tpd by (simp add: load_entry_store load_entry_memset)
  then show pi: "present m' pd i"
    using i(1) or_and_absorb [of 1 1 "t OR flags"] by (simp add: present_def or.assoc)
  have ti: "table_of m' pd i = t"
    using frame_or_flags(1) [OF td fl1] pde [OF i(1)] by (simp add: table_of_def or.assoc)
  have other: "present m' pd j = present ?m pd j" "table_of m' pd j = table_of ?m pd j"
    if "j < 1024" "j \<noteq> i" for j
    using that pde by (simp_all add: present_def table_of_def)
  have tj: "table_of ?m pd j \<noteq> pd" "table_of ?m pd j \<noteq> t" "unat (table_of ?m pd j) div 4096 \<notin> free_frames s"
    if "j < 1024" "present ?m pd j" for j
    using A that f(1) t by (auto simp: aspace_def)
  have inj: "j = j'" if "j < 1024" "present ?m pd j" "j' < 1024" "present ?m pd j'"
      "table_of ?m pd j = table_of ?m pd j'" for j j'
    using A that by (auto simp: aspace_def)
  have free: "free_frames (s1\<lparr>mm_mem := m'\<rparr>) = free_frames s - {f}"
    using s1(2) by (simp add: free_frames_def used_def)
  have case_j: "table_of m' pd j \<noteq> pd \<and> unat (table_of m' pd j) div 4096 \<notin> free_frames s - {f} \<and>
      (\<forall>j'<1024. present m' pd j' \<and> table_of m' pd j = table_of m' pd j' \<longrightarrow> j = j')"
    if j: "j < 1024" "present m' pd j" for j
  proof (cases "j = i")
    case True
    have "j' = i" if "j' < 1024" "present m' pd j'" "t = table_of m' pd j'" for j'
      using that other [of j'] tj [of j'] by metis
    with True show ?thesis by (auto simp: ti tpd t)
  next
    case False
    then have pj: "present ?m pd j" using other j by simp
    have "j = j'" if "j' < 1024" "present m' pd j'" "table_of ?m pd j = table_of m' pd j'" for j'
      using that other [of j'] tj [of j] ti inj [of j j'] pj j(1) by (cases "j' = i") auto
    with False show ?thesis using other [OF j(1) False] tj [OF j(1) pj] by auto
  qed
  show "aspace pd (s1\<lparr>mm_mem := m'\<rparr>)"
    unfolding aspace_def free using pd case_j by simp
  define j k where "j = unat w div 4096 div 1024" and "k = unat w div 4096 mod 1024"
  have jk: "j < 1024" "k < 1024" unfolding j_def k_def by (simp_all add: vaddr_bits)
  have ent: "load32 m' (entry_at u (of_nat k)) = (if u = t then 0 else load32 ?m (entry_at u (of_nat k)))"
    if "4096 dvd unat u" "u \<noteq> pd" for u :: u32
    unfolding m'_def using that jk i(1) pd(1) td by (auto simp: load_entry_store load_entry_memset)
  show "page_get_phys m' pd w = page_get_phys (mm_mem s) pd w"
  proof (cases "j = i")
    case True
    then show ?thesis
      using i(2) ti ent [of t] td tpd
      by (simp add: page_get_phys_table Let_def j_def [symmetric] k_def [symmetric])
  next
    case False
    then show ?thesis
      using other [OF jk(1) False] tj [OF jk(1)] ent [OF table_of_dvd, of ?m pd j]
      by (auto simp: page_get_phys_table Let_def j_def [symmetric] k_def [symmetric])
  qed
qed

section \<open>Access to the tables under translation\<close>

lemma virt_to_phys_table:
  "virt_to_phys s v =
     (if cr0 s AND 0x80000000 = 0 then Some v
      else let i = unat v div 4096 div 1024;
               e = load32 (mm_mem s) (entry_at (table_of (mm_mem s) (cr3 s) i) (of_nat (unat v div 4096 mod 1024)))
           in if present (mm_mem s) (cr3 s) i \<and> e AND PAGE_PRESENT \<noteq> 0 then Some ((e AND 0xFFFFF000) OR (v AND 0xFFF))
              else None)"
  by (simp add: virt_to_phys_def walk_pde_def walk_pte_def vaddr_bits Let_def table_of_def present_def)

lemma virt_to_phys_cong:
  assumes "cr0 s' = cr0 s" and "cr3 s' = cr3 s"
    and pde: "pde_at (mm_mem s') (cr3 s) (unat v div 4096 div 1024) = pde_at (mm_mem s) (cr3 s) (unat v div 4096 div 1024)"
    and pte: "present (mm_mem s) (cr3 s) (unat v div 4096 div 1024) \<Longrightarrow>
      load32 (mm_mem s') (entry_at (table_of (mm_mem s) (cr3 s) (unat v div 4096 div 1024)) (of_nat (unat v div 4096 mod 1024))) =
      load32 (mm_mem s) (entry_at (table_of (mm_mem s) (cr3 s) (unat v div 4096 div 1024)) (of_nat (unat v div 4096 mod 1024)))"
  shows "virt_to_phys s' v = virt_to_phys s v"
proof -
  have "walk_pde (mm_mem s') (cr3 s) v = walk_pde (mm_mem s) (cr3 s) v"
    using pde by (simp add: walk_pde_def vaddr_bits)
  moreover from this have "walk_pte (mm_mem s') (cr3 s) v = walk_pte (mm_mem s) (cr3 s) v"
    if "walk_pde (mm_mem s) (cr3 s) v AND PAGE_PRESENT \<noteq> 0"
    using pte that by (simp add: walk_pte_def walk_pde_def vaddr_bits present_def table_of_def)
  ultimately show ?thesis using assms(1,2) by (auto simp: virt_to_phys_def)
qed

lemma virt_to_phys_same: "same_but_frames s s' \<Longrightarrow> virt_to_phys s' = virt_to_phys s"
proof
  fix v assume s: "same_but_frames s s'"
  show "virt_to_phys s' v = virt_to_phys s v"
    by (rule virt_to_phys_cong) (use s in \<open>cases s; cases s'; simp add: same_but_frames_def\<close>)+
qed

text \<open>A page that is mapped to itself, is so at each of its entries.\<close>

lemma virt_to_phys_entry:
  fixes t :: u32
  assumes "virt_to_phys s t = Some t" and t: "4096 dvd unat t" and j: "j < 1024"
  shows "virt_to_phys s (entry_at t (of_nat j)) = Some (entry_at t (of_nat j))"
proof -
  let ?w = "entry_at t (of_nat j)"
  have k: "unat ?w div 4096 = unat t div 4096"
    using t j by (auto simp: entry_unat elim!: dvdE)
  have "t AND 0xFFF = 0" unfolding mask_12 by (rule page_aligned_and [OF t])
  moreover have "t = of_nat (4096 * (unat t div 4096))" using t by simp
  then have "?w = t OR (?w AND 0xFFF)" using vaddr_bits(4) [of ?w] by (simp only: k)
  ultimately show ?thesis
    using assms(1) by (auto simp: virt_to_phys_table k Let_def split: if_splits)
qed

text \<open>
  The code can reach the directory \<open>pd\<close> and its tables at the addresses it uses for them:
  each is mapped to itself, and \<open>pd\<close> is not a table of the current address space.
\<close>

definition tables_mapped :: "u32 \<Rightarrow> mm \<Rightarrow> bool" where
  "tables_mapped pd s \<longleftrightarrow> virt_to_phys s pd = Some pd \<and>
     (\<forall>i<1024. present (mm_mem s) pd i \<longrightarrow> virt_to_phys s (table_of (mm_mem s) pd i) = Some (table_of (mm_mem s) pd i)) \<and>
     (cr0 s AND 0x80000000 \<noteq> 0 \<longrightarrow> aspace (cr3 s) s \<and>
        (\<forall>i<1024. present (mm_mem s) (cr3 s) i \<longrightarrow> table_of (mm_mem s) (cr3 s) i \<noteq> pd))"

text \<open>Neither a free frame nor a missing entry of a directory takes part in a translation.\<close>

lemma free_frame_pde:
  assumes A: "aspace pd s" and f: "f \<in> free_frames s" "4096 * f < 2 ^ 32" and "i < 1024"
  shows "pde_at (memset (of_nat (4096 * f)) 0 4096 (mm_mem s)) pd i = pde_at (mm_mem s) pd i"
proof -
  have t: "unat (of_nat (4096 * f) :: u32) = 4096 * f" using f(2) by (rule unat_of_nat_u32)
  have "unat pd div 4096 \<notin> free_frames s" "4096 dvd unat pd" using A by (simp_all add: aspace_def)
  moreover from this have "of_nat (4096 * f) \<noteq> pd" using f(1) t by (metis nonzero_mult_div_cancel_left zero_neq_numeral)
  ultimately show ?thesis using assms(4) t by (simp add: load_entry_memset del: of_nat_mult)
qed

lemma virt_to_phys_memset:
  assumes "cr0 s AND 0x80000000 \<noteq> 0 \<longrightarrow> aspace (cr3 s) s" and f: "f \<in> free_frames s" "4096 * f < 2 ^ 32"
    and s1: "mm_mem s1 = mm_mem s" "cr0 s1 = cr0 s" "cr3 s1 = cr3 s"
  shows "virt_to_phys (s1\<lparr>mm_mem := memset (of_nat (4096 * f)) 0 4096 (mm_mem s)\<rparr>) v = virt_to_phys s v"
proof (cases "cr0 s AND 0x80000000 = 0")
  case False
  with assms(1) have A: "aspace (cr3 s) s" by simp
  let ?t = "of_nat (4096 * f) :: u32"
  have t: "unat ?t = 4096 * f" using f(2) by (rule unat_of_nat_u32)
  have td: "4096 dvd unat ?t" by (simp add: t del: of_nat_mult)
  have pte: "load32 (memset ?t 0 4096 (mm_mem s)) (entry_at (table_of (mm_mem s) (cr3 s) i) (of_nat j)) =
      load32 (mm_mem s) (entry_at (table_of (mm_mem s) (cr3 s) i) (of_nat j))"
    if "i < 1024" "j < 1024" "present (mm_mem s) (cr3 s) i" for i j
  proof -
    have "unat (table_of (mm_mem s) (cr3 s) i) div 4096 \<notin> free_frames s" using A that by (simp add: aspace_def)
    then have "table_of (mm_mem s) (cr3 s) i \<noteq> ?t" using f(1) t by (metis nonzero_mult_div_cancel_left zero_neq_numeral)
    then show ?thesis using that td by (simp add: load_entry_memset table_of_dvd del: of_nat_mult)
  qed
  have i: "unat v div 4096 div 1024 < 1024" by (rule vaddr_bits)
  show ?thesis
    using free_frame_pde [OF A f i] pte [OF i, of "unat v div 4096 mod 1024"] s1
    by (intro virt_to_phys_cong) (simp_all del: of_nat_mult)
qed (simp add: virt_to_phys_def s1)

lemma virt_to_phys_new_pde:
  assumes "cr0 s AND 0x80000000 \<noteq> 0 \<longrightarrow> 4096 dvd unat (cr3 s) \<and>
      (\<forall>j<1024. present (mm_mem s) (cr3 s) j \<longrightarrow> table_of (mm_mem s) (cr3 s) j \<noteq> pd)"
    and pd: "4096 dvd unat pd" and i: "i < 1024" "\<not> present (mm_mem s) pd i"
    and s1: "cr0 s1 = cr0 s" "cr3 s1 = cr3 s" and p: "virt_to_phys s v = Some p"
  shows "virt_to_phys (s1\<lparr>mm_mem := store32 (entry_at pd (of_nat i)) x (mm_mem s)\<rparr>) v = Some p"
proof (cases "cr0 s AND 0x80000000 = 0")
  case False
  with assms(1) have A: "4096 dvd unat (cr3 s)" and T: "\<forall>j<1024. present (mm_mem s) (cr3 s) j \<longrightarrow> table_of (mm_mem s) (cr3 s) j \<noteq> pd"
    by (auto simp: aspace_def)
  let ?i = "unat v div 4096 div 1024"
  have j: "?i < 1024" by (rule vaddr_bits)
  have v: "present (mm_mem s) (cr3 s) ?i" using p False by (auto simp: virt_to_phys_table Let_def split: if_splits)
  then have "\<not> (pd = cr3 s \<and> i = ?i)" using i(2) by auto
  then have pde: "pde_at (store32 (entry_at pd (of_nat i)) x (mm_mem s)) (cr3 s) ?i = pde_at (mm_mem s) (cr3 s) ?i"
    using load_entry_store [OF pd A i(1) j, of x "mm_mem s"] by auto
  have "table_of (mm_mem s) (cr3 s) ?i \<noteq> pd" using T j v by simp
  then have "load32 (store32 (entry_at pd (of_nat i)) x (mm_mem s))
      (entry_at (table_of (mm_mem s) (cr3 s) ?i) (of_nat (unat v div 4096 mod 1024))) =
      load32 (mm_mem s) (entry_at (table_of (mm_mem s) (cr3 s) ?i) (of_nat (unat v div 4096 mod 1024)))"
    using load_entry_store [OF pd table_of_dvd i(1), of "unat v div 4096 mod 1024" x "mm_mem s"] by auto
  with pde s1 have "virt_to_phys (s1\<lparr>mm_mem := store32 (entry_at pd (of_nat i)) x (mm_mem s)\<rparr>) v = virt_to_phys s v"
    by (intro virt_to_phys_cong) simp_all
  with p show ?thesis by simp
qed (use p in \<open>simp add: virt_to_phys_def s1\<close>)

section \<open>page_map\<close>

abbreviation set_pte :: "u32 \<Rightarrow> u32 \<Rightarrow> u32 \<Rightarrow> u32 \<Rightarrow> mm \<Rightarrow> mm" where
  "set_pte pd v paddr flags s \<equiv> s\<lparr>mm_mem :=
     store32 (entry_at (table_of (mm_mem s) pd (unat v div 4096 div 1024)) (of_nat (unat v div 4096 mod 1024)))
       ((paddr AND 0xFFFFF000) OR flags OR PAGE_PRESENT) (mm_mem s)\<rparr>"

lemma vaccess:
  fixes t :: u32
  assumes "virt_to_phys s t = Some t" and "4096 dvd unat t"
  shows "j < 1024 \<Longrightarrow> vload32 s (entry_at t (of_nat j)) = Inr (load32 (mm_mem s) (entry_at t (of_nat j)))"
    and "j < 1024 \<Longrightarrow> vstore32 (entry_at t (of_nat j)) x s = Inr (s\<lparr>mm_mem := store32 (entry_at t (of_nat j)) x (mm_mem s)\<rparr>)"
    and "vmemset_page t c s = Inr (s\<lparr>mm_mem := memset t c 4096 (mm_mem s)\<rparr>)"
  using assms by (simp_all add: vload32_def vstore32_def vmemset_page_def virt_to_phys_entry)

lemma page_map_reuse:
  assumes "aspace pd s" and "tables_mapped pd s" and p: "present (mm_mem s) pd (unat v div 4096 div 1024)"
  shows "page_map pd v paddr flags s = Inr (set_pte pd v paddr flags s)"
proof -
  let ?i = "unat v div 4096 div 1024" let ?t = "table_of (mm_mem s) pd ?i"
  have i: "?i < 1024" by (rule vaddr_bits)
  have pd: "virt_to_phys s pd = Some pd" "4096 dvd unat pd" and t: "virt_to_phys s ?t = Some ?t"
    using assms i by (simp_all add: tables_mapped_def aspace_def)
  note t = vaccess(2) [OF t table_of_dvd, of "unat v div 4096 mod 1024"]
  from p show ?thesis
    using t vaccess(1) [OF pd i]
    by (simp add: page_map_def Let_def vaddr_bits present_def table_of_def)
qed

lemma page_map_no_frame:
  assumes "aspace pd s" and "tables_mapped pd s" and "pmm_inv s" and "\<not> present (mm_mem s) pd (unat v div 4096 div 1024)"
    and "free_frames s = {}"
  shows "page_map pd v paddr flags s = Inr s"
proof -
  have pd: "virt_to_phys s pd = Some pd" "4096 dvd unat pd" using assms by (simp_all add: tables_mapped_def aspace_def)
  from vaccess(1) [OF pd vaddr_bits(2) [of v]] pmm.alloc_empty [OF assms(3,5)] assms(4) show ?thesis
    by (simp add: page_map_def Let_def vaddr_bits present_def)
qed

lemma page_map_fault:
  assumes "aspace pd s" and "tables_mapped pd s" and "pmm_inv s" and "\<not> present (mm_mem s) pd (unat v div 4096 div 1024)"
    and "free_frames s \<noteq> {}" and "virt_to_phys s (of_nat (4096 * Min (free_frames s))) = None"
  shows "page_map pd v paddr flags s = Inl Fault"
proof -
  have pd: "virt_to_phys s pd = Some pd" "4096 dvd unat pd" using assms by (simp_all add: tables_mapped_def aspace_def)
  obtain f s1 where f: "f \<in> free_frames s" "\<And>g. g \<in> free_frames s \<Longrightarrow> f \<le> g" "pmm_alloc_frame s = (of_nat (4096 * f), s1)"
    "(of_nat (4096 * f) :: u32) \<noteq> 0"
    using pmm.alloc_cases [OF assms(3)] assms(5) by metis
  then have m: "Min (free_frames s) = f" using pmm.free_finite [OF assms(3)] by (intro Min_eqI) auto
  have "same_but_frames s s1" using pmm_alloc_frame_ok [OF assms(3,5) f(3)] by simp
  then have "virt_to_phys s1 (of_nat (4096 * f)) = None" using assms(6) m by (simp add: virt_to_phys_same)
  then show ?thesis
    using vaccess(1) [OF pd vaddr_bits(2) [of v]] assms(4) f(3,4)
    by (simp add: page_map_def Let_def vaddr_bits present_def vmemset_page_def del: of_nat_mult)
qed

lemma tables_apart_memset:
  assumes T: "tables_mapped pd s" and f: "f \<in> free_frames s" "4096 * f < 2 ^ 32"
    and cr: "cr0 s1 = cr0 s" "cr3 s1 = cr3 s" "mm_mem s1 = mm_mem s"
  defines "s2 \<equiv> s1\<lparr>mm_mem := memset (of_nat (4096 * f)) 0 4096 (mm_mem s)\<rparr>"
  shows "cr0 s2 AND 0x80000000 \<noteq> 0 \<longrightarrow> 4096 dvd unat (cr3 s2) \<and>
    (\<forall>j<1024. present (mm_mem s2) (cr3 s2) j \<longrightarrow> table_of (mm_mem s2) (cr3 s2) j \<noteq> pd)"
proof
  assume "cr0 s2 AND 0x80000000 \<noteq> 0"
  then have A3: "aspace (cr3 s) s" and tb: "\<forall>j<1024. present (mm_mem s) (cr3 s) j \<longrightarrow> table_of (mm_mem s) (cr3 s) j \<noteq> pd"
    using T by (simp_all add: s2_def cr tables_mapped_def)
  have "present (mm_mem s2) (cr3 s) j = present (mm_mem s) (cr3 s) j" "table_of (mm_mem s2) (cr3 s) j = table_of (mm_mem s) (cr3 s) j"
    if "j < 1024" for j
    using present_cong [OF free_frame_pde [OF A3 f that]] by (simp_all add: s2_def del: of_nat_mult)
  moreover have "cr3 s2 = cr3 s" by (simp add: s2_def cr)
  ultimately show "4096 dvd unat (cr3 s2) \<and>
      (\<forall>j<1024. present (mm_mem s2) (cr3 s2) j \<longrightarrow> table_of (mm_mem s2) (cr3 s2) j \<noteq> pd)"
    using tb A3 by (simp add: aspace_def)
qed

lemma page_map_new_table:
  assumes A: "aspace pd s" and T: "tables_mapped pd s" and I: "pmm_inv s"
    and np: "\<not> present (mm_mem s) pd (unat v div 4096 div 1024)" and ne: "free_frames s \<noteq> {}"
  defines "t \<equiv> of_nat (4096 * Min (free_frames s))"
  assumes vt: "virt_to_phys s t = Some t" and fl: "unat flags < 4096"
  obtains s1 where "pmm_alloc_frame s = (t, s1)" "same_but_frames s s1" "pmm_inv s1"
    "free_frames s1 = free_frames s - {Min (free_frames s)}"
    "page_map pd v paddr flags s = Inr (set_pte pd v paddr flags
       (s1\<lparr>mm_mem := store32 (entry_at pd (of_nat (unat v div 4096 div 1024))) (t OR flags OR PAGE_PRESENT)
          (memset t 0 4096 (mm_mem s))\<rparr>))"
proof -
  let ?i = "unat v div 4096 div 1024" let ?f = "Min (free_frames s)"
  have i: "?i < 1024" by (rule vaddr_bits)
  have pd: "virt_to_phys s pd = Some pd" "4096 dvd unat pd" using A T by (simp_all add: tables_mapped_def aspace_def)
  obtain s1 where al: "pmm_alloc_frame s = (t, s1)" "t \<noteq> 0"
    using pmm.alloc_cases [OF I] ne pmm_alloc_frame_ok [OF I ne] unfolding t_def by (metis prod.collapse fst_conv)
  note ok = pmm_alloc_frame_ok [OF I ne al(1)]
  then have sb: "same_but_frames s s1" by blast
  note same = same_but_framesD [OF sb]
  have f: "?f \<in> free_frames s" "4096 * ?f < 2 ^ 32"
    using ne pmm.free_finite [OF I] pmm.free_range [OF I, of ?f] pmm.count_bound [OF I] by auto
  have td: "4096 dvd unat t" unfolding t_def using f(2) by (simp add: unat_of_nat_u32 del: of_nat_mult)
  define s2 where "s2 = s1\<lparr>mm_mem := memset t 0 4096 (mm_mem s)\<rparr>"
  define s3 where "s3 = s1\<lparr>mm_mem := store32 (entry_at pd (of_nat ?i)) (t OR flags OR PAGE_PRESENT) (mm_mem s2)\<rparr>"
  have cr: "cr0 s1 = cr0 s" "cr3 s1 = cr3 s" "mm_mem s1 = mm_mem s"
    using sb by (cases s; cases s1; simp add: same_but_frames_def)+
  have v2: "virt_to_phys s2 w = virt_to_phys s w" for w
    unfolding s2_def t_def using T f cr by (intro virt_to_phys_memset) (simp_all add: tables_mapped_def del: of_nat_mult)
  have "cr0 s2 AND 0x80000000 \<noteq> 0 \<longrightarrow> 4096 dvd unat (cr3 s2) \<and>
      (\<forall>j<1024. present (mm_mem s2) (cr3 s2) j \<longrightarrow> table_of (mm_mem s2) (cr3 s2) j \<noteq> pd)"
    unfolding s2_def t_def by (rule tables_apart_memset [OF T f cr])
  then have v3: "virt_to_phys s3 w = Some q" if "virt_to_phys s w = Some q" for w q
    unfolding s3_def using pd(2) i np cr that v2 free_frame_pde [OF A f i]
    by (intro virt_to_phys_new_pde) (simp_all add: s2_def t_def present_def del: of_nat_mult)
  have "page_map pd v paddr flags s = bindr (vload32 s3 (entry_at pd (of_nat ?i))) (\<lambda>e.
      vstore32 (entry_at (e AND 0xFFFFF000) (of_nat (unat v div 4096 mod 1024))) ((paddr AND 0xFFFFF000) OR flags OR PAGE_PRESENT) s3)"
    using vaccess(1) [OF pd i] np al vaccess(3) [of s1 t 0] virt_to_phys_same [OF sb] vt td
      vaccess(2) [of s2 pd ?i "t OR flags OR PAGE_PRESENT"] v2 pd i
    by (simp add: page_map_def Let_def vaddr_bits present_def s2_def s3_def cr)
  moreover have "load32 (mm_mem s3) (entry_at pd (of_nat ?i)) AND 0xFFFFF000 = t"
  proof -
    have "unat (flags OR 1) < 4096" using unat_or_less [of flags 12 1] fl by simp
    then show ?thesis using frame_or_flags(1) [OF td] by (simp add: s3_def or.assoc)
  qed
  ultimately have "page_map pd v paddr flags s = Inr (set_pte pd v paddr flags s3)"
    using vaccess(1) [OF v3 [OF pd(1)] pd(2) i] vaccess(2) [OF v3 [OF vt] td, of "unat v div 4096 mod 1024"]
    by (simp add: table_of_def)
  then show thesis using al(1) ok by (intro that [of s1]) (simp_all add: s3_def s2_def)
qed

text \<open>What a successful \<open>page_map\<close> leaves behind, in both cases.\<close>

definition mapped_to :: "u32 \<Rightarrow> u32 \<Rightarrow> u32 \<Rightarrow> u32 \<Rightarrow> mm \<Rightarrow> mm \<Rightarrow> bool" where
  "mapped_to pd v paddr flags s s' \<longleftrightarrow> aspace pd s' \<and> pmm_inv s' \<and>
     walk_pte (mm_mem s') pd v = (paddr AND 0xFFFFF000) OR flags OR PAGE_PRESENT \<and>
     (\<forall>w. page_get_phys (mm_mem s') pd w =
        (if unat w div 4096 = unat v div 4096 then (paddr AND 0xFFFFF000) OR (w AND 0xFFF)
         else page_get_phys (mm_mem s) pd w))"

lemma page_map_reuse_ok:
  assumes A: "aspace pd s" and T: "tables_mapped pd s" and I: "pmm_inv s" and fl: "unat flags < 4096"
    and p: "present (mm_mem s) pd (unat v div 4096 div 1024)"
  shows "\<exists>s'. page_map pd v paddr flags s = Inr s' \<and> mapped_to pd v paddr flags s s' \<and>
    free_frames s' = free_frames s \<and> walk_pde (mm_mem s') pd v = walk_pde (mm_mem s) pd v"
proof -
  let ?s = "set_pte pd v paddr flags s"
  have "free_frames ?s = free_frames s" "pmm_inv ?s"
    using I by (simp_all add: free_frames_def used_def pmm_inv_def frames_wf_def)
  with set_pte_translation [OF A fl p, of paddr] page_map_reuse [OF A T p] show ?thesis
    by (intro exI [of _ ?s]) (simp add: mapped_to_def)
qed

lemma page_map_new_ok:
  assumes A: "aspace pd s" and T: "tables_mapped pd s" and I: "pmm_inv s" and fl: "unat flags < 4096"
    and np: "\<not> present (mm_mem s) pd (unat v div 4096 div 1024)" and ne: "free_frames s \<noteq> {}"
  defines "t \<equiv> of_nat (4096 * Min (free_frames s))"
  assumes vt: "virt_to_phys s t = Some t"
  shows "\<exists>s'. page_map pd v paddr flags s = Inr s' \<and> mapped_to pd v paddr flags s s' \<and>
    free_frames s' = free_frames s - {Min (free_frames s)} \<and> walk_pde (mm_mem s') pd v = t OR flags OR PAGE_PRESENT"
proof -
  let ?i = "unat v div 4096 div 1024" let ?f = "Min (free_frames s)"
  have i: "?i < 1024" by (rule vaddr_bits)
  obtain s1 where s1: "same_but_frames s s1" "pmm_inv s1" "free_frames s1 = free_frames s - {?f}"
    "page_map pd v paddr flags s = Inr (set_pte pd v paddr flags
       (s1\<lparr>mm_mem := store32 (entry_at pd (of_nat ?i)) (t OR flags OR PAGE_PRESENT) (memset t 0 4096 (mm_mem s))\<rparr>))"
    using page_map_new_table [OF A T I np ne vt [unfolded t_def] fl] unfolding t_def by metis
  define s3 where "s3 = s1\<lparr>mm_mem := store32 (entry_at pd (of_nat ?i)) (t OR flags OR PAGE_PRESENT) (memset t 0 4096 (mm_mem s))\<rparr>"
  have f: "?f \<in> free_frames s" "4096 * ?f < 2 ^ 32"
    using ne pmm.free_finite [OF I] pmm.free_range [OF I, of ?f] pmm.count_bound [OF I] by auto
  note n = new_table_translation [OF A fl i np f same_but_framesD(3) [OF s1(1)] s1(3), folded t_def]
  have n3: "aspace pd s3" "present (mm_mem s3) pd ?i" "page_get_phys (mm_mem s3) pd w = page_get_phys (mm_mem s) pd w" for w
    using n by (simp_all add: s3_def)
  have w: "walk_pde (mm_mem s3) pd v = t OR flags OR PAGE_PRESENT" by (simp add: s3_def walk_pde_def vaddr_bits)
  let ?s = "set_pte pd v paddr flags s3"
  have "free_frames ?s = free_frames s1" "pmm_inv ?s"
    using s1(2) by (simp_all add: s3_def free_frames_def used_def pmm_inv_def frames_wf_def)
  with set_pte_translation [OF n3(1) fl n3(2), of paddr] n3(3) w s1(3,4) show ?thesis
    by (intro exI [of _ ?s]) (simp add: mapped_to_def s3_def)
qed

section \<open>The static tables are an address space\<close>

lemma paged_table_of:
  assumes L: "page_link L" and P: "paged L s M U" and "i < 1024" and "present (mm_mem s) (g_page_directory_at L) i"
  shows "i < 32 \<and> table_of (mm_mem s) (g_page_directory_at L) i = table_at L i"
proof -
  have e: "pd_entry L s i = (if i \<in> (\<lambda>k. k div 1024) ` M
      then table_at L i OR 3 OR (if i \<in> (\<lambda>k. k div 1024) ` U then 4 else 0) else 0)"
    using assms(3) P by (simp add: paged_def)
  have pde: "pde_at (mm_mem s) (g_page_directory_at L) i = pd_entry L s i" by (simp add: pd_entry_def entry_at_def)
  have m: "i \<in> (\<lambda>k. k div 1024) ` M" using assms(4) e by (simp add: present_def pde split: if_splits)
  then have i: "i < 32" using P by (auto simp: paged_def)
  then show ?thesis
    using frame_or_flags(1) [OF table_at_facts(2) [OF L i]] e m by (auto simp: table_of_def pde or.assoc)
qed

lemma paged_aspace:
  assumes L: "page_link L" and P: "paged L s M U"
    and free: "\<forall>f\<in>free_frames s. \<forall>x\<in>table_bytes L. x div 4096 \<noteq> f"
  shows "aspace (g_page_directory_at L) s"
proof -
  let ?pd = "g_page_directory_at L"
  have dir: "4096 dvd unat ?pd" "unat ?pd \<in> table_bytes L" using L by (auto simp: page_link_def table_bytes_def)
  note tab = paged_table_of [OF L P]
  have apart: "table_at L i \<noteq> ?pd" "unat (table_at L i) \<in> table_bytes L" "j < 32 \<Longrightarrow> table_at L i = table_at L j \<Longrightarrow> i = j"
    if "i < 32" for i j
  proof -
    note u = table_at_facts(1) [OF L that]
    show "unat (table_at L i) \<in> table_bytes L" using u that by (auto simp: table_bytes_def)
    show "table_at L i \<noteq> ?pd" using u L that by (auto simp: page_link_def)
    show "i = j" if "j < 32" "table_at L i = table_at L j"
      using arg_cong [OF that(2), of unat] unfolding u table_at_facts(1) [OF L that(1)] by simp
  qed
  have "table_of (mm_mem s) ?pd i \<noteq> ?pd \<and> unat (table_of (mm_mem s) ?pd i) div 4096 \<notin> free_frames s \<and>
      (\<forall>j<1024. present (mm_mem s) ?pd j \<and> table_of (mm_mem s) ?pd i = table_of (mm_mem s) ?pd j \<longrightarrow> i = j)"
    if i: "i < 1024" "present (mm_mem s) ?pd i" for i
  proof -
    note ti = tab [OF i]
    have "i = j" if "j < 1024" "present (mm_mem s) ?pd j" "table_at L i = table_of (mm_mem s) ?pd j" for j
      using apart(3) [of i j] ti tab [OF that(1,2)] that(3) by simp
    with apart(1,2) [of i] free ti show ?thesis by auto
  qed
  then show ?thesis unfolding aspace_def using dir free by blast
qed

text \<open>After boot, \<open>page_map\<close> reaches the static tables when their pages are mapped.\<close>

lemma paged_tables_mapped:
  assumes L: "page_link L" and P: "paged L s M U"
    and free: "\<forall>f\<in>free_frames s. \<forall>x\<in>table_bytes L. x div 4096 \<noteq> f"
    and cr: "cr3 s = g_page_directory_at L" "cr0 s AND 0x80000000 \<noteq> 0" and M: "\<forall>x\<in>table_bytes L. x div 4096 \<in> M"
  shows "tables_mapped (g_page_directory_at L) s"
proof -
  let ?pd = "g_page_directory_at L"
  note v = paged_virt_to_phys [OF L P cr]
  note A = paged_aspace [OF L P free]
  have pd: "unat ?pd \<in> table_bytes L" using L by (auto simp: page_link_def table_bytes_def)
  have "unat (table_of (mm_mem s) ?pd i) \<in> table_bytes L" if "i < 1024" "present (mm_mem s) ?pd i" for i
    using paged_table_of [OF L P that] table_at_facts(1) [OF L, of i] by (auto simp: table_bytes_def)
  with M v pd A cr show ?thesis by (simp add: tables_mapped_def) (simp add: aspace_def)
qed

end
