(* ===== verification/Memory_Init.thy ===== *)
theory Memory_Init
  imports Address_Space Heap_Api
begin

text \<open>
  Boot-time memory setup of \<^verbatim>\<open>arch/memory.c\<close>: \<open>detect_memory_bytes\<close> and \<open>memory_init\<close>,
  with the multiboot structures of \<^verbatim>\<open>include/memory.h\<close> read from memory.

  The two loops over the memory map advance by a length that the boot loader wrote, and
  may run forever on a malformed map; they are partial functions with value \<open>None\<close> in
  that case. A well-formed map is described by \<open>mmap_at\<close>.
\<close>

section \<open>Model\<close>

record multiboot_info =
  mb_flags :: u32
  mb_mem_lower :: u32
  mb_mem_upper :: u32
  mb_boot_device :: u32
  mb_cmdline :: u32
  mb_mods_count :: u32
  mb_mods_addr :: u32
  mb_syms :: "u32 list"
  mb_mmap_length :: u32
  mb_mmap_addr :: u32

record multiboot_mmap_entry =
  me_size :: u32
  me_addr_low :: u32
  me_addr_high :: u32
  me_len_low :: u32
  me_len_high :: u32
  me_type :: u32

definition read_mb :: "mem \<Rightarrow> u32 \<Rightarrow> multiboot_info" where
  "read_mb m a = \<lparr>mb_flags = load32 m a, mb_mem_lower = load32 m (a + 4), mb_mem_upper = load32 m (a + 8),
     mb_boot_device = load32 m (a + 12), mb_cmdline = load32 m (a + 16), mb_mods_count = load32 m (a + 20),
     mb_mods_addr = load32 m (a + 24), mb_syms = map (\<lambda>i. load32 m (a + 28 + 4 * of_nat i)) [0..<4],
     mb_mmap_length = load32 m (a + 44), mb_mmap_addr = load32 m (a + 48)\<rparr>"

definition read_entry :: "mem \<Rightarrow> u32 \<Rightarrow> multiboot_mmap_entry" where
  "read_entry m a = \<lparr>me_size = load32 m a, me_addr_low = load32 m (a + 4), me_addr_high = load32 m (a + 8),
     me_len_low = load32 m (a + 12), me_len_high = load32 m (a + 16), me_type = load32 m (a + 20)\<rparr>"

partial_function (option) detect_scan :: "mem \<Rightarrow> multiboot_info \<Rightarrow> u32 \<Rightarrow> u32 \<Rightarrow> u32 option" where
  "detect_scan m mb offset max_end =
     (if offset < mb_mmap_length mb
      then let entry = read_entry m (mb_mmap_addr mb + offset);
               len = me_size entry + 4;
               max_end = (if me_type entry = 1
                 then let e = me_addr_low entry + me_len_low entry in if max_end < e then e else max_end
                 else max_end)
           in if len = 0 then Some max_end else detect_scan m mb (offset + len) max_end
      else Some max_end)"

definition has_mmap :: "multiboot_info \<Rightarrow> bool" where
  "has_mmap mb \<longleftrightarrow> mb_flags mb AND push_bit 6 1 \<noteq> 0 \<and> mb_mmap_length mb \<noteq> 0"

definition detect_memory_bytes :: "u32 \<Rightarrow> u32 \<Rightarrow> mem \<Rightarrow> u32 option" where
  "detect_memory_bytes mb_magic mb_info_addr m =
     (if mb_magic \<noteq> 0x2BADB002 \<or> mb_info_addr = 0 then Some (64 * 1024 * 1024)
      else let mb = read_mb m mb_info_addr;
               fallback =
                 (if mb_flags mb AND 1 \<noteq> 0 \<and> mb_mem_lower mb + mb_mem_upper mb \<noteq> 0
                  then (mb_mem_lower mb + mb_mem_upper mb) * 1024
                  else 64 * 1024 * 1024)
           in if has_mmap mb
              then do { max_end \<leftarrow> detect_scan m mb 0 0; Some (if max_end \<noteq> 0 then max_end else fallback) }
              else Some fallback)"

partial_function (option) free_scan :: "multiboot_info \<Rightarrow> u32 \<Rightarrow> mm \<Rightarrow> mm option" where
  "free_scan mb offset s =
     (if offset < mb_mmap_length mb
      then let entry = read_entry (mm_mem s) (mb_mmap_addr mb + offset);
               len = me_size entry + 4;
               start = me_addr_low entry;
               sz = (if g_total_memory_bytes s < start + me_len_low entry
                     then g_total_memory_bytes s - start else me_len_low entry)
           in do { s \<leftarrow> (if me_type entry = 1 \<and> start < g_total_memory_bytes s
                        then free_range start sz s else Some s);
                   if len = 0 then Some s else free_scan mb (offset + len) s }
      else Some s)"

definition free_high_memory :: "mm \<Rightarrow> mm option" where
  "free_high_memory s = free_range 0x00100000
     (if 0x00100000 < g_total_memory_bytes s then g_total_memory_bytes s - 0x00100000 else 0) s"

definition memory_init :: "link_map \<Rightarrow> u32 \<Rightarrow> u32 \<Rightarrow> mm \<Rightarrow> mm option" where
  "memory_init L mb_magic mb_info_addr s =
     (if g_paging_ready s then Some s
      else do {
        bytes \<leftarrow> detect_memory_bytes mb_magic mb_info_addr (mm_mem s);
        let bytes = (if MAX_PHYS_MEM_BYTES < bytes then MAX_PHYS_MEM_BYTES else bytes);
        let bytes = align_up_u32 bytes PAGE_SIZE;
        let s = s\<lparr>g_total_memory_bytes := bytes, g_total_frames := bytes div PAGE_SIZE,
          g_frame_bitmap := (\<lambda>i. if i < unat (FRAME_BITMAP_BYTES div 4) then 0xFFFFFFFF else g_frame_bitmap s i),
          mm_mem := memset (g_page_tables_at L) 0 (IDENTITY_TABLES * 1024 * 4)
            (memset (g_page_directory_at L) 0 (1024 * 4) (mm_mem s))\<rparr>;
        s \<leftarrow> (if mb_magic = 0x2BADB002 \<and> mb_info_addr \<noteq> 0
              then let mb = read_mb (mm_mem s) mb_info_addr
                   in if has_mmap mb then free_scan mb 0 s else free_high_memory s
              else free_high_memory s);
        s \<leftarrow> reserve_range 0 0x00100000 s;
        s \<leftarrow> (if 0x00100000 < kernel_end_at L
              then reserve_range 0x00100000 (kernel_end_at L - 0x00100000) s else Some s);
        s \<leftarrow> reserve_range USER_PROGRAM_BASE USER_PROGRAM_MAX_SIZE s;
        s \<leftarrow> reserve_range (USER_STACK_TOP - USER_STACK_SIZE) USER_STACK_SIZE s;
        let identity_bytes = (if IDENTITY_MAP_BYTES < g_total_memory_bytes s then IDENTITY_MAP_BYTES
                              else g_total_memory_bytes s);
        s \<leftarrow> identity_map_range L 0 identity_bytes PAGE_WRITE s;
        s \<leftarrow> paging_mark_user_range L USER_PROGRAM_BASE USER_PROGRAM_MAX_SIZE s;
        s \<leftarrow> paging_mark_user_range L (USER_STACK_TOP - USER_STACK_SIZE) USER_STACK_SIZE s;
        let s = (enable_paging L s)\<lparr>g_paging_ready := True\<rparr>;
        Some (heap_init L s)
      })"

section \<open>Memory maps\<close>

text \<open>The entries that the loops visit, in order, when the map is well formed.\<close>

fun mmap_at :: "mem \<Rightarrow> multiboot_info \<Rightarrow> nat \<Rightarrow> multiboot_mmap_entry list \<Rightarrow> bool" where
  "mmap_at m mb off [] \<longleftrightarrow> unat (mb_mmap_length mb) \<le> off"
| "mmap_at m mb off (e # es) \<longleftrightarrow> off < unat (mb_mmap_length mb) \<and>
     e = read_entry m (mb_mmap_addr mb + of_nat off) \<and> 20 \<le> unat (me_size e) \<and>
     off + unat (me_size e) + 4 \<le> unat (mb_mmap_length mb) \<and>
     mmap_at m mb (off + unat (me_size e) + 4) es"

lemma mmap_step:
  assumes "mmap_at m mb off (e # es)" and "off < 2 ^ 32"
  shows "of_nat off < mb_mmap_length mb" "me_size e + 4 \<noteq> 0"
    "of_nat off + (me_size e + 4) = (of_nat (off + unat (me_size e) + 4) :: u32)"
    "off + unat (me_size e) + 4 < 2 ^ 32"
proof -
  show b: "off + unat (me_size e) + 4 < 2 ^ 32"
    using assms(1) unat_u32_less [of "mb_mmap_length mb"] unfolding mmap_at.simps by linarith
  show "of_nat off < mb_mmap_length mb"
    using assms by (simp add: word_less_nat_alt unat_of_nat_u32)
  have "unat (me_size e + 4) = unat (me_size e) + 4"
    using b by (subst unat_add_u32) auto
  then show "me_size e + 4 \<noteq> 0" by (metis add_is_0 unat_0 zero_neq_numeral)
qed (simp add: add.assoc)

lemma detect_scan_mmap:
  assumes "mmap_at m mb off es" and "off < 2 ^ 32"
  shows "detect_scan m mb (of_nat off) mx =
    Some (foldl (\<lambda>mx e. if me_type e = 1 then max mx (me_addr_low e + me_len_low e) else mx) mx es)"
  using assms
proof (induction es arbitrary: off mx)
  case Nil
  then show ?case by (subst detect_scan.simps) (simp add: word_less_nat_alt unat_of_nat_u32)
next
  case (Cons e es)
  note st = mmap_step [OF Cons.prems]
  have IH: "detect_scan m mb (of_nat (off + unat (me_size e) + 4)) x =
    Some (foldl (\<lambda>mx e. if me_type e = 1 then max mx (me_addr_low e + me_len_low e) else mx) x es)" for x
    using Cons.prems mmap_step(4) [OF Cons.prems] by (intro Cons.IH) auto
  have e: "read_entry m (mb_mmap_addr mb + of_nat off) = e" using Cons.prems by simp
  have mx: "(if mx < x then x else mx) = max mx x" for x :: u32 by (auto simp: max_def)
  show ?case
    using st(1,2) by (subst detect_scan.simps) (simp add: e Let_def st(3) IH mx del: of_nat_add)
qed

text \<open>
  What the loop of \<open>memory_init\<close> frees: it looks at the low words of an entry only. The
  specification below (\<open>mmap_usable\<close>) reads the entries as the 64-bit numbers they are.
\<close>

definition freed_regions :: "multiboot_mmap_entry list \<Rightarrow> nat \<Rightarrow> bool" where
  "freed_regions es f \<longleftrightarrow> (\<exists>e\<in>set es. me_type e = 1 \<and> in_pages (unat (me_addr_low e)) (unat (me_len_low e)) f)"

abbreviation mmap_fits :: "multiboot_mmap_entry list \<Rightarrow> bool" where
  "mmap_fits es \<equiv> \<forall>e\<in>set es. me_type e = 1 \<longrightarrow> unat (me_addr_low e) + unat (me_len_low e) \<le> 0xFFFFF000"

text \<open>One usable region, cut at the end of the managed memory.\<close>

lemma free_region_ok:
  assumes wf: "frames_wf s" and fit: "unat a + unat n \<le> 0xFFFFF000"
  defines "sz \<equiv> (if g_total_memory_bytes s < a + n then g_total_memory_bytes s - a else n)"
  shows "\<exists>s'. (if a < g_total_memory_bytes s then free_range a sz s else Some s) = Some s' \<and>
    same_but_frames s s' \<and>
    (\<forall>f. used s' f \<longleftrightarrow> used s f \<and> \<not> (in_pages (unat a) (unat n) f \<and> f < unat (g_total_frames s)))"
proof (cases "a < g_total_memory_bytes s")
  case True
  have tot: "unat (g_total_memory_bytes s) = 4096 * unat (g_total_frames s)" and tb: "unat (g_total_frames s) \<le> 131072"
    using wf by (simp_all add: frames_wf_def)
  have an: "unat (a + n) = unat a + unat n" using fit by (intro unat_add_u32) simp
  have less: "unat a < unat (g_total_memory_bytes s)" using True by (simp add: word_less_nat_alt)
  have sz: "unat sz = (if unat (g_total_memory_bytes s) < unat a + unat n
      then unat (g_total_memory_bytes s) - unat a else unat n)"
    using True by (simp add: sz_def word_less_nat_alt an unat_diff_u32)
  then have fit': "unat a + unat sz \<le> 0xFFFFF000" using fit less tot tb by (auto split: if_splits)
  have "in_pages (unat a) (unat sz) f \<longleftrightarrow> in_pages (unat a) (unat n) f" if "f < unat (g_total_frames s)" for f
    using that tot less by (auto simp: sz in_pages_def)
  with free_range_ok [OF wf fit'] True show ?thesis by auto
next
  case False
  then have "\<not> in_pages (unat a) (unat n) f" if "f < unat (g_total_frames s)" for f
    using that wf by (auto simp: in_pages_def frames_wf_def word_less_nat_alt)
  with False show ?thesis by auto
qed

lemma free_scan_mmap:
  assumes "frames_wf s" and "mmap_at (mm_mem s) mb off es" and "off < 2 ^ 32" and "mmap_fits es"
  shows "\<exists>s'. free_scan mb (of_nat off) s = Some s' \<and> same_but_frames s s' \<and>
    (\<forall>f. used s' f \<longleftrightarrow> used s f \<and> \<not> (freed_regions es f \<and> f < unat (g_total_frames s)))"
  using assms
proof (induction es arbitrary: off s)
  case Nil
  then show ?case
    by (subst free_scan.simps) (simp add: word_less_nat_alt unat_of_nat_u32 freed_regions_def)
next
  case (Cons e es)
  note st = mmap_step [OF Cons.prems(2,3)]
  have e: "read_entry (mm_mem s) (mb_mmap_addr mb + of_nat off) = e" using Cons.prems by simp
  obtain s1 where s1: "(if me_type e = 1 \<and> me_addr_low e < g_total_memory_bytes s
      then free_range (me_addr_low e) (if g_total_memory_bytes s < me_addr_low e + me_len_low e
        then g_total_memory_bytes s - me_addr_low e else me_len_low e) s else Some s) = Some s1"
    and sb: "same_but_frames s s1" and u1: "used s1 f \<longleftrightarrow> used s f \<and> \<not> (me_type e = 1 \<and>
      in_pages (unat (me_addr_low e)) (unat (me_len_low e)) f \<and> f < unat (g_total_frames s))" for f
    using free_region_ok [OF Cons.prems(1), of "me_addr_low e" "me_len_low e"] Cons.prems(4)
    by (cases "me_type e = 1") auto
  have s1': "frames_wf s1" "mmap_at (mm_mem s1) mb (off + unat (me_size e) + 4) es"
    unfolding same_but_framesD [OF sb] using Cons.prems(1,2) unfolding mmap_at.simps by blast+
  have "off + unat (me_size e) + 4 < 2 ^ 32" "mmap_fits es"
    using mmap_step(4) [OF Cons.prems(2,3)] Cons.prems(4) by auto
  from Cons.IH [OF s1' this] obtain s' where s': "free_scan mb (of_nat (off + unat (me_size e) + 4)) s1 = Some s'" "same_but_frames s1 s'"
    "\<forall>f. used s' f \<longleftrightarrow> used s1 f \<and> \<not> (freed_regions es f \<and> f < unat (g_total_frames s1))"
    by blast
  have "free_scan mb (of_nat off) s = Some s'"
    using st(1,2) s'(1) by (subst free_scan.simps) (simp add: e Let_def st(3) s1 del: of_nat_add)
  moreover have "same_but_frames s s'" using sb s'(2) by (rule same_but_frames_trans)
  ultimately show ?case
    using s'(3) u1 same_but_framesD(1) [OF sb] by (auto simp: freed_regions_def)
qed

section \<open>Tables under other writes\<close>

definition mm_link :: "link_map \<Rightarrow> bool" where
  "mm_link L \<longleftrightarrow> heap_link L \<and> page_link L \<and> table_bytes L \<inter> {heap_base L..<heap_base L + 524288} = {}"

lemma load32_nat_cong:
  assumes "a + 4 \<le> 2 ^ 32" and "\<forall>x\<in>{a..<a + 4}. m' (of_nat x) = m (of_nat x)"
  shows "load32 m' (of_nat a) = load32 m (of_nat a)"
proof (rule load32_cong)
  fix i :: nat assume "i < 4"
  with assms(2) have "m' (of_nat (a + i)) = m (of_nat (a + i))"
    by (simp del: of_nat_add)
  then show "m' (of_nat a + of_nat i) = m (of_nat a + of_nat i)" by simp
qed

lemma paged_agree:
  assumes L: "page_link L" and m: "\<forall>x\<in>table_bytes L. mm_mem s' (of_nat x) = mm_mem s (of_nat x)" and P: "paged L s M U"
  shows "paged L s' M U"
proof -
  have "pd_entry L s' i = pd_entry L s i" if "i < 1024" for i
    unfolding pd_entry_def using L m that by (intro load32_nat_cong) (auto simp: page_link_def table_bytes_def)
  moreover have "pt_entry L s' k = pt_entry L s k" if "k < 32768" for k
    unfolding pt_entry_def using L m that by (intro load32_nat_cong) (auto simp: page_link_def table_bytes_def)
  ultimately show ?thesis using P by (simp add: paged_def)
qed

lemma heap_init_outside:
  assumes "heap_link L" and "x < 2 ^ 32" and "x < heap_base L \<or> heap_base L + 524288 \<le> x"
  shows "mm_mem (heap_init L s) (of_nat x) = mm_mem s (of_nat x)"
proof -
  have "20 \<le> unat (of_nat x - of_nat (heap_base L) :: u32)"
    using assms by (intro nat_dist_u32) (auto simp: heap_link_def)
  then show ?thesis by (simp add: heap_init_def Let_def put_other)
qed

text \<open>Clearing the directory and the tables gives empty tables.\<close>

lemma cleared_tables:
  assumes L: "page_link L"
    and m: "mm_mem s' = memset (g_page_tables_at L) 0 131072 (memset (g_page_directory_at L) 0 4096 (mm_mem s))"
  shows "paged L s' {} {}" and "x < 2 ^ 32 \<Longrightarrow> x \<notin> table_bytes L \<Longrightarrow> mm_mem s' (of_nat x) = mm_mem s (of_nat x)"
proof -
  let ?d = "unat (g_page_directory_at L)" let ?t = "unat (g_page_tables_at L)"
  have b: "?d + 4096 \<le> 2 ^ 32" "?t + 131072 \<le> 2 ^ 32" using L by (simp_all add: page_link_def)
  have set: "memset (of_nat a) 0 (of_nat n) m (of_nat x) = (if x \<in> {a..<a + n} then 0 else m (of_nat x))"
    if "x < 2 ^ 32" "a + n \<le> 2 ^ 32" "0 < n" "n < 2 ^ 32" for a n x m
    using that nat_dist_u32 [of x a n] nat_dist_u32_in [of x a] by (auto simp: memset_apply unat_of_nat_u32)
  have m': "mm_mem s' (of_nat x) = (if x \<in> table_bytes L then 0 else mm_mem s (of_nat x))" if "x < 2 ^ 32" for x
    using set [OF that b(1), of "mm_mem s"] set [OF that b(2)] by (simp add: m table_bytes_def)
  have zero: "load32 (mm_mem s') (of_nat a) = 0" if "{a..<a + 4} \<subseteq> table_bytes L" "a + 4 \<le> 2 ^ 32" for a
  proof -
    have "load32 (mm_mem s') (of_nat a) = load32 (\<lambda>_. 0) (of_nat a)"
      using that m' by (intro load32_nat_cong) auto
    then show ?thesis by (simp add: load32_def)
  qed
  have "pd_entry L s' i = 0" if "i < 1024" for i
    unfolding pd_entry_def using that b by (intro zero) (auto simp: table_bytes_def)
  moreover have "pt_entry L s' k = 0" if "k < 32768" for k
    unfolding pt_entry_def using that b by (intro zero) (auto simp: table_bytes_def)
  ultimately show "paged L s' {} {}" by (simp add: paged_def)
  show "mm_mem s' (of_nat x) = mm_mem s (of_nat x)" if "x < 2 ^ 32" "x \<notin> table_bytes L"
    using m' that by simp
qed

section \<open>What the boot loader passes\<close>

definition multiboot :: "u32 \<Rightarrow> u32 \<Rightarrow> bool" where
  "multiboot mg info \<longleftrightarrow> mg = 0x2BADB002 \<and> info \<noteq> 0"

text \<open>
  The information block and the map lie outside the page tables (which \<open>memory_init\<close>
  clears before it reads the map a second time), and the usable regions end below the
  last page of the address space.
\<close>

definition boot_info :: "link_map \<Rightarrow> u32 \<Rightarrow> u32 \<Rightarrow> mem \<Rightarrow> multiboot_mmap_entry list \<Rightarrow> bool" where
  "boot_info L mg info m es \<longleftrightarrow> (multiboot mg info \<longrightarrow>
     unat info + 52 \<le> 2 ^ 32 \<and> {unat info..<unat info + 52} \<inter> table_bytes L = {} \<and>
     (let mb = read_mb m info; a = unat (mb_mmap_addr mb); l = unat (mb_mmap_length mb) in
      has_mmap mb \<longrightarrow> mmap_at m mb 0 es \<and> mmap_fits es \<and> a + l \<le> 2 ^ 32 \<and> {a..<a + l} \<inter> table_bytes L = {}))"

text \<open>
  The boot loader's view: a region has a 64-bit address and a 64-bit length, and a frame is
  usable when it meets a region of type 1. Without a map, the memory from 1 MiB on is
  usable.
\<close>

definition region_start :: "multiboot_mmap_entry \<Rightarrow> nat" where
  "region_start e = unat (me_addr_low e) + 2 ^ 32 * unat (me_addr_high e)"

definition region_len :: "multiboot_mmap_entry \<Rightarrow> nat" where
  "region_len e = unat (me_len_low e) + 2 ^ 32 * unat (me_len_high e)"

definition mmap_usable :: "multiboot_mmap_entry list \<Rightarrow> nat \<Rightarrow> bool" where
  "mmap_usable es f \<longleftrightarrow> (\<exists>e\<in>set es. me_type e = 1 \<and> in_pages (region_start e) (region_len e) f)"

definition usable :: "u32 \<Rightarrow> u32 \<Rightarrow> mem \<Rightarrow> multiboot_mmap_entry list \<Rightarrow> nat \<Rightarrow> nat \<Rightarrow> bool" where
  "usable mg info m es bytes f \<longleftrightarrow>
     (if multiboot mg info \<and> has_mmap (read_mb m info) then mmap_usable es f
      else in_pages 0x100000 (bytes - 0x100000) f)"

text \<open>The end of the last usable region, and the size of memory it stands for.\<close>

definition memory_top :: "multiboot_mmap_entry list \<Rightarrow> nat" where
  "memory_top es = Max (insert 0 ((\<lambda>e. region_start e + region_len e) ` {e \<in> set es. me_type e = 1}))"

definition memory_size :: "u32 \<Rightarrow> u32 \<Rightarrow> mem \<Rightarrow> multiboot_mmap_entry list \<Rightarrow> nat" where
  "memory_size mg info m es =
     (let mb = read_mb m info; kb = mb_mem_lower mb + mb_mem_upper mb in
      if multiboot mg info \<and> has_mmap mb \<and> memory_top es \<noteq> 0 then memory_top es
      else if multiboot mg info \<and> mb_flags mb AND 1 \<noteq> 0 \<and> kb \<noteq> 0 then unat (kb * 1024)
      else 64 * 1024 * 1024)"

text \<open>Every usable region lies below 4 GiB.\<close>

definition below_4g :: "multiboot_mmap_entry list \<Rightarrow> bool" where
  "below_4g es \<longleftrightarrow> (\<forall>e\<in>set es. me_type e = 1 \<longrightarrow> me_addr_high e = 0 \<and> me_len_high e = 0)"

text \<open>What the code frees, cut at the end of the managed memory.\<close>

definition freed_set :: "u32 \<Rightarrow> u32 \<Rightarrow> mem \<Rightarrow> multiboot_mmap_entry list \<Rightarrow> nat \<Rightarrow> nat \<Rightarrow> bool" where
  "freed_set mg info m es bytes f \<longleftrightarrow>
     (if multiboot mg info \<and> has_mmap (read_mb m info) then freed_regions es f
      else in_pages 0x100000 (bytes - 0x100000) f)"

definition reserved :: "link_map \<Rightarrow> nat \<Rightarrow> bool" where
  "reserved L f \<longleftrightarrow> in_pages 0 0x100000 f \<or> in_pages 0x100000 (unat (kernel_end_at L) - 0x100000) f
     \<or> in_pages 0x800000 0x100000 f \<or> in_pages 0xBFF000 0x1000 f"

lemma freed_set_usable:
  assumes "multiboot mg info \<and> has_mmap (read_mb m info) \<longrightarrow> below_4g es"
  shows "freed_set mg info m es b f \<longleftrightarrow> usable mg info m es b f"
  using assms
  by (auto simp: freed_set_def usable_def freed_regions_def mmap_usable_def region_start_def region_len_def below_4g_def)

lemma Max_insert_max:
  fixes x y :: nat
  shows "finite A \<Longrightarrow> Max (insert (max x y) A) = Max (insert x (insert y A))"
  by (cases "A = {}") (simp_all add: max.assoc)

lemma unat_scan_top:
  assumes "mmap_fits es" and "below_4g es"
  shows "unat (foldl (\<lambda>mx e. if me_type e = 1 then max mx (me_addr_low e + me_len_low e) else mx) mx es) =
    Max (insert (unat mx) ((\<lambda>e. region_start e + region_len e) ` {e \<in> set es. me_type e = 1}))"
  using assms
proof (induction es arbitrary: mx)
  case (Cons e es)
  let ?E = "\<lambda>es. (\<lambda>e. region_start e + region_len e) ` {e \<in> set es. me_type e = 1}"
  have es: "mmap_fits es" "below_4g es" using Cons.prems by (simp_all add: below_4g_def)
  show ?case
  proof (cases "me_type e = 1")
    case True
    then have "unat (me_addr_low e + me_len_low e) = region_start e + region_len e"
      using Cons.prems by (subst unat_add_u32) (auto simp: region_start_def region_len_def below_4g_def)
    then have "unat (max mx (me_addr_low e + me_len_low e)) = max (unat mx) (region_start e + region_len e)"
      by (auto simp: max_def word_le_nat_alt)
    moreover have "?E (e # es) = insert (region_start e + region_len e) (?E es)" using True by auto
    moreover have "Max (insert (max (unat mx) (region_start e + region_len e)) (?E es)) =
        Max (insert (unat mx) (insert (region_start e + region_len e) (?E es)))"
      by (rule Max_insert_max) simp
    ultimately show ?thesis using True Cons.IH [OF es] by simp
  next
    case False
    then have "?E (e # es) = ?E es" by auto
    then show ?thesis using False Cons.IH [OF es] by simp
  qed
qed simp

lemma load32_off_cong:
  assumes "\<forall>x\<in>{a..<a + n}. m' (of_nat x) = m (of_nat x)" and "a + n \<le> 2 ^ 32" and "k + 4 \<le> n"
  shows "load32 m' (of_nat a + of_nat k) = load32 m (of_nat a + of_nat k)"
proof -
  have "load32 m' (of_nat (a + k)) = load32 m (of_nat (a + k))"
    using assms by (intro load32_nat_cong) auto
  then show ?thesis by simp
qed

lemma read_mb_cong:
  assumes "\<forall>x\<in>{unat a..<unat a + 52}. m' (of_nat x) = m (of_nat x)" and "unat a + 52 \<le> 2 ^ 32"
  shows "read_mb m' a = read_mb m a"
proof -
  have ld: "load32 m' (a + of_nat k) = load32 m (a + of_nat k)" if "k \<le> 48" for k
    using load32_off_cong [OF assms, of k] that by simp
  have "load32 m' (a + 28 + 4 * of_nat i) = load32 m (a + 28 + 4 * of_nat i)" if "i < 4" for i :: nat
    using ld [of "28 + 4 * i"] that by (simp add: add.assoc)
  with ld [of 0] ld [of 4] ld [of 8] ld [of 12] ld [of 16] ld [of 20] ld [of 24] ld [of 44] ld [of 48]
  show ?thesis by (simp add: read_mb_def)
qed

lemma read_entry_cong:
  assumes "\<forall>x\<in>{a..<a + 24}. m' (of_nat x) = m (of_nat x)" and "a + 24 \<le> 2 ^ 32"
  shows "read_entry m' (of_nat a) = read_entry m (of_nat a)"
proof -
  have ld: "load32 m' (of_nat a + of_nat k) = load32 m (of_nat a + of_nat k)" if "k \<le> 20" for k
    using load32_off_cong [OF assms, of k] that by simp
  from ld [of 0] ld [of 4] ld [of 8] ld [of 12] ld [of 16] ld [of 20]
  show ?thesis by (simp add: read_entry_def)
qed

lemma mmap_at_cong:
  assumes "\<forall>x\<in>{unat (mb_mmap_addr mb)..<unat (mb_mmap_addr mb) + unat (mb_mmap_length mb)}. m' (of_nat x) = m (of_nat x)"
    and "unat (mb_mmap_addr mb) + unat (mb_mmap_length mb) \<le> 2 ^ 32"
    and "mmap_at m mb off es"
  shows "mmap_at m' mb off es"
  using assms(3)
proof (induction es arbitrary: off)
  case (Cons e es)
  let ?a = "unat (mb_mmap_addr mb) + off"
  have b: "off + 24 \<le> unat (mb_mmap_length mb)" using Cons.prems by simp
  have "read_entry m' (of_nat ?a) = read_entry m (of_nat ?a)"
    using assms(1,2) b by (intro read_entry_cong) auto
  then have "read_entry m' (mb_mmap_addr mb + of_nat off) = read_entry m (mb_mmap_addr mb + of_nat off)" by simp
  with Cons show ?case by auto
qed simp

section \<open>The phases of \<open>memory_init\<close>\<close>

lemma detect_returns:
  assumes "boot_info L mg info m es"
  shows "\<exists>d. detect_memory_bytes mg info m = Some d"
proof (cases "multiboot mg info \<and> has_mmap (read_mb m info)")
  case True
  then have "mmap_at m (read_mb m info) 0 es" using assms by (simp add: boot_info_def Let_def)
  then have "\<exists>x. detect_scan m (read_mb m info) 0 0 = Some x"
    using detect_scan_mmap [of m "read_mb m info" 0 es 0] by simp
  then show ?thesis by (auto simp: detect_memory_bytes_def Let_def)
next
  case False
  then show ?thesis by (auto simp: detect_memory_bytes_def Let_def multiboot_def)
qed

lemma detect_memory_size:
  assumes B: "boot_info L mg info m es" and h: "multiboot mg info \<and> has_mmap (read_mb m info) \<longrightarrow> below_4g es"
    and d: "detect_memory_bytes mg info m = Some d"
  shows "unat d = memory_size mg info m es"
proof (cases "multiboot mg info \<and> has_mmap (read_mb m info)")
  case True
  then have es: "mmap_at m (read_mb m info) 0 es" "mmap_fits es" "below_4g es"
    using B h by (simp_all add: boot_info_def Let_def)
  define x where "x = foldl (\<lambda>mx e. if me_type e = 1 then max mx (me_addr_low e + me_len_low e) else mx) 0 es"
  have "detect_scan m (read_mb m info) 0 0 = Some x"
    using detect_scan_mmap [OF es(1), of 0] by (simp add: x_def)
  moreover have "unat x = memory_top es" using unat_scan_top [OF es(2,3), of 0] by (simp add: x_def memory_top_def)
  moreover from this have "x = 0 \<longleftrightarrow> memory_top es = 0" by (simp add: unat_eq_0 [symmetric])
  ultimately show ?thesis using d True
    by (auto simp: detect_memory_bytes_def memory_size_def Let_def multiboot_def split: if_splits)
next
  case False
  then show ?thesis using d
    by (auto simp: detect_memory_bytes_def memory_size_def Let_def multiboot_def split: if_splits)
qed

lemma clamp_bytes:
  defines "b \<equiv> \<lambda>d. align_up_u32 (if MAX_PHYS_MEM_BYTES < d then MAX_PHYS_MEM_BYTES else d) PAGE_SIZE"
  shows "unat (b d div PAGE_SIZE) \<le> 131072" and "unat (b d) = 4096 * unat (b d div PAGE_SIZE)"
    and "unat (b d) = round_up 4096 (min (unat d) 0x20000000)"
proof -
  define x where "x = (if MAX_PHYS_MEM_BYTES < d then MAX_PHYS_MEM_BYTES else d)"
  have x: "unat x \<le> 0x20000000" by (auto simp: x_def word_less_nat_alt word_le_nat_alt not_less)
  have bd: "unat (b d) = round_up 4096 (unat x)"
  proof -
    have "b d = of_nat (round_up 4096 (unat x))"
      using align_up_of_nat [of "unat x" 12] x by (simp add: b_def x_def)
    moreover have "round_up 4096 (unat x) < 2 ^ 32" using round_up_less [of 4096 "unat x"] x by simp
    ultimately show ?thesis by (metis unat_of_nat_u32)
  qed
  then have "4096 dvd unat (b d)" by simp
  then show "unat (b d) = 4096 * unat (b d div PAGE_SIZE)" by (simp add: unat_div)
  show "unat (b d div PAGE_SIZE) \<le> 131072" using x by (simp add: unat_div bd round_up_def)
  have "unat x = min (unat d) 0x20000000" by (auto simp: x_def word_less_nat_alt)
  then show "unat (b d) = round_up 4096 (min (unat d) 0x20000000)" by (simp add: bd)
qed

lemma reserve_phase:
  assumes wf: "frames_wf s" and k: "unat (kernel_end_at L) \<le> 0xFFFFF000"
  shows "\<exists>s'. do {
      s \<leftarrow> reserve_range 0 0x00100000 s;
      s \<leftarrow> (if 0x00100000 < kernel_end_at L
            then reserve_range 0x00100000 (kernel_end_at L - 0x00100000) s else Some s);
      s \<leftarrow> reserve_range USER_PROGRAM_BASE USER_PROGRAM_MAX_SIZE s;
      reserve_range (USER_STACK_TOP - USER_STACK_SIZE) USER_STACK_SIZE s } = Some s' \<and>
    same_but_frames s s' \<and> (\<forall>f. used s' f \<longleftrightarrow> used s f \<or> reserved L f \<and> f < unat (g_total_frames s))"
proof -
  obtain s1 where s1: "reserve_range 0 0x00100000 s = Some s1" "same_but_frames s s1"
    "\<forall>f. used s1 f \<longleftrightarrow> used s f \<or> in_pages 0 0x100000 f \<and> f < unat (g_total_frames s)"
    using reserve_range_ok [OF wf, of 0 "0x100000"] by auto
  note t1 = same_but_framesD [OF s1(2)]
  obtain s2 where s2: "(if 0x00100000 < kernel_end_at L
      then reserve_range 0x00100000 (kernel_end_at L - 0x00100000) s1 else Some s1) = Some s2" "same_but_frames s1 s2"
    "\<forall>f. used s2 f \<longleftrightarrow> used s1 f \<or> in_pages 0x100000 (unat (kernel_end_at L) - 0x100000) f \<and> f < unat (g_total_frames s)"
  proof (cases "0x00100000 < kernel_end_at L")
    case True
    then have u: "unat (kernel_end_at L - 0x100000) = unat (kernel_end_at L) - 0x100000"
      and l: "0x100000 < unat (kernel_end_at L)"
      by (simp_all add: word_less_nat_alt unat_diff_u32)
    then have "unat (0x100000 :: u32) + unat (kernel_end_at L - 0x100000) \<le> 0xFFFFF000" using k by simp
    with reserve_range_ok [of s1 "0x100000" "kernel_end_at L - 0x100000"] wf t1 u True
    show thesis by (auto intro: that)
  next
    case False
    then have "\<not> in_pages 0x100000 (unat (kernel_end_at L) - 0x100000) f" for f
      by (simp add: in_pages_def word_less_nat_alt)
    with False show thesis by (intro that [of s1]) simp_all
  qed
  note t2 = same_but_framesD [OF s2(2)]
  obtain s3 where s3: "reserve_range 0x800000 0x100000 s2 = Some s3" "same_but_frames s2 s3"
    "\<forall>f. used s3 f \<longleftrightarrow> used s2 f \<or> in_pages 0x800000 0x100000 f \<and> f < unat (g_total_frames s)"
    using reserve_range_ok [of s2 "0x800000" "0x100000"] wf t1 t2 by auto
  note t3 = same_but_framesD [OF s3(2)]
  obtain s4 where s4: "reserve_range 0xBFF000 0x1000 s3 = Some s4" "same_but_frames s3 s4"
    "\<forall>f. used s4 f \<longleftrightarrow> used s3 f \<or> in_pages 0xBFF000 0x1000 f \<and> f < unat (g_total_frames s)"
    using reserve_range_ok [of s3 "0xBFF000" "0x1000"] wf t1 t2 t3 by auto
  have "same_but_frames s s4"
    using s1(2) s2(2) s3(2) s4(2) same_but_frames_trans by blast
  moreover have "used s4 f \<longleftrightarrow> used s f \<or> reserved L f \<and> f < unat (g_total_frames s)" for f
    using s1(3) s2(3) s3(3) s4(3) by (auto simp: reserved_def)
  ultimately show ?thesis using s1(1) s2(1) s3(1) s4(1) by (simp split del: if_split)
qed

lemma free_high_memory_ok:
  assumes "frames_wf s"
  shows "\<exists>s'. free_high_memory s = Some s' \<and> same_but_frames s s' \<and> (\<forall>f. used s' f \<longleftrightarrow> used s f \<and>
    \<not> (in_pages 0x100000 (unat (g_total_memory_bytes s) - 0x100000) f \<and> f < unat (g_total_frames s)))"
proof -
  let ?n = "if 0x100000 < g_total_memory_bytes s then g_total_memory_bytes s - 0x100000 else 0"
  have n: "unat ?n = unat (g_total_memory_bytes s) - 0x100000"
    by (auto simp: word_less_nat_alt unat_diff_u32)
  have "unat (0x100000 :: u32) + unat ?n \<le> 0xFFFFF000"
    unfolding n using assms by (auto simp: frames_wf_def)
  from free_range_ok [OF assms this] show ?thesis unfolding n free_high_memory_def by simp
qed

lemma free_phase:
  assumes wf: "frames_wf s" and B: "boot_info L mg info m es"
    and m: "\<And>x. x < 2 ^ 32 \<Longrightarrow> x \<notin> table_bytes L \<Longrightarrow> mm_mem s (of_nat x) = m (of_nat x)"
  shows "\<exists>s'. (if mg = 0x2BADB002 \<and> info \<noteq> 0
      then let mb = read_mb (mm_mem s) info in if has_mmap mb then free_scan mb 0 s else free_high_memory s
      else free_high_memory s) = Some s' \<and> same_but_frames s s' \<and>
    (\<forall>f. used s' f \<longleftrightarrow> used s f \<and>
      \<not> (freed_set mg info m es (unat (g_total_memory_bytes s)) f \<and> f < unat (g_total_frames s)))"
proof (cases "multiboot mg info")
  case True
  have agree: "\<forall>x\<in>{a..<a + n}. mm_mem s (of_nat x) = m (of_nat x)"
    if "a + n \<le> 2 ^ 32" "{a..<a + n} \<inter> table_bytes L = {}" for a n
    using that by (intro ballI m) (auto simp: disjoint_iff)
  have mb: "read_mb (mm_mem s) info = read_mb m info"
    using B True by (intro read_mb_cong agree) (simp_all add: boot_info_def Let_def)
  show ?thesis
  proof (cases "has_mmap (read_mb m info)")
    case has: True
    have at: "mmap_at (mm_mem s) (read_mb m info) 0 es"
      by (rule mmap_at_cong [OF agree]) (use B True has in \<open>simp_all add: boot_info_def Let_def\<close>)
    have "mmap_fits es" using B True has by (simp add: boot_info_def Let_def)
    from free_scan_mmap [OF wf at _ this] True has show ?thesis
      by (simp add: multiboot_def mb freed_set_def)
  next
    case False
    then show ?thesis using free_high_memory_ok [OF wf] True by (simp add: multiboot_def mb freed_set_def)
  qed
next
  case False
  then show ?thesis using free_high_memory_ok [OF wf] by (auto simp: multiboot_def freed_set_def)
qed

definition identity_pages :: "mm \<Rightarrow> nat set" where
  "identity_pages s = {k. k < 32768 \<and> k < unat (g_total_frames s)}"

definition user_pages :: "nat set" where
  "user_pages = {0x800..<0x900} \<union> {0xBFF..<0xC00}"

lemma user_pages_eq: "page_set 0x800000 0x100000 \<union> page_set 0xBFF000 0x1000 = user_pages"
  by (auto simp: page_set_def in_pages_def user_pages_def)

lemma map_phase:
  assumes L: "page_link L" and P: "paged L s {} {}" and wf: "frames_wf s"
  shows "\<exists>s'. do {
      s \<leftarrow> identity_map_range L 0 (if IDENTITY_MAP_BYTES < g_total_memory_bytes s then IDENTITY_MAP_BYTES
                              else g_total_memory_bytes s) PAGE_WRITE s;
      s \<leftarrow> paging_mark_user_range L USER_PROGRAM_BASE USER_PROGRAM_MAX_SIZE s;
      paging_mark_user_range L (USER_STACK_TOP - USER_STACK_SIZE) USER_STACK_SIZE s } = Some s' \<and>
    paged L s' (identity_pages s \<union> user_pages) user_pages \<and> tables_only L s s'"
proof -
  let ?n = "if IDENTITY_MAP_BYTES < g_total_memory_bytes s then IDENTITY_MAP_BYTES else g_total_memory_bytes s"
  have n: "unat ?n \<le> 0x8000000" "\<And>k. k < 32768 \<Longrightarrow> 4096 * k < unat ?n \<longleftrightarrow> k < unat (g_total_frames s)"
    using wf by (auto simp: frames_wf_def word_less_nat_alt word_le_nat_alt not_less)
  have "page_set 0 (unat ?n) = identity_pages s"
    using n(2) n(2) [of 0] by (auto simp: page_set_def in_pages_def identity_pages_def simp del: IDENTITY_MAP_BYTES_def)
  then obtain s1 where s1: "identity_map_range L 0 ?n PAGE_WRITE s = Some s1" "paged L s1 (identity_pages s) {}"
    "tables_only L s s1"
    using identity_map_range_ok [OF L P, of 0 ?n] n(1) by (auto simp del: PAGE_WRITE_def IDENTITY_MAP_BYTES_def)
  obtain s2 where s2: "paging_mark_user_range L 0x800000 0x100000 s1 = Some s2"
    "paged L s2 (identity_pages s \<union> page_set 0x800000 0x100000) (page_set 0x800000 0x100000)" "tables_only L s1 s2"
    using paging_mark_user_range_ok [OF L s1(2), of "0x800000" "0x100000"] by auto
  obtain s3 where s3: "paging_mark_user_range L 0xBFF000 0x1000 s2 = Some s3"
    "paged L s3 (identity_pages s \<union> user_pages) user_pages" "tables_only L s2 s3"
    using paging_mark_user_range_ok [OF L s2(2), of "0xBFF000" "0x1000"] by (auto simp: user_pages_eq Un_assoc)
  have "tables_only L s s3" using s1(3) s2(3) s3(3) tables_only_trans by blast
  with s1(1) s2(1) s3 show ?thesis
    by (simp del: PAGE_WRITE_def IDENTITY_MAP_BYTES_def split del: if_split)
qed

section \<open>The whole of \<open>memory_init\<close>\<close>

lemma same_but_frames_paged: "same_but_frames s s' \<Longrightarrow> paged L s' M U = paged L s M U"
  by (simp add: paged_def pd_entry_def pt_entry_def same_but_framesD)

lemma tables_only_frames:
  assumes "tables_only L s s'"
  shows "used s' f = used s f" "g_total_frames s' = g_total_frames s"
    "g_total_memory_bytes s' = g_total_memory_bytes s" "g_heap_ready s' = g_heap_ready s" "cr0 s' = cr0 s"
  using assms by (cases s; cases s'; simp add: tables_only_def used_def)+

lemma same_but_frames_ready: "same_but_frames s s' \<Longrightarrow> g_heap_ready s' = g_heap_ready s \<and> cr0 s' = cr0 s"
  by (cases s; cases s') (simp add: same_but_frames_def)

lemma heap_init_sel:
  "g_total_frames (heap_init L s) = g_total_frames s" "used (heap_init L s) = used s"
  "g_total_memory_bytes (heap_init L s) = g_total_memory_bytes s" "cr0 (heap_init L s) = cr0 s"
  "cr3 (heap_init L s) = cr3 s" "g_paging_ready (heap_init L s) = g_paging_ready s"
  by (simp_all add: heap_init_def Let_def used_def fun_eq_iff)

text \<open>The state after the first writes: everything reserved, nothing mapped.\<close>

definition cleared :: "link_map \<Rightarrow> u32 \<Rightarrow> mm \<Rightarrow> mm" where
  "cleared L b s = s\<lparr>g_total_memory_bytes := b, g_total_frames := b div PAGE_SIZE,
      g_frame_bitmap := (\<lambda>i. if i < unat (FRAME_BITMAP_BYTES div 4) then 0xFFFFFFFF else g_frame_bitmap s i),
      mm_mem := memset (g_page_tables_at L) 0 (IDENTITY_TABLES * 1024 * 4)
        (memset (g_page_directory_at L) 0 (1024 * 4) (mm_mem s))\<rparr>"

definition clamp :: "u32 \<Rightarrow> u32" where
  "clamp d = align_up_u32 (if MAX_PHYS_MEM_BYTES < d then MAX_PHYS_MEM_BYTES else d) PAGE_SIZE"

lemmas clamp_facts = clamp_bytes [folded clamp_def]

lemma cleared_ok:
  assumes "page_link L"
  shows "frames_wf (cleared L (clamp d) s)" and "f < 131072 \<Longrightarrow> used (cleared L b s) f"
    and "paged L (cleared L b s) {} {}"
    and "x < 2 ^ 32 \<Longrightarrow> x \<notin> table_bytes L \<Longrightarrow> mm_mem (cleared L b s) (of_nat x) = mm_mem s (of_nat x)"
proof -
  have m: "mm_mem (cleared L b s) =
      memset (g_page_tables_at L) 0 131072 (memset (g_page_directory_at L) 0 4096 (mm_mem s))"
    by (simp add: cleared_def)
  from cleared_tables [OF assms m]
  show "paged L (cleared L b s) {} {}"
    "x < 2 ^ 32 \<Longrightarrow> x \<notin> table_bytes L \<Longrightarrow> mm_mem (cleared L b s) (of_nat x) = mm_mem s (of_nat x)" by auto
  show "frames_wf (cleared L (clamp d) s)" using clamp_facts by (simp add: frames_wf_def cleared_def)
  show "used (cleared L b s) f" if "f < 131072"
    using that bit_mask_iff [of 32 "f mod 32", where 'a = u32]
    by (simp add: used_def cleared_def mask_eq_exp_minus_1 div_less_iff_less_mult)
qed

lemma memory_init_run:
  assumes L: "page_link L" and k: "unat (kernel_end_at L) \<le> 0xFFFFF000"
    and B: "boot_info L mg info (mm_mem s) es" and fresh: "\<not> g_paging_ready s"
    and d: "detect_memory_bytes mg info (mm_mem s) = Some d"
  defines "b \<equiv> clamp d"
  obtains s3 s4 where "memory_init L mg info s = Some (heap_init L ((enable_paging L s4)\<lparr>g_paging_ready := True\<rparr>))"
    "same_but_frames (cleared L b s) s3"
    "\<forall>f. f < unat (b div PAGE_SIZE) \<longrightarrow> (used s3 f \<longleftrightarrow> \<not> freed_set mg info (mm_mem s) es (unat b) f \<or> reserved L f)"
    "paged L s4 (identity_pages s3 \<union> user_pages) user_pages" "tables_only L s3 s4"
proof -
  note c = cleared_ok [OF L, where s = s]
  let ?s1 = "cleared L b s"
  have wf1: "frames_wf ?s1" using c(1) by (simp add: b_def)
  have t1: "g_total_memory_bytes ?s1 = b" "g_total_frames ?s1 = b div PAGE_SIZE" by (simp_all add: cleared_def)
  obtain s2 where s2: "(if mg = 0x2BADB002 \<and> info \<noteq> 0
      then let mb = read_mb (mm_mem ?s1) info in if has_mmap mb then free_scan mb 0 ?s1 else free_high_memory ?s1
      else free_high_memory ?s1) = Some s2" "same_but_frames ?s1 s2"
    "\<forall>f. used s2 f \<longleftrightarrow> used ?s1 f \<and> \<not> (freed_set mg info (mm_mem s) es (unat b) f \<and> f < unat (b div PAGE_SIZE))"
    using free_phase [OF wf1 B c(4)] unfolding t1 by blast
  note t2 = same_but_framesD [OF s2(2)]
  have wf2: "frames_wf s2" using wf1 t2 by simp
  obtain s3 where "do { s \<leftarrow> reserve_range 0 0x00100000 s2;
      s \<leftarrow> (if 0x00100000 < kernel_end_at L
            then reserve_range 0x00100000 (kernel_end_at L - 0x00100000) s else Some s);
      s \<leftarrow> reserve_range USER_PROGRAM_BASE USER_PROGRAM_MAX_SIZE s;
      reserve_range (USER_STACK_TOP - USER_STACK_SIZE) USER_STACK_SIZE s } = Some s3"
    and s3: "same_but_frames s2 s3" "\<forall>f. used s3 f \<longleftrightarrow> used s2 f \<or> reserved L f \<and> f < unat (g_total_frames s2)"
    using reserve_phase [OF wf2 k] by blast
  then obtain r1 r2 r3 where r: "reserve_range 0 0x00100000 s2 = Some r1"
    "(if 0x00100000 < kernel_end_at L then reserve_range 0x00100000 (kernel_end_at L - 0x00100000) r1 else Some r1) = Some r2"
    "reserve_range USER_PROGRAM_BASE USER_PROGRAM_MAX_SIZE r2 = Some r3"
    "reserve_range (USER_STACK_TOP - USER_STACK_SIZE) USER_STACK_SIZE r3 = Some s3"
    unfolding bind_eq_Some_conv by blast
  note t3 = same_but_framesD [OF s3(1)]
  have wf3: "frames_wf s3" and P3: "paged L s3 {} {}"
    using wf2 t3 c(3) s2(2) s3(1) by (simp_all add: same_but_frames_paged)
  obtain s4 where "do { s \<leftarrow> identity_map_range L 0 (if IDENTITY_MAP_BYTES < g_total_memory_bytes s3 then IDENTITY_MAP_BYTES
                              else g_total_memory_bytes s3) PAGE_WRITE s3;
      s \<leftarrow> paging_mark_user_range L USER_PROGRAM_BASE USER_PROGRAM_MAX_SIZE s;
      paging_mark_user_range L (USER_STACK_TOP - USER_STACK_SIZE) USER_STACK_SIZE s } = Some s4"
    and P4: "paged L s4 (identity_pages s3 \<union> user_pages) user_pages" and to: "tables_only L s3 s4"
    using map_phase [OF L P3 wf3] by blast
  then obtain q1 q2 where q: "identity_map_range L 0 (if IDENTITY_MAP_BYTES < g_total_memory_bytes s3 then IDENTITY_MAP_BYTES
                              else g_total_memory_bytes s3) PAGE_WRITE s3 = Some q1"
    "paging_mark_user_range L USER_PROGRAM_BASE USER_PROGRAM_MAX_SIZE q1 = Some q2"
    "paging_mark_user_range L (USER_STACK_TOP - USER_STACK_SIZE) USER_STACK_SIZE q2 = Some s4"
    unfolding bind_eq_Some_conv by blast
  show thesis
  proof (rule that [OF _ same_but_frames_trans [OF s2(2) s3(1)] _ P4 to])
    show "memory_init L mg info s = Some (heap_init L ((enable_paging L s4)\<lparr>g_paging_ready := True\<rparr>))"
      unfolding memory_init_def Let_def d bind.bind_lunit clamp_def [symmetric] b_def [symmetric]
        cleared_def [symmetric] s2(1) [unfolded Let_def] r q using fresh by simp
    show "\<forall>f. f < unat (b div PAGE_SIZE) \<longrightarrow> (used s3 f \<longleftrightarrow> \<not> freed_set mg info (mm_mem s) es (unat b) f \<or> reserved L f)"
      using s2(3) s3(2) t2(1) t1 c(2) clamp_facts(1) [of d, folded b_def] by (simp del: PAGE_SIZE_def)
  qed
qed

lemma memory_init_ok:
  assumes L: "mm_link L" and k: "unat (kernel_end_at L) \<le> 0xFFFFF000" and B: "boot_info L mg info (mm_mem s) es"
    and fresh: "\<not> g_paging_ready s" "\<not> g_heap_ready s"
  obtains s' d where "memory_init L mg info s = Some s'" "detect_memory_bytes mg info (mm_mem s) = Some d"
    "unat (g_total_memory_bytes s') = round_up 4096 (min (unat d) 0x20000000)" "frames_wf s'"
    "\<And>f. f < unat (g_total_frames s') \<Longrightarrow> used s' f \<longleftrightarrow>
      \<not> freed_set mg info (mm_mem s) es (unat (g_total_memory_bytes s')) f \<or> reserved L f"
    "paged L s' (identity_pages s' \<union> user_pages) user_pages"
    "cr3 s' = g_page_directory_at L" "cr0 s' = cr0 s OR 0x80000000" "g_paging_ready s'"
    "heap_inv L s'" "heap_blocks L s' = [(524288, True)]"
proof -
  have PL: "page_link L" and HL: "heap_link L" using L by (simp_all add: mm_link_def)
  obtain d where d: "detect_memory_bytes mg info (mm_mem s) = Some d" using detect_returns [OF B] by auto
  define b where "b = clamp d"
  note bd = clamp_facts [of d, folded b_def]
  obtain s3 s4 where run: "memory_init L mg info s = Some (heap_init L ((enable_paging L s4)\<lparr>g_paging_ready := True\<rparr>))"
    and s3: "same_but_frames (cleared L b s) s3"
    "\<forall>f. f < unat (b div PAGE_SIZE) \<longrightarrow> (used s3 f \<longleftrightarrow> \<not> freed_set mg info (mm_mem s) es (unat b) f \<or> reserved L f)"
    and P4: "paged L s4 (identity_pages s3 \<union> user_pages) user_pages" and to: "tables_only L s3 s4"
    using memory_init_run [OF PL k B fresh(1) d, folded b_def] by blast
  define s5 where "s5 = (enable_paging L s4)\<lparr>g_paging_ready := True\<rparr>"
  note run = run [folded s5_def]
  have "mm_mem s5 = mm_mem s4" "g_heap_ready s5 = g_heap_ready s4" by (simp_all add: s5_def enable_paging_def)
  moreover have ready: "\<not> g_heap_ready s4" and cr: "cr0 s4 = cr0 s"
    using fresh(2) same_but_frames_ready [OF s3(1)] tables_only_frames [OF to] by (simp_all add: cleared_def)
  moreover have "mm_mem (heap_init L s5) (of_nat x) = mm_mem s5 (of_nat x)" if "x \<in> table_bytes L" for x
    using L that PL by (intro heap_init_outside [OF HL]) (auto simp: mm_link_def table_bytes_def page_link_def)
  ultimately have P5: "paged L (heap_init L s5) (identity_pages s3 \<union> user_pages) user_pages"
    by (intro paged_agree [OF PL _ P4]) simp
  have tot: "g_total_frames s5 = g_total_frames s3" "g_total_memory_bytes s5 = b"
    "g_total_frames s3 = b div PAGE_SIZE" "used s5 = used s3"
    using tables_only_frames [OF to] same_but_framesD [OF s3(1)]
    by (simp_all add: s5_def enable_paging_def used_def fun_eq_iff cleared_def)
  show thesis
  proof (rule that [OF run d])
    show "unat (g_total_memory_bytes (heap_init L s5)) = round_up 4096 (min (unat d) 0x20000000)"
      using bd(3) tot by (simp add: heap_init_sel)
    show "frames_wf (heap_init L s5)" using bd tot by (simp add: frames_wf_def heap_init_sel)
    show "used (heap_init L s5) f \<longleftrightarrow> \<not> freed_set mg info (mm_mem s) es (unat (g_total_memory_bytes (heap_init L s5))) f
        \<or> reserved L f" if "f < unat (g_total_frames (heap_init L s5))" for f
      using s3(2) that tot by (simp add: heap_init_sel)
    show "paged L (heap_init L s5) (identity_pages (heap_init L s5) \<union> user_pages) user_pages"
      using P5 tot by (simp add: identity_pages_def heap_init_sel)
    show "cr3 (heap_init L s5) = g_page_directory_at L" "cr0 (heap_init L s5) = cr0 s OR 0x80000000"
      "g_paging_ready (heap_init L s5)"
      using cr by (simp_all add: heap_init_sel s5_def enable_paging_def)
    show "heap_inv L (heap_init L s5)" "heap_blocks L (heap_init L s5) = [(524288, True)]"
      using ready by (simp_all add: heap_init_ok [OF HL] s5_def enable_paging_def)
  qed
qed

end
