(* ===== verification/Mm_Props.thy ===== *)
theory Mm_Props
  imports Memory_Init
begin

text \<open>
  The properties of the frame allocator, the page tables and \<open>memory_init\<close>.

  The witnesses boot the zeroed machine \<open>mm_boot\<close> without multiboot data (the kernel then
  assumes 64 MiB), with the kernel ending at \<open>0x300000\<close>, and once more with an
  information block that announces 256 MiB.
\<close>

section \<open>A concrete boot\<close>

definition boot_link :: link_map where
  "boot_link = \<lparr>g_heap_at = 0x200000, g_page_directory_at = 0x180000, g_page_tables_at = 0x181000,
     kernel_end_at = 0x300000\<rparr>"

lemma boot_link_ok: "mm_link boot_link" "unat (kernel_end_at boot_link) \<le> 0xFFFFF000"
  by (auto simp: mm_link_def heap_link_def page_link_def heap_base_def boot_link_def table_bytes_def)

lemma boot_plain: "boot_info L 0 0 m es"
  by (simp add: boot_info_def multiboot_def)

lemma boot_fresh: "\<not> g_paging_ready mm_boot" "\<not> g_heap_ready mm_boot"
  by (simp_all add: mm_boot_def)

lemma boot_detect: "detect_memory_bytes 0 0 m = Some 0x4000000"
  by (simp add: detect_memory_bytes_def)

text \<open>The frames free after the plain boot.\<close>

lemma boot_state:
  obtains s where "memory_init boot_link 0 0 mm_boot = Some s" "frames_wf s" "pmm_inv s"
    "free_frames s = {0x300..<0x800} \<union> {0x900..<0xBFF} \<union> {0xC00..<0x4000}"
    "paged boot_link s ({..<0x4000} \<union> user_pages) user_pages" "unat (g_total_frames s) = 0x4000"
    "heap_inv boot_link s" "heap_blocks boot_link s = [(524288, True)]"
    "cr3 s = 0x180000" "cr0 s AND 0x80000000 \<noteq> 0"
proof -
  obtain s d where s: "memory_init boot_link 0 0 mm_boot = Some s" "detect_memory_bytes 0 0 (mm_mem mm_boot) = Some d"
    "unat (g_total_memory_bytes s) = round_up 4096 (min (unat d) 0x20000000)" "frames_wf s"
    "\<And>f. f < unat (g_total_frames s) \<Longrightarrow> used s f \<longleftrightarrow>
      \<not> freed_set 0 0 (mm_mem mm_boot) [] (unat (g_total_memory_bytes s)) f \<or> reserved boot_link f"
    "paged boot_link s (identity_pages s \<union> user_pages) user_pages"
    "heap_inv boot_link s" "heap_blocks boot_link s = [(524288, True)]"
    "cr3 s = g_page_directory_at boot_link" "cr0 s = cr0 mm_boot OR 0x80000000"
    using memory_init_ok [OF boot_link_ok boot_plain [where es = "[]"] boot_fresh] by metis
  have b: "unat (g_total_memory_bytes s) = 0x4000000" using s(2,3) by (simp add: boot_detect round_up_def)
  with s(4) have t: "unat (g_total_frames s) = 0x4000" by (simp add: frames_wf_def)
  have u: "used s f \<longleftrightarrow> f < 0x300 \<or> 0x800 \<le> f \<and> f < 0x900 \<or> f = 0xBFF" if "f < 0x4000" for f
    using s(5) [of f] that unfolding t b freed_set_def multiboot_def reserved_def boot_link_def in_pages_def by auto
  then have "free_frames s = {0x300..<0x800} \<union> {0x900..<0xBFF} \<union> {0xC00..<0x4000}"
    by (auto simp: free_frames_def t)
  moreover have "identity_pages s = {..<0x4000}" by (auto simp: identity_pages_def t)
  moreover have "cr3 s = 0x180000" "cr0 s AND 0x80000000 \<noteq> 0"
    using s(9,10) by (simp_all add: boot_link_def mm_boot_def)
  ultimately show thesis using s(1,4,6,7,8) u [of 0] t by (intro that) (simp_all add: pmm_inv_def)
qed

section \<open>Frames\<close>

text \<open>
  \<open>pmm_alloc_frame\<close> hands out the address of the lowest free frame and marks exactly
  that frame used; it returns 0 and changes nothing exactly when no frame is free. No
  other part of the state changes.
\<close>

theorem pmm_alloc_frame_correct:
  assumes "pmm_inv s"
  shows "case pmm_alloc_frame s of (p, s') \<Rightarrow> pmm_inv s' \<and> same_but_frames s s' \<and>
    (if free_frames s = {} then p = 0 \<and> s' = s
     else p \<noteq> 0 \<and> unat p = 4096 * Min (free_frames s) \<and> (\<forall>f. used s' f \<longleftrightarrow> used s f \<or> f = Min (free_frames s)))"
  using assms
proof (cases rule: pmm.alloc_cases)
  case empty
  with assms show ?thesis by simp
next
  case (frame f s')
  have ne: "free_frames s \<noteq> {}" using frame(1) by auto
  have f: "f = Min (free_frames s)" using frame(1,2) by (intro Min_eqI [symmetric]) auto
  have b: "4096 * f < 2 ^ 32"
    using frame(1) assms by (auto simp: free_frames_def pmm_inv_def frames_wf_def)
  have "s' = set_frame (of_nat f) s"
    using frame(3) ne by (simp add: pmm_alloc_frame_def find_frame_Min f)
  then have "used s' g \<longleftrightarrow> used s g \<or> g = f" for g
    using b by (auto simp: set_frame_used unat_of_nat_u32)
  moreover have "same_but_frames s s'" using pmm_alloc_frame_ok [OF assms ne frame(3)] by simp
  ultimately show ?thesis
    using frame ne b f unat_of_nat_u32 [OF b] by (simp del: of_nat_mult)
qed

theorem pmm_alloc_frame_correct_witness:
  "\<exists>s s'. memory_init boot_link 0 0 mm_boot = Some s \<and> pmm_inv s \<and> pmm_alloc_frame s = (0x300000, s')"
proof -
  obtain s where s: "memory_init boot_link 0 0 mm_boot = Some s" "pmm_inv s"
    "free_frames s = {0x300..<0x800} \<union> {0x900..<0xBFF} \<union> {0xC00..<0x4000}" by (rule boot_state)
  obtain p s' where al: "pmm_alloc_frame s = (p, s')" by (cases "pmm_alloc_frame s")
  have "Min (free_frames s) = 0x300" unfolding s(3) by (rule Min_eqI) auto
  moreover have "free_frames s \<noteq> {}" by (simp add: s(3))
  ultimately have "unat p = 0x300000" using pmm_alloc_frame_correct [OF s(2)] al by simp
  then have "p = 0x300000" using eq_of_natI [of p] by simp
  with s al show ?thesis by blast
qed

text \<open>
  C23: However clients interleave \<open>pmm_alloc_frame\<close> and \<open>pmm_free_frame\<close> of frames they
  hold, starting from the state after boot: no frame is held twice, no held frame is
  free, frame 0 is never handed out, and the free and the held frames together are
  always the frames that were free at the start, so none is lost.
\<close>

theorem frames_never_shared:
  assumes "pmm_inv s" and "pmm.pool_step\<^sup>*\<^sup>* (s, []) (s', held)"
  shows "pmm_inv s' \<and> distinct held \<and> 0 \<notin> set held \<and> set held \<inter> free_frames s' = {} \<and>
    free_frames s' \<union> set held = free_frames s"
  using pmm.pool_run_ledger [OF assms(2,1)] by (auto simp: pmm.ledger_def)

theorem frames_never_shared_witness:
  "\<exists>s s1. memory_init boot_link 0 0 mm_boot = Some s \<and> pmm_inv s \<and> pmm.pool_step (s, []) (s1, [0x300])
     \<and> 0x300 \<notin> free_frames s1"
proof -
  obtain s where s: "memory_init boot_link 0 0 mm_boot = Some s" "pmm_inv s"
    "free_frames s = {0x300..<0x800} \<union> {0x900..<0xBFF} \<union> {0xC00..<0x4000}" by (rule boot_state)
  obtain p s1 where al: "pmm_alloc_frame s = (p, s1)" by (cases "pmm_alloc_frame s")
  have "Min (free_frames s) = 0x300" unfolding s(3) by (rule Min_eqI) auto
  moreover have "free_frames s \<noteq> {}" by (simp add: s(3))
  ultimately have "p = of_nat (4096 * 0x300)" using pmm.alloc_takes [OF s(2) _ al] by simp
  then have st: "pmm.pool_step (s, []) (s1, [0x300])" using al by (intro pmm.pool_step.take) simp_all
  from frames_never_shared [OF s(2) r_into_rtranclp [of pmm.pool_step, OF st]] s st show ?thesis by auto
qed

section \<open>Boot\<close>

text \<open>
  C5: When every usable region of the boot loader's map lies below 4 GiB, \<open>memory_init\<close>
  returns and manages the memory up to the end of the last usable region (without a map:
  what the boot loader or the default says), at most 512 MiB, rounded up to whole frames.
  Of the managed frames, those are free that overlap a region which the map declares
  usable, read as 64-bit numbers (without a map: from 1 MiB on), and meet none of the
  reserved ranges: the first megabyte, the kernel image, the user program region and the
  user stack page. So frame 0 is never free. Paging is on with the static directory, and
  the heap is one free block.
\<close>

theorem memory_init_correct:
  assumes "mm_link L" and "unat (kernel_end_at L) \<le> 0xFFFFF000" and "boot_info L mg info (mm_mem s) es"
    and "\<not> g_paging_ready s" and "\<not> g_heap_ready s"
    and "multiboot mg info \<and> has_mmap (read_mb (mm_mem s) info) \<longrightarrow> below_4g es"
  shows "\<exists>s'. memory_init L mg info s = Some s' \<and>
    unat (g_total_memory_bytes s') = round_up 4096 (min (memory_size mg info (mm_mem s) es) 0x20000000) \<and>
    free_frames s' = {f. f < unat (g_total_frames s') \<and>
      usable mg info (mm_mem s) es (unat (g_total_memory_bytes s')) f \<and> \<not> reserved L f} \<and>
    frames_wf s' \<and> cr3 s' = g_page_directory_at L \<and> cr0 s' = cr0 s OR 0x80000000 \<and> g_paging_ready s' \<and>
    heap_inv L s' \<and> heap_blocks L s' = [(524288, True)]"
proof -
  obtain s' d where "memory_init L mg info s = Some s'" "detect_memory_bytes mg info (mm_mem s) = Some d"
    "unat (g_total_memory_bytes s') = round_up 4096 (min (unat d) 0x20000000)" "frames_wf s'"
    "\<And>f. f < unat (g_total_frames s') \<Longrightarrow> used s' f \<longleftrightarrow>
      \<not> freed_set mg info (mm_mem s) es (unat (g_total_memory_bytes s')) f \<or> reserved L f"
    "cr3 s' = g_page_directory_at L" "cr0 s' = cr0 s OR 0x80000000" "g_paging_ready s'"
    "heap_inv L s'" "heap_blocks L s' = [(524288, True)]"
    using memory_init_ok [OF assms(1-5)] by metis
  moreover from this have "unat d = memory_size mg info (mm_mem s) es"
    using detect_memory_size [OF assms(3,6)] by simp
  ultimately show ?thesis
    by (intro exI [of _ s']) (auto simp: free_frames_def freed_set_usable [OF assms(6)])
qed

text \<open>
  A map at \<open>0x9100\<close> with one region of 63 MiB that starts at 1 MiB above \<open>hi\<close> times 4 GiB; the
  information block at \<open>0x9000\<close> announces it.
\<close>

definition boot_map :: "u32 \<Rightarrow> mm" where
  "boot_map hi = mm_boot\<lparr>mm_mem := store32 0x9000 0x40 (store32 0x902C 24 (store32 0x9030 0x9100 (store32 0x9100 20
     (store32 0x9104 0x100000 (store32 0x9108 hi (store32 0x910C 0x3F00000 (store32 0x9114 1 (\<lambda>_. 0))))))))\<rparr>"

definition boot_region :: "u32 \<Rightarrow> multiboot_mmap_entry" where
  "boot_region hi = \<lparr>me_size = 20, me_addr_low = 0x100000, me_addr_high = hi, me_len_low = 0x3F00000, me_len_high = 0,
     me_type = 1\<rparr>"

lemma boot_map_info:
  "boot_info boot_link 0x2BADB002 0x9000 (mm_mem (boot_map hi)) [boot_region hi]"
  "has_mmap (read_mb (mm_mem (boot_map hi)) 0x9000)" "\<not> g_paging_ready (boot_map hi)" "\<not> g_heap_ready (boot_map hi)"
proof -
  have z: "load32 (\<lambda>_. 0) a = 0" for a by (simp add: load32_def)
  have mb: "mb_flags (read_mb (mm_mem (boot_map hi)) 0x9000) = 0x40" "mb_mmap_length (read_mb (mm_mem (boot_map hi)) 0x9000) = 24"
    "mb_mmap_addr (read_mb (mm_mem (boot_map hi)) 0x9000) = 0x9100"
    by (simp_all add: read_mb_def boot_map_def load32_store32_dist)
  then show h: "has_mmap (read_mb (mm_mem (boot_map hi)) 0x9000)" by (simp add: has_mmap_def push_bit_eq_mult)
  have "read_entry (mm_mem (boot_map hi)) 0x9100 = boot_region hi"
    by (simp add: read_entry_def boot_region_def boot_map_def load32_store32_dist z)
  with mb show "boot_info boot_link 0x2BADB002 0x9000 (mm_mem (boot_map hi)) [boot_region hi]"
    by (auto simp: boot_info_def Let_def table_bytes_def boot_link_def boot_region_def)
  show "\<not> g_paging_ready (boot_map hi)" "\<not> g_heap_ready (boot_map hi)" by (simp_all add: boot_map_def mm_boot_def)
qed

theorem memory_init_correct_witness:
  "\<exists>s'. memory_init boot_link 0x2BADB002 0x9000 (boot_map 0) = Some s' \<and> unat (g_total_memory_bytes s') = 0x4000000 \<and>
     0x3FF \<in> free_frames s' \<and> 0x100 \<notin> free_frames s' \<and> 0x800 \<notin> free_frames s' \<and> 0xBFF \<notin> free_frames s'"
proof -
  have b: "below_4g [boot_region 0]" by (simp add: below_4g_def boot_region_def)
  have "memory_top [boot_region 0] = 0x4000000"
    by (simp add: memory_top_def region_start_def region_len_def boot_region_def Collect_conv_if)
  then have m: "memory_size 0x2BADB002 0x9000 (mm_mem (boot_map 0)) [boot_region 0] = 0x4000000"
    using boot_map_info(2) [of 0] by (simp add: memory_size_def multiboot_def)
  obtain s' where s': "memory_init boot_link 0x2BADB002 0x9000 (boot_map 0) = Some s'"
    "unat (g_total_memory_bytes s') = round_up 4096 (min 0x4000000 0x20000000)"
    "free_frames s' = {f. f < unat (g_total_frames s') \<and>
      usable 0x2BADB002 0x9000 (mm_mem (boot_map 0)) [boot_region 0] (unat (g_total_memory_bytes s')) f \<and>
      \<not> reserved boot_link f}" "frames_wf s'"
    using memory_init_correct [OF boot_link_ok boot_map_info(1,3,4) [of 0] impI [OF b]] unfolding m by blast
  have b: "unat (g_total_memory_bytes s') = 0x4000000" using s'(2) by (simp add: round_up_def)
  then have t: "unat (g_total_frames s') = 0x4000" using s'(4) by (simp add: frames_wf_def)
  have "f \<in> free_frames s' \<longleftrightarrow> f < 0x4000 \<and> 0x100 \<le> f \<and> \<not> reserved boot_link f" for f
    using boot_map_info(2) [of 0]
    by (auto simp: s'(3) t usable_def multiboot_def mmap_usable_def region_start_def region_len_def boot_region_def in_pages_def)
  with s'(1) b show ?thesis by (intro exI [of _ s']) (simp add: reserved_def in_pages_def boot_link_def)
qed

text \<open>
  Above 4 GiB the code goes wrong: it drops the high words, so it frees the frames that
  have the low words of a region, whether or not there is usable memory.
\<close>

theorem memory_init_drops_high_words:
  assumes "mm_link L" and "unat (kernel_end_at L) \<le> 0xFFFFF000" and "boot_info L mg info (mm_mem s) es"
    and "\<not> g_paging_ready s" and "\<not> g_heap_ready s" and "multiboot mg info" and "has_mmap (read_mb (mm_mem s) info)"
    and "e \<in> set es" and "me_type e = 1" and "in_pages (unat (me_addr_low e)) (unat (me_len_low e)) f"
    and "memory_init L mg info s = Some s'" and "f < unat (g_total_frames s')" and "\<not> reserved L f"
  shows "f \<in> free_frames s'"
proof -
  have "freed_set mg info (mm_mem s) es b f" for b
    using assms(6-10) by (auto simp: freed_set_def freed_regions_def)
  moreover obtain t where "memory_init L mg info s = Some t"
    "\<And>f. f < unat (g_total_frames t) \<Longrightarrow> used t f \<longleftrightarrow>
      \<not> freed_set mg info (mm_mem s) es (unat (g_total_memory_bytes t)) f \<or> reserved L f"
    using memory_init_ok [OF assms(1-5)] by metis
  ultimately show ?thesis using assms(11-13) by (auto simp: free_frames_def)
qed

theorem memory_init_drops_high_words_witness:
  "\<exists>s'. memory_init boot_link 0x2BADB002 0x9000 (boot_map 1) = Some s' \<and> 0x3FF \<in> free_frames s' \<and>
     \<not> mmap_usable [boot_region 1] 0x3FF"
proof -
  obtain s' d where s': "memory_init boot_link 0x2BADB002 0x9000 (boot_map 1) = Some s'"
    "detect_memory_bytes 0x2BADB002 0x9000 (mm_mem (boot_map 1)) = Some d"
    "unat (g_total_memory_bytes s') = round_up 4096 (min (unat d) 0x20000000)" "frames_wf s'"
    using memory_init_ok [OF boot_link_ok boot_map_info(1,3,4) [of 1]] by metis
  have "mmap_at (mm_mem (boot_map 1)) (read_mb (mm_mem (boot_map 1)) 0x9000) 0 [boot_region 1]"
    using boot_map_info(1,2) [of 1] by (simp add: boot_info_def multiboot_def Let_def del: mmap_at.simps)
  from detect_scan_mmap [OF this, of 0] s'(2) have "d = 0x4000000"
    using boot_map_info(2) [of 1] by (simp add: detect_memory_bytes_def Let_def boot_region_def)
  with s'(3,4) have "unat (g_total_frames s') = 0x4000" by (simp add: frames_wf_def round_up_def)
  then have "0x3FF \<in> free_frames s'"
    by (intro memory_init_drops_high_words [OF boot_link_ok boot_map_info(1,3,4) [of 1] _ boot_map_info(2) _ _ _ s'(1),
          of "boot_region 1"]) (simp_all add: multiboot_def boot_region_def in_pages_def reserved_def boot_link_def)
  with s'(1) show ?thesis
    by (auto simp: mmap_usable_def boot_region_def region_start_def region_len_def in_pages_def)
qed

text \<open>
  C4: After \<open>memory_init\<close> the page tables map exactly the managed memory below 128 MiB
  and the two user ranges, every mapped address to itself, and user mode can reach
  exactly the bytes of the user program region (8 MiB to 9 MiB) and of the user stack
  page: no byte of the kernel, its heap or its page tables is open to a user program.
\<close>

theorem memory_init_isolates_kernel:
  assumes "mm_link L" and "unat (kernel_end_at L) \<le> 0xFFFFF000" and "boot_info L mg info (mm_mem s) es"
    and "\<not> g_paging_ready s" and "\<not> g_heap_ready s"
  shows "\<exists>s'. memory_init L mg info s = Some s' \<and>
    (\<forall>v. page_get_phys (mm_mem s') (cr3 s') v =
       (if unat v < 0x8000000 \<and> unat v < unat (g_total_memory_bytes s')
           \<or> unat v \<in> {0x800000..<0x900000} \<union> {0xBFF000..<0xC00000} then v else 0)) \<and>
    (\<forall>v. user_can_access (mm_mem s') (cr3 s') v \<longleftrightarrow> unat v \<in> {0x800000..<0x900000} \<union> {0xBFF000..<0xC00000})"
proof -
  obtain s' where s': "memory_init L mg info s = Some s'" "frames_wf s'" "cr3 s' = g_page_directory_at L"
    "paged L s' (identity_pages s' \<union> user_pages) user_pages"
    using memory_init_ok [OF assms] by metis
  have PL: "page_link L" using assms(1) by (simp add: mm_link_def)
  have u: "n div 4096 \<in> user_pages \<longleftrightarrow> n \<in> {0x800000..<0x900000} \<union> {0xBFF000..<0xC00000}" for n
    by (auto simp: user_pages_def less_eq_div_iff_mult_less_eq div_less_iff_less_mult)
  have i: "n div 4096 \<in> identity_pages s' \<longleftrightarrow> n < 0x8000000 \<and> n < unat (g_total_memory_bytes s')" for n
    using s'(2) by (auto simp: identity_pages_def frames_wf_def div_less_iff_less_mult)
  from paged_translation [OF PL s'(4)] s'(1,3) show ?thesis
    by (intro exI [of _ s']) (simp add: u i)
qed

theorem memory_init_isolates_kernel_witness:
  "\<exists>s'. memory_init boot_link 0 0 mm_boot = Some s' \<and> user_can_access (mm_mem s') (cr3 s') 0x800010
     \<and> \<not> user_can_access (mm_mem s') (cr3 s') 0x200000 \<and> page_get_phys (mm_mem s') (cr3 s') 0x800010 = 0x800010
     \<and> page_get_phys (mm_mem s') (cr3 s') 0xF0000000 = 0"
  using memory_init_isolates_kernel [OF boot_link_ok boot_plain boot_fresh] 
  by (elim exE conjE) (rule exI, intro conjI, assumption, simp_all add: round_up_def)

section \<open>Mapping pages\<close>

text \<open>
  C24: On an address space (a directory with distinct tables that are not free frames) whose
  directory and tables the kernel reaches at their own addresses, \<open>page_map\<close> has exactly
  these outcomes. If the table of the page is there, it stores the entry (the frame, the
  flags, present) and keeps the directory entry. If it is missing and no frame is free,
  nothing changes and the caller is not told. If it is missing, the lowest free frame
  becomes the table when its address is mapped to itself: the directory entry is that frame
  with the flags and present, and the frame is no longer free. When the address of that
  frame is not mapped, the clearing of the new table faults. After a success exactly the bytes of
  the page translate to the given frame, no other translation has changed, and the result
  is an address space again.
\<close>

theorem page_map_correct:
  assumes "aspace pd s" and "tables_mapped pd s" and "pmm_inv s" and "unat flags < 4096"
  shows "let f = Min (free_frames s); t = of_nat (4096 * f) in
    if present (mm_mem s) pd (unat v div 4096 div 1024) then
      \<exists>s'. page_map pd v paddr flags s = Inr s' \<and> mapped_to pd v paddr flags s s' \<and>
        free_frames s' = free_frames s \<and> walk_pde (mm_mem s') pd v = walk_pde (mm_mem s) pd v
    else if free_frames s = {} then page_map pd v paddr flags s = Inr s
    else (virt_to_phys s t = Some t \<longrightarrow>
           (\<exists>s'. page_map pd v paddr flags s = Inr s' \<and> mapped_to pd v paddr flags s s' \<and>
              free_frames s' = free_frames s - {f} \<and> walk_pde (mm_mem s') pd v = t OR flags OR PAGE_PRESENT)) \<and>
         (virt_to_phys s t = None \<longrightarrow> page_map pd v paddr flags s = Inl Fault)"
  using page_map_reuse_ok [OF assms, of v paddr] page_map_no_frame [OF assms(1-3), of v paddr flags]
    page_map_new_ok [OF assms, of v paddr] page_map_fault [OF assms(1-3), of v paddr flags]
  by (simp add: Let_def del: of_nat_mult)

lemma boot_tables:
  assumes "paged boot_link s ({..<0x4000} \<union> user_pages) user_pages" and "cr3 s = 0x180000" and "cr0 s AND 0x80000000 \<noteq> 0"
    and "free_frames s = {0x300..<0x800} \<union> {0x900..<0xBFF} \<union> {0xC00..<0x4000}"
  shows "aspace 0x180000 s" and "tables_mapped 0x180000 s"
    and "virt_to_phys s v = (if unat v div 4096 \<in> {..<0x4000} then Some v else None)"
proof -
  have L: "page_link boot_link" "g_page_directory_at boot_link = 0x180000"
    using boot_link_ok by (simp_all add: mm_link_def boot_link_def)
  have x: "x div 4096 < 0x300" if "x \<in> table_bytes boot_link" for x
    using that by (auto simp: table_bytes_def boot_link_def div_less_iff_less_mult)
  then have f: "\<forall>f\<in>free_frames s. \<forall>x\<in>table_bytes boot_link. x div 4096 \<noteq> f" by (force simp: assms(4))
  from paged_aspace [OF L(1) assms(1) f] show "aspace 0x180000 s" by (simp add: L)
  have "\<forall>x\<in>table_bytes boot_link. x div 4096 \<in> {..<0x4000} \<union> user_pages" using x by force
  from paged_tables_mapped [OF L(1) assms(1) f _ assms(3) this] assms(2) show "tables_mapped 0x180000 s" by (simp add: L)
  have "user_pages \<subseteq> {..<0x4000}" by (auto simp: user_pages_def)
  with paged_virt_to_phys [OF L(1) assms(1) _ assms(3), of v] assms(2)
  show "virt_to_phys s v = (if unat v div 4096 \<in> {..<0x4000} then Some v else None)" by (auto simp: L)
qed

theorem page_map_correct_witness:
  "\<exists>s s'. memory_init boot_link 0 0 mm_boot = Some s \<and> unat (3 :: u32) < 4096 \<and>
     page_map 0x180000 0x40000000 0x500000 3 s = Inr s' \<and> walk_pte (mm_mem s') 0x180000 0x40000000 = 0x500003 \<and>
     page_get_phys (mm_mem s') 0x180000 0x40000123 = 0x500123 \<and>
     page_get_phys (mm_mem s') 0x180000 0x200000 = 0x200000"
proof -
  obtain s where s: "memory_init boot_link 0 0 mm_boot = Some s" "pmm_inv s"
    "free_frames s = {0x300..<0x800} \<union> {0x900..<0xBFF} \<union> {0xC00..<0x4000}"
    "paged boot_link s ({..<0x4000} \<union> user_pages) user_pages" "cr3 s = 0x180000" "cr0 s AND 0x80000000 \<noteq> 0"
    by (rule boot_state)
  note b = boot_tables [OF s(4-6,3)]
  have "page_get_phys (mm_mem s) 0x180000 0x200000 = 0x200000"
    using paged_translation(1) [OF _ s(4), of "0x200000"] boot_link_ok(1) by (simp add: mm_link_def boot_link_def)
  moreover have "Min (free_frames s) = 0x300" unfolding s(3) by (rule Min_eqI) auto
  moreover have "free_frames s \<noteq> {}" by (simp add: s(3))
  ultimately have "\<exists>s'. page_map 0x180000 0x40000000 0x500000 3 s = Inr s' \<and> mapped_to 0x180000 0x40000000 0x500000 3 s s'"
    using page_map_correct [OF b(1,2) s(2), of 3 "0x40000000" "0x500000"] b(3) by (auto simp: Let_def split: if_splits)
  with \<open>page_get_phys (mm_mem s) 0x180000 0x200000 = 0x200000\<close> s(1) show ?thesis
    by (auto simp: mapped_to_def)
qed

text \<open>
  On a machine with more than 128 MiB, frames above 128 MiB that are free after
  \<open>memory_init\<close> have no mapping: \<open>pmm_alloc_frame\<close> may return such a frame, and
  \<open>page_map\<close>, which clears it through its physical address, then faults.
\<close>

theorem high_frames_unmapped:
  assumes "mm_link L" and "unat (kernel_end_at L) \<le> 0xFFFFF000" and "boot_info L mg info (mm_mem s) es"
    and "\<not> g_paging_ready s" and "\<not> g_heap_ready s" and "memory_init L mg info s = Some s'"
    and "f \<in> free_frames s'" and "32768 \<le> f"
  shows "virt_to_phys s' (of_nat (4096 * f)) = None"
proof -
  obtain t where "memory_init L mg info s = Some t" "frames_wf t" "cr3 t = g_page_directory_at L"
    "paged L t (identity_pages t \<union> user_pages) user_pages" "cr0 t = cr0 s OR 0x80000000"
    using memory_init_ok [OF assms(1-5)] by metis
  with assms(6) have s': "frames_wf s'" "cr3 s' = g_page_directory_at L"
    "paged L s' (identity_pages s' \<union> user_pages) user_pages" "cr0 s' = cr0 s OR 0x80000000" by simp_all
  then have "4096 * f < 2 ^ 32" using assms(7) by (auto simp: free_frames_def frames_wf_def)
  then have u: "unat (of_nat (4096 * f) :: u32) div 4096 = f" by (simp add: unat_of_nat_u32 del: of_nat_mult)
  have "page_link L" using assms(1) by (simp add: mm_link_def)
  moreover have "cr0 s' AND 0x80000000 \<noteq> 0"
    using or_and_absorb [of "0x80000000" "0x80000000" "cr0 s"] by (simp add: s'(4))
  ultimately show ?thesis
    using paged_virt_to_phys [OF _ s'(3,2), of "of_nat (4096 * f)"] assms(8) u
     by (simp add: identity_pages_def user_pages_def del: of_nat_mult)
qed

text \<open>An information block at \<open>0x9000\<close> that announces 256 MiB and no memory map.\<close>

definition boot_256 :: mm where
  "boot_256 = mm_boot\<lparr>mm_mem := store32 0x9000 1 (store32 0x9008 0x40000 (\<lambda>_. 0))\<rparr>"

lemma boot_256_info:
  "boot_info boot_link 0x2BADB002 0x9000 (mm_mem boot_256) []" "\<not> has_mmap (read_mb (mm_mem boot_256) 0x9000)"
  "detect_memory_bytes 0x2BADB002 0x9000 (mm_mem boot_256) = Some 0x10000000"
proof -
  have "load32 (\<lambda>_. 0) a = 0" for a by (simp add: load32_def)
  then have mb: "mb_flags (read_mb (mm_mem boot_256) 0x9000) = 1" "mb_mem_lower (read_mb (mm_mem boot_256) 0x9000) = 0"
    "mb_mem_upper (read_mb (mm_mem boot_256) 0x9000) = 0x40000"
    by (simp_all add: read_mb_def boot_256_def load32_store32_dist)
  then show h: "\<not> has_mmap (read_mb (mm_mem boot_256) 0x9000)" by (simp add: has_mmap_def)
  show "boot_info boot_link 0x2BADB002 0x9000 (mm_mem boot_256) []"
    using h by (auto simp: boot_info_def Let_def table_bytes_def boot_link_def)
  show "detect_memory_bytes 0x2BADB002 0x9000 (mm_mem boot_256) = Some 0x10000000"
    using h by (simp add: detect_memory_bytes_def Let_def mb)
qed

theorem high_frames_unmapped_witness:
  "\<exists>s'. memory_init boot_link 0x2BADB002 0x9000 boot_256 = Some s' \<and> 0x9000 \<in> free_frames s' \<and>
     virt_to_phys s' 0x9000000 = None"
proof -
  have fresh: "\<not> g_paging_ready boot_256" "\<not> g_heap_ready boot_256" by (simp_all add: boot_256_def mm_boot_def)
  obtain s' where s': "memory_init boot_link 0x2BADB002 0x9000 boot_256 = Some s'"
    "unat (g_total_memory_bytes s') = round_up 4096 (min (unat (0x10000000 :: u32)) 0x20000000)" "frames_wf s'"
    "\<And>f. f < unat (g_total_frames s') \<Longrightarrow> used s' f \<longleftrightarrow>
      \<not> freed_set 0x2BADB002 0x9000 (mm_mem boot_256) [] (unat (g_total_memory_bytes s')) f \<or> reserved boot_link f"
    by (rule memory_init_ok [OF boot_link_ok boot_256_info(1) fresh]) (use boot_256_info(3) in auto)
  have b: "unat (g_total_memory_bytes s') = 0x10000000" using s'(2) by (simp add: round_up_def)
  then have t: "unat (g_total_frames s') = 0x10000" using s'(3) by (simp add: frames_wf_def)
  have "0x9000 \<in> free_frames s'"
    using s'(4) [of "0x9000"] boot_256_info(2)
    by (simp add: free_frames_def t b freed_set_def reserved_def in_pages_def boot_link_def)
  from high_frames_unmapped [OF boot_link_ok boot_256_info(1) fresh s'(1) this] s'(1) this show ?thesis by auto
qed

end
