(* ===== verification/Vga.thy ===== *)
theory Vga
  imports Kernel_Prelude
begin

text \<open>
  The text console of \<^verbatim>\<open>arch/vga.c\<close>: 25 rows of 80 cells, a cursor, a current colour.

  The video memory is a list of 2000 cells. Port writes are recorded in order in \<open>outs\<close>,
  which is what the CRT controller sees. \<open>char\<close> is signed on the target, so a byte from
  \<open>0x80\<close> on is sign-extended before it is combined with the colour, as in the source.

  The console is refined to a typewriter on an endless tape: printing moves a position
  forward, and the screen is the window of 25 rows that ends with the row printed last.
\<close>

section \<open>Model\<close>

record vga =
  video_mem :: "u16 list"
  cursor_x :: nat
  cursor_y :: nat
  g_current_color :: u8
  outs :: "(u16 \<times> u8) list"

definition VGA_WIDTH :: nat where [simp]: "VGA_WIDTH = 80"
definition VGA_HEIGHT :: nat where [simp]: "VGA_HEIGHT = 25"
definition DEFAULT_COLOR :: u8 where [simp]: "DEFAULT_COLOR = 0x0F"
definition COLOR_WHITE :: u8 where [simp]: "COLOR_WHITE = 15"
definition COLOR_RED :: u8 where [simp]: "COLOR_RED = 4"

definition vga_outb :: "u16 \<Rightarrow> u8 \<Rightarrow> vga \<Rightarrow> vga" where
  "vga_outb port val v = v\<lparr>outs := outs v @ [(port, val)]\<rparr>"

definition vga_set_color :: "u8 \<Rightarrow> u8 \<Rightarrow> vga \<Rightarrow> vga" where
  "vga_set_color fg bg v = v\<lparr>g_current_color := push_bit 4 bg OR (fg AND 0x0F)\<rparr>"

definition vga_reset_color :: "vga \<Rightarrow> vga" where
  "vga_reset_color v = v\<lparr>g_current_color := DEFAULT_COLOR\<rparr>"

definition vga_update_cursor :: "vga \<Rightarrow> vga" where
  "vga_update_cursor v =
     (let pos = (of_nat (cursor_y v * VGA_WIDTH + cursor_x v) :: u16);
          v = vga_outb 0x3D4 0x0F v;
          v = vga_outb 0x3D5 (ucast (pos AND 0xFF)) v;
          v = vga_outb 0x3D4 0x0E v
      in vga_outb 0x3D5 (ucast (drop_bit 8 pos AND 0xFF)) v)"

text \<open>A cell: the colour in the high byte, the sign-extended character below it.\<close>

definition cell :: "u8 \<Rightarrow> u8 \<Rightarrow> u16" where
  "cell color c = push_bit 8 (ucast color) OR scast c"

definition vga_scroll :: "vga \<Rightarrow> vga" where
  "vga_scroll v =
     (let m = fold (\<lambda>i m. m[i := m ! (i + VGA_WIDTH)]) [0..<(VGA_HEIGHT - 1) * VGA_WIDTH] (video_mem v);
          m = fold (\<lambda>i m. m[i := cell (g_current_color v) 0x20])
                [(VGA_HEIGHT - 1) * VGA_WIDTH..<VGA_HEIGHT * VGA_WIDTH] m
      in v\<lparr>video_mem := m, cursor_y := VGA_HEIGHT - 1\<rparr>)"

definition clear_screen :: "vga \<Rightarrow> vga" where
  "clear_screen v =
     (let m = fold (\<lambda>i m. m[i := cell (g_current_color v) 0x20]) [0..<VGA_HEIGHT * VGA_WIDTH] (video_mem v)
      in vga_update_cursor (v\<lparr>video_mem := m, cursor_x := 0, cursor_y := 0\<rparr>))"

definition vga_putc :: "u8 \<Rightarrow> vga \<Rightarrow> vga" where
  "vga_putc c v =
     (let v = (if c = 10 then v\<lparr>cursor_x := 0, cursor_y := cursor_y v + 1\<rparr>
               else if c = 8 then (if cursor_x v > 0 then v\<lparr>cursor_x := cursor_x v - 1\<rparr> else v)
               else let offset = cursor_y v * VGA_WIDTH + cursor_x v;
                        v = v\<lparr>video_mem := (video_mem v)[offset := cell (g_current_color v) c],
                              cursor_x := cursor_x v + 1\<rparr>
                    in if cursor_x v \<ge> VGA_WIDTH then v\<lparr>cursor_x := 0, cursor_y := cursor_y v + 1\<rparr> else v);
          v = (if cursor_y v \<ge> VGA_HEIGHT then vga_scroll v else v)
      in vga_update_cursor v)"

text \<open>A C string is the list of its bytes up to the terminating zero.\<close>

fun vga_puts :: "u8 list \<Rightarrow> vga \<Rightarrow> vga" where
  "vga_puts [] v = v"
| "vga_puts (c # str) v = (if c = 0 then v else vga_puts str (vga_putc c v))"

definition hex_chars :: "u8 list" where
  "hex_chars = map of_char ''0123456789ABCDEF''"

definition vga_print_hex :: "u32 \<Rightarrow> vga \<Rightarrow> vga" where
  "vga_print_hex val v =
     fold (\<lambda>i. vga_putc (hex_chars ! unat (drop_bit i val AND 0xF))) [28, 24, 20, 16, 12, 8, 4, 0] v"

section \<open>Bounds\<close>

definition vga_wf :: "vga \<Rightarrow> bool" where
  "vga_wf v \<longleftrightarrow> length (video_mem v) = 2000 \<and> cursor_x v < 80 \<and> cursor_y v < 25"

lemma update_cursor_sel [simp]:
  "video_mem (vga_update_cursor v) = video_mem v" "cursor_x (vga_update_cursor v) = cursor_x v"
  "cursor_y (vga_update_cursor v) = cursor_y v" "g_current_color (vga_update_cursor v) = g_current_color v"
  by (simp_all add: vga_update_cursor_def vga_outb_def Let_def)

lemma fold_blank:
  "a \<le> b \<Longrightarrow> b \<le> length m \<Longrightarrow>
   fold (\<lambda>i m. m[i := x]) [a..<b] m = take a m @ replicate (b - a) x @ drop b m"
proof (induction "b - a" arbitrary: a m)
  case (Suc n)
  then have ab: "a < b" by simp
  have "fold (\<lambda>i m. m[i := x]) [Suc a..<b] (m[a := x]) =
      take (Suc a) (m[a := x]) @ replicate (b - Suc a) x @ drop b (m[a := x])"
    using Suc ab by (intro Suc.hyps) auto
  moreover have "replicate (b - a) x = x # replicate (b - Suc a) x"
    using ab by (metis Suc_diff_Suc replicate_Suc)
  ultimately show ?case using ab Suc.prems
    by (simp add: upt_conv_Cons take_Suc_conv_app_nth drop_update_cancel)
qed simp

lemma fold_shift:
  "n + w \<le> length m \<Longrightarrow> fold (\<lambda>i m. m[i := m ! (i + w)]) [0..<n] m = take n (drop w m) @ drop n m"
proof (induction n)
  case (Suc n)
  let ?m = "take n (drop w m) @ drop n m"
  have nth: "?m ! (n + w) = m ! (n + w)" and len: "length (take n (drop w m)) = n"
    using Suc.prems by (simp_all add: nth_append)
  have "drop n m = m ! n # drop (Suc n) m" using Suc.prems by (intro Cons_nth_drop_Suc [symmetric]) simp
  then have "?m[n := m ! (n + w)] = take n (drop w m) @ m ! (n + w) # drop (Suc n) m"
    using len by (simp add: list_update_append)
  moreover have "take (Suc n) (drop w m) = take n (drop w m) @ [m ! (n + w)]"
    using Suc.prems by (simp add: take_Suc_conv_app_nth add.commute)
  ultimately show ?case using Suc nth by simp
qed simp

lemma vga_scroll_eq:
  assumes "length (video_mem v) = 2000"
  shows "vga_scroll v = v\<lparr>video_mem := drop 80 (video_mem v) @ replicate 80 (cell (g_current_color v) 0x20),
    cursor_y := 24\<rparr>"
proof -
  have "fold (\<lambda>i m. m[i := m ! (i + 80)]) [0..<1920] (video_mem v) =
      take 1920 (drop 80 (video_mem v)) @ drop 1920 (video_mem v)"
    using assms by (intro fold_shift) simp
  moreover have "fold (\<lambda>i m. m[i := cell (g_current_color v) 0x20]) [1920..<2000] m =
      take 1920 m @ replicate 80 (cell (g_current_color v) 0x20)" if "length m = 2000" for m
    using fold_blank [of 1920 2000 m] that by simp
  ultimately show ?thesis using assms by (simp add: vga_scroll_def Let_def)
qed

section \<open>The tape\<close>

type_synonym tape = "(nat \<Rightarrow> u16) \<times> nat"

definition tape_put :: "u8 \<Rightarrow> u8 \<Rightarrow> tape \<Rightarrow> tape" where
  "tape_put color c = (\<lambda>(t, p).
     if c = 10 then (t, (p div 80 + 1) * 80)
     else if c = 8 then (t, if p mod 80 = 0 then p else p - 1)
     else (t(p := cell color c), p + 1))"

text \<open>The screen is the window of 25 rows from row \<open>r\<close> on; below it the tape is blank.\<close>

definition window :: "nat \<Rightarrow> vga \<Rightarrow> tape \<Rightarrow> bool" where
  "window r v = (\<lambda>(t, p). vga_wf v \<and> p = 80 * (r + cursor_y v) + cursor_x v \<and>
     (\<forall>i<2000. video_mem v ! i = t (80 * r + i)) \<and>
     (\<forall>i\<ge>80 * r + 2000. t i = cell (g_current_color v) 0x20) \<and> (0 < r \<longrightarrow> cursor_y v = 24))"

text \<open>Going one row down scrolls exactly when the cursor is on the last row.\<close>

lemma window_down:
  assumes W: "length (video_mem v) = 2000" "y \<le> 24" "\<forall>i<2000. video_mem v ! i = t (80 * r + i)"
    "\<forall>i\<ge>80 * r + 2000. t i = cell (g_current_color v) 0x20" "0 < r \<longrightarrow> y = 24"
  defines "v' \<equiv> v\<lparr>cursor_x := 0, cursor_y := y + 1\<rparr>"
  shows "\<exists>r'. window r' (if cursor_y v' \<ge> VGA_HEIGHT then vga_scroll v' else v') (t, 80 * (r + y + 1))"
proof (cases "y = 24")
  case True
  have "vga_scroll v' = v'\<lparr>video_mem := drop 80 (video_mem v) @ replicate 80 (cell (g_current_color v) 0x20),
      cursor_y := 24\<rparr>" using W(1) vga_scroll_eq [of v'] by (simp add: v'_def)
  moreover have "(drop 80 (video_mem v) @ replicate 80 (cell (g_current_color v) 0x20)) ! i = t (80 * Suc r + i)"
    if "i < 2000" for i
    using that W(1,3,4) by (cases "i < 1920") (simp_all add: nth_append ac_simps)
  ultimately have "window (Suc r) (vga_scroll v') (t, 80 * (r + y + 1))"
    using W True by (simp add: window_def vga_wf_def v'_def)
  with True show ?thesis by (auto simp: v'_def)
next
  case False
  then have "window r v' (t, 80 * (r + y + 1))"
    using W by (simp add: window_def vga_wf_def v'_def)
  with False W(2) show ?thesis by (auto simp: v'_def)
qed

lemma window_update_cursor [simp]: "window r (vga_update_cursor v) tp = window r v tp"
  by (simp add: window_def vga_wf_def)

lemma window_write:
  fixes x :: u16
  assumes "window r v (t, p)"
  defines "v' \<equiv> v\<lparr>video_mem := (video_mem v)[cursor_y v * 80 + cursor_x v := x]\<rparr>"
  shows "length (video_mem v') = 2000" "\<forall>i<2000. video_mem v' ! i = (t(p := x)) (80 * r + i)"
    "\<forall>i\<ge>80 * r + 2000. (t(p := x)) i = cell (g_current_color v') 0x20"
  using assms(1) by (auto simp: window_def vga_wf_def v'_def nth_list_update)

lemma vga_putc_window:
  assumes W: "window r v (t, p)"
  shows "\<exists>r'. window r' (vga_putc c v) (tape_put (g_current_color v) c (t, p))"
proof -
  have y: "cursor_y v < 25" "cursor_x v < 80" and p: "p = 80 * (r + cursor_y v) + cursor_x v"
    using W by (simp_all add: window_def vga_wf_def)
  define q where "q = r + cursor_y v"
  have pm: "p mod 80 = cursor_x v" "p div 80 = r + cursor_y v"
    using p y unfolding q_def [symmetric] by simp_all
  consider (nl) "c = 10" | (bs) "c = 8" | (plain) "c \<noteq> 10" "c \<noteq> 8" by blast
  then show ?thesis
  proof cases
    case nl
    have "\<exists>r'. window r' (if cursor_y (v\<lparr>cursor_x := 0, cursor_y := cursor_y v + 1\<rparr>) \<ge> VGA_HEIGHT
        then vga_scroll (v\<lparr>cursor_x := 0, cursor_y := cursor_y v + 1\<rparr>)
        else v\<lparr>cursor_x := 0, cursor_y := cursor_y v + 1\<rparr>) (t, 80 * (r + cursor_y v + 1))"
      using W by (intro window_down) (auto simp: window_def vga_wf_def)
    then show ?thesis
      using nl pm by (cases "24 \<le> cursor_y v") (simp_all add: vga_putc_def Let_def tape_put_def mult.commute)
  next
    case bs
    then have "window r (vga_putc c v) (tape_put (g_current_color v) c (t, p))"
      using W pm y by (auto simp: vga_putc_def Let_def tape_put_def window_def vga_wf_def)
    then show ?thesis ..
  next
    case plain
    let ?x = "cell (g_current_color v) c"
    let ?v = "v\<lparr>video_mem := (video_mem v)[cursor_y v * 80 + cursor_x v := ?x]\<rparr>"
    note w = window_write [OF W, of ?x]
    show ?thesis
    proof (cases "cursor_x v = 79")
      case True
      have "\<exists>r'. window r' (if cursor_y (?v\<lparr>cursor_x := 0, cursor_y := cursor_y v + 1\<rparr>) \<ge> VGA_HEIGHT
          then vga_scroll (?v\<lparr>cursor_x := 0, cursor_y := cursor_y v + 1\<rparr>)
          else ?v\<lparr>cursor_x := 0, cursor_y := cursor_y v + 1\<rparr>) (t(p := ?x), 80 * (r + cursor_y v + 1))"
        using w y W by (intro window_down) (auto simp: window_def)
      then show ?thesis
        using plain True p by (cases "24 \<le> cursor_y v") (simp_all add: vga_putc_def Let_def tape_put_def)
    next
      case False
      then have "window r (vga_putc c v) (t(p := ?x), p + 1)"
        using w y p plain W by (simp add: vga_putc_def Let_def window_def vga_wf_def)
      with plain show ?thesis by (auto simp: tape_put_def)
    qed
  qed
qed

lemma vga_putc_color [simp]: "g_current_color (vga_putc c v) = g_current_color v"
  by (simp add: vga_putc_def Let_def vga_scroll_def)

lemma window_puts:
  assumes "window r v (t, p)" and "0 \<notin> set str"
  shows "\<exists>r'. window r' (vga_puts str v) (fold (tape_put (g_current_color v)) str (t, p))"
  using assms
proof (induction str arbitrary: r v t p)
  case (Cons c str)
  obtain t' p' where tp: "tape_put (g_current_color v) c (t, p) = (t', p')"
    by (cases "tape_put (g_current_color v) c (t, p)")
  with vga_putc_window [OF Cons.prems(1), of c] obtain r' where "window r' (vga_putc c v) (t', p')" by auto
  from Cons.IH [OF this] Cons.prems(2) tp show ?case by auto
qed auto

text \<open>The tape that a screen starts from.\<close>

definition screen_tape :: "vga \<Rightarrow> tape" where
  "screen_tape v = (\<lambda>i. if i < 2000 then video_mem v ! i else cell (g_current_color v) 0x20, 80 * cursor_y v + cursor_x v)"

lemma window_start: "vga_wf v \<Longrightarrow> window 0 v (screen_tape v)"
  by (simp add: window_def screen_tape_def)

lemma window_row:
  assumes "window r v (t, p)"
  shows "r = p div 80 - 24" and "vga_wf v"
proof -
  define q where "q = r + cursor_y v"
  have "p = 80 * q + cursor_x v" "cursor_x v < 80" using assms by (simp_all add: window_def vga_wf_def q_def)
  then have "p div 80 = r + cursor_y v" by (simp add: q_def [symmetric])
  then show "r = p div 80 - 24" using assms by (auto simp: window_def vga_wf_def)
  show "vga_wf v" using assms by (simp add: window_def)
qed

section \<open>Properties\<close>

text \<open>
  C22: \<open>vga_puts\<close> is a typewriter on an endless tape. Whatever string is printed from
  whatever screen (newlines, backspaces, lines that wrap, any amount of scrolling), the
  screen afterwards is the 25-row window of the tape that ends with the row of the
  cursor, or the first 25 rows while the cursor has not passed them; no cell is lost or
  duplicated by scrolling, and every cell stays inside the 2000 cells of the screen.
\<close>

theorem vga_puts_refines_tape:
  assumes "vga_wf v" and "0 \<notin> set str"
  shows "case fold (tape_put (g_current_color v)) str (screen_tape v) of (t, p) \<Rightarrow>
    let v' = vga_puts str v; r = p div 80 - 24 in
    vga_wf v' \<and> p = 80 * (r + cursor_y v') + cursor_x v' \<and> (\<forall>i<2000. video_mem v' ! i = t (80 * r + i))"
proof -
  obtain t p where tp: "fold (tape_put (g_current_color v)) str (screen_tape v) = (t, p)" by fastforce
  obtain t0 p0 where st: "screen_tape v = (t0, p0)" by fastforce
  from window_puts [of 0 v t0 p0 str] window_start [OF assms(1)] assms(2) obtain r where
    w: "window r (vga_puts str v) (t, p)" by (auto simp: st tp [unfolded st])
  from w window_row [OF w] show ?thesis by (simp add: tp Let_def window_def)
qed

theorem vga_puts_refines_tape_witness:
  "let v = \<lparr>video_mem = replicate 2000 0x0F20, cursor_x = 79, cursor_y = 24, g_current_color = 0x0F, outs = []\<rparr>
   in vga_wf v \<and> cursor_x (vga_puts [0x41, 0x42] v) = 1 \<and> cursor_y (vga_puts [0x41, 0x42] v) = 24
      \<and> video_mem (vga_puts [0x41, 0x42] v) ! 1919 = 0x0F41 \<and> video_mem (vga_puts [0x41, 0x42] v) ! 1920 = 0x0F42"
proof -
  define v where "v = \<lparr>video_mem = replicate 2000 0x0F20, cursor_x = 79, cursor_y = 24,
    g_current_color = 0x0F, outs = []\<rparr>"
  have wf: "vga_wf v" by (simp add: vga_wf_def v_def)
  have tape: "fold (tape_put (g_current_color v)) [0x41, 0x42] (screen_tape v) =
      ((fst (screen_tape v))(1999 := 0x0F41, 2000 := 0x0F42), 2001)"
    by (simp add: tape_put_def screen_tape_def v_def cell_def)
  from vga_puts_refines_tape [OF wf, of "[0x41, 0x42]"]
  have w: "vga_wf (vga_puts [0x41, 0x42] v)"
    "2001 = 80 * (1 + cursor_y (vga_puts [0x41, 0x42] v)) + cursor_x (vga_puts [0x41, 0x42] v)"
    "\<forall>i<2000. video_mem (vga_puts [0x41, 0x42] v) ! i = ((fst (screen_tape v))(1999 := 0x0F41, 2000 := 0x0F42)) (80 + i)"
    unfolding tape by (simp_all add: Let_def)
  have "cursor_y (vga_puts [0x41, 0x42] v) = 24 \<and> cursor_x (vga_puts [0x41, 0x42] v) = 1"
    using w(1,2) unfolding vga_wf_def by presburger
  with w(3) wf show ?thesis by (simp add: v_def [symmetric])
qed

text \<open>
  One character: \<open>vga_putc\<close> keeps the cursor on the screen and writes at most one cell,
  inside the video memory, before any scrolling; and the four port writes at its end
  give the CRT controller exactly the new cursor position.
\<close>

theorem vga_putc_cursor:
  assumes "vga_wf v"
  shows "vga_wf (vga_putc c v) \<and> cursor_y v * 80 + cursor_x v < length (video_mem v) \<and>
    (\<exists>lo hi. outs (vga_putc c v) = outs v @ [(0x3D4, 0x0F), (0x3D5, lo), (0x3D4, 0x0E), (0x3D5, hi)] \<and>
      256 * unat hi + unat lo = 80 * cursor_y (vga_putc c v) + cursor_x (vga_putc c v))"
proof -
  obtain r where w: "window r (vga_putc c v) (tape_put (g_current_color v) c (screen_tape v))"
    using vga_putc_window [of 0 v "fst (screen_tape v)" "snd (screen_tape v)" c] window_start [OF assms] by auto
  then have wf: "vga_wf (vga_putc c v)" by (simp add: window_def split: prod.splits)
  obtain u where u: "vga_putc c v = vga_update_cursor u" "outs u = outs v"
    by (simp add: vga_putc_def Let_def vga_scroll_def)
  define p where "p = (of_nat (cursor_y u * 80 + cursor_x u) :: u16)"
  have "cursor_y u * 80 + cursor_x u < 2000" using wf u by (simp add: vga_wf_def)
  then have p: "unat p = cursor_y u * 80 + cursor_x u"
    by (simp add: p_def unat_of_nat take_bit_nat_eq_self del: of_nat_add of_nat_mult)
  have lo: "unat (ucast (p AND 0xFF) :: u8) = unat p mod 256"
    and hi: "unat (ucast (drop_bit 8 p AND 0xFF) :: u8) = unat p div 256 mod 256"
    by (simp_all add: unat_ucast_u8 and_FF unat_take_bit unat_drop_bit)
  have "256 * unat (ucast (drop_bit 8 p AND 0xFF) :: u8) + unat (ucast (p AND 0xFF) :: u8) =
      80 * cursor_y (vga_putc c v) + cursor_x (vga_putc c v)"
    using p \<open>_ < 2000\<close> u by (simp add: lo hi)
  moreover have "outs (vga_putc c v) = outs v @ [(0x3D4, 0x0F), (0x3D5, ucast (p AND 0xFF)), (0x3D4, 0x0E),
      (0x3D5, ucast (drop_bit 8 p AND 0xFF))]"
    using u by (simp add: vga_update_cursor_def vga_outb_def Let_def p_def)
  ultimately show ?thesis using wf assms by (auto simp: vga_wf_def)
qed

theorem vga_putc_cursor_witness:
  "let v = \<lparr>video_mem = replicate 2000 0x0F20, cursor_x = 79, cursor_y = 3, g_current_color = 0x0F, outs = []\<rparr>
   in vga_wf v \<and> (\<exists>lo hi. outs (vga_putc 0x41 v) = [(0x3D4, 0x0F), (0x3D5, lo), (0x3D4, 0x0E), (0x3D5, hi)] \<and>
        256 * unat hi + unat lo = 320)"
proof -
  define v where "v = \<lparr>video_mem = replicate 2000 0x0F20, cursor_x = 79, cursor_y = 3,
    g_current_color = 0x0F, outs = []\<rparr>"
  have wf: "vga_wf v" by (simp add: vga_wf_def v_def)
  have "outs v = []" "80 * cursor_y (vga_putc 0x41 v) + cursor_x (vga_putc 0x41 v) = 320"
    by (simp_all add: v_def vga_putc_def Let_def)
  with vga_putc_cursor [OF wf, of "0x41"] wf show ?thesis by (simp add: v_def [symmetric])
qed

definition hex_digits :: "u32 \<Rightarrow> u8 list" where
  "hex_digits val = map (\<lambda>i. hex_chars ! unat (drop_bit i val AND 0xF)) [28, 24, 20, 16, 12, 8, 4, 0]"

definition hex_value :: "u8 \<Rightarrow> nat" where
  "hex_value c = (if c \<le> 0x39 then unat c - 0x30 else unat c - 0x37)"

definition parse_hex :: "u8 list \<Rightarrow> nat" where
  "parse_hex = foldl (\<lambda>n c. 16 * n + hex_value c) 0"

lemma hex_chars_nth:
  assumes "n < 16"
  shows "hex_value (hex_chars ! n) = n" "hex_chars ! n \<noteq> 0"
proof -
  have "\<forall>n\<in>set [0..<16]. hex_value (hex_chars ! n) = n \<and> hex_chars ! n \<noteq> 0" by code_simp
  with assms show "hex_value (hex_chars ! n) = n" "hex_chars ! n \<noteq> 0" by auto
qed

lemma nibble: "unat (drop_bit i (val :: u32) AND 0xF) = unat val div 2 ^ i mod 16"
  using take_bit_eq_mask [of 4 "drop_bit i val"] unat_take_bit [of 4 "drop_bit i val"]
  by (simp add: mask_eq_exp_minus_1 unat_drop_bit)

lemma join_nibble: "16 * (n div 2 ^ (i + 4)) + n div 2 ^ i mod 16 = n div 2 ^ i" for n :: nat
  by (simp add: power_add div_mult2_eq)

lemma hex_digits_ok: "length (hex_digits val) = 8" "0 \<notin> set (hex_digits val)" "parse_hex (hex_digits val) = unat val"
proof -
  show "0 \<notin> set (hex_digits val)" using hex_chars_nth(2) by (auto simp: hex_digits_def nibble)
  have v: "hex_value (hex_chars ! unat (drop_bit i val AND 0xF)) = unat val div 2 ^ i mod 16" for i
    by (simp add: nibble hex_chars_nth)
  have "unat val div 2 ^ 32 = 0" using unat_u32_less [of val] by simp
  then have "16 * 0 + unat val div 2 ^ 28 mod 16 = unat val div 2 ^ 28" using join_nibble [of "unat val" 28] by simp
  then show "parse_hex (hex_digits val) = unat val"
    using join_nibble [of "unat val" 24] join_nibble [of "unat val" 20] join_nibble [of "unat val" 16]
      join_nibble [of "unat val" 12] join_nibble [of "unat val" 8] join_nibble [of "unat val" 4] join_nibble [of "unat val" 0]
      v [of 0]
    by (simp add: parse_hex_def hex_digits_def v)
qed (simp add: hex_digits_def)

text \<open>
  \<open>vga_print_hex\<close> prints exactly eight hexadecimal digits, most significant first,
  and reading them back gives the number.
\<close>

theorem vga_print_hex_roundtrip:
  "vga_print_hex val v = vga_puts (hex_digits val) v \<and> length (hex_digits val) = 8 \<and> 0 \<notin> set (hex_digits val)
     \<and> parse_hex (hex_digits val) = unat val"
proof -
  have "fold vga_putc cs v = vga_puts cs v" if "0 \<notin> set cs" for cs v
    using that by (induction cs arbitrary: v) auto
  then show ?thesis
    using hex_digits_ok [of val] by (simp add: vga_print_hex_def hex_digits_def fold_map comp_def)
qed

text \<open>
  A byte from \<open>0x80\<close> on is sign-extended when it is combined with the colour, so it
  is always shown with attribute \<open>0xFF\<close>, whatever colour was set.
\<close>

theorem vga_high_byte_ignores_color:
  assumes "0x80 \<le> c"
  shows "cell color c = 0xFF00 OR ucast c"
proof (rule bit_word_eqI)
  fix n assume n: "n < LENGTH(16)"
  have "bit c 7"
  proof -
    have "unat c div 2 ^ 7 = 1"
      using assms unsigned_less [of c, where 'a = nat] by (simp add: word_le_nat_alt div_nat_eqI)
    then have "bit (unat c) 7" by (simp add: bit_iff_odd)
    then show ?thesis by (simp add: bit_unsigned_iff)
  qed
  moreover have "bit (push_bit 8 (mask 8) :: u16) n \<longleftrightarrow> 8 \<le> n" using n by (auto simp: bit_simps)
  then have "bit (0xFF00 :: u16) n \<longleftrightarrow> 8 \<le> n" by (simp add: mask_eq_exp_minus_1)
  ultimately show "bit (cell color c) n = bit (0xFF00 OR ucast c :: u16) n"
    using n bit_imp_le_length [of c n]
    by (cases "n = 7"; cases "n < 8") (auto simp: cell_def bit_simps min_def)
qed

theorem vga_high_byte_ignores_color_witness: "(0x80 :: u8) \<le> 0xE9 \<and> cell 0x0F 0xE9 = 0xFFE9"
  using vga_high_byte_ignores_color [of "0xE9" "0x0F"] by simp

end
