(* ===== verification/Bounded_Queue.thy ===== *)
theory Bounded_Queue
  imports Kernel_Prelude
begin

text \<open>
  The contract of a bounded FIFO of bytes, as the shell and the system calls use the
  keyboard buffer: \<open>push\<close> appends unless the queue is full and then drops the byte, \<open>pop\<close>
  takes the oldest byte and returns 0 when there is none.

  Proved from the laws: over any sequence of pushes and pops, the bytes read are the
  bytes accepted, in order, and nothing is duplicated or reordered.
\<close>

datatype queue_op = Push u8 | Pop

locale bounded_queue =
  fixes inv :: "'q \<Rightarrow> bool"
    and push :: "u8 \<Rightarrow> 'q \<Rightarrow> 'q"
    and pop :: "'q \<Rightarrow> u8 \<times> 'q"
    and contents :: "'q \<Rightarrow> u8 list"
    and capacity :: nat
  assumes push_inv: "inv q \<Longrightarrow> inv (push c q)"
    and push_room: "inv q \<Longrightarrow> length (contents q) < capacity \<Longrightarrow> contents (push c q) = contents q @ [c]"
    and push_full: "inv q \<Longrightarrow> length (contents q) = capacity \<Longrightarrow> push c q = q"
    and pop_inv: "inv q \<Longrightarrow> pop q = (c, q') \<Longrightarrow> inv q'"
    and pop_some: "inv q \<Longrightarrow> contents q = c # cs \<Longrightarrow> \<exists>q'. pop q = (c, q') \<and> contents q' = cs"
    and pop_none: "inv q \<Longrightarrow> contents q = [] \<Longrightarrow> pop q = (0, q)"
    and bound: "inv q \<Longrightarrow> length (contents q) \<le> capacity"
begin

text \<open>Running a history returns the bytes accepted, the bytes read and the final queue.\<close>

fun run :: "queue_op list \<Rightarrow> 'q \<Rightarrow> u8 list \<times> u8 list \<times> 'q" where
  "run [] q = ([], [], q)"
| "run (Push c # ops) q =
     (case run ops (push c q) of (acc, rd, q') \<Rightarrow>
        (if length (contents q) < capacity then (c # acc, rd, q') else (acc, rd, q')))"
| "run (Pop # ops) q =
     (case pop q of (c, q1) \<Rightarrow> case run ops q1 of (acc, rd, q') \<Rightarrow>
        (if contents q = [] then (acc, rd, q') else (acc, c # rd, q')))"

lemma run_fifo:
  "inv q \<Longrightarrow> run ops q = (acc, rd, q') \<Longrightarrow>
     inv q' \<and> contents q @ acc = rd @ contents q' \<and> length (contents q') \<le> capacity"
proof (induction ops q arbitrary: acc rd rule: run.induct)
  case (1 q)
  then show ?case by (simp add: bound)
next
  case (2 c ops q)
  obtain a r where r: "run ops (push c q) = (a, r, q')" using 2(3) by (auto split: prod.splits if_splits)
  note IH = 2(1) [OF push_inv [OF 2(2)] r]
  consider "length (contents q) < capacity" | "length (contents q) = capacity"
    using bound [OF 2(2)] by linarith
  then show ?case
  proof cases
    case 1
    then have "acc = c # a" "rd = r" using 2(3) r by auto
    then show ?thesis using IH push_room [OF 2(2) 1] by simp
  next
    case full: 2
    then have "acc = a" "rd = r" using 2(3) r by auto
    then show ?thesis using IH push_full [OF 2(2) full] by simp
  qed
next
  case (3 ops q)
  obtain c q1 where p: "pop q = (c, q1)" by fastforce
  obtain a r where r: "run ops q1 = (a, r, q')" using 3(3) p by (auto split: prod.splits if_splits)
  note IH = 3(1) [OF p [symmetric] pop_inv [OF 3(2) p] r]
  show ?case
  proof (cases "contents q")
    case Nil
    then have "q1 = q" "acc = a" "rd = r" using pop_none [OF 3(2) Nil] p r 3(3) by auto
    with IH Nil show ?thesis by simp
  next
    case (Cons b bs)
    then have "c = b" "contents q1 = bs" "acc = a" "rd = c # r" using pop_some [OF 3(2) Cons] p r 3(3) by auto
    with IH Cons show ?thesis by simp
  qed
qed

end

end
