(* ===== verification/Keyboard.thy ===== *)
theory Keyboard
  imports Bounded_Queue
begin

text \<open>
  The keyboard driver of \<^verbatim>\<open>arch/keyboard.c\<close>: the scan-code tables, the modifier and key
  state, the ring buffer and the interrupt handler.

  \<open>head\<close> and \<open>tail\<close> are \<open>int\<close>s that never leave \<open>0..127\<close>, here natural numbers. The two
  bytes that the handler reads from the controller are its arguments. The last section
  takes the buffer at the granularity of statements: the handler may interrupt
  \<open>keyboard_buffer_pop\<close> between any two of its steps.
\<close>

section \<open>Model\<close>

text \<open>The initialisers leave the rest of the 128 entries zero.\<close>

definition pad128 :: "u8 list \<Rightarrow> u8 list" where
  "pad128 xs = xs @ replicate (128 - length xs) 0"

definition scan_code_map_normal :: "u8 list" where
  "scan_code_map_normal = pad128
    ([0, 0] @ map of_char ''1234567890-='' @ [8] @
     [9] @ map of_char ''qwertyuiop[]'' @ [10] @
     [0] @ map of_char ''asdfghjkl;'' @ [0x27, 0x60, 0, 0x5C] @
     map of_char ''zxcvbnm,./'' @ [0, 0x2A, 0, 0x20] @
     replicate 13 0 @ map of_char ''789-456+1230.'')"

definition scan_code_map_shift :: "u8 list" where
  "scan_code_map_shift = pad128
    ([0, 0] @ map of_char ''!@#$%^&*()_+'' @ [8] @
     [9] @ map of_char ''QWERTYUIOP{}'' @ [10] @
     [0] @ map of_char ''ASDFGHJKL:'' @ [0x22, 0x7E, 0, 0x7C] @
     map of_char ''ZXCVBNM<>?'' @ [0, 0x2A, 0, 0x20] @
     replicate 13 0 @ map of_char ''789-456+1230.'')"

definition KBD_BUF_SIZE :: nat where [simp]: "KBD_BUF_SIZE = 128"

record kbd =
  g_lshift_down :: bool
  g_rshift_down :: bool
  g_lctrl_down :: bool
  g_rctrl_down :: bool
  g_lalt_down :: bool
  g_ralt_down :: bool
  g_is_e0 :: bool
  g_key_down :: "nat \<Rightarrow> bool"
  head :: nat
  tail :: nat
  kbd_buffer :: "u8 list"
  eoi :: nat

definition kbd_boot :: kbd where
  "kbd_boot = \<lparr>g_lshift_down = False, g_rshift_down = False, g_lctrl_down = False, g_rctrl_down = False,
     g_lalt_down = False, g_ralt_down = False, g_is_e0 = False, g_key_down = (\<lambda>_. False),
     head = 0, tail = 0, kbd_buffer = replicate 128 0, eoi = 0\<rparr>"

definition keyboard_buffer_push :: "u8 \<Rightarrow> kbd \<Rightarrow> kbd" where
  "keyboard_buffer_push c k =
     (let next = (head k + 1) mod KBD_BUF_SIZE
      in if next \<noteq> tail k then k\<lparr>kbd_buffer := (kbd_buffer k)[head k := c], head := next\<rparr> else k)"

definition keyboard_buffer_pop :: "kbd \<Rightarrow> u8 \<times> kbd" where
  "keyboard_buffer_pop k =
     (if head k = tail k then (0, k)
      else let c = kbd_buffer k ! tail k in (c, k\<lparr>tail := (tail k + 1) mod KBD_BUF_SIZE\<rparr>))"

text \<open>A key pressed: the byte that the handler derives from it (0 for none).\<close>

definition key_char :: "u8 \<Rightarrow> kbd \<Rightarrow> u8" where
  "key_char scancode k =
     (let shift = g_lshift_down k \<or> g_rshift_down k; ctrl = g_lctrl_down k \<or> g_rctrl_down k;
          c = (if shift then scan_code_map_shift ! unat scancode else scan_code_map_normal ! unat scancode)
      in if ctrl \<and> 0x61 \<le> c \<and> c \<le> 0x7A then c - 0x61 + 1
         else if ctrl \<and> 0x41 \<le> c \<and> c \<le> 0x5A then c - 0x41 + 1
         else c)"

definition keyboard_handler :: "u8 \<Rightarrow> u8 \<Rightarrow> kbd \<Rightarrow> kbd" where
  "keyboard_handler status scancode k =
     (let k =
       (if status AND 1 \<noteq> 0 then
          if scancode = 0xE0 then k\<lparr>g_is_e0 := True\<rparr>
          else if g_is_e0 k then
            let k = k\<lparr>g_is_e0 := False\<rparr> in
            if scancode = 0x48 then keyboard_buffer_push 0x11 k
            else if scancode = 0x50 then keyboard_buffer_push 0x12 k
            else if scancode = 0x4B then keyboard_buffer_push 0x13 k
            else if scancode = 0x4D then keyboard_buffer_push 0x14 k
            else if scancode = 0x1D then k\<lparr>g_rctrl_down := True\<rparr>
            else if scancode = 0x9D then k\<lparr>g_rctrl_down := False\<rparr>
            else if scancode = 0x38 then k\<lparr>g_ralt_down := True\<rparr>
            else if scancode = 0xB8 then k\<lparr>g_ralt_down := False\<rparr>
            else k
          else
            if scancode = 0x2A then k\<lparr>g_lshift_down := True\<rparr>
            else if scancode = 0x36 then k\<lparr>g_rshift_down := True\<rparr>
            else if scancode = 0xAA then k\<lparr>g_lshift_down := False\<rparr>
            else if scancode = 0xB6 then k\<lparr>g_rshift_down := False\<rparr>
            else if scancode = 0x1D then k\<lparr>g_lctrl_down := True\<rparr>
            else if scancode = 0x9D then k\<lparr>g_lctrl_down := False\<rparr>
            else if scancode = 0x38 then k\<lparr>g_lalt_down := True\<rparr>
            else if scancode = 0xB8 then k\<lparr>g_lalt_down := False\<rparr>
            else if scancode < 0x80 then
              if \<not> g_key_down k (unat scancode) then
                let k = k\<lparr>g_key_down := (g_key_down k)(unat scancode := True)\<rparr>;
                    c = key_char scancode k
                in if c \<noteq> 0 then keyboard_buffer_push c k else k
              else k
            else k\<lparr>g_key_down := (g_key_down k)(unat (scancode - 0x80) := False)\<rparr>
        else k)
      in k\<lparr>eoi := eoi k + 1\<rparr>)"

section \<open>The ring buffer\<close>

definition ring_wf :: "kbd \<Rightarrow> bool" where
  "ring_wf k \<longleftrightarrow> length (kbd_buffer k) = 128 \<and> head k < 128 \<and> tail k < 128"

definition ring_count :: "kbd \<Rightarrow> nat" where
  "ring_count k = (head k + 128 - tail k) mod 128"

definition ring_contents :: "kbd \<Rightarrow> u8 list" where
  "ring_contents k = map (\<lambda>i. kbd_buffer k ! ((tail k + i) mod 128)) [0..<ring_count k]"

lemma ring_count_less: "ring_count k < 128"
  by (simp add: ring_count_def)

lemma mod128:
  "a < 128 \<Longrightarrow> i < 128 \<Longrightarrow> (a + i) mod 128 = (if a + i < 128 then a + i else a + i - 128 :: nat)"
  by (simp add: mod_if)

lemma Suc_mod128: "a < 128 \<Longrightarrow> Suc a mod 128 = (if a = 127 then 0 else Suc a)"
  by (simp add: mod_if)

lemma ring_count_cases:
  "ring_wf k \<Longrightarrow> ring_count k = (if tail k \<le> head k then head k - tail k else head k + 128 - tail k)"
  by (auto simp: ring_wf_def ring_count_def mod_if)

lemma ring_head: "ring_wf k \<Longrightarrow> (tail k + ring_count k) mod 128 = head k"
  by (simp add: ring_wf_def ring_count_def mod_simps)

lemma ring_full: "ring_wf k \<Longrightarrow> (head k + 1) mod 128 = tail k \<longleftrightarrow> ring_count k = 127"
  by (auto simp: ring_count_cases Suc_mod128 ring_wf_def)

lemma ring_empty: "ring_wf k \<Longrightarrow> head k = tail k \<longleftrightarrow> ring_count k = 0"
  by (auto simp: ring_count_cases ring_wf_def)

lemma ring_push:
  assumes wf: "ring_wf k" and room: "ring_count k < 127"
  shows "ring_contents (keyboard_buffer_push c k) = ring_contents k @ [c]" "ring_wf (keyboard_buffer_push c k)"
proof -
  let ?k = "keyboard_buffer_push c k"
  have k: "?k = k\<lparr>kbd_buffer := (kbd_buffer k)[head k := c], head := (head k + 1) mod 128\<rparr>"
    using room ring_full [OF wf] by (simp add: keyboard_buffer_push_def Let_def)
  show wf': "ring_wf ?k" using wf by (simp add: k ring_wf_def)
  have cnt: "ring_count ?k = ring_count k + 1"
    using wf room unfolding ring_count_cases [OF wf] ring_count_cases [OF wf']
    by (auto simp: k ring_wf_def Suc_mod128 split: if_splits)
  have "(kbd_buffer k)[head k := c] ! ((tail k + i) mod 128) = kbd_buffer k ! ((tail k + i) mod 128)"
    if "i < ring_count k" for i
  proof -
    have "(tail k + i) mod 128 \<noteq> head k"
      using wf that ring_count_less [of k] unfolding ring_count_cases [OF wf]
      by (auto simp: ring_wf_def mod128 split: if_splits)
    then show ?thesis by simp
  qed
  moreover have "(kbd_buffer k)[head k := c] ! ((tail k + ring_count k) mod 128) = c"
    using wf ring_head [OF wf] by (simp add: ring_wf_def)
  ultimately show "ring_contents ?k = ring_contents k @ [c]"
    unfolding ring_contents_def cnt by (simp add: k)
qed

lemma ring_pop:
  assumes wf: "ring_wf k" and ne: "0 < ring_count k"
  shows "keyboard_buffer_pop k = (kbd_buffer k ! tail k, k\<lparr>tail := (tail k + 1) mod 128\<rparr>)"
    and "ring_contents k = kbd_buffer k ! tail k # ring_contents (k\<lparr>tail := (tail k + 1) mod 128\<rparr>)"
    and "ring_wf (k\<lparr>tail := (tail k + 1) mod 128\<rparr>)"
proof -
  let ?k = "k\<lparr>tail := (tail k + 1) mod 128\<rparr>"
  show "keyboard_buffer_pop k = (kbd_buffer k ! tail k, ?k)"
    using ne ring_empty [OF wf] by (simp add: keyboard_buffer_pop_def)
  show wf': "ring_wf ?k" using wf by (simp add: ring_wf_def)
  have cnt: "ring_count k = Suc (ring_count ?k)"
    using wf ne unfolding ring_count_cases [OF wf] ring_count_cases [OF wf']
    by (auto simp: ring_wf_def Suc_mod128 split: if_splits)
  have "(tail k + Suc i) mod 128 = ((tail k + 1) mod 128 + i) mod 128" for i by (simp add: mod_simps)
  then show "ring_contents k = kbd_buffer k ! tail k # ring_contents ?k"
    using wf unfolding ring_contents_def cnt
    by (simp add: ring_wf_def upt_conv_Cons map_Suc_upt [symmetric] del: upt_Suc)
qed

interpretation kq: bounded_queue ring_wf keyboard_buffer_push keyboard_buffer_pop ring_contents 127
proof (unfold_locales, goal_cases)
  case (1 q c)
  then show ?case
    using ring_push(2) [of q c] ring_full [of q] by (cases "ring_count q = 127")
      (auto simp: keyboard_buffer_push_def Let_def ring_wf_def)
next
  case (2 q c) then show ?case using ring_push(1) [of q c] by (simp add: ring_contents_def)
next
  case (3 q c)
  then show ?case using ring_full [of q] by (simp add: ring_contents_def keyboard_buffer_push_def Let_def)
next
  case (4 q c q') then show ?case by (auto simp: keyboard_buffer_pop_def ring_wf_def Let_def split: if_splits)
next
  case (5 q c cs)
  then have "0 < ring_count q" by (auto simp: ring_contents_def intro: gr0I)
  with ring_pop [OF 5(1)] 5(2) show ?case by simp
next
  case (6 q) then show ?case using ring_empty [of q] by (simp add: ring_contents_def keyboard_buffer_pop_def)
next
  case (7 q) then show ?case using ring_count_less [of q] by (simp add: ring_contents_def)
qed

section \<open>The interrupt handler and the buffer\<close>

lemma kbd_tables: "length scan_code_map_normal = 128" "length scan_code_map_shift = 128"
  by (simp_all add: scan_code_map_normal_def scan_code_map_shift_def pad128_def)

text \<open>Only \<open>head\<close>, \<open>tail\<close> and \<open>kbd_buffer\<close> matter to the ring.\<close>

definition ring_of :: "kbd \<Rightarrow> nat \<times> nat \<times> u8 list" where
  "ring_of k = (head k, tail k, kbd_buffer k)"

lemma ring_of_cong:
  assumes "ring_of k' = ring_of k"
  shows "ring_contents k' = ring_contents k" "ring_wf k' = ring_wf k"
    "ring_of (keyboard_buffer_push c k') = ring_of (keyboard_buffer_push c k)"
  using assms by (simp_all add: ring_of_def ring_contents_def ring_count_def ring_wf_def keyboard_buffer_push_def Let_def)

text \<open>Each interrupt leaves the ring alone or pushes one byte that is not zero.\<close>

inductive_set ring_after :: "kbd \<Rightarrow> (nat \<times> nat \<times> u8 list) set" for k where
  keep: "ring_of k' = ring_of k \<Longrightarrow> ring_of k' \<in> ring_after k"
| push: "ring_of k' = ring_of k \<Longrightarrow> c \<noteq> 0 \<Longrightarrow> ring_of (keyboard_buffer_push c k') \<in> ring_after k"

lemma ring_after_if:
  "(P \<Longrightarrow> ring_of a \<in> ring_after k) \<Longrightarrow> (\<not> P \<Longrightarrow> ring_of b \<in> ring_after k) \<Longrightarrow> ring_of (if P then a else b) \<in> ring_after k"
  by simp

lemma handler_ring_after: "ring_of (keyboard_handler st sc k) \<in> ring_after k"
proof -
  have "ring_of (k'\<lparr>eoi := n\<rparr>) = ring_of k'" for k' n by (simp add: ring_of_def)
  then show ?thesis
    unfolding keyboard_handler_def Let_def
    by (simp only:) (intro ring_after_if; (rule ring_after.push | rule ring_after.keep); simp add: ring_of_def)
qed

lemma handler_ring:
  obtains (keep) "ring_contents (keyboard_handler st sc k) = ring_contents k"
      "ring_wf (keyboard_handler st sc k) = ring_wf k"
  | (push) c where "c \<noteq> 0" "ring_contents (keyboard_handler st sc k) = ring_contents (keyboard_buffer_push c k)"
      "ring_wf (keyboard_handler st sc k) = ring_wf (keyboard_buffer_push c k)"
  using handler_ring_after [of st sc k]
proof (cases rule: ring_after.cases)
  case (keep k')
  then show thesis using that(1) ring_of_cong [of "keyboard_handler st sc k" k] by simp
next
  case (push k' c)
  then show thesis
    using that(2) [of c] ring_of_cong(1,2) [of "keyboard_handler st sc k" "keyboard_buffer_push c k"]
      ring_of_cong(3) [of k' k c] by simp
qed

lemma handler_ring_wf: "ring_wf k \<Longrightarrow> ring_wf (keyboard_handler st sc k)"
  by (cases rule: handler_ring [of st sc k]) (simp_all add: kq.push_inv)

section \<open>Interrupting the reader\<close>

text \<open>
  Where \<open>keyboard_buffer_pop\<close> stands: not called, past the test that the buffer is not
  empty, or with the byte read and \<open>tail\<close> not yet advanced.
\<close>

datatype reader = Idle | Tested | Fetched u8

type_synonym kconf = "kbd \<times> reader \<times> u8 list \<times> u8 list"

text \<open>
  The last two components record the bytes accepted into the buffer and the bytes
  returned to callers. \<open>irq_accept\<close> and \<open>irq_drop\<close> are the handler's push and \<open>irq_keys\<close> its
  other updates, at any moment; the other rules are the statements of \<open>keyboard_buffer_pop\<close>,
  one by one. The steps compose to the two functions: \<open>pop_steps\<close> and \<open>handler_steps\<close> below.
\<close>

inductive kstep :: "kconf \<Rightarrow> kconf \<Rightarrow> bool" where
  irq_accept: "(head k + 1) mod KBD_BUF_SIZE \<noteq> tail k \<Longrightarrow>
    kstep (k, r, acc, ret) (keyboard_buffer_push c k, r, acc @ [c], ret)"
| irq_drop: "(head k + 1) mod KBD_BUF_SIZE = tail k \<Longrightarrow>
    kstep (k, r, acc, ret) (keyboard_buffer_push c k, r, acc, ret)"
| irq_keys: "ring_of k' = ring_of k \<Longrightarrow> kstep (k, r, acc, ret) (k', r, acc, ret)"
| test_empty: "head k = tail k \<Longrightarrow> kstep (k, Idle, acc, ret) (k, Idle, acc, ret)"
| test: "head k \<noteq> tail k \<Longrightarrow> kstep (k, Idle, acc, ret) (k, Tested, acc, ret)"
| fetch: "kstep (k, Tested, acc, ret) (k, Fetched (kbd_buffer k ! tail k), acc, ret)"
| advance: "kstep (k, Fetched c, acc, ret) (k\<lparr>tail := (tail k + 1) mod KBD_BUF_SIZE\<rparr>, Idle, acc, ret @ [c])"

inductive_cases kstepE: "kstep (k, r, acc, ret) (k', r', acc', ret')"

definition kconf_ok :: "kconf \<Rightarrow> bool" where
  "kconf_ok = (\<lambda>(k, r, acc, ret). ring_wf k \<and> acc = ret @ ring_contents k \<and>
     (r = Idle \<or> ring_contents k \<noteq> []) \<and> (\<forall>c. r = Fetched c \<longrightarrow> c = hd (ring_contents k)))"

lemma ring_contents_Nil: "ring_contents k = [] \<longleftrightarrow> ring_count k = 0"
  by (simp add: ring_contents_def)

lemma kstep_ok:
  assumes "kstep cf cf'" and "kconf_ok cf"
  shows "kconf_ok cf'"
  using assms
proof (induction rule: kstep.induct)
  case (irq_accept k r acc ret c)
  then have wf: "ring_wf k" by (simp add: kconf_ok_def)
  moreover from this irq_accept(1) have "ring_count k < 127"
    using ring_full [OF wf] ring_count_less [of k] by fastforce
  ultimately show ?case using ring_push [of k c] irq_accept(2) by (auto simp: kconf_ok_def hd_append)
next
  case (irq_drop k r acc ret c)
  then show ?case by (simp add: keyboard_buffer_push_def Let_def)
next
  case (irq_keys k' k r acc ret)
  then show ?case using ring_of_cong(1,2) [of k' k] by (simp add: kconf_ok_def)
next
  case (test k acc ret)
  then show ?case using ring_empty [of k] by (auto simp: kconf_ok_def ring_contents_Nil)
next
  case (fetch k acc ret)
  then have "ring_wf k" "0 < ring_count k" by (auto simp: kconf_ok_def ring_contents_Nil)
  with fetch show ?case using ring_pop(2) [of k] by (auto simp: kconf_ok_def)
next
  case (advance k c acc ret)
  then have "ring_wf k" "0 < ring_count k" by (auto simp: kconf_ok_def ring_contents_Nil)
  with advance show ?case using ring_pop(2,3) [of k] by (auto simp: kconf_ok_def)
qed

text \<open>Without an interrupt in between, the reader's steps are \<open>keyboard_buffer_pop\<close>.\<close>

lemma pop_steps:
  assumes "keyboard_buffer_pop k = (c, k')"
  shows "kstep\<^sup>*\<^sup>* (k, Idle, acc, ret) (k', Idle, acc, if head k = tail k then ret else ret @ [c])"
proof (cases "head k = tail k")
  case True
  then show ?thesis using assms kstep.test_empty [OF True] by (simp add: keyboard_buffer_pop_def)
next
  case False
  have "kstep\<^sup>*\<^sup>* (k, Idle, acc, ret) (k\<lparr>tail := (tail k + 1) mod KBD_BUF_SIZE\<rparr>, Idle, acc, ret @ [kbd_buffer k ! tail k])"
    by (rule converse_rtranclp_into_rtranclp [OF kstep.test [OF False] converse_rtranclp_into_rtranclp
          [OF kstep.fetch r_into_rtranclp [of kstep, OF kstep.advance]]])
  then show ?thesis using assms False by (auto simp: keyboard_buffer_pop_def Let_def)
qed

text \<open>Every run of the interrupt handler is such steps, which accept at most one byte.\<close>

lemma push_step:
  "kstep (k, r, acc, ret) (keyboard_buffer_push c k, r, if (head k + 1) mod KBD_BUF_SIZE = tail k then acc else acc @ [c], ret)"
  using kstep.irq_accept [of k r acc ret c] kstep.irq_drop [of k r acc ret c] by auto

lemma handler_steps:
  "\<exists>cs. length cs \<le> 1 \<and> kstep\<^sup>*\<^sup>* (k, r, acc, ret) (keyboard_handler st sc k, r, acc @ cs, ret)"
proof -
  let ?k = "keyboard_handler st sc k"
  from handler_ring_after [of st sc k] consider "ring_of ?k = ring_of k" | c where "ring_of ?k = ring_of (keyboard_buffer_push c k)"
    using ring_of_cong(3) by (cases rule: ring_after.cases) metis+
  then show ?thesis
  proof cases
    case 1
    then show ?thesis using kstep.irq_keys [OF 1] by (intro exI [of _ "[]"]) auto
  next
    case (2 c)
    let ?cs = "if (head k + 1) mod KBD_BUF_SIZE = tail k then [] else [c]"
    have "kstep (k, r, acc, ret) (keyboard_buffer_push c k, r, acc @ ?cs, ret)"
      using push_step [of k r acc ret c] by (simp split: if_splits)
    then have "kstep\<^sup>*\<^sup>* (k, r, acc, ret) (?k, r, acc @ ?cs, ret)"
      using kstep.irq_keys [OF 2] by (meson converse_rtranclp_into_rtranclp r_into_rtranclp)
    then show ?thesis by (intro exI [of _ ?cs]) simp
  qed
qed

section \<open>Properties\<close>

text \<open>
  C9: The keyboard buffer is a FIFO even though interrupts arrive between the statements
  of \<open>keyboard_buffer_pop\<close>. However the handler's pushes interleave with the reader's
  steps, starting from the empty buffer: the bytes returned so far, followed by the bytes
  in the buffer, are exactly the bytes accepted, in order; nothing is lost, duplicated or
  overwritten; a byte the reader has fetched is the oldest one; the indices stay in the
  array.
\<close>

theorem keyboard_buffer_interrupt_safe:
  assumes "kstep\<^sup>*\<^sup>* (kbd_boot, Idle, [], []) (k, r, acc, ret)"
  shows "ring_wf k \<and> acc = ret @ ring_contents k \<and> length (ring_contents k) \<le> 127 \<and>
    (\<forall>c. r = Fetched c \<longrightarrow> (\<exists>cs. ring_contents k = c # cs))"
proof -
  have "kconf_ok cf' " if "kstep\<^sup>*\<^sup>* cf cf'" "kconf_ok cf" for cf cf'
    using that by (induction rule: rtranclp_induct) (auto intro: kstep_ok)
  moreover have "kconf_ok (kbd_boot, Idle, [], [])"
    by (simp add: kconf_ok_def kbd_boot_def ring_wf_def ring_contents_def ring_count_def)
  ultimately have ok: "kconf_ok (k, r, acc, ret)" using assms by blast
  then have "ring_wf k" by (simp add: kconf_ok_def)
  with ok kq.bound [OF this] show ?thesis by (auto simp: kconf_ok_def intro: hd_Cons_tl [symmetric])
qed

theorem keyboard_buffer_interrupt_safe_witness:
  "\<exists>k ret. kstep\<^sup>*\<^sup>* (kbd_boot, Idle, [], []) (k, Idle, [0x61, 0x62], ret) \<and> ret = [0x61] \<and> ring_contents k = [0x62]"
proof -
  let ?k1 = "keyboard_buffer_push 0x61 kbd_boot"
  let ?k2 = "keyboard_buffer_push 0x62 ?k1"
  let ?k3 = "?k2\<lparr>tail := (tail ?k2 + 1) mod KBD_BUF_SIZE\<rparr>"
  have s1: "kstep (kbd_boot, Idle, [], []) (?k1, Idle, [] @ [0x61], [])"
    by (rule irq_accept) (simp add: kbd_boot_def)
  have s2: "kstep (?k1, Idle, [0x61], []) (?k1, Tested, [0x61], [])"
    by (rule test) (simp add: keyboard_buffer_push_def kbd_boot_def)
  have s3: "kstep (?k1, Tested, [0x61], []) (?k1, Fetched (kbd_buffer ?k1 ! tail ?k1), [0x61], [])" by (rule fetch)
  have s4: "kstep (?k1, Fetched (kbd_buffer ?k1 ! tail ?k1), [0x61], [])
      (?k2, Fetched (kbd_buffer ?k1 ! tail ?k1), [0x61] @ [0x62], [])"
    by (rule irq_accept) (simp add: keyboard_buffer_push_def kbd_boot_def)
  have s5: "kstep (?k2, Fetched (kbd_buffer ?k1 ! tail ?k1), [0x61, 0x62], [])
      (?k3, Idle, [0x61, 0x62], [] @ [kbd_buffer ?k1 ! tail ?k1])" by (rule advance)
  have run: "kstep\<^sup>*\<^sup>* (kbd_boot, Idle, [], []) (?k3, Idle, [0x61, 0x62], [kbd_buffer ?k1 ! tail ?k1])"
    using s1 s2 s3 s4 s5 by (simp add: rtranclp.rtrancl_into_rtrancl)
  have "kbd_buffer ?k1 ! tail ?k1 = 0x61" by (simp add: keyboard_buffer_push_def kbd_boot_def)
  with keyboard_buffer_interrupt_safe [OF run] run show ?thesis by auto
qed

text \<open>
  Over any sequence of pushes and pops from the empty buffer, the bytes read and the
  bytes still buffered are together the bytes accepted, in order, and at most 127 bytes
  are buffered.
\<close>

theorem keyboard_buffer_fifo:
  assumes "kq.run ops kbd_boot = (acc, rd, k)"
  shows "acc = rd @ ring_contents k \<and> length (ring_contents k) \<le> 127"
proof -
  have "ring_wf kbd_boot" "ring_contents kbd_boot = []"
    by (simp_all add: kbd_boot_def ring_wf_def ring_contents_def ring_count_def)
  with kq.run_fifo [OF _ assms] show ?thesis by simp
qed

theorem keyboard_buffer_fifo_witness:
  "\<exists>acc k. kq.run [Push 1, Pop, Pop, Push 2] kbd_boot = (acc, [1], k) \<and> acc = [1] @ ring_contents k"
proof -
  obtain acc rd k where r: "kq.run [Push 1, Pop, Pop, Push 2] kbd_boot = (acc, rd, k)" by (rule prod_cases3)
  then have "rd = [1]"
    by (auto simp: kbd_boot_def keyboard_buffer_push_def keyboard_buffer_pop_def ring_contents_def ring_count_def
        split: if_splits)
  with keyboard_buffer_fifo [OF r] r show ?thesis by auto
qed

datatype kbd_event = Irq u8 u8 | Rd

fun kbd_step :: "kbd_event \<Rightarrow> kbd \<Rightarrow> kbd" where
  "kbd_step (Irq st sc) k = keyboard_handler st sc k"
| "kbd_step Rd k = snd (keyboard_buffer_pop k)"

lemma kbd_step_inv:
  assumes "ring_wf k" and "0 \<notin> set (ring_contents k)"
  shows "ring_wf (kbd_step e k)" and "0 \<notin> set (ring_contents (kbd_step e k))"
proof -
  have "ring_wf (kbd_step e k) \<and> 0 \<notin> set (ring_contents (kbd_step e k))"
  proof (cases e)
    case (Irq st sc)
    have push: "ring_wf (keyboard_buffer_push c k) \<and> 0 \<notin> set (ring_contents (keyboard_buffer_push c k))" if "c \<noteq> 0" for c
    proof (cases "length (ring_contents k) < 127")
      case True
      then show ?thesis using kq.push_room [OF assms(1) True, of c] kq.push_inv [OF assms(1), of c] that assms(2) by simp
    next
      case False
      then show ?thesis using kq.push_full [OF assms(1), of c] kq.bound [OF assms(1)] assms by simp
    qed
    show ?thesis using Irq assms push by (cases rule: handler_ring [of st sc k]) auto
  next
    case Rd
    obtain c k' where p: "keyboard_buffer_pop k = (c, k')" by fastforce
    have "set (ring_contents k') \<subseteq> set (ring_contents k)"
      using kq.pop_none [OF assms(1)] kq.pop_some [OF assms(1)] p by (cases "ring_contents k") auto
    then show ?thesis using Rd p kq.pop_inv [OF assms(1) p] assms(2) by auto
  qed
  then show "ring_wf (kbd_step e k)" "0 \<notin> set (ring_contents (kbd_step e k))" by auto
qed

text \<open>
  C32: Zero never enters the buffer: starting from the boot state, after any sequence of
  keyboard interrupts and reads, no buffered byte is zero, so \<open>keyboard_buffer_pop\<close>
  returns 0 exactly when the buffer is empty. Each interrupt adds at most one byte at the
  end, and acknowledges the interrupt controller once.
\<close>

theorem keyboard_no_zero_bytes:
  "let k = fold kbd_step es kbd_boot in
     ring_wf k \<and> (fst (keyboard_buffer_pop k) = 0 \<longleftrightarrow> ring_contents k = []) \<and>
     eoi (keyboard_handler st sc k) = eoi k + 1 \<and>
     (\<exists>cs. length cs \<le> 1 \<and> ring_contents (keyboard_handler st sc k) = ring_contents k @ cs)"
proof -
  define k where "k = fold kbd_step es kbd_boot"
  have "ring_wf (fold kbd_step es k) \<and> 0 \<notin> set (ring_contents (fold kbd_step es k))"
    if "ring_wf k" "0 \<notin> set (ring_contents k)" for es k
    using that by (induction es arbitrary: k) (simp_all add: kbd_step_inv)
  then have wf: "ring_wf k" and nz: "0 \<notin> set (ring_contents k)"
    by (simp_all add: k_def kbd_boot_def ring_wf_def ring_contents_def ring_count_def)
  have "fst (keyboard_buffer_pop k) = 0 \<longleftrightarrow> ring_contents k = []"
    using kq.pop_none [OF wf] kq.pop_some [OF wf] nz by (cases "ring_contents k") auto
  moreover have "\<exists>cs. length cs \<le> 1 \<and> ring_contents (keyboard_handler st sc k) = ring_contents k @ cs"
  proof (cases rule: handler_ring [of st sc k])
    case (push c)
    then show ?thesis
      using kq.push_room [OF wf, of c] kq.push_full [OF wf, of c] kq.bound [OF wf]
      by (cases "length (ring_contents k) < 127") auto
  qed auto
  moreover have "eoi (keyboard_handler st sc k) = eoi k + 1"
    by (simp add: keyboard_handler_def Let_def if_distrib [of eoi] keyboard_buffer_push_def
        split del: if_split cong del: if_weak_cong)
  ultimately show ?thesis using wf by (simp add: k_def Let_def)
qed

text \<open>
  Auto-repeat is filtered: while an ordinary key is held, the make codes that the
  controller repeats change nothing but the acknowledgement, so one press gives at most
  one byte, and the next byte for the same key needs its break code first.
\<close>

theorem keyboard_autorepeat_filtered:
  assumes "sc < 0x80" and "sc \<notin> {0x2A, 0x36, 0x1D, 0x38, 0x60}" and "\<not> g_is_e0 k" and "st AND 1 \<noteq> 0"
  shows "(keyboard_handler st sc ^^ Suc n) k = (keyboard_handler st sc k)\<lparr>eoi := eoi k + Suc n\<rparr> \<and>
    (\<not> g_key_down k (unat sc) \<longrightarrow>
      keyboard_handler st (sc + 0x80) (keyboard_handler st sc k) =
        (keyboard_handler st sc k)\<lparr>g_key_down := g_key_down k, eoi := eoi k + 2\<rparr>)"
proof -
  have ne: "sc \<noteq> 0xE0" "sc \<noteq> 0xAA" "sc \<noteq> 0xB6" "sc \<noteq> 0x9D" "sc \<noteq> 0xB8" using assms(1) by auto
  have held: "keyboard_handler st sc k' = k'\<lparr>eoi := eoi k' + 1\<rparr>" if "g_key_down k' (unat sc)" "\<not> g_is_e0 k'" for k'
    using assms ne that by (simp add: keyboard_handler_def Let_def)
  have first: "g_key_down (keyboard_handler st sc k) = (g_key_down k)(unat sc := True)"
    "\<not> g_is_e0 (keyboard_handler st sc k)" "eoi (keyboard_handler st sc k) = eoi k + 1"
    using assms ne by (auto simp: keyboard_handler_def Let_def keyboard_buffer_push_def fun_eq_iff)
  have rep: "(keyboard_handler st sc ^^ Suc n) k = (keyboard_handler st sc k)\<lparr>eoi := eoi k + Suc n\<rparr>" for n
  proof (induction n)
    case 0
    then show ?case using first(3) by simp
  next
    case (Suc n)
    have "(keyboard_handler st sc ^^ Suc (Suc n)) k = keyboard_handler st sc ((keyboard_handler st sc ^^ Suc n) k)" by simp
    also have "\<dots> = (keyboard_handler st sc k)\<lparr>eoi := eoi k + Suc (Suc n)\<rparr>"
      unfolding Suc.IH using first by (subst held) simp_all
    finally show ?case .
  qed
  have u: "unat (sc + 0x80) = unat sc + 128" using assms(1) by (simp add: word_less_nat_alt unat_word_ariths)
  then have ge: "\<not> sc + 0x80 < 0x80" by (simp add: word_less_nat_alt)
  have "sc + 0x80 \<noteq> x" if "x < 0x80" for x using ge that by auto
  then have low: "sc + 0x80 \<noteq> 0x2A" "sc + 0x80 \<noteq> 0x36" "sc + 0x80 \<noteq> 0x1D" "sc + 0x80 \<noteq> 0x38" by simp_all
  have "sc + 0x80 \<noteq> x" if "sc \<noteq> x - 0x80" for x using that by (auto simp: algebra_simps)
  then have high: "sc + 0x80 \<noteq> 0xE0" "sc + 0x80 \<noteq> 0xAA" "sc + 0x80 \<noteq> 0xB6" "sc + 0x80 \<noteq> 0x9D" "sc + 0x80 \<noteq> 0xB8"
    using assms(2) by simp_all
  have "keyboard_handler st (sc + 0x80) k' = k'\<lparr>g_key_down := (g_key_down k')(unat sc := False), eoi := eoi k' + 1\<rparr>"
    if "\<not> g_is_e0 k'" for k'
    using that assms(4) ge low high unfolding keyboard_handler_def Let_def by simp
  moreover have "(g_key_down k)(unat sc := True, unat sc := False) = g_key_down k" if "\<not> g_key_down k (unat sc)"
    using that by (simp add: fun_eq_iff)
  ultimately show ?thesis using rep first by simp
qed

theorem keyboard_autorepeat_filtered_witness:
  "(0x1E :: u8) < 0x80 \<and> ring_contents (keyboard_handler 1 0x1E (keyboard_handler 1 0x1E kbd_boot)) = [0x61]"
proof -
  have c: "key_char 0x1E (kbd_boot\<lparr>g_key_down := (g_key_down kbd_boot)(unat (0x1E :: u8) := True)\<rparr>) = 0x61"
    by (simp add: key_char_def kbd_boot_def scan_code_map_normal_def pad128_def of_char_def)
  have one: "ring_contents (keyboard_handler 1 0x1E kbd_boot) = [0x61]"
    using c by (simp add: keyboard_handler_def Let_def keyboard_buffer_push_def ring_contents_def ring_count_def)
      (simp add: kbd_boot_def)
  have "(keyboard_handler 1 0x1E ^^ Suc 1) kbd_boot = (keyboard_handler 1 0x1E kbd_boot)\<lparr>eoi := eoi kbd_boot + Suc 1\<rparr>"
    using keyboard_autorepeat_filtered [of "0x1E" kbd_boot 1 1] by (simp add: kbd_boot_def)
  then have "ring_contents (keyboard_handler 1 0x1E (keyboard_handler 1 0x1E kbd_boot)) =
      ring_contents (keyboard_handler 1 0x1E kbd_boot)"
    by (simp add: ring_contents_def ring_count_def)
  with one show ?thesis by simp
qed

end
