(* ===== verification/Elf.thy ===== *)
theory Elf
  imports Memory_Init
begin

text \<open>
  The program loader of \<^verbatim>\<open>arch/elf.c\<close>: \<open>validate_segment\<close> and \<open>load_elf_program_from_vfs\<close>,
  with the structures of \<^verbatim>\<open>include/elf.h\<close>.

  The virtual file system is not part of the repository: \<open>vfs_read\<close> and the constant
  \<open>VFS_TYPE_FILE\<close> are parameters. What the loader relies on is \<open>vfs_contract\<close>: a read
  writes nothing but the buffer, and fills it with the file when it reports success.

  The result is a value of \<open>elf_error + u32\<close>: the message of the failing check, or the
  entry point. \<open>None\<close> stands for a call that does not return.
\<close>

section \<open>Model\<close>

record elf32_ehdr =
  e_ident :: "u8 list"
  e_type :: u16
  e_machine :: u16
  e_version :: u32
  e_entry :: u32
  e_phoff :: u32
  e_shoff :: u32
  e_flags :: u32
  e_ehsize :: u16
  e_phentsize :: u16
  e_phnum :: u16
  e_shentsize :: u16
  e_shnum :: u16
  e_shstrndx :: u16

record elf32_phdr =
  p_type :: u32
  p_offset :: u32
  p_vaddr :: u32
  p_paddr :: u32
  p_filesz :: u32
  p_memsz :: u32
  p_flags :: u32
  p_align :: u32

definition read_ehdr :: "mem \<Rightarrow> u32 \<Rightarrow> elf32_ehdr" where
  "read_ehdr m a = \<lparr>e_ident = map (\<lambda>i. m (a + of_nat i)) [0..<16], e_type = load16 m (a + 16),
     e_machine = load16 m (a + 18), e_version = load32 m (a + 20), e_entry = load32 m (a + 24),
     e_phoff = load32 m (a + 28), e_shoff = load32 m (a + 32), e_flags = load32 m (a + 36),
     e_ehsize = load16 m (a + 40), e_phentsize = load16 m (a + 42), e_phnum = load16 m (a + 44),
     e_shentsize = load16 m (a + 46), e_shnum = load16 m (a + 48), e_shstrndx = load16 m (a + 50)\<rparr>"

definition read_phdr :: "mem \<Rightarrow> u32 \<Rightarrow> elf32_phdr" where
  "read_phdr m a = \<lparr>p_type = load32 m a, p_offset = load32 m (a + 4), p_vaddr = load32 m (a + 8),
     p_paddr = load32 m (a + 12), p_filesz = load32 m (a + 16), p_memsz = load32 m (a + 20),
     p_flags = load32 m (a + 24), p_align = load32 m (a + 28)\<rparr>"

definition ELF32_MAGIC :: u32 where [simp]: "ELF32_MAGIC = 0x464C457F"
definition ELF32_PT_LOAD :: u32 where [simp]: "ELF32_PT_LOAD = 1"

datatype elf_error =
  NullArgument | NotRegularFile | FileTooSmall | KmallocFailed | FileLoadFailed | BadMagic | BadIdent
  | UnsupportedTarget | UnexpectedEhdrSize | UnexpectedPhdrSize | InvalidPhdrTable
  | SegmentOverflow | SegmentOutsideFile | MemszLessThanFilesz | SegmentOutsideUserRange

definition validate_segment :: "u32 \<Rightarrow> u32 \<Rightarrow> bool" where
  "validate_segment vaddr memsz =
     (if memsz = 0 then True
      else let region_start = USER_PROGRAM_BASE; region_end = USER_PROGRAM_BASE + USER_PROGRAM_MAX_SIZE;
               seg_end = vaddr + memsz
           in \<not> vaddr < region_start \<and> \<not> seg_end < vaddr \<and> \<not> region_end < seg_end)"

record vfs_node =
  vn_internal_id :: u32
  vn_type :: u32
  vn_size :: u32

type_synonym vfs_reader = "vfs_node \<Rightarrow> u32 \<Rightarrow> u32 \<Rightarrow> u32 \<Rightarrow> mm \<Rightarrow> bool \<times> mm"

text \<open>The loop over the program headers; the header is read again in every round, as in C.\<close>

partial_function (option) load_segments :: "link_map \<Rightarrow> u32 \<Rightarrow> u32 \<Rightarrow> u32 \<Rightarrow> mm \<Rightarrow> (elf_error option \<times> mm) option" where
  "load_segments L img sz i s =
     (if i < ucast (e_phnum (read_ehdr (mm_mem s) img)) then
        let p = read_phdr (mm_mem s) (img + e_phoff (read_ehdr (mm_mem s) img) + i * 32) in
        if p_type p \<noteq> ELF32_PT_LOAD then load_segments L img sz (i + 1) s
        else if p_offset p + p_filesz p < p_offset p then Some (Some SegmentOverflow, kfree img s)
        else if sz < p_offset p + p_filesz p then Some (Some SegmentOutsideFile, kfree img s)
        else if p_memsz p < p_filesz p then Some (Some MemszLessThanFilesz, kfree img s)
        else if \<not> validate_segment (p_vaddr p) (p_memsz p) then Some (Some SegmentOutsideUserRange, kfree img s)
        else do {
          s \<leftarrow> (if p_memsz p \<noteq> 0
                then paging_mark_user_range L (p_vaddr p) ((p_memsz p + 0xFFF) AND NOT 0xFFF) s else Some s);
          let m = memcpy (p_vaddr p) (img + p_offset p) (p_filesz p) (mm_mem s);
          let m = (if p_filesz p < p_memsz p
                   then memset (p_vaddr p + p_filesz p) 0 (p_memsz p - p_filesz p) m else m);
          load_segments L img sz (i + 1) (s\<lparr>mm_mem := m\<rparr>)
        }
      else Some (None, s))"

definition load_elf_program_from_vfs ::
  "link_map \<Rightarrow> vfs_reader \<Rightarrow> u32 \<Rightarrow> vfs_node option \<Rightarrow> bool \<Rightarrow> mm \<Rightarrow> ((elf_error + u32) \<times> mm) option" where
  "load_elf_program_from_vfs L vfs_read VFS_TYPE_FILE node_ptr entry_point_out s =
     (case node_ptr of None \<Rightarrow> Some (Inl NullArgument, s) | Some node \<Rightarrow>
      if \<not> entry_point_out then Some (Inl NullArgument, s)
      else if vn_type node \<noteq> VFS_TYPE_FILE then Some (Inl NotRegularFile, s)
      else if vn_size node < 52 then Some (Inl FileTooSmall, s)
      else do {
        (img, s) \<leftarrow> kmalloc L (vn_size node) s;
        if img = 0 then Some (Inl KmallocFailed, s)
        else case vfs_read node 0 (vn_size node) img s of (ok, s) \<Rightarrow>
          if \<not> ok then Some (Inl FileLoadFailed, kfree img s)
          else let ehdr = read_ehdr (mm_mem s) img in
          if load32 (mm_mem s) img \<noteq> ELF32_MAGIC then Some (Inl BadMagic, kfree img s)
          else if e_ident ehdr ! 4 \<noteq> 1 \<or> e_ident ehdr ! 5 \<noteq> 1 \<or> e_ident ehdr ! 6 \<noteq> 1
            then Some (Inl BadIdent, kfree img s)
          else if e_machine ehdr \<noteq> 3 \<or> e_version ehdr \<noteq> 1 then Some (Inl UnsupportedTarget, kfree img s)
          else if e_ehsize ehdr \<noteq> 52 then Some (Inl UnexpectedEhdrSize, kfree img s)
          else if e_phentsize ehdr \<noteq> 32 then Some (Inl UnexpectedPhdrSize, kfree img s)
          else let ph_end = e_phoff ehdr + ucast (e_phnum ehdr) * 32 in
          if ph_end < e_phoff ehdr \<or> vn_size node < ph_end then Some (Inl InvalidPhdrTable, kfree img s)
          else do {
            (err, s) \<leftarrow> load_segments L img (vn_size node) 0 s;
            case err of Some e \<Rightarrow> Some (Inl e, s)
            | None \<Rightarrow> let entry = e_entry (read_ehdr (mm_mem s) img) in Some (Inr entry, kfree img s)
          }
      })"

section \<open>What the loader should do to memory\<close>

text \<open>
  The file as bytes from address 0, its checks, and the placement of one segment: the
  file's bytes, then zeros up to the memory size.
\<close>

definition seg_error :: "u32 \<Rightarrow> elf32_phdr \<Rightarrow> elf_error option" where
  "seg_error sz p =
     (if p_type p \<noteq> 1 then None
      else if p_offset p + p_filesz p < p_offset p then Some SegmentOverflow
      else if sz < p_offset p + p_filesz p then Some SegmentOutsideFile
      else if p_memsz p < p_filesz p then Some MemszLessThanFilesz
      else if \<not> validate_segment (p_vaddr p) (p_memsz p) then Some SegmentOutsideUserRange else None)"

definition place :: "mem \<Rightarrow> elf32_phdr \<Rightarrow> mem \<Rightarrow> mem" where
  "place file p m = (if p_type p \<noteq> 1 then m else
     (\<lambda>x. if unat (x - p_vaddr p) < unat (p_filesz p) then file (p_offset p + (x - p_vaddr p))
          else if unat (x - p_vaddr p) < unat (p_memsz p) then 0 else m x))"

fun place_all :: "mem \<Rightarrow> u32 \<Rightarrow> elf32_phdr list \<Rightarrow> mem \<Rightarrow> elf_error option \<times> mem" where
  "place_all file sz [] m = (None, m)"
| "place_all file sz (p # ps) m =
     (case seg_error sz p of Some e \<Rightarrow> (Some e, m) | None \<Rightarrow> place_all file sz ps (place file p m))"

definition header_error :: "mem \<Rightarrow> u32 \<Rightarrow> elf_error option" where
  "header_error file sz =
     (let ehdr = read_ehdr file 0; ph_end = e_phoff ehdr + ucast (e_phnum ehdr) * 32 in
      if load32 file 0 \<noteq> 0x464C457F then Some BadMagic
      else if e_ident ehdr ! 4 \<noteq> 1 \<or> e_ident ehdr ! 5 \<noteq> 1 \<or> e_ident ehdr ! 6 \<noteq> 1 then Some BadIdent
      else if e_machine ehdr \<noteq> 3 \<or> e_version ehdr \<noteq> 1 then Some UnsupportedTarget
      else if e_ehsize ehdr \<noteq> 52 then Some UnexpectedEhdrSize
      else if e_phentsize ehdr \<noteq> 32 then Some UnexpectedPhdrSize
      else if ph_end < e_phoff ehdr \<or> sz < ph_end then Some InvalidPhdrTable
      else None)"

definition phdrs :: "mem \<Rightarrow> elf32_phdr list" where
  "phdrs file = map (\<lambda>i. read_phdr file (e_phoff (read_ehdr file 0) + of_nat i * 32))
     [0..<unat (e_phnum (read_ehdr file 0))]"

definition elf_spec :: "mem \<Rightarrow> u32 \<Rightarrow> mem \<Rightarrow> (elf_error + u32) \<times> mem" where
  "elf_spec file sz m =
     (case header_error file sz of Some e \<Rightarrow> (Inl e, m)
      | None \<Rightarrow> (case place_all file sz (phdrs file) m of
          (Some e, m') \<Rightarrow> (Inl e, m')
        | (None, m') \<Rightarrow> (Inr (e_entry (read_ehdr file 0)), m')))"

section \<open>Reading the image\<close>

definition image_of :: "mem \<Rightarrow> u32 \<Rightarrow> nat \<Rightarrow> mem \<Rightarrow> bool" where
  "image_of m img n file \<longleftrightarrow> (\<forall>j<n. m (img + of_nat j) = file (of_nat j))"

lemma image_byte: "image_of m img n file \<Longrightarrow> unat a < n \<Longrightarrow> m (img + a) = file a"
  by (auto simp: image_of_def dest: spec [of _ "unat a"])

lemma image_off:
  assumes "image_of m img n file" and "unat a + k < n"
  shows "m (img + a + of_nat k) = file (a + of_nat k)"
proof -
  have "of_nat (unat a + k) = a + of_nat k" by simp
  with assms show ?thesis unfolding image_of_def by (metis add.assoc)
qed

lemma image_load32:
  assumes "image_of m img n file" and "unat a + 4 \<le> n"
  shows "load32 m (img + a) = load32 file a"
  using image_off [OF assms(1), of a 0] image_off [OF assms(1), of a 1] image_off [OF assms(1), of a 2]
    image_off [OF assms(1), of a 3] assms(2)
  by (simp add: load32_def)

lemma image_load16:
  assumes "image_of m img n file" and "unat a + 2 \<le> n"
  shows "load16 m (img + a) = load16 file a"
  using image_off [OF assms(1), of a 0] image_off [OF assms(1), of a 1] assms(2)
  by (simp add: load16_def)

lemma image_ehdr:
  assumes "image_of m img n file" and "52 \<le> n"
  shows "read_ehdr m img = read_ehdr file 0"
proof -
  have "m (img + of_nat i) = file (of_nat i)" if "i < 16" for i
    using assms that by (simp add: image_of_def)
  then show ?thesis
    using assms(2) by (simp add: read_ehdr_def image_load32 [OF assms(1)] image_load16 [OF assms(1)])
qed

lemma image_phdr:
  assumes "image_of m img n file" and "unat a + 32 \<le> n" and "n \<le> 2 ^ 32"
  shows "read_phdr m (img + a) = read_phdr file a"
proof -
  have ld: "load32 m (img + a + of_nat k) = load32 file (a + of_nat k)" if "k \<le> 28" for k
  proof -
    have "unat (a + of_nat k) = unat a + k"
      using assms(2,3) that by (subst unat_add_u32) (auto simp: unat_of_nat_u32)
    then have "load32 m (img + (a + of_nat k)) = load32 file (a + of_nat k)"
      using assms(2) that by (intro image_load32 [OF assms(1)]) simp
    then show ?thesis by (simp add: add.assoc)
  qed
  from ld [of 0] ld [of 4] ld [of 8] ld [of 12] ld [of 16] ld [of 20] ld [of 24] ld [of 28]
  show ?thesis by (simp add: read_phdr_def)
qed

section \<open>Placing a segment\<close>

definition heap_bytes :: "link_map \<Rightarrow> nat set" where
  "heap_bytes L = {heap_base L..<heap_base L + 524288}"

definition user_region :: "nat set" where
  "user_region = {0x800000..<0x900000}"

lemma validate_segment_iff:
  "validate_segment v n \<longleftrightarrow> n = 0 \<or> 0x800000 \<le> unat v \<and> unat v + unat n \<le> 0x900000"
proof (cases "n = 0")
  case False
  then have n: "unat n \<noteq> 0" by (simp add: unat_eq_0)
  have "unat (v + n) = (if unat v + unat n < 2 ^ 32 then unat v + unat n else unat v + unat n - 2 ^ 32)"
    using unat_u32_less [of v] unat_u32_less [of n] by (simp add: unat_word_ariths mod_if)
  with n False unat_u32_less [of n] show ?thesis
    by (auto simp: validate_segment_def Let_def word_less_nat_alt)
qed (simp add: validate_segment_def)

lemma place_confined:
  assumes "seg_error sz p = None" and "x < 2 ^ 32" and "x \<notin> user_region"
  shows "place file p m (of_nat x) = m (of_nat x)"
proof (cases "p_type p = 1 \<and> p_memsz p \<noteq> 0")
  case True
  then have v: "0x800000 \<le> unat (p_vaddr p)" "unat (p_vaddr p) + unat (p_memsz p) \<le> 0x900000"
    and f: "unat (p_filesz p) \<le> unat (p_memsz p)"
    using assms(1) by (auto simp: seg_error_def validate_segment_iff word_less_nat_alt not_less split: if_splits)
  have "unat (p_memsz p) \<le> unat (of_nat x - of_nat (unat (p_vaddr p)) :: u32)"
    using v assms(2,3) True by (intro nat_dist_u32) (auto simp: user_region_def unat_gt_0)
  then show ?thesis using f by (simp add: place_def)
next
  case False
  then show ?thesis
    using assms(1) by (auto simp: place_def seg_error_def word_less_nat_alt split: if_splits)
qed

lemma place_cong: "m x = m' x \<Longrightarrow> place file p m x = place file p m' x"
  by (simp add: place_def)

lemma place_all_cong:
  assumes "\<forall>x\<in>X. m x = m' x"
  shows "fst (place_all file sz ps m) = fst (place_all file sz ps m') \<and>
    (\<forall>x\<in>X. snd (place_all file sz ps m) x = snd (place_all file sz ps m') x)"
  using assms
proof (induction ps arbitrary: m m')
  case (Cons p ps)
  have "\<forall>x\<in>X. place file p m x = place file p m' x" using Cons.prems by (auto intro: place_cong)
  from Cons.IH [OF this] Cons.prems show ?case by (cases "seg_error sz p") simp_all
qed simp

lemma place_all_confined:
  assumes "x < 2 ^ 32" and "x \<notin> user_region"
  shows "snd (place_all file sz ps m) (of_nat x) = m (of_nat x)"
  by (induction ps arbitrary: m) (auto simp: place_confined [OF _ assms] split: option.split)

text \<open>The copy and the clearing of the loader are the placement.\<close>

lemma copy_clear_place:
  assumes ok: "seg_error sz p = None" and t: "p_type p = 1"
    and im: "image_of m img (unat sz) file" and reg: "{unat img..<unat img + unat sz} \<inter> user_region = {}"
    and b: "unat img + unat sz \<le> 2 ^ 32"
  defines "m1 \<equiv> memcpy (p_vaddr p) (img + p_offset p) (p_filesz p) m"
  shows "(if p_filesz p < p_memsz p then memset (p_vaddr p + p_filesz p) 0 (p_memsz p - p_filesz p) m1 else m1) =
    place file p m"
proof (rule ext)
  fix x
  let ?v = "p_vaddr p" let ?o = "p_offset p" let ?f = "p_filesz p" let ?n = "p_memsz p"
  have f: "unat ?f \<le> unat ?n" and o: "unat ?o + unat ?f \<le> unat sz"
    and val: "?n = 0 \<or> 0x800000 \<le> unat ?v \<and> unat ?v + unat ?n \<le> 0x900000"
  proof -
    have no: "\<not> ?o + ?f < ?o" "\<not> sz < ?o + ?f"
      using ok t by (auto simp: seg_error_def split: if_splits)
    then have "unat (?o + ?f) = unat ?o + unat ?f"
      using unat_u32_less [of ?o] unat_u32_less [of ?f]
      by (auto simp: unat_word_ariths mod_if word_less_nat_alt split: if_splits)
    with no show "unat ?o + unat ?f \<le> unat sz" by (simp add: word_less_nat_alt)
    show "unat ?f \<le> unat ?n" "?n = 0 \<or> 0x800000 \<le> unat ?v \<and> unat ?v + unat ?n \<le> 0x900000"
      using ok t by (auto simp: seg_error_def validate_segment_iff word_less_nat_alt not_less split: if_splits)
  qed
  have "?v = img + ?o \<or> unat ?f \<le> unat (?v - (img + ?o))"
  proof (cases "?f = 0")
    case False
    then have nz: "0 < unat ?f" by (simp add: unat_gt_0)
    then have v: "0x800000 \<le> unat ?v" "unat ?v + unat ?f \<le> 0x900000" using val f by auto
    have s: "unat (img + ?o) = unat img + unat ?o" using b o nz by (subst unat_add_u32) auto
    have "\<not> (unat img < 0x900000 \<and> 0x800000 < unat img + unat sz)"
      using reg o nz by (auto simp: user_region_def disjoint_iff dest: spec [of _ "max (unat img) 0x800000"])
    then show ?thesis using v s o b by (auto simp: unat_diff_u32)
  qed simp
  from memcpy_apply [OF this]
  have "m1 x = (if unat (x - ?v) < unat ?f then m (img + (?o + (x - ?v))) else m x)"
    by (simp add: m1_def add.assoc)
  moreover have "m (img + (?o + (x - ?v))) = file (?o + (x - ?v))" if "unat (x - ?v) < unat ?f"
  proof (rule image_byte [OF im])
    have "unat (?o + (x - ?v)) = unat ?o + unat (x - ?v)"
      using that o unat_u32_less [of sz] by (intro unat_add_u32) linarith
    with that o show "unat (?o + (x - ?v)) < unat sz" by linarith
  qed
  ultimately have m1: "m1 x = (if unat (x - ?v) < unat ?f then file (?o + (x - ?v)) else m x)" by simp
  have set: "memset (?v + ?f) 0 (?n - ?f) m1 x =
      (if unat ?f \<le> unat (x - ?v) \<and> unat (x - ?v) < unat ?n then 0 else m1 x)" if "?f < ?n"
  proof -
    have "unat (?n - ?f) = unat ?n - unat ?f" using that by (intro unat_sub_u32) simp
    moreover have "unat (x - (?v + ?f)) =
        (if unat ?f \<le> unat (x - ?v) then unat (x - ?v) - unat ?f else unat (x - ?v) + 2 ^ 32 - unat ?f)"
      using unat_diff_u32 [of "x - ?v" ?f] by (simp add: diff_diff_eq)
    ultimately show ?thesis
      using f unat_u32_less [of ?n] by (auto simp: memset_apply)
  qed
  show "(if ?f < ?n then memset (?v + ?f) 0 (?n - ?f) m1 else m1) x = place file p m x"
    using t f m1 set by (auto simp: place_def word_less_nat_alt)
qed

section \<open>The loop over the segments\<close>

definition elf_link :: "link_map \<Rightarrow> bool" where
  "elf_link L \<longleftrightarrow> mm_link L \<and> user_region \<inter> (table_bytes L \<union> heap_bytes L) = {}"

lemma elf_link_sep:
  assumes "elf_link L"
  shows "x \<in> heap_bytes L \<Longrightarrow> x < 2 ^ 32 \<and> x \<notin> table_bytes L \<and> x \<notin> user_region"
    and "x \<in> table_bytes L \<Longrightarrow> x < 2 ^ 32 \<and> x \<notin> heap_bytes L \<and> x \<notin> user_region"
  using assms by (auto simp: elf_link_def mm_link_def heap_bytes_def heap_link_def page_link_def table_bytes_def)

text \<open>
  The pages a valid segment opens: those of the user region and, because the size is
  rounded up on its own, possibly the page just past it.
\<close>

lemma round_4095: "(n + 0xFFF) AND NOT 0xFFF = (align_up_u32 n PAGE_SIZE :: u32)"
  by (simp add: align_up_u32_def add.commute)

lemma segment_pages:
  assumes "0x800000 \<le> unat v" and "unat v + unat n \<le> 0x900000"
  defines "r \<equiv> (n + 0xFFF) AND NOT (0xFFF :: u32)"
  shows "unat v + unat r \<le> 0xFFFFF000" and "page_set (unat v) (unat r) \<subseteq> {0x800..0x900}"
proof -
  have "r = of_nat (round_up 4096 (unat n))"
    unfolding r_def round_4095 using align_up_of_nat [of "unat n" 12] assms(1,2) by simp
  moreover have "round_up 4096 (unat n) < unat n + 4096" by (rule round_up_less) simp
  ultimately have r: "unat r < unat n + 4096" using assms(1,2) by (simp add: unat_of_nat_u32)
  then show "unat v + unat r \<le> 0xFFFFF000" using assms(1,2) by linarith
  show "page_set (unat v) (unat r) \<subseteq> {0x800..0x900}"
    using r assms(1,2) by (auto simp: page_set_def in_pages_def)
qed

lemma segment_step:
  assumes L: "elf_link L" and P: "paged L s M U" and ok: "seg_error sz p = None" and t: "p_type p = 1"
  obtains s1 K where "(if p_memsz p \<noteq> 0
      then paging_mark_user_range L (p_vaddr p) ((p_memsz p + 0xFFF) AND NOT 0xFFF) s else Some s) = Some s1"
    "tables_only L s s1" "K \<subseteq> {0x800..0x900}" "paged L s1 (M \<union> K) (U \<union> K)"
proof (cases "p_memsz p = 0")
  case True
  then show thesis using P by (intro that [of s "{}"]) simp_all
next
  case False
  have PL: "page_link L" using L by (simp add: elf_link_def mm_link_def)
  have "0x800000 \<le> unat (p_vaddr p)" "unat (p_vaddr p) + unat (p_memsz p) \<le> 0x900000"
    using False ok t by (auto simp: seg_error_def validate_segment_iff split: if_splits)
  note r = segment_pages [OF this]
  from paging_mark_user_range_ok [OF PL P r(1)] obtain s1 where
    "paging_mark_user_range L (p_vaddr p) ((p_memsz p + 0xFFF) AND NOT 0xFFF) s = Some s1" "tables_only L s s1"
    "paged L s1 (M \<union> page_set (unat (p_vaddr p)) (unat ((p_memsz p + 0xFFF) AND NOT 0xFFF)))
      (U \<union> page_set (unat (p_vaddr p)) (unat ((p_memsz p + 0xFFF) AND NOT 0xFFF)))" by blast
  then show thesis using r(2) False by (intro that) simp_all
qed

text \<open>What the loop keeps: everything but the tables, the user region, and the mapped pages.\<close>

definition seg_frame :: "link_map \<Rightarrow> mm \<Rightarrow> mm \<Rightarrow> nat set \<Rightarrow> nat set \<Rightarrow> bool" where
  "seg_frame L s t M U \<longleftrightarrow> t = s\<lparr>mm_mem := mm_mem t\<rparr> \<and>
     (\<forall>x\<in>heap_bytes L. mm_mem t (of_nat x) = mm_mem s (of_nat x)) \<and>
     (\<exists>K\<subseteq>{0x800..0x900}. paged L t (M \<union> K) (U \<union> K))"

abbreviation free_bytes :: "link_map \<Rightarrow> u32 set" where
  "free_bytes L \<equiv> of_nat ` {x. x < 2 ^ 32 \<and> x \<notin> table_bytes L \<union> heap_bytes L}"

lemma seg_frame_step:
  assumes L: "elf_link L" and to: "tables_only L s s1" and K: "K \<subseteq> {0x800..0x900}" and P: "paged L s1 (M \<union> K) (U \<union> K)"
    and m: "\<And>x. x < 2 ^ 32 \<Longrightarrow> x \<notin> user_region \<Longrightarrow> m (of_nat x) = mm_mem s1 (of_nat x)"
    and fr: "seg_frame L (s1\<lparr>mm_mem := m\<rparr>) t (M \<union> K) (U \<union> K)"
  shows "seg_frame L s t M U"
proof -
  have "\<exists>K'\<subseteq>{0x800..0x900}. paged L t (M \<union> K') (U \<union> K')"
    using fr K unfolding seg_frame_def by (metis Un_assoc Un_least)
  moreover have "mm_mem t (of_nat x) = mm_mem s (of_nat x)" if "x \<in> heap_bytes L" for x
    using fr to m [of x] elf_link_sep(1) [OF L that] that by (simp add: seg_frame_def tables_only_def)
  moreover have "t = s\<lparr>mm_mem := mm_mem t\<rparr>"
    using fr to by (cases s; cases s1; cases t) (simp add: seg_frame_def tables_only_def)
  ultimately show ?thesis by (simp add: seg_frame_def)
qed

lemma seg_frame_refl: "paged L s M U \<Longrightarrow> seg_frame L s s M U"
  unfolding seg_frame_def by (intro conjI exI [of _ "{}"]) simp_all

lemma image_of_heap:
  assumes "image_of m img n file" and "{unat img..<unat img + n} \<subseteq> heap_bytes L"
    and "\<forall>x\<in>heap_bytes L. m' (of_nat x) = m (of_nat x)"
  shows "image_of m' img n file"
  unfolding image_of_def
proof (intro allI impI)
  fix j assume j: "j < n"
  then have "unat img + j \<in> heap_bytes L" using assms(2) by auto
  then have "m' (of_nat (unat img + j)) = m (of_nat (unat img + j))" using assms(3) by blast
  then show "m' (img + of_nat j) = file (of_nat j)" using assms(1) j by (simp add: image_of_def)
qed

lemma phdrs_drop:
  "i < unat (e_phnum (read_ehdr file 0)) \<Longrightarrow>
   drop i (phdrs file) = read_phdr file (e_phoff (read_ehdr file 0) + of_nat i * 32) # drop (Suc i) (phdrs file)"
  by (simp add: phdrs_def Cons_nth_drop_Suc [symmetric])

lemma phdr_offset:
  assumes "unat off + 32 * k \<le> n" and "n < 2 ^ 32" and "i < k"
  shows "unat (off + of_nat i * 32 :: u32) + 32 \<le> n"
proof -
  have "off + of_nat i * 32 = of_nat (unat off + 32 * i)" by simp
  moreover have "unat off + 32 * i + 32 \<le> n" using assms by linarith
  ultimately show ?thesis using assms(2) by (simp only: unat_of_nat_u32)
qed

lemma load_segments_ok:
  assumes L: "elf_link L" and sz: "52 \<le> unat sz"
    and tab: "unat (e_phoff (read_ehdr file 0)) + 32 * unat (e_phnum (read_ehdr file 0)) \<le> unat sz"
    and blk: "{unat img..<unat img + unat sz} \<subseteq> heap_bytes L"
    and "i \<le> unat (e_phnum (read_ehdr file 0))" and "image_of (mm_mem s) img (unat sz) file" and "paged L s M U"
  shows "\<exists>e t. load_segments L img sz (of_nat i) s = Some (e, case e of None \<Rightarrow> t | Some _ \<Rightarrow> kfree img t) \<and>
    seg_frame L s t M U \<and> fst (place_all file sz (drop i (phdrs file)) (mm_mem s)) = e \<and>
    (\<forall>x\<in>free_bytes L. mm_mem t x = snd (place_all file sz (drop i (phdrs file)) (mm_mem s)) x)"
  using assms(5-7)
proof (induction "unat (e_phnum (read_ehdr file 0)) - i" arbitrary: i s M U)
  let ?H = "read_ehdr file 0"
  have num: "unat (e_phnum ?H) < 65536" using unsigned_less [of "e_phnum ?H", where 'a = nat] by simp
  have lt: "(of_nat i :: u32) < ucast (e_phnum ?H) \<longleftrightarrow> i < unat (e_phnum ?H)" if "i \<le> unat (e_phnum ?H)" for i
    using that num by (simp add: word_less_nat_alt unat_of_nat_u32)
  {
    case 0
    then have i: "i = unat (e_phnum ?H)" by simp
    have eh: "read_ehdr (mm_mem s) img = ?H" using 0 sz by (intro image_ehdr)
    have "drop i (phdrs file) = []" using i by (simp add: phdrs_def)
    moreover have "load_segments L img sz (of_nat i) s = Some (None, s)"
      using lt [of i] i by (subst load_segments.simps) (simp add: eh)
    ultimately show ?case using seg_frame_refl [OF 0(4)] by auto
  next
    case (Suc d)
    then have i: "i < unat (e_phnum ?H)" by simp
    have eh: "read_ehdr (mm_mem s) img = ?H" using Suc sz by (intro image_ehdr)
    define q where "q = read_phdr file (e_phoff ?H + of_nat i * 32)"
    have ph: "read_phdr (mm_mem s) (img + e_phoff ?H + of_nat i * 32) = q"
      unfolding q_def add.assoc using Suc.prems(2) phdr_offset [OF tab unat_u32_less i] unat_u32_less [of sz]
      by (intro image_phdr) auto
    have dr: "drop i (phdrs file) = q # drop (Suc i) (phdrs file)" unfolding q_def using i by (rule phdrs_drop)
    have nxt: "(of_nat i + 1 :: u32) = of_nat (Suc i)" by simp
    note unf = load_segments.simps [of L img sz "of_nat i" s]
    have img: "unat img + unat sz \<le> 2 ^ 32" "{unat img..<unat img + unat sz} \<inter> user_region = {}"
    proof -
      have "unat img + unat sz - 1 \<in> {unat img..<unat img + unat sz}" using sz by auto
      then show "unat img + unat sz \<le> 2 ^ 32" using blk elf_link_sep(1) [OF L] by fastforce
      show "{unat img..<unat img + unat sz} \<inter> user_region = {}" using blk elf_link_sep(1) [OF L] by blast
    qed
    consider (skip) "p_type q \<noteq> 1" | (bad) e where "p_type q = 1" "seg_error sz q = Some e"
      | (load) "p_type q = 1" "seg_error sz q = None" by (cases "seg_error sz q") auto
    then show ?case
    proof cases
      case skip
      then have "load_segments L img sz (of_nat i) s = load_segments L img sz (of_nat (Suc i)) s"
        using lt [of i] i ph by (subst unf) (simp add: eh nxt del: of_nat_Suc)
      moreover have "seg_error sz q = None" "place file q (mm_mem s) = mm_mem s"
        using skip by (simp_all add: seg_error_def place_def)
      ultimately show ?thesis using Suc.hyps(1) [of "Suc i" s M U] Suc i dr by (simp del: of_nat_Suc)
    next
      case bad
      then have "load_segments L img sz (of_nat i) s = Some (Some e, kfree img s)"
        using lt [of i] i ph by (subst unf) (auto simp: eh seg_error_def split: if_splits)
      then show ?thesis using bad dr seg_frame_refl [OF Suc.prems(3)] by (intro exI [of _ "Some e"] exI [of _ s]) simp
    next
      case load
      obtain s1 K where mk: "(if p_memsz q \<noteq> 0
          then paging_mark_user_range L (p_vaddr q) ((p_memsz q + 0xFFF) AND NOT 0xFFF) s else Some s) = Some s1"
        and to: "tables_only L s s1" and K: "K \<subseteq> {0x800..0x900}" and P1: "paged L s1 (M \<union> K) (U \<union> K)"
        using segment_step [OF L Suc.prems(3) load(2,1)] by blast
      have im1: "image_of (mm_mem s1) img (unat sz) file"
      proof -
        have "\<forall>x\<in>heap_bytes L. mm_mem s1 (of_nat x) = mm_mem s (of_nat x)"
          using to elf_link_sep(1) [OF L] unfolding tables_only_def by blast
        then show ?thesis by (rule image_of_heap [OF Suc.prems(2) blk])
      qed
      define m where "m = place file q (mm_mem s1)"
      note cp = copy_clear_place [OF load(2,1) im1 img(2,1), folded m_def]
      have step: "load_segments L img sz (of_nat i) s = load_segments L img sz (of_nat (Suc i)) (s1\<lparr>mm_mem := m\<rparr>)"
        using load lt [of i] i ph mk cp
        by (subst unf) (simp add: eh nxt seg_error_def Let_def split: if_splits del: of_nat_Suc)
      have out: "m (of_nat x) = mm_mem s1 (of_nat x)" if "x < 2 ^ 32" "x \<notin> user_region" for x
        unfolding m_def using load(2) that by (rule place_confined)
      have im2: "image_of (mm_mem (s1\<lparr>mm_mem := m\<rparr>)) img (unat sz) file"
      proof -
        have "\<forall>x\<in>heap_bytes L. m (of_nat x) = mm_mem s1 (of_nat x)" using out elf_link_sep(1) [OF L] by blast
        from image_of_heap [OF im1 blk this] show ?thesis by simp
      qed
      have pg2: "paged L (s1\<lparr>mm_mem := m\<rparr>) (M \<union> K) (U \<union> K)"
      proof -
        have "\<forall>x\<in>table_bytes L. m (of_nat x) = mm_mem s1 (of_nat x)" using out elf_link_sep(2) [OF L] by blast
        then show ?thesis
          by (intro paged_agree [OF _ _ P1]) (use L in \<open>simp_all add: elf_link_def mm_link_def\<close>)
      qed
      have "d = unat (e_phnum ?H) - Suc i" "Suc i \<le> unat (e_phnum ?H)" and mm: "mm_mem (s1\<lparr>mm_mem := m\<rparr>) = m"
        using Suc(2) i by simp_all
      from Suc.hyps(1) [OF this(1,2) im2 pg2, unfolded mm] obtain e t where
        r: "load_segments L img sz (of_nat i) s = Some (e, case e of None \<Rightarrow> t | Some _ \<Rightarrow> kfree img t)"
        and fr: "seg_frame L (s1\<lparr>mm_mem := m\<rparr>) t (M \<union> K) (U \<union> K)"
        and pa: "fst (place_all file sz (drop (Suc i) (phdrs file)) m) = e"
          "\<forall>x\<in>free_bytes L. mm_mem t x = snd (place_all file sz (drop (Suc i) (phdrs file)) m) x"
        unfolding step by blast
      have "\<forall>x\<in>free_bytes L. m x = place file q (mm_mem s) x"
        unfolding m_def using to by (intro ballI place_cong) (auto simp: tables_only_def)
      note cg = place_all_cong [OF this, of "file" sz "drop (Suc i) (phdrs file)"]
      have "fst (place_all file sz (drop i (phdrs file)) (mm_mem s)) = e"
        "\<forall>x\<in>free_bytes L. mm_mem t x = snd (place_all file sz (drop i (phdrs file)) (mm_mem s)) x"
        using pa cg load(2) by (simp_all add: dr)
      with r seg_frame_step [OF L to K P1 out fr] show ?thesis by blast
    qed
  }
qed

section \<open>The loader\<close>

definition vfs_contract :: "vfs_reader \<Rightarrow> vfs_node \<Rightarrow> mem \<Rightarrow> bool" where
  "vfs_contract vfs_read node file \<longleftrightarrow> (\<forall>buf s. unat buf + unat (vn_size node) \<le> 2 ^ 32 \<longrightarrow> (\<exists>ok m. vfs_read node 0 (vn_size node) buf s = (ok, s\<lparr>mm_mem := m\<rparr>) \<and>
     changes_only (unat buf) (unat (vn_size node)) (mm_mem s) m \<and>
     (ok \<longrightarrow> image_of m buf (unat (vn_size node)) file)))"

lemma heap_inv_agree:
  assumes L: "heap_link L" and inv: "heap_inv L s" and t: "t = s\<lparr>mm_mem := mm_mem t\<rparr>"
    and m: "\<forall>x\<in>heap_bytes L. mm_mem t (of_nat x) = mm_mem s (of_nat x)"
  shows "heap_inv L t" and "heap_blocks L t = heap_blocks L s"
proof -
  have rdy: "g_heap_ready t" "g_heap_head t = g_heap_at L"
    using inv t by (cases s; cases t; simp add: heap_inv_def)+
  have wf: "heap_wf (heap_blocks L s)" and ch: "chain (mm_mem s) 0 (heap_base L) (heap_blocks L s) 0"
    using inv by (simp_all add: heap_inv_def)
  have "chain (mm_mem t) 0 (heap_base L) (heap_blocks L s) 0"
    using heap_wf_facts [OF wf] m by (intro chain_agree [OF ch]) (auto simp: agree_def heap_bytes_def)
  from heap_invI [OF L rdy wf this] show "heap_inv L t" "heap_blocks L t = heap_blocks L s" by auto
qed

text \<open>Releasing the image block of any state that the loop can reach from the filled block.\<close>

lemma elf_release:
  assumes L: "elf_link L" and inv: "heap_inv L s2" and fr: "seg_frame L s2 t M U"
    and lv: "heap_live L s2 = insert (unat img, len) S" "(unat img, len) \<notin> S"
  defines "s' \<equiv> kfree img t"
  shows "heap_inv L s' \<and> heap_live L s' = S \<and>
    (\<forall>(q, k)\<in>S. \<forall>x\<in>{q..<q + k}. mm_mem s' (of_nat x) = mm_mem s2 (of_nat x)) \<and>
    (\<exists>K\<subseteq>{0x800..0x900}. paged L s' (M \<union> K) (U \<union> K)) \<and> (\<forall>x\<in>free_bytes L. mm_mem s' x = mm_mem t x)"
proof -
  have HL: "heap_link L" and PL: "page_link L" using L by (simp_all add: elf_link_def mm_link_def)
  have hb: "\<forall>x\<in>heap_bytes L. mm_mem t (of_nat x) = mm_mem s2 (of_nat x)" and te: "t = s2\<lparr>mm_mem := mm_mem t\<rparr>"
    using fr by (simp_all add: seg_frame_def)
  note it = heap_inv_agree [OF HL inv te hb]
  have lt: "heap_live L t = insert (unat img, len) S" using it(2) lv(1) by (simp add: heap_live_def)
  then have "(unat img, len) \<in> heap_live L t" by simp
  note k = kfree_live [OF it(1) HL this, folded s'_def]
  have out: "mm_mem s' (of_nat x) = mm_mem t (of_nat x)" if "x < 2 ^ 32" "x \<notin> heap_bytes L" for x
    using k(3) that by (auto simp: keeps_def outside_heap_def heap_bytes_def)
  obtain K where K: "K \<subseteq> {0x800..0x900}" "paged L t (M \<union> K) (U \<union> K)" using fr by (auto simp: seg_frame_def)
  have "\<forall>x\<in>table_bytes L. mm_mem s' (of_nat x) = mm_mem t (of_nat x)"
    using out elf_link_sep(2) [OF L] by blast
  from paged_agree [OF PL this K(2)] K(1) have "\<exists>K\<subseteq>{0x800..0x900}. paged L s' (M \<union> K) (U \<union> K)" by blast
  moreover have "mm_mem s' (of_nat x) = mm_mem s2 (of_nat x)" if "(q, n) \<in> S" "x \<in> {q..<q + n}" for q n x
  proof -
    have q: "(q, n) \<in> heap_live L t - {(unat img, len)}" using lt lv(2) that(1) by auto
    have "x \<in> heap_bytes L"
      using heap_live_bounds [OF it(1), of q n] q that(2) by (auto simp: heap_bytes_def)
    with k(4) [OF q] hb that(2) show ?thesis by simp
  qed
  then have "\<forall>(q, k)\<in>S. \<forall>x\<in>{q..<q + k}. mm_mem s' (of_nat x) = mm_mem s2 (of_nat x)" by blast
  moreover have "\<forall>x\<in>free_bytes L. mm_mem s' x = mm_mem t x" using out by auto
  ultimately show ?thesis using k(1,2) lt lv(2) by simp
qed

text \<open>From the filled image block on: the checks, the loop, and the release.\<close>

lemma elf_image_ok:
  assumes L: "elf_link L" and inv: "heap_inv L s2" and P: "paged L s2 M U"
    and lv: "heap_live L s2 = insert (unat img, len) S" "(unat img, len) \<notin> S"
    and sz: "52 \<le> unat sz" "unat sz \<le> len" and im: "image_of (mm_mem s2) img (unat sz) file"
    and hdr: "header_error file sz = None"
  obtains r s' where "do {
      (err, s) \<leftarrow> load_segments L img sz 0 s2;
      case err of Some e \<Rightarrow> Some (Inl e, s)
      | None \<Rightarrow> let entry = e_entry (read_ehdr (mm_mem s) img) in Some (Inr entry, kfree img s) } = Some (r, s')"
    "heap_inv L s'" "heap_live L s' = S" "\<forall>(q, k)\<in>S. \<forall>x\<in>{q..<q + k}. mm_mem s' (of_nat x) = mm_mem s2 (of_nat x)"
    "\<exists>K\<subseteq>{0x800..0x900}. paged L s' (M \<union> K) (U \<union> K)"
    "r = fst (elf_spec file sz (mm_mem s2))" "\<forall>x\<in>free_bytes L. mm_mem s' x = snd (elf_spec file sz (mm_mem s2)) x"
proof -
  let ?H = "read_ehdr file 0"
  have blk: "{unat img..<unat img + unat sz} \<subseteq> heap_bytes L"
    using heap_live_bounds [OF inv, of "unat img" len] lv(1) sz(2) by (auto simp: heap_bytes_def)
  have tab: "unat (e_phoff ?H) + 32 * unat (e_phnum ?H) \<le> unat sz"
  proof -
    have ok: "\<not> e_phoff ?H + ucast (e_phnum ?H) * 32 < e_phoff ?H" "\<not> sz < e_phoff ?H + ucast (e_phnum ?H) * 32"
      using hdr by (auto simp: header_error_def Let_def split: if_splits)
    have "unat (e_phnum ?H) < 65536" using unsigned_less [of "e_phnum ?H", where 'a = nat] by simp
    then have n: "unat (ucast (e_phnum ?H) * 32 :: u32) = unat (e_phnum ?H) * 32" by (simp add: unat_word_ariths)
    with ok show ?thesis using unat_u32_less [of "e_phoff ?H"] \<open>unat (e_phnum ?H) < 65536\<close>
      by (auto simp: word_less_nat_alt unat_word_ariths mod_if split: if_splits)
  qed
  obtain e t where ls: "load_segments L img sz 0 s2 = Some (e, case e of None \<Rightarrow> t | Some _ \<Rightarrow> kfree img t)"
    and fr: "seg_frame L s2 t M U" and pe: "fst (place_all file sz (phdrs file) (mm_mem s2)) = e"
    and pm: "\<forall>x\<in>free_bytes L. mm_mem t x = snd (place_all file sz (phdrs file) (mm_mem s2)) x"
    using load_segments_ok [OF L sz(1) tab blk le0 im P] by auto
  have "image_of (mm_mem t) img (unat sz) file"
    using fr by (intro image_of_heap [OF im blk]) (simp add: seg_frame_def)
  then have eh: "read_ehdr (mm_mem t) img = ?H" using sz(1) by (rule image_ehdr)
  have spec: "elf_spec file sz (mm_mem s2) =
      (case e of Some err \<Rightarrow> Inl err | None \<Rightarrow> Inr (e_entry ?H), snd (place_all file sz (phdrs file) (mm_mem s2)))"
    using hdr pe by (auto simp: elf_spec_def split: prod.split option.split)
  note rel = elf_release [OF L inv fr lv]
  show thesis
    by (rule that [of "case e of Some err \<Rightarrow> Inl err | None \<Rightarrow> Inr (e_entry ?H)" "kfree img t"])
      (use rel pm in \<open>simp_all add: ls eh spec split: option.split\<close>)
qed

text \<open>Allocating the image block and reading the file into it.\<close>

lemma elf_fill:
  assumes L: "elf_link L" and inv: "heap_inv L s" and P: "paged L s M U"
    and vfs: "vfs_contract vfs_read node file" and n: "unat (vn_size node) \<le> 0xFFFFFFD0"
    and km: "kmalloc L (vn_size node) s = Some (img, s1)" and img: "img \<noteq> 0"
  obtains ok s2 len where "vfs_read node 0 (vn_size node) img s1 = (ok, s2)" "heap_inv L s2" "paged L s2 M U"
    "heap_live L s2 = insert (unat img, len) (heap_live L s)" "(unat img, len) \<notin> heap_live L s" "unat (vn_size node) \<le> len"
    "\<forall>(q, k)\<in>heap_live L s. \<forall>x\<in>{q..<q + k}. mm_mem s2 (of_nat x) = mm_mem s (of_nat x)"
    "\<forall>x\<in>free_bytes L. mm_mem s2 x = mm_mem s x" "ok \<longrightarrow> image_of (mm_mem s2) img (unat (vn_size node)) file"
proof -
  have HL: "heap_link L" and PL: "page_link L" using L by (simp_all add: elf_link_def mm_link_def)
  obtain ok m where v: "vfs_read node 0 (vn_size node) img s1 = (ok, s1\<lparr>mm_mem := m\<rparr>)"
    "changes_only (unat img) (unat (vn_size node)) (mm_mem s1) m" "ok \<longrightarrow> image_of m img (unat (vn_size node)) file"
  proof -
    have "unat img + unat (vn_size node) \<le> 2 ^ 32"
      using kmalloc_block(1) [OF inv HL n km img] HL by (auto simp: heap_link_def)
    then show thesis using that vfs unfolding vfs_contract_def by blast
  qed
  have hl: "heap_link L \<and> heap_inv L s" using HL inv by simp
  show thesis
  proof (rule kheap.alloc_fill [OF hl n km img v(2)], goal_cases)
    case (1 len)
    note len = 1(1,2) and len' = 1(4,5) and live = 1(6)
    have hb: "heap_base L \<le> unat img" "unat img + len \<le> heap_base L + 524288"
      using heap_live_bounds [OF conjunct2 [OF len'(1)], of "unat img" len] len'(2) by auto
    have "mm_mem s1 (of_nat x) = mm_mem s (of_nat x)" if "x < 2 ^ 32" "x \<notin> heap_bytes L" for x
      using kmalloc_block(3) [OF inv HL n km img] that by (auto simp: outside_heap_def heap_bytes_def)
    moreover have "m (of_nat x) = mm_mem s1 (of_nat x)" if "x < 2 ^ 32" "x \<notin> heap_bytes L" for x
      using hb len(1) that by (intro changes_onlyD [OF v(2)]) (auto simp: heap_bytes_def)
    ultimately have out: "m (of_nat x) = mm_mem s (of_nat x)" if "x < 2 ^ 32" "x \<notin> heap_bytes L" for x
      using that by simp
    have "\<forall>x\<in>table_bytes L. m (of_nat x) = mm_mem s (of_nat x)" using out elf_link_sep(2) [OF L] by blast
    then have P2: "paged L (s1\<lparr>mm_mem := m\<rparr>) M U" by (intro paged_agree [OF PL _ P]) simp
    have out': "\<forall>x\<in>free_bytes L. m x = mm_mem s x" using out by blast
    have live': "\<forall>(q, k)\<in>heap_live L s. \<forall>x\<in>{q..<q + k}. m (of_nat x) = mm_mem s (of_nat x)"
      by (intro ball_pairI ballI, rule live) auto
    show thesis
      by (rule that [OF v(1) _ P2 len'(2) len(2,1)]) (use len'(1) out' live' v(3) in simp_all)
  qed
qed

lemma live_trans:
  fixes f g h :: "nat \<Rightarrow> u8"
  assumes "\<forall>(q, k)\<in>S. \<forall>x\<in>{q..<q + k}. f x = g x" and "\<forall>(q, k)\<in>S. \<forall>x\<in>{q..<q + k}. g x = h x"
  shows "\<forall>(q, k)\<in>S. \<forall>x\<in>{q..<q + k}. f x = h x"
  using assms by fastforce

lemma elf_run:
  assumes km: "kmalloc L (vn_size node) s = Some (img, s1)" and img: "img \<noteq> 0"
    and t: "vn_type node = VFS_TYPE_FILE" "\<not> vn_size node < 52"
    and v: "vfs_read node 0 (vn_size node) img s1 = (ok, s2)"
    and im: "ok \<longrightarrow> image_of (mm_mem s2) img (unat (vn_size node)) file"
  shows "load_elf_program_from_vfs L vfs_read VFS_TYPE_FILE (Some node) True s =
    (if \<not> ok then Some (Inl FileLoadFailed, kfree img s2)
     else case header_error file (vn_size node) of Some e \<Rightarrow> Some (Inl e, kfree img s2)
     | None \<Rightarrow> do {
      (err, s) \<leftarrow> load_segments L img (vn_size node) 0 s2;
      case err of Some e \<Rightarrow> Some (Inl e, s)
      | None \<Rightarrow> let entry = e_entry (read_ehdr (mm_mem s) img) in Some (Inr entry, kfree img s) })"
proof (cases ok)
  case True
  have sz: "52 \<le> unat (vn_size node)" using t(2) by (simp add: word_less_nat_alt)
  have "read_ehdr (mm_mem s2) img = read_ehdr file 0" "load32 (mm_mem s2) img = load32 file 0"
    using image_ehdr [of "mm_mem s2" img "unat (vn_size node)" "file"]
      image_load32 [of "mm_mem s2" img "unat (vn_size node)" "file" 0] im True sz by simp_all
  with True km img t v show ?thesis
    by (simp add: load_elf_program_from_vfs_def header_error_def Let_def split: if_split)
next
  case False
  with km img t v show ?thesis by (simp add: load_elf_program_from_vfs_def)
qed

lemma elf_spec_cong:
  assumes "\<forall>x\<in>X. m x = m' x"
  shows "fst (elf_spec file sz m) = fst (elf_spec file sz m')"
    and "\<forall>x\<in>X. snd (elf_spec file sz m) x = snd (elf_spec file sz m') x"
  using place_all_cong [OF assms, of "file" sz "phdrs file"] assms
  by (auto simp: elf_spec_def split: option.splits prod.splits)

end
