(* ===== verification/Elf_Props.thy ===== *)
theory Elf_Props
  imports Elf Mm_Props
begin

text \<open>
  The properties of the program loader, with a witness that boots the machine of
  \<open>Mm_Props\<close> and loads a small program from a concrete file.
\<close>

section \<open>Properties\<close>

text \<open>The refusals before the file's contents matter, each with its cause.\<close>

definition elf_refused :: "link_map \<Rightarrow> vfs_reader \<Rightarrow> u32 \<Rightarrow> vfs_node \<Rightarrow> mm \<Rightarrow> elf_error + u32 \<Rightarrow> bool" where
  "elf_refused L vfs_read VFS_TYPE_FILE node s r \<longleftrightarrow>
     r = Inl NotRegularFile \<and> vn_type node \<noteq> VFS_TYPE_FILE \<or>
     r = Inl FileTooSmall \<and> vn_size node < 52 \<or>
     r = Inl KmallocFailed \<and> kmalloc L (vn_size node) s = Some (0, s) \<or>
     r = Inl FileLoadFailed \<and> (\<exists>buf t. \<not> fst (vfs_read node 0 (vn_size node) buf t))"

lemma load_elf_ok:
  assumes L: "elf_link L" and inv: "heap_inv L s" and P: "paged L s M U"
    and vfs: "vfs_contract vfs_read node file" and n: "unat (vn_size node) \<le> 0xFFFFFFD0"
  shows "\<exists>r s' m. load_elf_program_from_vfs L vfs_read VFS_TYPE_FILE (Some node) True s = Some (r, s') \<and>
    (elf_refused L vfs_read VFS_TYPE_FILE node s r \<and> m = mm_mem s \<or> (r, m) = elf_spec file (vn_size node) (mm_mem s)) \<and>
    (\<forall>x<2 ^ 32. x \<notin> table_bytes L \<union> heap_bytes L \<longrightarrow> mm_mem s' (of_nat x) = m (of_nat x)) \<and>
    heap_inv L s' \<and> heap_live L s' = heap_live L s \<and>
    (\<forall>(q, k)\<in>heap_live L s. \<forall>x\<in>{q..<q + k}. mm_mem s' (of_nat x) = mm_mem s (of_nat x)) \<and>
    (\<exists>K\<subseteq>{0x800..0x900}. paged L s' (M \<union> K) (U \<union> K))"
    (is "\<exists>r s' m. ?run = Some (r, s') \<and> ?res r m \<and> ?mem s' m \<and> ?heap s'")
proof -
  have HL: "heap_link L" and PL: "page_link L" using L by (simp_all add: elf_link_def mm_link_def)
  let ?n = "vn_size node"
  have same: "?mem s (mm_mem s) \<and> ?heap s" using inv P by (intro conjI exI [of _ "{}"]) simp_all
  obtain img s1 where km: "kmalloc L ?n s = Some (img, s1)"
    using kheap.alloc_returns [of L s ?n] inv HL n by auto
  consider (early) r where "?run = Some (r, s)" "elf_refused L vfs_read VFS_TYPE_FILE node s r"
    | (img) "vn_type node = VFS_TYPE_FILE" "\<not> ?n < 52" "img \<noteq> 0"
    using km kheap.alloc_null [of L s ?n s1] inv HL n
    by (cases "vn_type node = VFS_TYPE_FILE"; cases "?n < 52"; cases "img = 0")
      (auto simp: load_elf_program_from_vfs_def elf_refused_def)
  then show ?thesis
  proof cases
    case early
    then show ?thesis using same by blast
  next
    case img
    obtain ok s2 len where v: "vfs_read node 0 ?n img s1 = (ok, s2)" and i2: "heap_inv L s2" and P2: "paged L s2 M U"
      and lv: "heap_live L s2 = insert (unat img, len) (heap_live L s)" "(unat img, len) \<notin> heap_live L s"
      and len: "unat ?n \<le> len"
      and live: "\<forall>(q, k)\<in>heap_live L s. \<forall>x\<in>{q..<q + k}. mm_mem s2 (of_nat x) = mm_mem s (of_nat x)"
      and out: "\<forall>x\<in>free_bytes L. mm_mem s2 x = mm_mem s x" and im: "ok \<longrightarrow> image_of (mm_mem s2) img (unat ?n) file"
      by (rule elf_fill [OF L inv P vfs n km img(3)])
    have sz: "52 \<le> unat ?n" using img(2) by (simp add: word_less_nat_alt)
    have rel: "?heap (kfree img s2) \<and> (\<forall>x\<in>free_bytes L. mm_mem (kfree img s2) x = mm_mem s x)"
    proof -
      note R = elf_release [OF L i2 seg_frame_refl [OF P2] lv]
      have "\<forall>(q, k)\<in>heap_live L s. \<forall>x\<in>{q..<q + k}. mm_mem (kfree img s2) (of_nat x) = mm_mem s (of_nat x)"
        by (rule live_trans [OF _ live]) (use R in blast)
      with R out show ?thesis by simp
    qed
    note run = elf_run [where vfs_read = vfs_read, OF km img(3,1,2) v im]
    show ?thesis
    proof (cases "ok \<and> header_error file ?n = None")
      case True
      then have im': "image_of (mm_mem s2) img (unat ?n) file" "header_error file ?n = None" using im by auto
      have run': "?run = do {
          (err, s) \<leftarrow> load_segments L img ?n 0 s2;
          case err of Some e \<Rightarrow> Some (Inl e, s)
          | None \<Rightarrow> let entry = e_entry (read_ehdr (mm_mem s) img) in Some (Inr entry, kfree img s) }"
        using True unfolding run by simp
      obtain r s' where r: "?run = Some (r, s')" "heap_inv L s'" "heap_live L s' = heap_live L s"
        "\<forall>(q, k)\<in>heap_live L s. \<forall>x\<in>{q..<q + k}. mm_mem s' (of_nat x) = mm_mem s2 (of_nat x)"
        "\<exists>K\<subseteq>{0x800..0x900}. paged L s' (M \<union> K) (U \<union> K)"
        "r = fst (elf_spec file ?n (mm_mem s2))" "\<forall>x\<in>free_bytes L. mm_mem s' x = snd (elf_spec file ?n (mm_mem s2)) x"
        unfolding run' by (rule elf_image_ok [OF L i2 P2 lv sz len im'])
      have m: "\<forall>x\<in>free_bytes L. mm_mem s' x = snd (elf_spec file ?n (mm_mem s)) x"
        using r(7) elf_spec_cong(2) [OF out, of "file" ?n] by simp
      have "?heap s'" using r(2,3,5) live_trans [OF r(4) live] by simp
      moreover have "?res r (snd (elf_spec file ?n (mm_mem s)))"
        using r(6) elf_spec_cong(1) [OF out, of "file" ?n] by (simp add: prod_eq_iff)
      moreover have "?mem s' (snd (elf_spec file ?n (mm_mem s)))" using m by blast
      ultimately show ?thesis using r(1) by blast
    next
      case False
      then obtain r where r: "?run = Some (r, kfree img s2)" "?res r (mm_mem s)"
      proof (cases ok)
        case True
        with False obtain e where "header_error file ?n = Some e" by auto
        with True show thesis by (intro that [of "Inl e"]) (simp_all add: run elf_spec_def)
      next
        case False
        with v have "\<not> fst (vfs_read node 0 ?n img s1)" by simp
        with False show thesis by (intro that [of "Inl FileLoadFailed"]) (auto simp: run elf_refused_def)
      qed
      have "?mem (kfree img s2) (mm_mem s)" using conjunct2 [OF rel] by blast
      from conjI [OF r(1) conjI [OF r(2) conjI [OF this conjunct1 [OF rel]]]] show ?thesis by (intro exI)
    qed
  qed
qed

lemma elf_outcome:
  assumes "elf_link L" and "heap_inv L s" and "paged L s M U"
    and "vfs_contract vfs_read node file" and "unat (vn_size node) \<le> 0xFFFFFFD0"
    and "load_elf_program_from_vfs L vfs_read VFS_TYPE_FILE (Some node) True s = Some (r, s')"
  shows "\<exists>m K. (elf_refused L vfs_read VFS_TYPE_FILE node s r \<and> m = mm_mem s
      \<or> (r, m) = elf_spec file (vn_size node) (mm_mem s)) \<and>
    (\<forall>x<2 ^ 32. x \<notin> table_bytes L \<union> heap_bytes L \<longrightarrow> mm_mem s' (of_nat x) = m (of_nat x)) \<and>
    K \<subseteq> {0x800..0x900} \<and> paged L s' (M \<union> K) (U \<union> K)"
proof -
  obtain r' t m where "load_elf_program_from_vfs L vfs_read VFS_TYPE_FILE (Some node) True s = Some (r', t)"
    "elf_refused L vfs_read VFS_TYPE_FILE node s r' \<and> m = mm_mem s \<or> (r', m) = elf_spec file (vn_size node) (mm_mem s)"
    "\<forall>x<2 ^ 32. x \<notin> table_bytes L \<union> heap_bytes L \<longrightarrow> mm_mem t (of_nat x) = m (of_nat x)"
    "\<exists>K\<subseteq>{0x800..0x900}. paged L t (M \<union> K) (U \<union> K)"
    using load_elf_ok [OF assms(1-5), of VFS_TYPE_FILE] by blast
  moreover from this(1) assms(6) have "r' = r" "t = s'" by simp_all
  ultimately show ?thesis by blast
qed

lemma elf_spec_confined:
  assumes "x < 2 ^ 32" and "x \<notin> user_region"
  shows "snd (elf_spec file sz m) (of_nat x) = m (of_nat x)"
  using place_all_confined [OF assms, of "file" sz "phdrs file" m]
  by (auto simp: elf_spec_def split: option.split prod.split)

text \<open>
  C6: \<open>load_elf_program_from_vfs\<close> returns on every file, however malformed. Its result and
  the memory it leaves are those of \<open>elf_spec\<close> on the file: the same error for a bad
  header or segment, otherwise the entry point with every loadable segment's bytes in
  place and the rest of its memory size cleared; unless the file was refused before it was looked at (not a
  regular file, too small, no memory, read failure), when memory outside the heap is as before. On every path, success or error, the
  image buffer is released (the live heap blocks are as before, with their contents),
  the heap stays consistent, and page permissions are only ever added for the pages of
  the user region and the one page after it.
\<close>

theorem load_elf_correct:
  assumes L: "elf_link L" and inv: "heap_inv L s" and P: "paged L s M U"
    and vfs: "vfs_contract vfs_read node file" and n: "unat (vn_size node) \<le> 0xFFFFFFD0"
  shows "\<exists>r s' m. load_elf_program_from_vfs L vfs_read VFS_TYPE_FILE (Some node) True s = Some (r, s') \<and>
    (elf_refused L vfs_read VFS_TYPE_FILE node s r \<and> m = mm_mem s \<or> (r, m) = elf_spec file (vn_size node) (mm_mem s)) \<and>
    (\<forall>x<2 ^ 32. x \<notin> table_bytes L \<union> heap_bytes L \<longrightarrow> mm_mem s' (of_nat x) = m (of_nat x)) \<and>
    heap_inv L s' \<and> heap_live L s' = heap_live L s \<and>
    (\<forall>(q, k)\<in>heap_live L s. \<forall>x\<in>{q..<q + k}. mm_mem s' (of_nat x) = mm_mem s (of_nat x)) \<and>
    (\<exists>K\<subseteq>{0x800..0x900}. paged L s' (M \<union> K) (U \<union> K))"
  using assms by (rule load_elf_ok)

text \<open>
  C7: A program file cannot reach outside the user region: whatever the file contains,
  loading it changes no byte outside the user program region, the page tables and the
  heap, and opens to user mode no address outside \<open>0x800000\<close>-\<open>0x900FFF\<close> that was not open
  before.
\<close>

theorem load_elf_confined:
  assumes L: "elf_link L" and "heap_inv L s" and P: "paged L s M U"
    and "vfs_contract vfs_read node file" and "unat (vn_size node) \<le> 0xFFFFFFD0"
    and run: "load_elf_program_from_vfs L vfs_read VFS_TYPE_FILE (Some node) True s = Some (r, s')"
  shows "(\<forall>x<2 ^ 32. x \<notin> user_region \<union> table_bytes L \<union> heap_bytes L \<longrightarrow> mm_mem s' (of_nat x) = mm_mem s (of_nat x)) \<and>
    (\<forall>v. user_can_access (mm_mem s') (g_page_directory_at L) v \<longrightarrow>
       user_can_access (mm_mem s) (g_page_directory_at L) v \<or> unat v \<in> {0x800000..<0x901000})"
proof -
  have PL: "page_link L" using L by (simp add: elf_link_def mm_link_def)
  obtain m K where m: "elf_refused L vfs_read VFS_TYPE_FILE node s r \<and> m = mm_mem s \<or> (r, m) = elf_spec file (vn_size node) (mm_mem s)"
    "\<forall>x<2 ^ 32. x \<notin> table_bytes L \<union> heap_bytes L \<longrightarrow> mm_mem s' (of_nat x) = m (of_nat x)"
    and K: "K \<subseteq> {0x800..0x900}" "paged L s' (M \<union> K) (U \<union> K)"
    using elf_outcome [OF assms] by blast
  have "m (of_nat x) = mm_mem s (of_nat x)" if "x < 2 ^ 32" "x \<notin> user_region" for x
    using m(1) elf_spec_confined [OF that] by (metis snd_conv)
  moreover have "unat v \<in> {0x800000..<0x901000}" if "unat v div 4096 \<in> K" for v :: u32
  proof -
    have "0x800 \<le> unat v div 4096" "unat v div 4096 < 0x901" using K(1) that by auto
    then show ?thesis by (simp add: less_eq_div_iff_mult_less_eq div_less_iff_less_mult)
  qed
  ultimately show ?thesis
    using m(2) paged_translation(2) [OF PL P] paged_translation(2) [OF PL K(2)] by auto
qed

text \<open>
  The loader opens one page too many. The segment at \<open>0x8FF800\<close> of \<open>0x800\<close> bytes ends
  exactly at the end of the user region and is accepted, but its size is rounded up to
  pages before the start is rounded down, so the page at \<open>0x900000\<close>, outside the region
  and never reserved for the user, becomes accessible to user mode.
\<close>

theorem elf_opens_page_past_region:
  assumes L: "page_link L" and P: "paged L s M U" and "0x900 \<notin> U"
  shows "validate_segment 0x8FF800 0x800 \<and> \<not> user_can_access (mm_mem s) (g_page_directory_at L) 0x900000 \<and>
    (\<exists>s'. paging_mark_user_range L 0x8FF800 ((0x800 + 0xFFF) AND NOT 0xFFF) s = Some s' \<and>
       user_can_access (mm_mem s') (g_page_directory_at L) 0x900000)"
proof -
  have r: "(0x800 + 0xFFF) AND NOT (0xFFF :: u32) = 0x1000" by simp
  obtain s' where s': "paging_mark_user_range L 0x8FF800 0x1000 s = Some s'"
    "paged L s' (M \<union> page_set 0x8FF800 0x1000) (U \<union> page_set 0x8FF800 0x1000)"
    using paging_mark_user_range_ok [OF L P, of "0x8FF800" "0x1000"] by auto
  have "0x900 \<in> page_set 0x8FF800 0x1000" by (simp add: page_set_def in_pages_def)
  then have "user_can_access (mm_mem s') (g_page_directory_at L) 0x900000"
    using paged_translation(2) [OF L s'(2), of "0x900000"] by simp
  moreover have "\<not> user_can_access (mm_mem s) (g_page_directory_at L) 0x900000"
    using paged_translation(2) [OF L P, of "0x900000"] assms(3) by simp
  ultimately show ?thesis unfolding r using s'(1) by (simp add: validate_segment_iff)
qed

section \<open>A concrete program\<close>

text \<open>
  A file with one loadable segment of four bytes at \<open>0x800000\<close> and eight bytes of memory,
  and a virtual file system that serves it.
\<close>

definition prog :: mem where
  "prog = store32 0 0x464C457F (store32 4 0x00010101 (store32 16 0x00030002 (store32 20 1
     (store32 24 0x800000 (store32 28 52 (store32 40 0x00200034 (store32 44 1
     (store32 52 1 (store32 56 84 (store32 60 0x800000 (store32 68 4 (store32 72 8
     (store32 84 0xCAFEBABE (\<lambda>_. 0))))))))))))))"

definition prog_node :: vfs_node where
  "prog_node = \<lparr>vn_internal_id = 12, vn_type = 1, vn_size = 88\<rparr>"

definition prog_read :: vfs_reader where
  "prog_read node off n buf s =
     (True, s\<lparr>mm_mem := (\<lambda>x. if unat (x - buf) < unat n then prog (off + (x - buf)) else mm_mem s x)\<rparr>)"

lemma prog_contract: "vfs_contract prog_read prog_node prog"
proof -
  have "changes_only (unat buf) 88 m (\<lambda>x. if unat (x - buf) < 88 then prog (x - buf) else m x)"
    if "unat buf + 88 \<le> 2 ^ 32" for buf m
    unfolding changes_only_def
    using that nat_dist_u32 [of _ "unat buf" 88] by fastforce
  moreover have "image_of (\<lambda>x. if unat (x - buf) < 88 then prog (x - buf) else m x) buf 88 prog" for buf m
    by (simp add: image_of_def unat_of_nat_u32)
  ultimately show ?thesis
    unfolding vfs_contract_def prog_read_def prog_node_def
    by (intro allI impI exI [of _ True]) (rule exI, rule conjI, rule refl, simp cong: if_cong)
qed

lemma prog_hdr:
  "read_ehdr prog 0 = \<lparr>e_ident = [0x7F, 0x45, 0x4C, 0x46, 1, 1, 1, 0, 0, 0, 0, 0, 0, 0, 0, 0], e_type = 2, e_machine = 3,
     e_version = 1, e_entry = 0x800000, e_phoff = 52, e_shoff = 0, e_flags = 0, e_ehsize = 52, e_phentsize = 32,
     e_phnum = 1, e_shentsize = 0, e_shnum = 0, e_shstrndx = 0\<rparr>"
  "load32 prog 0 = 0x464C457F"
  by (simp_all add: read_ehdr_def prog_def store32_def load32_def load16_def upt_rec)

lemma prog_phdrs:
  "phdrs prog = [\<lparr>p_type = 1, p_offset = 84, p_vaddr = 0x800000, p_paddr = 0, p_filesz = 4, p_memsz = 8,
     p_flags = 0, p_align = 0\<rparr>]"
  unfolding phdrs_def prog_hdr by (simp add: read_phdr_def prog_def store32_def load32_def)

lemma prog_spec: "elf_spec prog 88 m = (Inr 0x800000, place prog (hd (phdrs prog)) m)"
proof -
  have "header_error prog 88 = None" unfolding header_error_def prog_hdr by simp
  moreover have "seg_error 88 (hd (phdrs prog)) = None"
    by (simp add: prog_phdrs seg_error_def validate_segment_iff)
  ultimately show ?thesis by (simp add: elf_spec_def prog_phdrs prog_hdr)
qed

lemma prog_place: "place prog (hd (phdrs prog)) m 0x800000 = 0xBE" "place prog (hd (phdrs prog)) m 0x800004 = 0"
  by (simp_all add: place_def prog_phdrs) (simp add: prog_def store32_def)

lemma boot_elf_link: "elf_link boot_link"
  using boot_link_ok(1) by (auto simp: elf_link_def boot_link_def user_region_def table_bytes_def heap_bytes_def heap_base_def)

theorem load_elf_correct_witness:
  "\<exists>s s'. memory_init boot_link 0 0 mm_boot = Some s \<and> vfs_contract prog_read prog_node prog \<and>
     load_elf_program_from_vfs boot_link prog_read 1 (Some prog_node) True s = Some (Inr 0x800000, s') \<and>
     mm_mem s' 0x800000 = 0xBE \<and> mm_mem s' 0x800004 = 0 \<and> heap_live boot_link s' = {}"
proof -
  obtain s where s: "memory_init boot_link 0 0 mm_boot = Some s" "heap_inv boot_link s" "heap_blocks boot_link s = [(524288, True)]"
    "paged boot_link s ({..<0x4000} \<union> user_pages) user_pages"
    by (rule boot_state)
  have n: "unat (vn_size prog_node) \<le> 0xFFFFFFD0" by (simp add: prog_node_def)
  have HL: "heap_link boot_link" using boot_link_ok by (simp add: mm_link_def)
  have live: "heap_live boot_link s = {}" by (simp add: heap_live_def s(3))
  obtain r s' m where r: "load_elf_program_from_vfs boot_link prog_read 1 (Some prog_node) True s = Some (r, s')"
    "elf_refused boot_link prog_read 1 prog_node s r \<and> m = mm_mem s \<or> (r, m) = elf_spec prog (vn_size prog_node) (mm_mem s)"
    "\<forall>x<2 ^ 32. x \<notin> table_bytes boot_link \<union> heap_bytes boot_link \<longrightarrow> mm_mem s' (of_nat x) = m (of_nat x)"
    "heap_live boot_link s' = {}"
    using load_elf_correct [OF boot_elf_link s(2,4) prog_contract n, of 1] unfolding live by blast
  have "kmalloc boot_link 88 s \<noteq> Some (0, s)"
    using kmalloc_null_iff [OF s(2) HL, of 88 0 s] by (auto simp: s(3) round_up_def)
  then have "\<not> elf_refused boot_link prog_read 1 prog_node s r"
    by (simp add: elf_refused_def prog_node_def prog_read_def)
  with r(2) have m: "r = Inr 0x800000" "m = place prog (hd (phdrs prog)) (mm_mem s)"
    by (simp_all add: prog_node_def prog_spec)
  have "mm_mem s' (of_nat 0x800000) = m (of_nat 0x800000)" "mm_mem s' (of_nat 0x800004) = m (of_nat 0x800004)"
    by (rule r(3) [rule_format];
        simp add: table_bytes_def boot_link_def heap_bytes_def heap_base_def)+
  then have "mm_mem s' 0x800000 = 0xBE" "mm_mem s' 0x800004 = 0" by (simp_all add: m(2) prog_place)
  with s(1) prog_contract r(1,4) m(1) show ?thesis by blast
qed

theorem load_elf_confined_witness:
  "\<exists>s r s'. memory_init boot_link 0 0 mm_boot = Some s \<and>
     load_elf_program_from_vfs boot_link prog_read 1 (Some prog_node) True s = Some (r, s') \<and>
     \<not> user_can_access (mm_mem s') (g_page_directory_at boot_link) 0x200000 \<and> mm_mem s' 0x900000 = mm_mem s 0x900000"
proof -
  obtain s where s: "memory_init boot_link 0 0 mm_boot = Some s" "heap_inv boot_link s"
    "paged boot_link s ({..<0x4000} \<union> user_pages) user_pages" by (rule boot_state)
  have n: "unat (vn_size prog_node) \<le> 0xFFFFFFD0" by (simp add: prog_node_def)
  obtain r s' where r: "load_elf_program_from_vfs boot_link prog_read 1 (Some prog_node) True s = Some (r, s')"
    using load_elf_ok [OF boot_elf_link s(2,3) prog_contract n, of 1] by blast
  note c = load_elf_confined [OF boot_elf_link s(2,3) prog_contract n r]
  have PL: "page_link boot_link" using boot_link_ok by (simp add: mm_link_def)
  have "\<not> user_can_access (mm_mem s) (g_page_directory_at boot_link) 0x200000"
    using paged_translation(2) [OF PL s(3), of "0x200000"] by (simp add: user_pages_def)
  then have "\<not> user_can_access (mm_mem s') (g_page_directory_at boot_link) 0x200000" using c by fastforce
  moreover have "mm_mem s' (of_nat 0x900000) = mm_mem s (of_nat 0x900000)"
    by (rule conjunct1 [OF c, rule_format])
      (simp_all add: user_region_def table_bytes_def boot_link_def heap_bytes_def heap_base_def)
  ultimately show ?thesis using s(1) r by auto
qed

theorem elf_opens_page_past_region_witness:
  "\<exists>s s'. memory_init boot_link 0 0 mm_boot = Some s \<and>
     paging_mark_user_range boot_link 0x8FF800 ((0x800 + 0xFFF) AND NOT 0xFFF) s = Some s' \<and>
     user_can_access (mm_mem s') 0x180000 0x900000"
proof -
  obtain s where s: "memory_init boot_link 0 0 mm_boot = Some s"
    "paged boot_link s ({..<0x4000} \<union> user_pages) user_pages" by (rule boot_state)
  have PL: "page_link boot_link" and d: "g_page_directory_at boot_link = 0x180000"
    using boot_link_ok by (simp_all add: mm_link_def boot_link_def)
  have "0x900 \<notin> user_pages" by (simp add: user_pages_def)
  from elf_opens_page_past_region [OF PL s(2) this] s(1) show ?thesis unfolding d by blast
qed

end
