(* ===== verification/Ata.thy ===== *)
theory Ata
  imports Run
begin

text \<open>
  The ATA driver: \<open>ata_init\<close> of \<^verbatim>\<open>arch/ata.c\<close> and \<open>disk_read_ex\<close>, \<open>disk_read\<close> of
  \<^verbatim>\<open>arch/disk.c\<close>, over the port interface.

  A read gives the bytes that \<open>insw\<close> stores one after the other at \<open>buffer\<close>; \<open>None\<close> is a
  driver that waits for ever. The delay loops have no effect on the ports.

  What the driver relies on is \<open>ata_drive\<close>, the PIO protocol of an ATA drive holding the
  sectors \<open>sec\<close>, stated register by register: an idle drive is not busy and keeps the bytes
  written to its command registers, command \<open>0x20\<close> starts the transfer these registers
  describe, a transfer raises DRQ after a bounded wait and then hands over one sector. That
  the driver's writes ask for the right sectors is proved (\<open>read_command_ok\<close>). A drive that
  keeps the protocol is \<open>ide_ports\<close>.
\<close>

section \<open>Model\<close>

definition ATA_SR_BSY :: u8 where [simp]: "ATA_SR_BSY = 0x80"
definition ATA_SR_DRDY :: u8 where [simp]: "ATA_SR_DRDY = 0x40"
definition ATA_SR_DRQ :: u8 where [simp]: "ATA_SR_DRQ = 0x08"
definition ATA_SR_ERR :: u8 where [simp]: "ATA_SR_ERR = 0x01"

datatype ata_error = InitTimedOut | NoDevice | DeviceError | DriveNotReady

text \<open>
  \<^verbatim>\<open>while ((inb(ATA_REG_STATUS) & ATA_SR_BSY) && timeout--);\<close> with \<open>timeout = n\<close>: the
  final value of \<open>timeout\<close>.
\<close>

fun wait_not_busy :: "'d ports \<Rightarrow> nat \<Rightarrow> 'd \<Rightarrow> u32 \<times> 'd" where
  "wait_not_busy P 0 d = (case inb P 0x1F7 d of (st, d) \<Rightarrow> (if st AND ATA_SR_BSY \<noteq> 0 then (- 1, d) else (0, d)))"
| "wait_not_busy P (Suc n) d =
     (case inb P 0x1F7 d of (st, d) \<Rightarrow>
        if st AND ATA_SR_BSY \<noteq> 0 then wait_not_busy P n d else (of_nat (Suc n), d))"

text \<open>The \<^verbatim>\<open>do\<close>-loop with \<open>poll = n\<close>: the error it returned with, or the final \<open>poll\<close>.\<close>

fun wait_ready :: "'d ports \<Rightarrow> nat \<Rightarrow> 'd \<Rightarrow> (ata_error + u32) \<times> 'd" where
  "wait_ready P n d =
     (case inb P 0x1F7 d of (st, d) \<Rightarrow>
        if st = 0xFF then (Inl NoDevice, d)
        else if st AND ATA_SR_ERR \<noteq> 0 then (Inl DeviceError, d)
        else if st AND ATA_SR_DRDY = 0
          then (case n of 0 \<Rightarrow> (Inr (- 1), d) | Suc k \<Rightarrow> wait_ready P k d)
        else (Inr (of_nat n), d))"

declare wait_ready.simps [simp del]

definition ata_init :: "'d ports \<Rightarrow> 'd \<Rightarrow> (ata_error + unit) \<times> 'd" where
  "ata_init P d =
     (let d = outb P 0x3F6 0x04 d; d = outb P 0x3F6 0x00 d in
      case wait_not_busy P 100000 d of (timeout, d) \<Rightarrow>
        if timeout = 0 then (Inl InitTimedOut, d)
        else let d = outb P 0x1F6 0xE0 d in
          case wait_ready P 100000 d of
            (Inl e, d) \<Rightarrow> (Inl e, d)
          | (Inr poll, d) \<Rightarrow> if poll = 0 then (Inl DriveNotReady, d) else (Inr (), d))"

partial_function (option) wait_idle :: "'d ports \<Rightarrow> 'd \<Rightarrow> 'd option" where
  "wait_idle P d = (case inb P 0x1F7 d of (st, d) \<Rightarrow> if st AND ATA_SR_BSY \<noteq> 0 then wait_idle P d else Some d)"

text \<open>\<^verbatim>\<open>while (timeout--)\<close> with \<open>timeout = n\<close>: the final \<open>timeout\<close> and the last status.\<close>

fun poll_drq :: "'d ports \<Rightarrow> nat \<Rightarrow> u8 \<Rightarrow> 'd \<Rightarrow> int \<times> u8 \<times> 'd" where
  "poll_drq P 0 status d = (- 1, status, d)"
| "poll_drq P (Suc n) status d =
     (case inb P 0x3F6 d of (status, d) \<Rightarrow>
        if status AND ATA_SR_ERR \<noteq> 0 then (int n, status, d)
        else if status AND ATA_SR_BSY = 0 \<and> status AND ATA_SR_DRQ \<noteq> 0 then (int n, status, d)
        else poll_drq P n status d)"

text \<open>One sector: \<open>k\<close> attempts are left; after the last one the driver loops for ever.\<close>

fun read_sector :: "'d ports \<Rightarrow> nat \<Rightarrow> 'd \<Rightarrow> (u8 list \<times> 'd) option" where
  "read_sector P 0 d = None"
| "read_sector P (Suc k) d =
     (case poll_drq P 1000000 0 d of (timeout, status, d) \<Rightarrow>
        if timeout > 0 \<and> status AND ATA_SR_ERR = 0 then Some (insw P 0x1F0 256 d)
        else read_sector P k d)"

fun read_sectors :: "'d ports \<Rightarrow> nat \<Rightarrow> 'd \<Rightarrow> (u8 list \<times> 'd) option" where
  "read_sectors P 0 d = Some ([], d)"
| "read_sectors P (Suc n) d =
     do { (b, d) \<leftarrow> read_sector P 3 d; (bs, d) \<leftarrow> read_sectors P n d; Some (b @ bs, d) }"

definition read_command :: "'d ports \<Rightarrow> u32 \<Rightarrow> u32 \<Rightarrow> u32 \<Rightarrow> 'd \<Rightarrow> 'd" where
  "read_command P drive lba sector_count d =
     (let devsel = (if drive = 0 then 0xE0 else 0xF0) :: u8;
          d = outb P 0x1F6 (devsel OR ucast (drop_bit 24 lba AND 0x0F)) d;
          d = outb P 0x1F2 (ucast sector_count) d;
          d = outb P 0x1F3 (ucast lba) d;
          d = outb P 0x1F4 (ucast (drop_bit 8 lba)) d;
          d = outb P 0x1F5 (ucast (drop_bit 16 lba)) d
      in outb P 0x1F7 0x20 d)"

definition disk_read_ex :: "'d ports \<Rightarrow> u32 \<Rightarrow> u32 \<Rightarrow> u32 \<Rightarrow> 'd \<Rightarrow> (u8 list \<times> 'd) option" where
  "disk_read_ex P drive lba sector_count d =
     do { d \<leftarrow> wait_idle P d; read_sectors P (unat sector_count) (read_command P drive lba sector_count d) }"

definition disk_read :: "'d ports \<Rightarrow> u32 \<Rightarrow> u32 \<Rightarrow> 'd \<Rightarrow> (u8 list \<times> 'd) option" where
  "disk_read P lba sector_count d = disk_read_ex P 0 lba sector_count d"

section \<open>The protocol of the drive\<close>

definition drq_status :: "u8 \<Rightarrow> bool" where
  "drq_status st \<longleftrightarrow> st AND 0x80 = 0 \<and> st AND 0x08 \<noteq> 0"

text \<open>
  The command registers that software writes before a command: device/head (port
  \<open>0x1F6\<close>), sector count (\<open>0x1F2\<close>) and the three address bytes (\<open>0x1F3\<close> to \<open>0x1F5\<close>).
\<close>

record taskfile =
  t_device :: u8
  t_count :: u8
  t_lba0 :: u8
  t_lba1 :: u8
  t_lba2 :: u8

text \<open>
  What the registers ask for: in LBA mode (bit 6 of the device register) the 28-bit address
  has its four top bits in the device register; bit 4 chooses the second drive of the
  channel; a count of 0 stands for 256 sectors.
\<close>

definition task_lba :: "taskfile \<Rightarrow> nat" where
  "task_lba t = unat (t_lba0 t) + 2 ^ 8 * unat (t_lba1 t) + 2 ^ 16 * unat (t_lba2 t) + 2 ^ 24 * (unat (t_device t) mod 16)"

definition task_count :: "taskfile \<Rightarrow> nat" where
  "task_count t = (if t_count t = 0 then 256 else unat (t_count t))"

definition task_port :: "u16 \<Rightarrow> bool" where
  "task_port p \<longleftrightarrow> p \<in> {0x1F2, 0x1F3, 0x1F4, 0x1F5, 0x1F6}"

text \<open>A write of \<open>v\<close> to port \<open>p\<close> of an idle drive: the register it sets.\<close>

definition task_write :: "u16 \<Rightarrow> u8 \<Rightarrow> taskfile \<Rightarrow> taskfile" where
  "task_write p v t =
     (if p = 0x1F2 then t\<lparr>t_count := v\<rparr>
      else if p = 0x1F3 then t\<lparr>t_lba0 := v\<rparr>
      else if p = 0x1F4 then t\<lparr>t_lba1 := v\<rparr>
      else if p = 0x1F5 then t\<lparr>t_lba2 := v\<rparr>
      else if p = 0x1F6 then t\<lparr>t_device := v\<rparr>
      else t)"

text \<open>
  The drive, register by register. \<open>tf\<close> reads the taskfile of a state. An idle drive does
  not report BSY and keeps what is written to its registers, as long as drive 0 stays
  selected; command \<open>0x20\<close> (READ SECTORS), in LBA mode and within the 28-bit range, starts the
  transfer that the registers describe. A transfer raises DRQ after a bounded number of
  polls without an error and hands over one sector for 256 words read from the data port.
\<close>

definition drive_registers :: "'d ports \<Rightarrow> ('d \<Rightarrow> bool) \<Rightarrow> ('d \<Rightarrow> taskfile) \<Rightarrow> (nat \<Rightarrow> nat \<Rightarrow> 'd \<Rightarrow> bool) \<Rightarrow> bool" where
  "drive_registers P idle tf xfer \<longleftrightarrow>
     (\<forall>d p v. idle d \<and> task_port p \<and> (p = 0x1F6 \<longrightarrow> v AND 0x10 = 0) \<longrightarrow>
        idle (outb P p v d) \<and> tf (outb P p v d) = task_write p v (tf d)) \<and>
     (\<forall>d. idle d \<and> t_device (tf d) AND 0x40 \<noteq> 0 \<and> t_device (tf d) AND 0x10 = 0 \<and>
        task_lba (tf d) + task_count (tf d) \<le> 2 ^ 28 \<longrightarrow>
        xfer (task_lba (tf d)) (task_count (tf d)) (outb P 0x1F7 0x20 d))"

definition ata_drive :: "'d ports \<Rightarrow> (nat \<Rightarrow> u8 list) \<Rightarrow> ('d \<Rightarrow> bool) \<Rightarrow> ('d \<Rightarrow> taskfile) \<Rightarrow>
    (nat \<Rightarrow> nat \<Rightarrow> 'd \<Rightarrow> bool) \<Rightarrow> ('d \<Rightarrow> nat) \<Rightarrow> bool" where
  "ata_drive P sec idle tf xfer pause \<longleftrightarrow>
     (\<forall>lba. length (sec lba) = 512) \<and>
     (\<forall>d st d'. idle d \<and> inb P 0x1F7 d = (st, d') \<longrightarrow> st AND 0x80 = 0 \<and> idle d') \<and>
     drive_registers P idle tf xfer \<and>
     (\<forall>d lba k. xfer lba (Suc k) d \<longrightarrow> pause d < 999999) \<and>
     (\<forall>d lba k st d'. xfer lba (Suc k) d \<and> inb P 0x3F6 d = (st, d') \<longrightarrow>
        st AND 0x01 = 0 \<and> xfer lba (Suc k) d' \<and> (if drq_status st then pause d' = 0 else pause d' < pause d)) \<and>
     (\<forall>d lba k bs d'. xfer lba (Suc k) d \<and> pause d = 0 \<and> insw P 0x1F0 256 d = (bs, d') \<longrightarrow>
        bs = sec lba \<and> (if k = 0 then idle d' else xfer (Suc lba) k d'))"

definition disk_ok :: "'d ports \<Rightarrow> (nat \<Rightarrow> u8 list) \<Rightarrow> ('d \<Rightarrow> bool) \<Rightarrow> bool" where
  "disk_ok P sec idle \<longleftrightarrow> (\<exists>tf xfer pause. ata_drive P sec idle tf xfer pause)"

lemma ata_driveD:
  assumes "ata_drive P sec idle tf xfer pause"
  shows "length (sec lba) = 512"
    and "idle d \<Longrightarrow> inb P 0x1F7 d = (st, d') \<Longrightarrow> st AND 0x80 = 0 \<and> idle d'"
    and "drive_registers P idle tf xfer"
    and "xfer lba (Suc k) d \<Longrightarrow> pause d < 999999"
    and "xfer lba (Suc k) d \<Longrightarrow> inb P 0x3F6 d = (st, d') \<Longrightarrow> st AND 0x01 = 0 \<and> xfer lba (Suc k) d' \<and>
      (if drq_status st then pause d' = 0 else pause d' < pause d)"
    and "xfer lba (Suc k) d \<Longrightarrow> pause d = 0 \<Longrightarrow> insw P 0x1F0 256 d = (bs, d') \<Longrightarrow>
      bs = sec lba \<and> (if k = 0 then idle d' else xfer (Suc lba) k d')"
  using assms unfolding ata_drive_def by blast+

lemma drive_registersD:
  assumes "drive_registers P idle tf xfer" and "idle d"
  shows "task_port p \<Longrightarrow> (p = 0x1F6 \<longrightarrow> v AND 0x10 = 0) \<Longrightarrow>
      idle (outb P p v d) \<and> tf (outb P p v d) = task_write p v (tf d)"
    and "t_device (tf d) AND 0x40 \<noteq> 0 \<Longrightarrow> t_device (tf d) AND 0x10 = 0 \<Longrightarrow>
      task_lba (tf d) + task_count (tf d) \<le> 2 ^ 28 \<Longrightarrow>
      xfer (task_lba (tf d)) (task_count (tf d)) (outb P 0x1F7 0x20 d)"
  using assms unfolding drive_registers_def by (simp, metis)

section \<open>The read command\<close>

lemma device_byte:
  fixes x :: u8
  shows "unat (0xE0 OR (x AND 0x0F)) mod 16 = unat x mod 16"
    and "(0xE0 OR (x AND 0x0F)) AND 0x40 \<noteq> 0"
    and "(0xE0 OR (x AND 0x0F)) AND 0x10 = 0"
proof -
  have "\<forall>n\<in>set [0..<16]. unat ((0xE0 :: u8) OR of_nat n) mod 16 = n \<and> ((0xE0 :: u8) OR of_nat n) AND 0x40 \<noteq> 0 \<and>
      ((0xE0 :: u8) OR of_nat n) AND 0x10 = 0" by code_simp
  moreover have "x AND 0x0F = take_bit 4 x"
    using take_bit_eq_mask [of 4 x] by (simp add: mask_eq_exp_minus_1)
  then have "x AND 0x0F = of_nat (unat x mod 16)" using unat_take_bit [of 4 x] by (simp add: eq_of_natI)
  ultimately show "unat (0xE0 OR (x AND 0x0F)) mod 16 = unat x mod 16" "(0xE0 OR (x AND 0x0F)) AND 0x40 \<noteq> 0"
    "(0xE0 OR (x AND 0x0F)) AND 0x10 = 0" by simp_all
qed

lemma base256:
  fixes n :: nat
  assumes "n < 2 ^ 28"
  shows "n mod 256 + 256 * (n div 256 mod 256) + 65536 * (n div 65536 mod 256) + 16777216 * (n div 16777216 mod 16) = n"
proof -
  have "n div 16777216 mod 16 = n div 16777216" using assms by simp
  moreover have "n div 65536 mod 256 + 256 * (n div 16777216) = n div 65536"
    using mod_mult_div_eq [of "n div 65536" 256] by (simp add: div_mult2_eq [symmetric])
  moreover have "n div 256 mod 256 + 256 * (n div 65536) = n div 256"
    using mod_mult_div_eq [of "n div 256" 256] by (simp add: div_mult2_eq [symmetric])
  moreover have "n mod 256 + 256 * (n div 256) = n" by simp
  ultimately show ?thesis by linarith
qed

text \<open>
  The six writes of \<open>read_command\<close> leave drive 0 selected, put the request into the
  registers and start exactly the transfer asked for.
\<close>

lemma read_command_registers:
  assumes A: "ata_drive P sec idle tf xfer pause" and "idle d"
  shows "\<exists>d'. read_command P 0 lba c d = outb P 0x1F7 0x20 d' \<and> idle d' \<and>
    tf d' = \<lparr>t_device = 0xE0 OR (ucast (drop_bit 24 lba) AND 0x0F), t_count = ucast c, t_lba0 = ucast lba,
      t_lba1 = ucast (drop_bit 8 lba), t_lba2 = ucast (drop_bit 16 lba)\<rparr>"
proof -
  define v where "v = (0xE0 :: u8) OR ucast (drop_bit 24 lba AND 0x0F)"
  have v: "v = 0xE0 OR (ucast (drop_bit 24 lba) AND 0x0F)" by (simp add: v_def unsigned_and_eq)
  note W = drive_registersD(1) [OF ata_driveD(3) [OF A]]
  define d1 where "d1 = outb P 0x1F6 v d"
  define d2 where "d2 = outb P 0x1F2 (ucast c) d1"
  define d3 where "d3 = outb P 0x1F3 (ucast lba) d2"
  define d4 where "d4 = outb P 0x1F4 (ucast (drop_bit 8 lba)) d3"
  define d5 where "d5 = outb P 0x1F5 (ucast (drop_bit 16 lba)) d4"
  have 1: "idle d1 \<and> tf d1 = task_write 0x1F6 v (tf d)"
    unfolding d1_def using assms(2) device_byte(3) [of "ucast (drop_bit 24 lba)"] by (intro W) (simp_all add: v task_port_def)
  then have 2: "idle d2 \<and> tf d2 = task_write 0x1F2 (ucast c) (tf d1)"
    unfolding d2_def by (intro W) (simp_all add: task_port_def)
  then have 3: "idle d3 \<and> tf d3 = task_write 0x1F3 (ucast lba) (tf d2)"
    unfolding d3_def by (intro W) (simp_all add: task_port_def)
  then have 4: "idle d4 \<and> tf d4 = task_write 0x1F4 (ucast (drop_bit 8 lba)) (tf d3)"
    unfolding d4_def by (intro W) (simp_all add: task_port_def)
  then have 5: "idle d5 \<and> tf d5 = task_write 0x1F5 (ucast (drop_bit 16 lba)) (tf d4)"
    unfolding d5_def by (intro W) (simp_all add: task_port_def)
  have "read_command P 0 lba c d = outb P 0x1F7 0x20 d5"
    by (simp add: read_command_def Let_def d1_def d2_def d3_def d4_def d5_def v_def)
  moreover have "tf d5 = \<lparr>t_device = v, t_count = ucast c, t_lba0 = ucast lba,
      t_lba1 = ucast (drop_bit 8 lba), t_lba2 = ucast (drop_bit 16 lba)\<rparr>"
    using 1 2 3 4 5 by (cases "tf d") (simp add: task_write_def)
  ultimately show ?thesis using 5 v by auto
qed

lemma read_command_ok:
  assumes A: "ata_drive P sec idle tf xfer pause" and "idle d" and "0 < k" and "k < 256" and "n + k \<le> 2 ^ 28"
  shows "xfer n k (read_command P 0 (of_nat n) (of_nat k) d)"
proof -
  obtain d' where d': "read_command P 0 (of_nat n) (of_nat k) d = outb P 0x1F7 0x20 d'" "idle d'"
    "tf d' = \<lparr>t_device = 0xE0 OR (ucast (drop_bit 24 (of_nat n :: u32)) AND 0x0F), t_count = ucast (of_nat k :: u32),
      t_lba0 = ucast (of_nat n :: u32), t_lba1 = ucast (drop_bit 8 (of_nat n :: u32)),
      t_lba2 = ucast (drop_bit 16 (of_nat n :: u32))\<rparr>"
    using read_command_registers [OF A assms(2), of "of_nat n" "of_nat k"] by blast
  have n28: "n < 2 ^ 28" using assms(3,5) by simp
  have n: "unat (of_nat n :: u32) = n" and k: "unat (ucast (of_nat k :: u32) :: u8) = k"
    using n28 assms(4) by (simp_all add: unat_of_nat_u32 unat_ucast_u8)
  have "(ucast (of_nat k :: u32) :: u8) \<noteq> 0" using k assms(3) by (metis less_numeral_extra(3) unsigned_0)
  then have c: "task_count (tf d') = k" by (simp add: d'(3) task_count_def k)
  have l: "task_lba (tf d') = n"
    using base256 [OF n28] n28 by (simp add: d'(3) task_lba_def device_byte(1) unat_ucast_u8 unat_drop_bit n mod_mod_cancel)
  have "t_device (tf d') AND 0x40 \<noteq> 0" "t_device (tf d') AND 0x10 = 0"
    unfolding d'(3) using device_byte(2,3) by simp_all
  then have "xfer (task_lba (tf d')) (task_count (tf d')) (outb P 0x1F7 0x20 d')"
    by (rule drive_registersD(2) [OF ata_driveD(3) [OF A] d'(2)]) (use assms(5) c l in simp)
  then show ?thesis by (simp only: d'(1) c l)
qed

section \<open>Reading\<close>

lemma wait_idle_ok:
  assumes "ata_drive P sec idle tf xfer pause" and "idle d"
  shows "\<exists>d'. wait_idle P d = Some d' \<and> idle d'"
  using ata_driveD(2) [OF assms] by (subst wait_idle.simps) (auto split: prod.splits)

lemma poll_drq_ok:
  assumes "ata_drive P sec idle tf xfer pause" and "xfer lba (Suc k) d" and "pause d < n"
  shows "\<exists>t st' d'. poll_drq P n st d = (t, st', d') \<and> t \<ge> int n - 1 - int (pause d) \<and> st' AND 0x01 = 0 \<and>
    xfer lba (Suc k) d' \<and> pause d' = 0"
  using assms(2,3)
proof (induction n arbitrary: st d)
  case (Suc n)
  obtain st' d' where i: "inb P 0x3F6 d = (st', d')" by fastforce
  note D = ata_driveD(5) [OF assms(1) Suc.prems(1) i]
  show ?case
  proof (cases "drq_status st'")
    case True
    then show ?thesis using D i by (simp add: drq_status_def)
  next
    case False
    then obtain t st'' d'' where "poll_drq P n st' d' = (t, st'', d'')" "t \<ge> int n - 1 - int (pause d')"
      "st'' AND 0x01 = 0" "xfer lba (Suc k) d''" "pause d'' = 0"
      using Suc.IH [of d' st'] D Suc.prems(2) by auto
    then show ?thesis using D False i by (auto simp: drq_status_def)
  qed
qed simp

lemma read_sector_ok:
  assumes "ata_drive P sec idle tf xfer pause" and "xfer lba (Suc k) d"
  shows "\<exists>d'. read_sector P (Suc j) d = Some (sec lba, d') \<and> (if k = 0 then idle d' else xfer (Suc lba) k d')"
proof -
  have p: "pause d < 999999" by (rule ata_driveD(4) [OF assms])
  then have "pause d < 1000000" by simp
  from poll_drq_ok [OF assms this, of 0] obtain t st d1 where
    t: "poll_drq P 1000000 0 d = (t, st, d1)" "t > 0" "st AND 0x01 = 0" "xfer lba (Suc k) d1" "pause d1 = 0"
    using p by auto
  obtain bs d2 where i: "insw P 0x1F0 256 d1 = (bs, d2)" by fastforce
  from ata_driveD(6) [OF assms(1) t(4,5) i] t i show ?thesis by simp
qed

lemma read_sectors_ok:
  assumes "ata_drive P sec idle tf xfer pause" and "if n = 0 then idle d else xfer lba n d"
  shows "\<exists>d'. read_sectors P n d = Some (concat (map sec [lba..<lba + n]), d') \<and> idle d'"
  using assms(2)
proof (induction n arbitrary: lba d)
  case (Suc n)
  from read_sector_ok [OF assms(1), of lba n d 2] Suc.prems obtain d1 where
    d1: "read_sector P 3 d = Some (sec lba, d1)" "if n = 0 then idle d1 else xfer (Suc lba) n d1"
    by (auto simp: numeral_3_eq_3 numeral_2_eq_2)
  have "[lba..<lba + Suc n] = lba # [Suc lba..<Suc lba + n]" by (simp add: upt_conv_Cons del: upt_Suc)
  with Suc.IH [OF d1(2)] d1(1) show ?case by (auto simp del: upt_Suc)
qed simp

text \<open>
  The driver returns the sectors asked for, in order, and leaves the drive idle.
\<close>

lemma disk_read_ok:
  assumes "disk_ok P sec idle" and "idle d" and "0 < n" and "n < 256" and "lba + n \<le> 2 ^ 28"
  shows "\<exists>d'. disk_read P (of_nat lba) (of_nat n) d = Some (concat (map sec [lba..<lba + n]), d') \<and> idle d'"
proof -
  from assms(1) obtain tf xfer pause where A: "ata_drive P sec idle tf xfer pause" by (auto simp: disk_ok_def)
  from wait_idle_ok [OF A assms(2)] obtain d1 where d1: "wait_idle P d = Some d1" "idle d1" by auto
  from read_command_ok [OF A d1(2) assms(3-5)]
  have "xfer lba n (read_command P 0 (of_nat lba) (of_nat n) d1)" .
  from read_sectors_ok [OF A, of n "read_command P 0 (of_nat lba) (of_nat n) d1" lba] this d1 assms(3,4) show ?thesis
    by (simp add: disk_read_def disk_read_ex_def unat_of_nat_u32)
qed

lemma disk_ok_length: "disk_ok P sec idle \<Longrightarrow> length (sec lba) = 512"
  by (auto simp: disk_ok_def ata_drive_def)

lemma length_concat_map:
  "(\<And>i. length (f i) = w) \<Longrightarrow> length (concat (map f [a..<a + n])) = n * w"
  by (induction n) simp_all

lemma nth_concat_map:
  assumes w: "\<And>i. length (f i) = w" and "i < n * w"
  shows "concat (map f [a..<a + n]) ! i = f (a + i div w) ! (i mod w)"
  using assms(2)
proof (induction n)
  case (Suc n)
  note len = length_concat_map [of f w a n, OF w]
  have "0 < w" using Suc.prems by (cases w) auto
  show ?case
  proof (cases "i < n * w")
    case True
    then show ?thesis using Suc.IH by (simp add: nth_append len)
  next
    case False
    then have "i = n * w + (i - n * w)" "i - n * w < w" using Suc.prems by auto
    then have "i div w = n" "i mod w = i - n * w"
      using \<open>0 < w\<close> by (metis div_mult_self3 div_less add.right_neutral less_not_refl2, metis mod_mult_self3 mod_less)
    then show ?thesis using False by (simp add: nth_append len)
  qed
qed simp

section \<open>A drive\<close>

text \<open>
  The registers of an IDE drive that answers at once: the taskfile bytes, the next sector
  of the running transfer and how many are left.
\<close>

record ide = taskfile +
  next_lba :: nat
  left :: nat

definition ide_idle :: ide where
  "ide_idle = \<lparr>t_device = 0, t_count = 0, t_lba0 = 0, t_lba1 = 0, t_lba2 = 0, next_lba = 0, left = 0\<rparr>"

definition ide_inb :: "u16 \<Rightarrow> ide \<Rightarrow> u8 \<times> ide" where
  "ide_inb p d = (if left d = 0 then 0x40 else 0x48, d)"

definition ide_taskfile :: "ide \<Rightarrow> taskfile" where
  "ide_taskfile d = \<lparr>t_device = t_device d, t_count = t_count d, t_lba0 = t_lba0 d, t_lba1 = t_lba1 d, t_lba2 = t_lba2 d\<rparr>"

definition ide_outb :: "u16 \<Rightarrow> u8 \<Rightarrow> ide \<Rightarrow> ide" where
  "ide_outb p v d =
     (if p = 0x1F6 then d\<lparr>t_device := v\<rparr>
      else if p = 0x1F2 then d\<lparr>t_count := v\<rparr>
      else if p = 0x1F3 then d\<lparr>t_lba0 := v\<rparr>
      else if p = 0x1F4 then d\<lparr>t_lba1 := v\<rparr>
      else if p = 0x1F5 then d\<lparr>t_lba2 := v\<rparr>
      else if p = 0x1F7 \<and> v = 0x20
        then d\<lparr>next_lba := task_lba (ide_taskfile d), left := task_count (ide_taskfile d)\<rparr>
      else d)"

definition ide_insw :: "(nat \<Rightarrow> u8 list) \<Rightarrow> u16 \<Rightarrow> nat \<Rightarrow> ide \<Rightarrow> u8 list \<times> ide" where
  "ide_insw sec p n d = (sec (next_lba d), d\<lparr>next_lba := Suc (next_lba d), left := left d - 1\<rparr>)"

definition ide_ports :: "(nat \<Rightarrow> u8 list) \<Rightarrow> ide ports" where
  "ide_ports sec = \<lparr>inb = ide_inb, outb = ide_outb, insw = ide_insw sec\<rparr>"

lemma ide_ok:
  assumes "\<And>lba. length (sec lba) = 512"
  shows "disk_ok (ide_ports sec) sec (\<lambda>d. left d = 0)"
proof -
  have "ata_drive (ide_ports sec) sec (\<lambda>d. left d = 0) ide_taskfile (\<lambda>lba n d. next_lba d = lba \<and> left d = n) (\<lambda>_. 0)"
    using assms
    by (auto simp: ata_drive_def drive_registers_def drq_status_def ide_ports_def ide_inb_def ide_insw_def ide_outb_def ide_taskfile_def
        task_write_def task_port_def)
  then show ?thesis by (auto simp: disk_ok_def)
qed

section \<open>Initialisation\<close>

lemma wait_not_busy_stuck:
  assumes "\<And>d. stuck d \<Longrightarrow> fst (inb P 0x1F7 d) AND 0x80 \<noteq> 0 \<and> stuck (snd (inb P 0x1F7 d))" and "stuck d"
  shows "fst (wait_not_busy P n d) = - 1 \<and> stuck (snd (wait_not_busy P n d))"
  using assms(2)
proof (induction n arbitrary: d)
  case 0
  then show ?case using assms(1) [of d] by (simp add: case_prod_beta wait_ready.simps)
next
  case (Suc n)
  then show ?case using assms(1) [of d] Suc.IH [of "snd (inb P 0x1F7 d)"] by (simp add: case_prod_beta wait_ready.simps)
qed

lemma wait_ready_stuck:
  assumes "\<And>d. stuck d \<Longrightarrow> fst (inb P 0x1F7 d) \<noteq> 0xFF \<and> fst (inb P 0x1F7 d) AND 0x01 = 0 \<and>
      fst (inb P 0x1F7 d) AND 0x40 = 0 \<and> stuck (snd (inb P 0x1F7 d))" and "stuck d"
  shows "fst (wait_ready P n d) = Inr (- 1)"
  using assms(2)
proof (induction n arbitrary: d)
  case 0
  then show ?case using assms(1) [of d] by (simp add: case_prod_beta wait_ready.simps)
next
  case (Suc n)
  then show ?case using assms(1) [of d] Suc.IH [of "snd (inb P 0x1F7 d)"] by (simp add: case_prod_beta wait_ready.simps)
qed

text \<open>
  The two time-outs of \<open>ata_init\<close> are not reported. A drive that stays busy for ever and
  never raises DRDY makes both counters run out, but each loop ends with its counter
  wrapped to \<open>0xFFFFFFFF\<close>, so the tests for 0 fail and \<open>ata_init\<close> answers that the device is
  ready.
\<close>

theorem ata_init_accepts_stuck_drive:
  assumes "\<And>d. stuck d \<Longrightarrow> (case inb P 0x1F7 d of (st, d') \<Rightarrow>
      st AND 0x80 \<noteq> 0 \<and> st AND 0x40 = 0 \<and> st AND 0x01 = 0 \<and> stuck d')"
    and "\<And>p v d. stuck d \<Longrightarrow> stuck (outb P p v d)" and "stuck d"
  shows "fst (ata_init P d) = Inr ()"
proof -
  define d1 where "d1 = outb P 0x3F6 0x00 (outb P 0x3F6 0x04 d)"
  have S: "fst (inb P 0x1F7 d) \<noteq> 0xFF \<and> fst (inb P 0x1F7 d) AND 0x80 \<noteq> 0 \<and> fst (inb P 0x1F7 d) AND 0x01 = 0 \<and>
      fst (inb P 0x1F7 d) AND 0x40 = 0 \<and> stuck (snd (inb P 0x1F7 d))" if "stuck d" for d
    using assms(1) [OF that] by (auto split: prod.splits)
  have "stuck d1" using assms(2,3) by (simp add: d1_def)
  then obtain e where w: "wait_not_busy P 100000 d1 = (- 1, e)" "stuck e"
    using wait_not_busy_stuck [of stuck P d1 100000] S by (metis prod.collapse)
  moreover obtain e' where "wait_ready P 100000 (outb P 0x1F6 0xE0 e) = (Inr (- 1), e')"
    using wait_ready_stuck [of stuck P "outb P 0x1F6 0xE0 e" 100000] S assms(2) [OF w(2)] by (metis prod.collapse)
  ultimately show ?thesis
    by (simp add: ata_init_def Let_def d1_def [symmetric])
qed

theorem ata_init_accepts_stuck_drive_witness:
  "let P = \<lparr>inb = \<lambda>p d. (0x80, d), outb = \<lambda>p v d. d, insw = \<lambda>p n d. ([], d)\<rparr> in
     fst (inb P 0x1F7 ()) = 0x80 \<and> fst (ata_init P ()) = Inr ()"
proof -
  define P where "P = \<lparr>inb = \<lambda>p d. (0x80, d), outb = \<lambda>p v d. d, insw = \<lambda>p n (d :: unit). ([], d)\<rparr>"
  have "fst (ata_init P ()) = Inr ()"
    by (rule ata_init_accepts_stuck_drive [where stuck = "\<lambda>_. True"]) (simp_all add: P_def)
  then show ?thesis by (simp add: P_def)
qed

section \<open>Reading sectors\<close>

text \<open>
  C29: On a drive that keeps the ATA protocol, \<open>disk_read\<close> returns: it gives exactly the
  \<open>n\<close> sectors from \<open>lba\<close> on, byte for byte, for every transfer of 1 to 255 sectors below
  the 28-bit limit, and leaves the drive ready for the next command, however long (within
  the time-out) the drive takes before each sector.
\<close>

theorem disk_read_correct:
  assumes "disk_ok P sec idle" and "idle d" and "0 < n" and "n < 256" and "lba + n \<le> 2 ^ 28"
  shows "\<exists>bs d'. disk_read P (of_nat lba) (of_nat n) d = Some (bs, d') \<and> idle d' \<and> length bs = 512 * n \<and>
    (\<forall>i<512 * n. bs ! i = sec (lba + i div 512) ! (i mod 512))"
proof -
  have w: "length (sec i) = 512" for i by (rule disk_ok_length [OF assms(1)])
  show ?thesis
    using disk_read_ok [OF assms] length_concat_map [of sec 512 lba n, OF w] nth_concat_map [of sec 512 _ n lba, OF w]
    by (auto simp: mult.commute)
qed

theorem disk_read_correct_witness:
  "let sec = (\<lambda>lba. replicate 512 (of_nat lba)) in
     left ide_idle = 0 \<and>
     (\<exists>bs d'. disk_read (ide_ports sec) 7 2 ide_idle = Some (bs, d') \<and> left d' = 0 \<and> length bs = 1024 \<and> bs ! 600 = 8)"
proof -
  have "disk_ok (ide_ports (\<lambda>lba. replicate 512 (of_nat lba))) (\<lambda>lba. replicate 512 (of_nat lba)) (\<lambda>d. left d = 0)"
    by (rule ide_ok) simp
  from disk_read_correct [OF this, of ide_idle 2 7] show ?thesis by (auto simp: ide_idle_def)
qed

end
