(* ===== verification/Cstring.thy ===== *)
theory Cstring
  imports Kernel_Prelude
begin

text \<open>
  C strings and the string routines of \<^verbatim>\<open>user/shell.c\<close>.

  A \<open>char *\<close> is the list of the bytes from the pointer to the end of its object; the
  string proper is \<open>cstr\<close>, the bytes before the first zero. Reading or writing past the end
  of the object is the value \<open>None\<close>. A routine that writes returns the new object.

  The kernel calls routines of the same names from \<^verbatim>\<open>arch/string.c\<close>, which is not in the
  repository: there they are parameters, bundled in a record \<open>str_ops\<close>. What both shells
  and the file system rely on is the locale \<open>c_strings\<close>; it is interpreted on the
  routines of \<^verbatim>\<open>user/shell.c\<close>.
\<close>

section \<open>Model\<close>

definition cstr :: "u8 list \<Rightarrow> u8 list" where
  "cstr s = takeWhile (\<lambda>c. c \<noteq> 0) s"

abbreviation str :: "string \<Rightarrow> u8 list" where
  "str s \<equiv> map of_char s"

fun strlen :: "u8 list \<Rightarrow> nat option" where
  "strlen [] = None"
| "strlen (c # s) = (if c \<noteq> 0 then map_option Suc (strlen s) else Some 0)"

fun strcmp :: "u8 list \<Rightarrow> u8 list \<Rightarrow> int option" where
  "strcmp (a # as) (b # bs) = (if a \<noteq> 0 \<and> a = b then strcmp as bs else Some (uint a - uint b))"
| "strcmp _ _ = None"

fun strncmp :: "u8 list \<Rightarrow> u8 list \<Rightarrow> nat \<Rightarrow> int option" where
  "strncmp as bs 0 = Some 0"
| "strncmp (a # as) (b # bs) (Suc n) =
     (if a \<noteq> b then Some (uint a - uint b) else if a = 0 then Some 0 else strncmp as bs n)"
| "strncmp _ _ (Suc n) = None"

fun strcpy :: "u8 list \<Rightarrow> u8 list \<Rightarrow> u8 list option" where
  "strcpy (d # dst) (c # src) =
     (if c = 0 then Some (c # dst) else map_option ((#) c) (strcpy dst src))"
| "strcpy _ _ = None"

text \<open>
  \<open>strncpy\<close> copies at most \<open>n - 1\<close> bytes and writes the terminator at \<open>n - 1\<close>; \<open>i\<close> is
  the loop variable.
\<close>

fun strncpy_loop :: "nat \<Rightarrow> nat \<Rightarrow> u8 list \<Rightarrow> u8 list \<Rightarrow> u8 list option" where
  "strncpy_loop i 0 dst src = Some dst"
| "strncpy_loop i (Suc k) dst src =
     (if i < length src then
        if src ! i = 0 then Some dst
        else if i < length dst then strncpy_loop (Suc i) k (dst[i := src ! i]) src else None
      else None)"

definition strncpy :: "u8 list \<Rightarrow> u8 list \<Rightarrow> nat \<Rightarrow> u8 list option" where
  "strncpy dst src n =
     do { dst \<leftarrow> strncpy_loop 0 (n - 1) dst src;
          if 0 < n \<and> n - 1 < length dst then Some (dst[n - 1 := 0]) else None }"

section \<open>Strings in objects\<close>

lemma cstr_simps [simp]: "cstr [] = []" "cstr (c # s) = (if c = 0 then [] else c # cstr s)"
  by (simp_all add: cstr_def)

lemma zero_notin_cstr [simp]: "0 \<notin> set (cstr s)"
  by (auto simp: cstr_def dest: set_takeWhileD)

lemma cstr_id: "0 \<notin> set s \<Longrightarrow> cstr s = s"
  by (induction s) auto

lemma cstr_append: "cstr (s @ t) = (if 0 \<in> set s then cstr s else s @ cstr t)"
  by (induction s) auto

lemma cstr_append_0 [simp]: "0 \<notin> set s \<Longrightarrow> cstr (s @ 0 # t) = s"
  by (simp add: cstr_append)

lemma cstr_cstr [simp]: "cstr (cstr s) = cstr s"
  by (simp add: cstr_id)

lemma length_cstr_le: "length (cstr s) \<le> length s"
  by (simp add: cstr_def length_takeWhile_le)

lemma length_cstr_less: "0 \<in> set s \<Longrightarrow> length (cstr s) < length s"
  by (induction s) auto

lemma terminated_decomp: "0 \<in> set s \<Longrightarrow> s = cstr s @ 0 # drop (Suc (length (cstr s))) s"
  by (induction s) auto

lemma nth_cstr: "i < length (cstr s) \<Longrightarrow> s ! i = cstr s ! i"
  by (simp add: cstr_def takeWhile_nth)

lemma nth_cstr_end: "0 \<in> set s \<Longrightarrow> s ! length (cstr s) = 0"
  by (induction s) auto

lemma nth_cstr_neq_0: "i < length (cstr s) \<Longrightarrow> s ! i \<noteq> 0"
  using zero_notin_cstr [of s] by (metis nth_cstr nth_mem)

lemma cstr_eqI:
  assumes "n < length s" and "s ! n = 0" and "\<And>i. i < n \<Longrightarrow> s ! i \<noteq> 0"
  shows "cstr s = take n s"
  using assms by (auto simp: cstr_def intro!: takeWhile_eq_take_P_nth)

section \<open>The contract of the string routines\<close>

locale c_strings =
  fixes slen :: "u8 list \<Rightarrow> nat option"
    and scmp :: "u8 list \<Rightarrow> u8 list \<Rightarrow> int option"
    and sncmp :: "u8 list \<Rightarrow> u8 list \<Rightarrow> nat \<Rightarrow> int option"
    and scpy :: "u8 list \<Rightarrow> u8 list \<Rightarrow> u8 list option"
  assumes slen_ok: "0 \<in> set s \<Longrightarrow> slen s = Some (length (cstr s))"
    and scmp_ok: "0 \<in> set a \<Longrightarrow> 0 \<in> set b \<Longrightarrow> \<exists>r. scmp a b = Some r \<and> (r = 0 \<longleftrightarrow> cstr a = cstr b)"
    and sncmp_ok: "0 \<in> set a \<or> n \<le> length a \<Longrightarrow> 0 \<in> set b \<or> n \<le> length b \<Longrightarrow>
      \<exists>r. sncmp a b n = Some r \<and> (r = 0 \<longleftrightarrow> cstr (take n a) = cstr (take n b))"
    and scpy_ok: "0 \<in> set s \<Longrightarrow> length (cstr s) < length d \<Longrightarrow>
      scpy d s = Some (cstr s @ 0 # drop (Suc (length (cstr s))) d)"
begin

text \<open>
  The two ways in which the file system compares an unterminated directory name with a C
  string agree on names without a zero byte.
\<close>

lemma match_copy:
  assumes "0 \<in> set name" and "0 \<notin> set nm"
  shows "\<exists>r. scmp (nm @ 0 # rest) name = Some r \<and> (r = 0 \<longleftrightarrow> nm = cstr name)"
  using scmp_ok [of "nm @ 0 # rest" name] assms by simp

lemma match_prefix:
  assumes "0 \<in> set name" and "0 \<notin> set nm"
  shows "\<exists>r. sncmp (nm @ rest) name (length nm) = Some r \<and>
    (r = 0 \<and> length nm = length (cstr name) \<longleftrightarrow> nm = cstr name)"
proof -
  obtain r where r: "sncmp (nm @ rest) name (length nm) = Some r"
    "r = 0 \<longleftrightarrow> cstr (take (length nm) (nm @ rest)) = cstr (take (length nm) name)"
    using sncmp_ok [of "nm @ rest" "length nm" name] assms(1) by auto
  have "cstr (take (length nm) name) = cstr name" if "length nm = length (cstr name)"
    using terminated_decomp [OF assms(1)] that
    by (metis append_eq_conv_conj cstr_id zero_notin_cstr)
  then show ?thesis using r assms(2) by (auto simp: cstr_id)
qed

lemma keyword:
  assumes "0 \<in> set s" and "0 \<notin> set k"
  shows "\<exists>r. scmp s (k @ [0]) = Some r \<and> (r = 0 \<longleftrightarrow> cstr s = k)"
  using scmp_ok [of s "k @ [0]"] assms by simp

end

record str_ops =
  op_strlen :: "u8 list \<Rightarrow> nat option"
  op_strcmp :: "u8 list \<Rightarrow> u8 list \<Rightarrow> int option"
  op_strncmp :: "u8 list \<Rightarrow> u8 list \<Rightarrow> nat \<Rightarrow> int option"
  op_strcpy :: "u8 list \<Rightarrow> u8 list \<Rightarrow> u8 list option"

abbreviation string_lib :: "str_ops \<Rightarrow> bool" where
  "string_lib S \<equiv> c_strings (op_strlen S) (op_strcmp S) (op_strncmp S) (op_strcpy S)"

section \<open>The routines keep the contract\<close>

lemma strlen_eq: "0 \<in> set s \<Longrightarrow> strlen s = Some (length (cstr s))"
  by (induction s) auto

lemma strcmp_eq:
  "0 \<in> set a \<Longrightarrow> 0 \<in> set b \<Longrightarrow> \<exists>r. strcmp a b = Some r \<and> (r = 0 \<longleftrightarrow> cstr a = cstr b)"
  by (induction a b rule: strcmp.induct) (auto simp: word_uint_eq_iff)

lemma strncmp_eq:
  "0 \<in> set a \<or> n \<le> length a \<Longrightarrow> 0 \<in> set b \<or> n \<le> length b \<Longrightarrow>
   \<exists>r. strncmp a b n = Some r \<and> (r = 0 \<longleftrightarrow> cstr (take n a) = cstr (take n b))"
proof (induction a b n rule: strncmp.induct)
  case (2 a as b bs n)
  show ?case
  proof (cases "a = b \<and> a \<noteq> 0")
    case True
    then show ?thesis using 2 by auto
  next
    case False
    then show ?thesis by (auto simp: word_uint_eq_iff)
  qed
qed auto

lemma strcpy_eq:
  "0 \<in> set s \<Longrightarrow> length (cstr s) < length d \<Longrightarrow>
   strcpy d s = Some (cstr s @ 0 # drop (Suc (length (cstr s))) d)"
  by (induction d s rule: strcpy.induct) auto

interpretation ush: c_strings strlen strcmp strncmp strcpy
  by unfold_locales (use strlen_eq strcmp_eq strncmp_eq strcpy_eq in blast)+

definition ush_ops :: str_ops where
  "ush_ops = \<lparr>op_strlen = strlen, op_strcmp = strcmp, op_strncmp = strncmp, op_strcpy = strcpy\<rparr>"

lemma ush_ops_lib: "string_lib ush_ops"
  by (simp add: ush_ops_def ush.c_strings_axioms)

text \<open>Copying out of bounds is caught: the object must have room for the terminator.\<close>

lemma strcpy_overflow: "0 \<in> set s \<Longrightarrow> length d \<le> length (cstr s) \<Longrightarrow> strcpy d s = None"
  by (induction d s rule: strcpy.induct) auto

end
