(* ===== verification/Console.thy ===== *)
theory Console
  imports Vga Cstring Run
begin

text \<open>
  The serial port of \<^verbatim>\<open>arch/serial.c\<close>, the debug output of \<^verbatim>\<open>include/debug.h\<close>, \<open>print_hex\<close> of
  \<^verbatim>\<open>src/kernel/main.c\<close> and \<open>panic\<close> of \<^verbatim>\<open>arch/panic.c\<close>.

  \<open>serial_putc\<close> polls the line status register through the port interface. A serial port
  that keeps the protocol (\<open>uart\<close>) receives exactly the bytes of the string, so the other
  components work on a \<open>console\<close>: the screen and the bytes sent to COM1 so far.
\<close>

section \<open>The serial port\<close>

definition COM1 :: u16 where [simp]: "COM1 = 0x3F8"

definition serial_init :: "'d ports \<Rightarrow> 'd \<Rightarrow> 'd" where
  "serial_init P d =
     (let d = outb P (COM1 + 1) 0x00 d;
          d = outb P (COM1 + 3) 0x80 d;
          d = outb P (COM1 + 0) 0x03 d;
          d = outb P (COM1 + 1) 0x00 d
      in outb P (COM1 + 3) 0x03 d)"

partial_function (option) wait_transmitter :: "'d ports \<Rightarrow> 'd \<Rightarrow> 'd option" where
  "wait_transmitter P d =
     (case inb P (0x3F8 + 5) d of (st, d) \<Rightarrow> if st AND 0x20 = 0 then wait_transmitter P d else Some d)"

definition serial_putc :: "'d ports \<Rightarrow> u8 \<Rightarrow> 'd \<Rightarrow> 'd option" where
  "serial_putc P c d = do { d \<leftarrow> wait_transmitter P d; Some (outb P 0x3F8 c d) }"

text \<open>Running off the end of an unterminated object is \<open>None\<close> too.\<close>

fun serial_puts :: "'d ports \<Rightarrow> u8 list \<Rightarrow> 'd \<Rightarrow> 'd option" where
  "serial_puts P [] d = None"
| "serial_puts P (c # s) d = (if c = 0 then Some d else do { d \<leftarrow> serial_putc P c d; serial_puts P s d })"

text \<open>
  The protocol of the port: a status read does not change what was sent and brings an
  empty transmitter closer; a byte written to an empty transmitter is sent.
\<close>

definition uart :: "'d ports \<Rightarrow> ('d \<Rightarrow> u8 list) \<Rightarrow> ('d \<Rightarrow> nat) \<Rightarrow> bool" where
  "uart P sent busy \<longleftrightarrow>
     (\<forall>d st d'. inb P 0x3FD d = (st, d') \<longrightarrow> sent d' = sent d \<and> (st AND 0x20 = 0 \<longrightarrow> busy d' < busy d)
        \<and> (st AND 0x20 \<noteq> 0 \<longrightarrow> busy d' = 0)) \<and>
     (\<forall>d c. busy d = 0 \<longrightarrow> sent (outb P 0x3F8 c d) = sent d @ [c])"

lemma wait_transmitter_ok:
  assumes "uart P sent busy"
  shows "\<exists>d'. wait_transmitter P d = Some d' \<and> sent d' = sent d \<and> busy d' = 0"
proof (induction "busy d" arbitrary: d rule: less_induct)
  case less
  obtain st d' where i: "inb P 0x3FD d = (st, d')" by fastforce
  have u: "sent d' = sent d" "st AND 0x20 = 0 \<Longrightarrow> busy d' < busy d" "st AND 0x20 \<noteq> 0 \<Longrightarrow> busy d' = 0"
    using assms i unfolding uart_def by blast+
  show ?case
    by (subst wait_transmitter.simps) (use i u less [of d'] in auto)
qed

text \<open>
  \<open>serial_puts\<close> returns and sends exactly the bytes of the string, in order, on any port
  that keeps the protocol, however long it stays busy before each byte.
\<close>

theorem serial_puts_sends:
  assumes "uart P sent busy" and "0 \<in> set s"
  shows "\<exists>d'. serial_puts P s d = Some d' \<and> sent d' = sent d @ cstr s"
  using assms(2)
proof (induction s arbitrary: d)
  case (Cons c s)
  show ?case
  proof (cases "c = 0")
    case False
    obtain d1 where d1: "wait_transmitter P d = Some d1" "sent d1 = sent d" "busy d1 = 0"
      using wait_transmitter_ok [OF assms(1)] by blast
    have "sent (outb P 0x3F8 c d1) = sent d @ [c]" using assms(1) d1 unfolding uart_def by auto
    moreover have "0 \<in> set s" using Cons.prems False by simp
    ultimately show ?thesis using Cons.IH [of "outb P 0x3F8 c d1"] False d1 by (simp add: serial_putc_def)
  qed simp
qed simp

theorem serial_puts_sends_witness:
  "let P = \<lparr>inb = (\<lambda>p (n, out). (if n = 0 then 0x20 else 0, (n - 1, out))), outb = (\<lambda>p c (n, out). (2, out @ [c])),
            insw = (\<lambda>p k d. ([], d))\<rparr>
   in \<exists>d'. serial_puts P (str ''ok'' @ [0]) (5 :: nat, []) = Some d' \<and> snd d' = [0x6F, 0x6B]"
proof -
  define P where "P = \<lparr>inb = (\<lambda>p (n :: nat, out). (if n = 0 then 0x20 else 0, (n - 1, out))),
    outb = (\<lambda>p c (n, out). (2, out @ [c])), insw = (\<lambda>p k d. ([], d))\<rparr>"
  have "uart P snd fst" unfolding uart_def by (auto simp: P_def)
  from serial_puts_sends [OF this, of "str ''ok'' @ [0]" "(5, [])"] show ?thesis
    by (simp add: P_def of_char_def)
qed

section \<open>The console\<close>

record console =
  scr :: vga
  ser :: "u8 list"

definition ser_puts :: "u8 list \<Rightarrow> console \<Rightarrow> console" where
  "ser_puts s k = k\<lparr>ser := ser k @ cstr s\<rparr>"

definition ser_putc :: "u8 \<Rightarrow> console \<Rightarrow> console" where
  "ser_putc c k = k\<lparr>ser := ser k @ [c]\<rparr>"

definition put :: "(vga \<Rightarrow> vga) \<Rightarrow> console \<Rightarrow> console" where
  "put f k = k\<lparr>scr := f (scr k)\<rparr>"

abbreviation puts :: "string \<Rightarrow> console \<Rightarrow> console" where
  "puts s \<equiv> put (vga_puts (str s))"

text \<open>\<open>print_hex\<close> fills its buffer from the right, one nibble at a time.\<close>

fun hex_fill :: "nat \<Rightarrow> u32 \<Rightarrow> u8 list \<Rightarrow> u8 list" where
  "hex_fill i val buf =
     (if i < 2 then buf else hex_fill (i - 1) (drop_bit 4 val) (buf[i := hex_chars ! unat (val AND 0x0F)]))"

declare hex_fill.simps [simp del]

definition print_hex :: "u32 \<Rightarrow> console \<Rightarrow> console" where
  "print_hex val k =
     (let buf = (replicate 11 0)[0 := 0x30, 1 := 0x78, 10 := 0] in ser_puts (hex_fill 9 val buf) k)"

definition dbg_prefix :: "string \<Rightarrow> console \<Rightarrow> console" where
  "dbg_prefix scope k = ser_puts (str ''] '') (ser_puts (str scope) (ser_puts (str ''['') k))"

definition newline :: string where [simp]: "newline = [CHR 0x0A]"

definition dbg_msg :: "string \<Rightarrow> string \<Rightarrow> console \<Rightarrow> console" where
  "dbg_msg scope msg k = ser_puts (str newline) (ser_puts (str msg) (dbg_prefix scope k))"

definition dbg_hex :: "string \<Rightarrow> u32 \<Rightarrow> console \<Rightarrow> console" where
  "dbg_hex scope val k = ser_puts (str newline) (print_hex val (dbg_prefix scope k))"

definition dbg_kv :: "string \<Rightarrow> string \<Rightarrow> u32 \<Rightarrow> console \<Rightarrow> console" where
  "dbg_kv scope key val k =
     ser_puts (str newline) (print_hex val (ser_puts (str ''='') (ser_puts (str key) (dbg_prefix scope k))))"

text \<open>The console when \<open>panic\<close> halts the processor.\<close>

definition panic :: "u8 list \<Rightarrow> console \<Rightarrow> console" where
  "panic msg k =
     (let k = put (vga_set_color COLOR_WHITE COLOR_RED) k;
          k = put clear_screen k;
          k = puts (''!!! KERNEL PANIC !!!'' @ newline @ newline) k;
          k = ser_puts (str (''!!! KERNEL PANIC !!!'' @ newline)) k;
          k = puts ''Message: '' k;
          k = ser_puts (str ''Message:'') k;
          k = put (vga_puts msg) k;
          k = ser_puts msg k;
          k = puts (newline @ newline @ ''System halted'' @ newline) k
      in ser_puts (str (newline @ newline @ ''System halted'' @ newline)) k)"

section \<open>What the console operations keep\<close>

lemma put_sel [simp]: "ser (put f k) = ser k" "scr (put f k) = f (scr k)"
  by (simp_all add: put_def)

lemma ser_sel [simp]:
  "scr (ser_puts s k) = scr k" "ser (ser_puts s k) = ser k @ cstr s"
  "scr (ser_putc c k) = scr k" "ser (ser_putc c k) = ser k @ [c]"
  by (simp_all add: ser_puts_def ser_putc_def)

lemma dbg_scr [simp]:
  "scr (dbg_prefix a k) = scr k" "scr (dbg_msg a b k) = scr k" "scr (dbg_hex a v k) = scr k"
  "scr (dbg_kv a b v k) = scr k" "scr (print_hex v k) = scr k"
  by (simp_all add: dbg_prefix_def dbg_msg_def dbg_hex_def dbg_kv_def print_hex_def)

lemma vga_puts_cstr: "vga_puts (cstr s) v = vga_puts s v"
  by (induction s arbitrary: v) auto

lemma vga_puts_fold: "vga_puts s v = fold vga_putc (cstr s) v"
  by (induction s arbitrary: v) auto

lemma hex_fill_buf:
  "hex_fill 9 val ((replicate 11 0)[0 := 0x30, 1 := 0x78, 10 := 0]) = str ''0x'' @ hex_digits val @ [0]"
  by (simp add: hex_fill.simps hex_digits_def of_char_def eval_nat_numeral)

text \<open>
  The two hexadecimal printers agree: \<open>print_hex\<close>, which fills a buffer from the right by
  repeated shifting, sends \<^verbatim>\<open>0x\<close> and the same eight digits that \<open>vga_print_hex\<close> draws from
  the left.
\<close>

theorem print_hex_agrees:
  "ser (print_hex val k) = ser k @ str ''0x'' @ hex_digits val \<and> scr (print_hex val k) = scr k \<and>
   vga_print_hex val v = fold vga_putc (hex_digits val) v"
proof -
  have "cstr (str ''0x'' @ hex_digits val @ [0]) = str ''0x'' @ hex_digits val"
    using hex_digits_ok(2) [of val] by (simp add: of_char_def)
  then have "ser (print_hex val k) = ser k @ str ''0x'' @ hex_digits val"
    by (simp only: print_hex_def Let_def hex_fill_buf ser_sel)
  then show ?thesis by (simp add: vga_print_hex_def hex_digits_def fold_map comp_def)
qed

end
