(* ===== verification/Ext2.thy ===== *)
theory Ext2
  imports Heap_Api Ata Console
begin

text \<open>
  The block and inode layer of the file system: \<^verbatim>\<open>fs/disk_io.c\<close>, \<^verbatim>\<open>fs/inode.c\<close> and the on-disk
  structures of \<^verbatim>\<open>include/ext2.h\<close>.

  The state \<open>fs\<close> has the drive, the console, the memory manager and the variables of these
  files. A static array is a list of its bytes that persists between calls, so what an
  earlier block left behind a shorter one is there, as in the code; storing past the end of
  such an array, or of the 128-byte \<open>struct ext2_inode\<close> of a caller, is \<open>Fault\<close>. A local
  structure that \<open>read_inode\<close> may leave unwritten is passed in with its arbitrary old bytes.
  \<open>g_sb\<close> and \<open>fs_gdt\<close> point to buffers that are written once at boot; they are the
  structures they point to, or \<open>None\<close> for the null pointer.
\<close>

section \<open>On-disk structures\<close>

definition byte_at :: "u8 list \<Rightarrow> nat \<Rightarrow> nat \<Rightarrow> u8" where
  "byte_at bs off i = bs ! (off + i)"

definition le16 :: "u8 list \<Rightarrow> nat \<Rightarrow> u16" where
  "le16 bs off = ucast (byte_at bs off 0) OR push_bit 8 (ucast (byte_at bs off 1))"

definition le32 :: "u8 list \<Rightarrow> nat \<Rightarrow> u32" where
  "le32 bs off = ucast (byte_at bs off 0) OR push_bit 8 (ucast (byte_at bs off 1))
     OR push_bit 16 (ucast (byte_at bs off 2)) OR push_bit 24 (ucast (byte_at bs off 3))"

record ext2_superblock =
  s_inodes_count :: u32
  s_blocks_count :: u32
  s_r_blocks_count :: u32
  s_free_blocks_count :: u32
  s_free_inodes_count :: u32
  s_first_data_block :: u32
  s_log_block_size :: u32
  s_log_frag_size :: u32
  s_blocks_per_group :: u32
  s_frags_per_group :: u32
  s_inodes_per_group :: u32
  s_mtime :: u32
  s_wtime :: u32
  s_mnt_count :: u16
  s_max_mnt_count :: u16
  s_magic :: u16
  s_state :: u16
  s_errors :: u16
  s_minor_rev_level :: u16
  s_lastcheck :: u32
  s_checkinterval :: u32
  s_creator_os :: u32
  s_rev_level :: u32
  s_def_resuid :: u16
  s_def_resgid :: u16
  s_first_ino :: u32
  s_inode_size :: u16
  s_block_group_nr :: u16
  s_feature_compat :: u32
  s_feature_incompat :: u32
  s_feature_ro_compat :: u32
  s_uuid :: "u8 list"
  s_volume_name :: "u8 list"

definition read_superblock :: "u8 list \<Rightarrow> ext2_superblock" where
  "read_superblock b = \<lparr>s_inodes_count = le32 b 0, s_blocks_count = le32 b 4, s_r_blocks_count = le32 b 8,
     s_free_blocks_count = le32 b 12, s_free_inodes_count = le32 b 16, s_first_data_block = le32 b 20,
     s_log_block_size = le32 b 24, s_log_frag_size = le32 b 28, s_blocks_per_group = le32 b 32,
     s_frags_per_group = le32 b 36, s_inodes_per_group = le32 b 40, s_mtime = le32 b 44, s_wtime = le32 b 48,
     s_mnt_count = le16 b 52, s_max_mnt_count = le16 b 54, s_magic = le16 b 56, s_state = le16 b 58,
     s_errors = le16 b 60, s_minor_rev_level = le16 b 62, s_lastcheck = le32 b 64, s_checkinterval = le32 b 68,
     s_creator_os = le32 b 72, s_rev_level = le32 b 76, s_def_resuid = le16 b 80, s_def_resgid = le16 b 82,
     s_first_ino = le32 b 84, s_inode_size = le16 b 88, s_block_group_nr = le16 b 90, s_feature_compat = le32 b 92,
     s_feature_incompat = le32 b 96, s_feature_ro_compat = le32 b 100, s_uuid = take 16 (drop 104 b),
     s_volume_name = take 16 (drop 120 b)\<rparr>"

record ext2_group_desc =
  bg_block_bitmap :: u32
  bg_inode_bitmap :: u32
  bg_inode_table :: u32
  bg_free_blocks_count :: u16
  bg_free_inodes_count :: u16
  bg_used_dirs_count :: u16
  bg_pad :: u16
  bg_reserved :: "u32 list"

definition read_group_desc :: "u8 list \<Rightarrow> ext2_group_desc" where
  "read_group_desc b = \<lparr>bg_block_bitmap = le32 b 0, bg_inode_bitmap = le32 b 4, bg_inode_table = le32 b 8,
     bg_free_blocks_count = le16 b 12, bg_free_inodes_count = le16 b 14, bg_used_dirs_count = le16 b 16,
     bg_pad = le16 b 18, bg_reserved = map (\<lambda>i. le32 b (20 + 4 * i)) [0..<3]\<rparr>"

record ext2_inode =
  i_mode :: u16
  i_uid :: u16
  i_size :: u32
  i_atime :: u32
  i_ctime :: u32
  i_mtime :: u32
  i_dtime :: u32
  i_gid :: u16
  i_links_count :: u16
  i_blocks :: u32
  i_flags :: u32
  i_osd1 :: u32
  i_block :: "u32 list"
  i_generation :: u32
  i_file_acl :: u32
  i_dir_acl :: u32
  i_faddr :: u32
  i_frag :: u8
  i_fsize :: u8
  i_pad1 :: u16
  i_reserved2 :: "u32 list"

definition inode_of :: "u8 list \<Rightarrow> ext2_inode" where
  "inode_of b = \<lparr>i_mode = le16 b 0, i_uid = le16 b 2, i_size = le32 b 4, i_atime = le32 b 8, i_ctime = le32 b 12,
     i_mtime = le32 b 16, i_dtime = le32 b 20, i_gid = le16 b 24, i_links_count = le16 b 26, i_blocks = le32 b 28,
     i_flags = le32 b 32, i_osd1 = le32 b 36, i_block = map (\<lambda>i. le32 b (40 + 4 * i)) [0..<15],
     i_generation = le32 b 100, i_file_acl = le32 b 104, i_dir_acl = le32 b 108, i_faddr = le32 b 112,
     i_frag = b ! 116, i_fsize = b ! 117, i_pad1 = le16 b 118,
     i_reserved2 = map (\<lambda>i. le32 b (120 + 4 * i)) [0..<2]\<rparr>"

record ext2_dir_entry_2 =
  de_inode :: u32
  rec_len :: u16
  name_len :: u8
  file_type :: u8

definition dirent_at :: "u8 list \<Rightarrow> nat \<Rightarrow> ext2_dir_entry_2" where
  "dirent_at b off = \<lparr>de_inode = le32 b off, rec_len = le16 b (off + 4), name_len = byte_at b off 6,
     file_type = byte_at b off 7\<rparr>"

record mbr_partition =
  boot_indicator :: u8
  start_head :: u8
  start_sector :: u8
  start_cylinder :: u8
  partition_type :: u8
  end_head :: u8
  end_sector :: u8
  end_cylinder :: u8
  start_lba :: u32
  total_sectors :: u32

definition read_partition :: "u8 list \<Rightarrow> nat \<Rightarrow> mbr_partition" where
  "read_partition b i = (let off = 446 + 16 * i in
     \<lparr>boot_indicator = b ! off, start_head = b ! (off + 1), start_sector = b ! (off + 2), start_cylinder = b ! (off + 3),
      partition_type = b ! (off + 4), end_head = b ! (off + 5), end_sector = b ! (off + 6), end_cylinder = b ! (off + 7),
      start_lba = le32 b (off + 8), total_sectors = le32 b (off + 12)\<rparr>)"

section \<open>State\<close>

record 'd fs =
  dev :: 'd
  con :: console
  kmm :: mm
  g_block_size :: u32
  g_inode_size :: u32
  g_inodes_per_block :: u32
  ext2_start_lba :: u32
  g_sb :: "ext2_superblock option"
  fs_gdt :: "ext2_group_desc option"
  safe_inode_buf :: "u8 list"
  find_block_buf :: "u8 list"
  lookup_block_buf :: "u8 list"
  ls_block_buf :: "u8 list"
  cat_block_buf :: "u8 list"
  cat_indirect_buf :: "u8 list"
  g_cwd_id :: u32
  g_cwd_path :: "u8 list"

section \<open>Blocks\<close>

text \<open>Storing \<open>bs\<close> at the start of a static array.\<close>

definition into :: "u8 list \<Rightarrow> u8 list \<Rightarrow> stop + u8 list" where
  "into buf bs = (if length bs \<le> length buf then Inr (bs @ drop (length bs) buf) else Inl Fault)"

definition probe_ext2_partition :: "'d ports \<Rightarrow> 'd fs \<Rightarrow> stop + 'd fs" where
  "probe_ext2_partition P s =
     bindr (orelse (disk_read P 0 1 (dev s)) Hang) (\<lambda>(mbr, d).
       let s = s\<lparr>dev := d\<rparr> in
       if le16 mbr 510 = 0xAA55 then
         (case filter (\<lambda>i. partition_type (read_partition mbr i) = 0x83) [0..<4] of
            i # _ \<Rightarrow> Inr (s\<lparr>ext2_start_lba := start_lba (read_partition mbr i),
                           con := dbg_kv ''fs'' ''ext2_start_lba'' (start_lba (read_partition mbr i)) (con s)\<rparr>)
          | [] \<Rightarrow> Inr (s\<lparr>ext2_start_lba := 0, con := dbg_msg ''fs'' ''no partition table, defaulting to raw lba 0'' (con s)\<rparr>))
       else Inr (s\<lparr>ext2_start_lba := 0, con := dbg_msg ''fs'' ''no partition table, defaulting to raw lba 0'' (con s)\<rparr>))"

text \<open>The shift counts that C leaves undefined, and the division by a zero inode size, are faults.\<close>

definition fs_init :: "ext2_superblock \<Rightarrow> 'd fs \<Rightarrow> stop + 'd fs" where
  "fs_init sb s =
     guardr (s_log_block_size sb < 21) Fault (
     let bs = push_bit (unat (s_log_block_size sb)) 1024;
         isz = (if s_rev_level sb \<ge> 1 then ucast (s_inode_size sb) else 128)
     in guardr (isz \<noteq> 0) Fault (
          Inr (s\<lparr>g_block_size := bs, g_inode_size := isz, g_inodes_per_block := bs div isz,
                 con := dbg_kv ''fs'' ''inode_size'' isz (dbg_kv ''fs'' ''block_size'' bs (con s))\<rparr>)))"

text \<open>The bytes that \<open>read_fs_block\<close> stores at \<open>buf\<close>.\<close>

definition read_fs_block :: "'d ports \<Rightarrow> u32 \<Rightarrow> 'd fs \<Rightarrow> stop + u8 list \<times> 'd fs" where
  "read_fs_block P block_id s =
     (if 0x100000 < block_id then Inl Hang
      else let sectors = g_block_size s div 512; lba = block_id * sectors in
        bindr (orelse (disk_read P (ext2_start_lba s + lba) sectors (dev s)) Hang) (\<lambda>(bs, d).
          Inr (bs, s\<lparr>dev := d\<rparr>)))"

section \<open>Inodes\<close>

text \<open>\<open>out\<close> is the caller's structure before and after the call.\<close>

definition read_inode :: "'d ports \<Rightarrow> u32 \<Rightarrow> ext2_superblock \<Rightarrow> ext2_group_desc \<Rightarrow> u8 list \<Rightarrow> 'd fs \<Rightarrow>
    stop + u8 list \<times> 'd fs" where
  "read_inode P inode_num sb gdt out s =
     (if inode_num = 0 \<or> s_inodes_count sb < inode_num
      then Inr (out, s\<lparr>con := dbg_kv ''inode'' ''invalid_inode'' inode_num (con s)\<rparr>)
      else guardr (g_inode_size s \<noteq> 0) Fault (
        let local_inode_idx = inode_num - 1;
            inode_size = g_inode_size s;
            inodes_per_block = g_block_size s div inode_size
        in if inodes_per_block = 0 then Inl Hang
           else let block_num = bg_inode_table gdt + local_inode_idx div inodes_per_block;
                    offset = unat ((local_inode_idx mod inodes_per_block) * inode_size)
                in bindr (read_fs_block P block_num s) (\<lambda>(bs, s).
                   bindr (into (safe_inode_buf s) bs) (\<lambda>buf.
                   let s = s\<lparr>safe_inode_buf := buf\<rparr> in
                   guardr (offset + unat inode_size \<le> length buf \<and> unat inode_size \<le> length out) Fault (
                     Inr (take (unat inode_size) (drop offset buf) @ drop (unat inode_size) out, s))))))"

text \<open>The callers pass \<open>g_sb\<close> and \<open>fs_gdt\<close>; \<open>junk\<close> is the uninitialised local structure.\<close>

definition get_inode :: "'d ports \<Rightarrow> u8 list \<Rightarrow> u32 \<Rightarrow> 'd fs \<Rightarrow> stop + ext2_inode \<times> 'd fs" where
  "get_inode P junk n s =
     (case (g_sb s, fs_gdt s) of
        (Some sb, Some gdt) \<Rightarrow> bindr (read_inode P n sb gdt junk s) (\<lambda>(b, s). Inr (inode_of b, s))
      | _ \<Rightarrow> Inl Fault)"

end
