(* ===== verification/Ext2_Dir.thy ===== *)
theory Ext2_Dir
  imports Ext2
begin

text \<open>
  Directories, paths and files: \<open>find_inode_in_dir\<close> and \<open>resolve_path\<close> of \<^verbatim>\<open>arch/path.c\<close>,
  \<open>ext2_lookup\<close>, \<open>ext2_ls\<close>, \<open>ext2_cd\<close>, \<open>ext2_cat\<close> of \<^verbatim>\<open>arch/\<close> and \<open>load_file_to_memory\<close> of
  \<^verbatim>\<open>arch/load.c\<close>.

  \<open>find_inode_in_dir\<close>, \<open>ext2_lookup\<close> and \<open>ext2_ls\<close> repeat the same two loops: \<open>dir_loop\<close> goes
  over the blocks of the directory (the indirect block is fetched into a heap buffer when
  it is first needed), \<open>scan_dir\<close> over the entries of one block. What each function does with
  an entry is its visitor; a visitor that answers \<open>Some\<close> takes the \<^verbatim>\<open>goto\<close> out of both loops.
  Each function has its own static block buffer.

  The string routines of the kernel are the parameter \<open>S\<close>, the bytes of an uninitialised
  \<open>struct ext2_inode\<close> the parameter \<open>junk\<close>.
\<close>

section \<open>The loops over a directory\<close>

fun write_bytes :: "u32 \<Rightarrow> u8 list \<Rightarrow> mem \<Rightarrow> mem" where
  "write_bytes p [] m = m"
| "write_bytes p (b # bs) m = write_bytes (p + 1) bs (m(p := b))"

text \<open>
  The loop over the entries of the block in \<open>buf\<close>. The offset stays below \<open>2 ^ 32\<close> as the
  block fits its buffer; the guards are the bytes each access touches.
\<close>

lemma scan_progress: "off < bsz \<Longrightarrow> r \<noteq> 0 \<Longrightarrow> bsz - (off + unat (r :: u16)) < bsz - off"
  using unat_gt_0 [of r] by linarith

function scan_dir :: "(nat \<Rightarrow> 's \<Rightarrow> stop + 'r option \<times> 's) \<Rightarrow> u8 list \<Rightarrow> nat \<Rightarrow> nat \<Rightarrow> 's \<Rightarrow>
    stop + 'r option \<times> 's" where
  "scan_dir visit buf bsz off s =
     (if off < bsz then
        guardr (off + 6 \<le> length buf) Fault (
        let e = dirent_at buf off in
        if rec_len e = 0 \<or> bsz < unat (rec_len e) then Inr (None, s)
        else bindr (if de_inode e \<noteq> 0
                    then guardr (off + 7 \<le> length buf) Fault (if 0 < name_len e then visit off s else Inr (None, s))
                    else Inr (None, s))
               (\<lambda>(r, s). case r of Some x \<Rightarrow> Inr (Some x, s)
                 | None \<Rightarrow> scan_dir visit buf bsz (off + unat (rec_len e)) s))
      else Inr (None, s))"
  by pat_completeness auto
termination
  by (relation "measure (\<lambda>(visit, buf, bsz, off, s). bsz - off)") (auto intro: scan_progress)

declare scan_dir.simps [simp del]

text \<open>
  The loop over the blocks: \<open>n\<close> rounds are left, \<open>blk\<close> is the loop variable, \<open>ind\<close> the pointer
  \<open>indirect_buf\<close>. The result is the value found and the final \<open>indirect_buf\<close>.
\<close>

fun dir_loop :: "link_map \<Rightarrow> 'd ports \<Rightarrow> (u8 list \<Rightarrow> 'd fs \<Rightarrow> stop + 'r option \<times> 'd fs) \<Rightarrow> ext2_inode \<Rightarrow>
    nat \<Rightarrow> nat \<Rightarrow> u32 \<Rightarrow> 'd fs \<Rightarrow> stop + 'r option \<times> u32 \<times> 'd fs" where
  "dir_loop L P body ino 0 blk ind s = Inr (None, ind, s)"
| "dir_loop L P body ino (Suc n) blk ind s =
     (let visit = (\<lambda>block_id ind s.
        if block_id = 0 then dir_loop L P body ino n (Suc blk) ind s
        else bindr (read_fs_block P block_id s) (\<lambda>(bs, s).
             bindr (body bs s) (\<lambda>(r, s). case r of Some x \<Rightarrow> Inr (Some x, ind, s)
               | None \<Rightarrow> dir_loop L P body ino n (Suc blk) ind s)))
      in if blk < 12 then visit (i_block ino ! blk) ind s
         else if i_block ino ! 12 = 0 then Inr (None, ind, s)
         else bindr
           (if ind = 0 then
              bindr (orelse (kmalloc L (g_block_size s) (kmm s)) Hang) (\<lambda>(p, m).
                let s = s\<lparr>kmm := m\<rparr> in
                if p = 0 then Inr (p, s)
                else bindr (read_fs_block P (i_block ino ! 12) s) (\<lambda>(bs, s).
                  Inr (p, s\<lparr>kmm := (kmm s)\<lparr>mm_mem := write_bytes p bs (mm_mem (kmm s))\<rparr>\<rparr>)))
            else Inr (ind, s))
           (\<lambda>(ind, s).
             if ind = 0 then Inr (None, ind, s)
             else let idx = blk - 12 in
               if idx \<ge> unat (g_block_size s div 4) then Inr (None, ind, s)
               else visit (load32 (mm_mem (kmm s)) (ind + 4 * of_nat idx)) ind s))"

definition dir_search :: "link_map \<Rightarrow> 'd ports \<Rightarrow> (u8 list \<Rightarrow> 'd fs \<Rightarrow> stop + 'r option \<times> 'd fs) \<Rightarrow> ext2_inode \<Rightarrow>
    'd fs \<Rightarrow> stop + 'r option \<times> 'd fs" where
  "dir_search L P body ino s =
     guardr (g_block_size s \<noteq> 0) Fault (
     let block_count = (i_size ino + g_block_size s - 1) div g_block_size s in
     if block_count = 0 then Inr (None, s)
     else bindr (dir_loop L P body ino (unat block_count) 0 0 s) (\<lambda>(r, ind, s).
       Inr (r, if ind \<noteq> 0 then s\<lparr>kmm := kfree ind (kmm s)\<rparr> else s)))"

section \<open>Looking a name up\<close>

definition find_visit :: "str_ops \<Rightarrow> u8 list \<Rightarrow> u8 list \<Rightarrow> nat \<Rightarrow> 'd fs \<Rightarrow> stop + u32 option \<times> 'd fs" where
  "find_visit S name buf off s =
     (let e = dirent_at buf off in
      bindr (orelse (op_strncmp S (drop (off + 8) buf) name (unat (name_len e))) Fault) (\<lambda>r.
        if r = 0 then
          bindr (orelse (op_strlen S name) Fault) (\<lambda>n.
            if unat (name_len e) = n then Inr (Some (de_inode e), s) else Inr (None, s))
        else Inr (None, s)))"

definition find_block :: "str_ops \<Rightarrow> u8 list \<Rightarrow> u8 list \<Rightarrow> 'd fs \<Rightarrow> stop + u32 option \<times> 'd fs" where
  "find_block S name bs s =
     bindr (into (find_block_buf s) bs) (\<lambda>buf.
       scan_dir (find_visit S name buf) buf (unat (g_block_size s)) 0 (s\<lparr>find_block_buf := buf\<rparr>))"

definition find_inode_in_dir :: "link_map \<Rightarrow> 'd ports \<Rightarrow> str_ops \<Rightarrow> u8 list \<Rightarrow> u32 \<Rightarrow> u8 list \<Rightarrow> 'd fs \<Rightarrow>
    stop + u32 \<times> 'd fs" where
  "find_inode_in_dir L P S junk parent_inode name s =
     bindr (get_inode P junk parent_inode s) (\<lambda>(dir_inode, s).
       if i_mode dir_inode AND 0xF000 \<noteq> 0x4000 then Inr (0, s)
       else bindr (dir_search L P (find_block S name) dir_inode s) (\<lambda>(r, s).
         Inr (case r of None \<Rightarrow> 0 | Some i \<Rightarrow> i, s)))"

definition lookup_visit :: "str_ops \<Rightarrow> u8 list \<Rightarrow> u8 list \<Rightarrow> nat \<Rightarrow> 'd fs \<Rightarrow> stop + u32 option \<times> 'd fs" where
  "lookup_visit S name buf off s =
     (let e = dirent_at buf off; len = unat (name_len e) in
      guardr (off + 8 + len \<le> length buf) Fault (
      let name_buf = take len (drop (off + 8) buf) @ [0] in
      bindr (orelse (op_strcmp S name_buf name) Fault) (\<lambda>r.
        if r = 0 then Inr (Some (de_inode e), s) else Inr (None, s))))"

definition lookup_block :: "str_ops \<Rightarrow> u8 list \<Rightarrow> u8 list \<Rightarrow> 'd fs \<Rightarrow> stop + u32 option \<times> 'd fs" where
  "lookup_block S name bs s =
     bindr (into (lookup_block_buf s) bs) (\<lambda>buf.
       scan_dir (lookup_visit S name buf) buf (unat (g_block_size s)) 0 (s\<lparr>lookup_block_buf := buf\<rparr>))"

definition ext2_lookup :: "link_map \<Rightarrow> 'd ports \<Rightarrow> str_ops \<Rightarrow> u8 list \<Rightarrow> u32 \<Rightarrow> u8 list \<Rightarrow> 'd fs \<Rightarrow>
    stop + u32 \<times> 'd fs" where
  "ext2_lookup L P S junk dir_inode_num name s =
     bindr (get_inode P junk dir_inode_num s) (\<lambda>(inode, s).
       if i_mode inode AND 0xF000 \<noteq> 0x4000 then Inr (0, s)
       else bindr (dir_search L P (lookup_block S name) inode s) (\<lambda>(r, s).
         Inr (case r of None \<Rightarrow> 0 | Some i \<Rightarrow> i, s)))"

section \<open>Paths\<close>

text \<open>
  The inner loop of \<open>resolve_path\<close> with \<open>k = 31 - i\<close>: the bytes copied to \<open>name\<close> and the rest of
  the path.
\<close>

fun take_name :: "nat \<Rightarrow> u8 list \<Rightarrow> (u8 list \<times> u8 list) option" where
  "take_name k [] = None"
| "take_name 0 (c # path) = Some ([], c # path)"
| "take_name (Suc k) (c # path) =
     (if c \<noteq> 0x2F \<and> c \<noteq> 0 then map_option (\<lambda>(nm, rest). (c # nm, rest)) (take_name k path)
      else Some ([], c # path))"

fun skip_slash :: "u8 list \<Rightarrow> u8 list" where
  "skip_slash [] = []"
| "skip_slash (c # path) = (if c = 0x2F then path else c # path)"

lemma take_name_length: "take_name k path = Some (nm, rest) \<Longrightarrow> length rest \<le> length path"
  by (induction k path arbitrary: nm rest rule: take_name.induct) (fastforce split: if_splits)+

lemma take_name_progress:
  "take_name (Suc k) (c # path) = Some (nm, rest) \<Longrightarrow> c \<noteq> 0 \<Longrightarrow>
   length (skip_slash rest) < Suc (length path)"
  by (cases rest) (auto split: if_splits dest!: take_name_length)

function resolve_loop :: "link_map \<Rightarrow> 'd ports \<Rightarrow> str_ops \<Rightarrow> u8 list \<Rightarrow> u8 list \<Rightarrow> u32 \<Rightarrow> 'd fs \<Rightarrow>
    stop + u32 \<times> 'd fs" where
  "resolve_loop L P S junk [] current_inode s = Inl Fault"
| "resolve_loop L P S junk (c # path) current_inode s =
     (if c = 0 then Inr (current_inode, s)
      else case take_name 31 (c # path) of None \<Rightarrow> Inl Fault | Some (name, rest) \<Rightarrow>
        bindr (find_inode_in_dir L P S junk current_inode (name @ [0]) s) (\<lambda>(i, s).
          if i = 0 then Inr (0, s)
          else resolve_loop L P S junk (skip_slash rest) i s))"
  by pat_completeness auto
termination
  by (relation "measure (\<lambda>(L, P, S, junk, path, i, s). length path)")
    (auto dest!: take_name_progress [where k = 30, simplified])

declare resolve_loop.simps [simp del]

definition resolve_path :: "link_map \<Rightarrow> 'd ports \<Rightarrow> str_ops \<Rightarrow> u8 list \<Rightarrow> u8 list option \<Rightarrow> 'd fs \<Rightarrow>
    stop + u32 \<times> 'd fs" where
  "resolve_path L P S junk path_ptr s =
     (case path_ptr of None \<Rightarrow> Inr (0, s) | Some path \<Rightarrow>
      guardr (path \<noteq> []) Fault (
      if hd path = 0 then Inr (0, s)
      else bindr (orelse (op_strcmp S path [0x2F, 0]) Fault) (\<lambda>r.
        if r = 0 then Inr (2, s)
        else resolve_loop L P S junk (if hd path = 0x2F then tl path else path) 2 s)))"

end
