(* ===== verification/Ext2_Volume.thy ===== *)
theory Ext2_Volume
  imports Ext2_Dir
begin

text \<open>
  The volume behind the file system layer: what a ready file system reads from a drive that
  holds the sectors \<open>sec\<close>. A block is the concatenation of its sectors, an inode the 128
  bytes of its slot in the inode table. \<open>fs_ready\<close> collects what the reads need: an idle
  drive that keeps the ATA protocol, a block size that the static buffers hold, 128-byte
  inodes, and a volume below the 28-bit limit.
\<close>

section \<open>Blocks of the volume\<close>

definition vblock :: "(nat \<Rightarrow> u8 list) \<Rightarrow> 'd fs \<Rightarrow> u32 \<Rightarrow> u8 list" where
  "vblock sec s b =
     (let k = unat (g_block_size s) div 512; a = unat (ext2_start_lba s) + unat b * k
      in concat (map sec [a..<a + k]))"

definition fs_ready :: "'d ports \<Rightarrow> (nat \<Rightarrow> u8 list) \<Rightarrow> ('d \<Rightarrow> bool) \<Rightarrow> 'd fs \<Rightarrow> bool" where
  "fs_ready P sec idle s \<longleftrightarrow>
     disk_ok P sec idle \<and> idle (dev s) \<and> g_block_size s \<in> {1024, 2048, 4096} \<and> g_inode_size s = 128 \<and>
     unat (ext2_start_lba s) + 8 * (2 ^ 20 + 1) \<le> 2 ^ 28 \<and>
     (\<exists>sb gdt. g_sb s = Some sb \<and> fs_gdt s = Some gdt \<and>
        unat (bg_inode_table gdt) + unat (s_inodes_count sb) \<le> 0x100000) \<and>
     length (safe_inode_buf s) = 4096 \<and> length (find_block_buf s) = 4096 \<and> length (lookup_block_buf s) = 4096 \<and>
     length (ls_block_buf s) = 4096 \<and> length (cat_block_buf s) = 4096 \<and> length (cat_indirect_buf s) = 4096"

definition fs_conf :: "'d fs \<Rightarrow> u32 \<times> u32 \<times> u32 \<times> ext2_superblock option \<times> ext2_group_desc option" where
  "fs_conf s = (g_block_size s, g_inode_size s, ext2_start_lba s, g_sb s, fs_gdt s)"

text \<open>A step that only used the drive and the buffers.\<close>

definition quiet :: "'d fs \<Rightarrow> 'd fs \<Rightarrow> bool" where
  "quiet s s' \<longleftrightarrow> fs_conf s' = fs_conf s \<and> con s' = con s \<and> kmm s' = kmm s \<and>
     g_cwd_id s' = g_cwd_id s \<and> g_cwd_path s' = g_cwd_path s"

lemma quiet_refl [simp]: "quiet s s"
  by (simp add: quiet_def)

lemma quiet_trans [trans]: "quiet s s' \<Longrightarrow> quiet s' s'' \<Longrightarrow> quiet s s''"
  by (simp add: quiet_def)

lemma quietD:
  "quiet s s' \<Longrightarrow> fs_conf s' = fs_conf s" "quiet s s' \<Longrightarrow> con s' = con s" "quiet s s' \<Longrightarrow> kmm s' = kmm s"
  by (simp_all add: quiet_def)

lemma vblock_conf: "fs_conf s' = fs_conf s \<Longrightarrow> vblock sec s' b = vblock sec s b"
  by (simp add: vblock_def fs_conf_def)

lemma fs_ready_block_size:
  "fs_ready P sec idle s \<Longrightarrow> unat (g_block_size s) \<in> {1024, 2048, 4096}"
  by (auto simp: fs_ready_def)

lemma length_vblock:
  assumes "fs_ready P sec idle s"
  shows "length (vblock sec s b) = unat (g_block_size s)"
proof -
  have "length (sec lba) = 512" for lba using assms by (auto simp: fs_ready_def intro: disk_ok_length)
  from length_concat_map [of sec 512, OF this] fs_ready_block_size [OF assms] show ?thesis
    by (auto simp: vblock_def Let_def)
qed

lemma read_fs_block_ok:
  assumes R: "fs_ready P sec idle s" and b: "b \<le> 0x100000"
  shows "\<exists>d. read_fs_block P b s = Inr (vblock sec s b, s\<lparr>dev := d\<rparr>) \<and> idle d"
proof -
  define k where "k = unat (g_block_size s) div 512"
  have k: "0 < k" "k \<le> 8" using fs_ready_block_size [OF R] by (auto simp: k_def)
  have ub: "unat b \<le> 0x100000" using b by (simp add: word_le_nat_alt)
  define a where "a = unat (ext2_start_lba s) + unat b * k"
  have "unat b * k + k \<le> (0x100000 + 1) * 8"
    using mult_le_mono [of "unat b + 1" "0x100000 + 1" k 8] ub k(2) by simp
  moreover have "unat (ext2_start_lba s) + 8 * (2 ^ 20 + 1) \<le> 2 ^ 28" using R by (simp add: fs_ready_def)
  ultimately have bound: "a + k \<le> 2 ^ 28" unfolding a_def by simp
  have sec: "g_block_size s div 512 = of_nat k"
    by (rule eq_of_natI) (simp add: k_def unat_div)
  have lba: "ext2_start_lba s + b * of_nat k = of_nat a" by (simp add: a_def)
  have "disk_ok P sec idle" "idle (dev s)" using R by (simp_all add: fs_ready_def)
  from disk_read_ok [OF this k(1) _ bound] k(2) obtain d where
    "disk_read P (of_nat a) (of_nat k) (dev s) = Some (concat (map sec [a..<a + k]), d)" "idle d" by auto
  then show ?thesis
    using b unfolding read_fs_block_def Let_def sec lba by (auto simp: vblock_def Let_def k_def a_def)
qed

lemma fs_ready_dev: "fs_ready P sec idle s \<Longrightarrow> idle d \<Longrightarrow> fs_ready P sec idle (s\<lparr>dev := d\<rparr>)"
  by (simp add: fs_ready_def)

lemma into_ok: "length bs \<le> length buf \<Longrightarrow> into buf bs = Inr (bs @ drop (length bs) buf)"
  by (simp add: into_def)

section \<open>Inodes of the volume\<close>

definition slot_bytes :: "(nat \<Rightarrow> u8 list) \<Rightarrow> 'd fs \<Rightarrow> u32 \<Rightarrow> u8 list" where
  "slot_bytes sec s n =
     (let ipb = unat (g_block_size s) div 128; i = unat n - 1
      in take 128 (drop ((i mod ipb) * 128) (vblock sec s (bg_inode_table (the (fs_gdt s)) + of_nat (i div ipb)))))"

definition slot_inode :: "(nat \<Rightarrow> u8 list) \<Rightarrow> 'd fs \<Rightarrow> u32 \<Rightarrow> ext2_inode" where
  "slot_inode sec s n = inode_of (slot_bytes sec s n)"

definition valid_inode :: "'d fs \<Rightarrow> u32 \<Rightarrow> bool" where
  "valid_inode s n \<longleftrightarrow> n \<noteq> 0 \<and> n \<le> s_inodes_count (the (g_sb s))"

lemma slot_inode_conf: "fs_conf s' = fs_conf s \<Longrightarrow> slot_inode sec s' n = slot_inode sec s n"
  using vblock_conf [of s' s sec] by (simp add: slot_inode_def slot_bytes_def fs_conf_def)

lemma valid_inode_conf: "fs_conf s' = fs_conf s \<Longrightarrow> valid_inode s' n = valid_inode s n"
  by (simp add: valid_inode_def fs_conf_def)

lemma read_inode_ok:
  assumes R: "fs_ready P sec idle s" and sb: "g_sb s = Some sb" and gdt: "fs_gdt s = Some gdt"
    and n: "valid_inode s n" and out: "length out = 128"
  shows "\<exists>s'. read_inode P n sb gdt out s = Inr (slot_bytes sec s n, s') \<and> fs_ready P sec idle s' \<and> quiet s s'"
proof -
  define ipb where "ipb = unat (g_block_size s) div 128"
  define i where "i = unat n - 1"
  have ipb: "0 < ipb" "ipb < 2 ^ 32" "ipb * 128 = unat (g_block_size s)"
    using fs_ready_block_size [OF R] by (auto simp: ipb_def)
  have cnt: "unat n \<le> unat (s_inodes_count sb)" and n0: "n \<noteq> 0"
    using n sb by (simp_all add: valid_inode_def word_le_nat_alt)
  have ui: "unat (n - 1) = i" using n0 unat_minus_one [of n] by (simp add: i_def)
  have per: "g_block_size s div 128 = of_nat ipb" "unat (of_nat ipb :: u32) = ipb"
    using ipb(2) by (auto intro!: eq_of_natI simp: ipb_def unat_div unat_of_nat_u32)
  have idx: "(n - 1) div of_nat ipb = of_nat (i div ipb)" "(n - 1) mod of_nat ipb = of_nat (i mod ipb)"
    by (rule eq_of_natI; simp add: unat_div unat_mod ui per(2))+
  define b where "b = bg_inode_table gdt + of_nat (i div ipb)"
  define off where "off = (i mod ipb) * 128"
  have "i div ipb \<le> i" "i \<le> unat n" by (simp_all add: i_def)
  moreover have "unat (bg_inode_table gdt) + unat (s_inodes_count sb) \<le> 0x100000"
    using R sb gdt by (auto simp: fs_ready_def)
  ultimately have "unat (bg_inode_table gdt) + i div ipb \<le> 0x100000" using cnt by linarith
  then have b: "b \<le> 0x100000"
    unfolding b_def word_le_nat_alt by (subst unat_add_u32) (simp_all add: unat_of_nat_u32)
  have off: "off + 128 \<le> unat (g_block_size s)"
    using mod_less_divisor [OF ipb(1), of i] ipb(3) unfolding off_def by linarith
  have uoff: "unat (of_nat (i mod ipb) * 128 :: u32) = off"
    using off unat_u32_less [of "g_block_size s"] unat_of_nat_u32 [of off] by (simp add: off_def)
  obtain d where rd: "read_fs_block P b s = Inr (vblock sec s b, s\<lparr>dev := d\<rparr>)" "idle d"
    using read_fs_block_ok [OF R b] by blast
  have bs: "unat (g_block_size s) \<le> 4096" using fs_ready_block_size [OF R] by auto
  have buf: "length (safe_inode_buf s) = 4096" and isz: "g_inode_size s = 128" using R by (simp_all add: fs_ready_def)
  have ne: "(of_nat ipb :: u32) \<noteq> 0" using ipb per(2) by (metis less_numeral_extra(3) unsigned_0)
  have le: "\<not> s_inodes_count sb < n" using cnt by (simp add: word_le_nat_alt not_less)
  let ?buf = "vblock sec s b @ drop (unat (g_block_size s)) (safe_inode_buf s)"
  have "read_inode P n sb gdt out s =
      Inr (take 128 (drop off (vblock sec s b)), s\<lparr>dev := d, safe_inode_buf := ?buf\<rparr>)"
    using n0 le ne off out rd(1) [unfolded b_def] bs length_vblock [OF R, of b]
    by (simp add: read_inode_def isz per(1) idx into_ok buf uoff b_def [symmetric])
  moreover have "take 128 (drop off (vblock sec s b)) = slot_bytes sec s n"
    by (simp add: slot_bytes_def gdt off_def b_def ipb_def i_def Let_def)
  moreover have "fs_ready P sec idle (s\<lparr>dev := d, safe_inode_buf := ?buf\<rparr>)"
    using R rd(2) bs by (simp add: fs_ready_def length_vblock [OF R])
  ultimately show ?thesis by (auto simp: quiet_def fs_conf_def)
qed

lemma get_inode_ok:
  assumes R: "fs_ready P sec idle s" and n: "valid_inode s n" and "length junk = 128"
  shows "\<exists>s'. get_inode P junk n s = Inr (slot_inode sec s n, s') \<and> fs_ready P sec idle s' \<and> quiet s s'"
proof -
  obtain sb gdt where "g_sb s = Some sb" "fs_gdt s = Some gdt" using R by (auto simp: fs_ready_def)
  with read_inode_ok [OF R this n assms(3)] show ?thesis by (auto simp: get_inode_def slot_inode_def)
qed

end
