(* ===== verification/Ext2_Walk.thy ===== *)
theory Ext2_Walk
  imports Ext2_Volume
begin

text \<open>
  The directory loops against the volume. \<open>dirents\<close> lists the entries of a block, \<open>dir_blocks\<close>
  the blocks of a directory; on a directory whose entries stay inside their blocks, the
  loops visit exactly the used entries of these blocks in order, until a visitor answers,
  and give the heap buffer for the indirect block back.
\<close>

section \<open>Bytes and memory\<close>

lemma byte_at_append: "off + i < length b \<Longrightarrow> byte_at (b @ r) off i = byte_at b off i"
  by (simp add: byte_at_def nth_append)

lemma dirent_at_append:
  assumes "off + 8 \<le> length b"
  shows "dirent_at (b @ r) off = dirent_at b off"
  using assms by (simp add: dirent_at_def le32_def le16_def byte_at_append)

lemma write_bytes_apply:
  "length bs < 2 ^ 32 \<Longrightarrow> write_bytes p bs m x = (if unat (x - p) < length bs then bs ! unat (x - p) else m x)"
proof (induction bs arbitrary: p m)
  case (Cons b bs)
  have IH: "write_bytes (p + 1) bs (m(p := b)) x =
      (if unat (x - (p + 1)) < length bs then bs ! unat (x - (p + 1)) else (m(p := b)) x)"
    using Cons by simp
  show ?case
  proof (cases "x = p")
    case True
    have "unat (- 1 :: u32) = 2 ^ 32 - 1" by (simp add: unsigned_minus_1_eq_mask mask_eq_exp_minus_1)
    then show ?thesis using True Cons.prems IH by simp
  next
    case False
    then have "unat (x - p) = Suc (unat (x - (p + 1)))"
      using unat_minus_one [of "x - p"] unat_gt_0 [of "x - p"] by (simp add: diff_diff_eq)
    with False show ?thesis by (simp add: IH)
  qed
qed simp

lemma write_bytes_changes:
  assumes "length bs < 2 ^ 32" and "unat p + length bs \<le> 2 ^ 32"
  shows "changes_only (unat p) (length bs) m (write_bytes p bs m)"
  unfolding changes_only_def
proof (intro allI impI)
  fix x :: nat assume x: "x < 2 ^ 32" "x < unat p \<or> unat p + length bs \<le> x"
  show "write_bytes p bs m (of_nat x) = m (of_nat x)"
  proof (cases "bs = []")
    case False
    with nat_dist_u32 [OF x(1) assms(2) x(2)] show ?thesis
      by (simp add: write_bytes_apply [OF assms(1)])
  qed simp
qed

lemma load32_write_bytes:
  assumes "i + 4 \<le> length bs" and "length bs < 2 ^ 32"
  shows "load32 (write_bytes p bs m) (p + of_nat i) = le32 bs i"
proof -
  have "write_bytes p bs m (p + of_nat i + of_nat j) = bs ! (i + j)" if "j < 4" for j
    using assms that unat_of_nat_u32 [of "i + j"] by (simp add: write_bytes_apply add.assoc [symmetric] diff_add_eq)
  from this [of 0] this [of 1] this [of 2] this [of 3] show ?thesis
    by (simp add: load32_def le32_def byte_at_def)
qed

section \<open>The entries of a block\<close>

function dirents :: "nat \<Rightarrow> u8 list \<Rightarrow> nat \<Rightarrow> (ext2_dir_entry_2 \<times> u8 list) list" where
  "dirents bsz b off =
     (if off < bsz then
        let e = dirent_at b off in
        if rec_len e = 0 \<or> bsz < unat (rec_len e) then []
        else (e, take (unat (name_len e)) (drop (off + 8) b)) # dirents bsz b (off + unat (rec_len e))
      else [])"
  by pat_completeness auto
termination
  by (relation "measure (\<lambda>(bsz, b, off). bsz - off)") (auto intro: scan_progress)

declare dirents.simps [simp del]

definition live_entry :: "ext2_dir_entry_2 \<times> u8 list \<Rightarrow> bool" where
  "live_entry x \<longleftrightarrow> de_inode (fst x) \<noteq> 0 \<and> 0 < name_len (fst x)"

text \<open>Every entry the walk reaches lies inside the block, and no name holds a zero byte.\<close>

function dir_block_ok :: "nat \<Rightarrow> u8 list \<Rightarrow> nat \<Rightarrow> bool" where
  "dir_block_ok bsz b off =
     (if off < bsz then
        off + 8 \<le> bsz \<and>
        (let e = dirent_at b off in
         if rec_len e = 0 \<or> bsz < unat (rec_len e) then True
         else (de_inode e \<noteq> 0 \<and> 0 < name_len e \<longrightarrow>
            off + 8 + unat (name_len e) \<le> bsz \<and> 0 \<notin> set (take (unat (name_len e)) (drop (off + 8) b))) \<and>
         dir_block_ok bsz b (off + unat (rec_len e)))
      else True)"
  by pat_completeness auto
termination
  by (relation "measure (\<lambda>(bsz, b, off). bsz - off)") (auto intro: scan_progress)

declare dir_block_ok.simps [simp del]

text \<open>What visiting a list does: \<open>rf\<close> says which visit ends the loop, \<open>step\<close> its effect.\<close>

fun visits :: "('x \<Rightarrow> 'r option) \<Rightarrow> ('x \<Rightarrow> 's \<Rightarrow> 's) \<Rightarrow> 'x list \<Rightarrow> 's \<Rightarrow> 'r option \<times> 's" where
  "visits rf step [] s = (None, s)"
| "visits rf step (x # xs) s = (case rf x of Some r \<Rightarrow> (Some r, step x s) | None \<Rightarrow> visits rf step xs (step x s))"

lemma visits_append:
  "visits rf step (xs @ ys) s =
     (case visits rf step xs s of (Some r, s') \<Rightarrow> (Some r, s') | (None, s') \<Rightarrow> visits rf step ys s')"
  by (induction xs arbitrary: s) (auto split: option.splits)

lemma visits_pure: "visits rf (\<lambda>x s. s) xs s = (fst (visits rf (\<lambda>x s. s) xs ()), s)"
  by (induction xs) (auto split: option.splits)

lemma visits_all: "visits (\<lambda>x. None) step xs s = (None, fold step xs s)"
  by (induction xs arbitrary: s) auto

lemma scan_dir_ok:
  assumes len: "length b = bsz" and ok: "dir_block_ok bsz b off"
    and visit: "\<And>off s. off + 8 + unat (name_len (dirent_at b off)) \<le> bsz \<Longrightarrow>
        0 \<notin> set (take (unat (name_len (dirent_at b off))) (drop (off + 8) b)) \<Longrightarrow>
        visit off s = (let x = (dirent_at b off, take (unat (name_len (dirent_at b off))) (drop (off + 8) b))
                       in Inr (rf x, step x s))"
  shows "scan_dir visit (b @ rest) bsz off s = Inr (visits rf step (filter live_entry (dirents bsz b off)) s)"
  using ok
proof (induction "bsz - off" arbitrary: off s rule: less_induct)
  case less
  show ?case
  proof (cases "off < bsz")
    case True
    let ?e = "dirent_at b off" and ?nm = "take (unat (name_len (dirent_at b off))) (drop (off + 8) b)"
    have o8: "off + 8 \<le> bsz" using less.prems True dir_block_ok.simps [of bsz b off] by simp
    then have e: "dirent_at (b @ rest) off = ?e" by (simp add: dirent_at_append len)
    show ?thesis
    proof (cases "rec_len ?e = 0 \<or> bsz < unat (rec_len ?e)")
      case True
      then show ?thesis using \<open>off < bsz\<close> o8 len e
        by (subst scan_dir.simps, subst dirents.simps) auto
    next
      case False
      have name: "de_inode ?e \<noteq> 0 \<and> 0 < name_len ?e \<longrightarrow> off + 8 + unat (name_len ?e) \<le> bsz \<and> 0 \<notin> set ?nm"
        and next_ok: "dir_block_ok bsz b (off + unat (rec_len ?e))"
        using less.prems True False dir_block_ok.simps [of bsz b off] by (simp_all add: Let_def)
      have IH: "scan_dir visit (b @ rest) bsz (off + unat (rec_len ?e)) s =
          Inr (visits rf step (filter live_entry (dirents bsz b (off + unat (rec_len ?e)))) s)" for s
        using less.hyps [OF _ next_ok] scan_progress [OF True] False by blast
      have D: "dirents bsz b off = (?e, ?nm) # dirents bsz b (off + unat (rec_len ?e))"
        using True False by (subst dirents.simps) (simp add: Let_def)
      have S: "scan_dir visit (b @ rest) bsz off s =
          bindr (if live_entry (?e, ?nm) then visit off s else Inr (None, s))
            (\<lambda>(r, s). case r of Some x \<Rightarrow> Inr (Some x, s)
               | None \<Rightarrow> scan_dir visit (b @ rest) bsz (off + unat (rec_len ?e)) s)"
        using True False o8 len e by (subst scan_dir.simps) (auto simp: live_entry_def Let_def)
      show ?thesis
      proof (cases "live_entry (?e, ?nm)")
        case True
        then have "visit off s = Inr (rf (?e, ?nm), step (?e, ?nm) s)"
          using visit [of off s] name by (simp add: live_entry_def Let_def)
        then show ?thesis using True by (simp add: S D IH split: option.splits)
      next
        case False
        then show ?thesis by (simp add: S D IH)
      qed
    qed
  next
    case False
    then show ?thesis by (subst scan_dir.simps, subst dirents.simps) simp
  qed
qed

section \<open>The blocks of a directory\<close>

definition block_count :: "'d fs \<Rightarrow> ext2_inode \<Rightarrow> nat" where
  "block_count s ino = unat ((i_size ino + g_block_size s - 1) div g_block_size s)"

text \<open>The number of the \<open>i\<close>-th block of a file, through the indirect block from 12 on.\<close>

definition file_block :: "(nat \<Rightarrow> u8 list) \<Rightarrow> 'd fs \<Rightarrow> ext2_inode \<Rightarrow> nat \<Rightarrow> u32" where
  "file_block sec s ino i =
     (if i < 12 then i_block ino ! i else le32 (vblock sec s (i_block ino ! 12)) (4 * (i - 12)))"

text \<open>How many blocks can be reached; \<open>mem\<close> says whether the indirect buffer can be had.\<close>

definition reach_blocks :: "'d fs \<Rightarrow> ext2_inode \<Rightarrow> bool \<Rightarrow> nat" where
  "reach_blocks s ino mem = (if i_block ino ! 12 = 0 \<or> \<not> mem then 12 else 12 + unat (g_block_size s) div 4)"

definition block_ids :: "(nat \<Rightarrow> u8 list) \<Rightarrow> 'd fs \<Rightarrow> ext2_inode \<Rightarrow> nat \<Rightarrow> nat \<Rightarrow> u32 list" where
  "block_ids sec s ino a b = filter (\<lambda>i. i \<noteq> 0) (map (file_block sec s ino) [a..<b])"

lemma block_ids_Cons:
  "a < b \<Longrightarrow> block_ids sec s ino a b =
     (if file_block sec s ino a = 0 then [] else [file_block sec s ino a]) @ block_ids sec s ino (Suc a) b"
  by (simp add: block_ids_def upt_conv_Cons)

lemma block_ids_Nil: "b \<le> a \<Longrightarrow> block_ids sec s ino a b = []"
  by (simp add: block_ids_def)

text \<open>The memory manager before the indirect block is fetched, and after.\<close>

definition ind_state :: "(nat \<Rightarrow> u8 list) \<Rightarrow> 'd fs \<Rightarrow> ext2_inode \<Rightarrow> link_map \<Rightarrow> mm \<Rightarrow> u32 \<Rightarrow> mm \<Rightarrow> bool" where
  "ind_state sec s ino L m0 ind m \<longleftrightarrow>
     ind = 0 \<and> m = m0 \<or>
     ind \<noteq> 0 \<and> (\<exists>m1. kmalloc L (g_block_size s) m0 = Some (ind, m1) \<and>
        m = m1\<lparr>mm_mem := write_bytes ind (vblock sec s (i_block ino ! 12)) (mm_mem m1)\<rparr>)"

text \<open>The effect of a loop body on one block: an answer, and what it prints.\<close>

definition body_ok :: "'d ports \<Rightarrow> (nat \<Rightarrow> u8 list) \<Rightarrow> ('d \<Rightarrow> bool) \<Rightarrow> 'd fs \<Rightarrow> (u8 list \<Rightarrow> 'd fs \<Rightarrow> stop + 'r option \<times> 'd fs) \<Rightarrow>
    (u8 list \<Rightarrow> 'r option) \<Rightarrow> (u8 list \<Rightarrow> console \<Rightarrow> console) \<Rightarrow> u8 list \<Rightarrow> bool" where
  "body_ok P sec idle s0 body rf cf b \<longleftrightarrow>
     (\<forall>s. fs_ready P sec idle s \<and> fs_conf s = fs_conf s0 \<longrightarrow>
        (\<exists>s'. body b s = Inr (rf b, s') \<and> fs_ready P sec idle s' \<and> quiet (s\<lparr>con := cf b (con s)\<rparr>) s'))"

lemma body_okD:
  assumes "body_ok P sec idle s0 body rf cf b" and "fs_ready P sec idle s" and "fs_conf s = fs_conf s0"
  obtains s' where "body b s = Inr (rf b, s')" "fs_ready P sec idle s'" "quiet (s\<lparr>con := cf b (con s)\<rparr>) s'"
  using assms unfolding body_ok_def by blast

text \<open>The state of the loop relative to its start \<open>s0\<close>.\<close>

definition loop_inv :: "'d ports \<Rightarrow> (nat \<Rightarrow> u8 list) \<Rightarrow> ('d \<Rightarrow> bool) \<Rightarrow> link_map \<Rightarrow> ext2_inode \<Rightarrow> 'd fs \<Rightarrow>
    u32 \<Rightarrow> console \<Rightarrow> 'd fs \<Rightarrow> bool" where
  "loop_inv P sec idle L ino s0 ind k s \<longleftrightarrow> fs_ready P sec idle s \<and> fs_conf s = fs_conf s0 \<and> con s = k \<and>
     g_cwd_id s = g_cwd_id s0 \<and> g_cwd_path s = g_cwd_path s0 \<and> ind_state sec s0 ino L (kmm s0) ind (kmm s)"

lemma loop_inv_dev:
  "loop_inv P sec idle L ino s0 ind k s \<Longrightarrow> idle d \<Longrightarrow> loop_inv P sec idle L ino s0 ind k (s\<lparr>dev := d\<rparr>)"
  by (simp add: loop_inv_def fs_ready_dev fs_conf_def)

lemma loop_inv_quiet:
  assumes "loop_inv P sec idle L ino s0 ind k s" and "quiet (s\<lparr>con := k'\<rparr>) s'" and "fs_ready P sec idle s'"
  shows "loop_inv P sec idle L ino s0 ind k' s'"
  using assms by (simp add: loop_inv_def quiet_def fs_conf_def)

lemma heap_inv_room: "fs_ready P sec idle s \<Longrightarrow> unat (g_block_size s) \<le> 0xFFFFFFD0"
  using fs_ready_block_size [of P sec idle s] by auto

lemma fetch_indirect:
  assumes I: "loop_inv P sec idle L ino s0 ind k s" and hl: "heap_link L" "heap_inv L (kmm s0)"
    and b12: "i_block ino ! 12 \<le> 0x100000"
  shows "\<exists>ind' s'. (if ind = 0 then
       bindr (orelse (kmalloc L (g_block_size s) (kmm s)) Hang) (\<lambda>(p, m).
         let s = s\<lparr>kmm := m\<rparr> in
         if p = 0 then Inr (p, s)
         else bindr (read_fs_block P (i_block ino ! 12) s) (\<lambda>(bs, s).
           Inr (p, s\<lparr>kmm := (kmm s)\<lparr>mm_mem := write_bytes p bs (mm_mem (kmm s))\<rparr>\<rparr>)))
     else Inr (ind, s)) = Inr (ind', s') \<and> loop_inv P sec idle L ino s0 ind' k s' \<and>
     (ind' = 0 \<longleftrightarrow> (\<exists>m. kmalloc L (g_block_size s0) (kmm s0) = Some (0, m)))"
proof (cases "ind = 0")
  case False
  with I show ?thesis by (auto simp: loop_inv_def ind_state_def)
next
  case True
  have R: "fs_ready P sec idle s" and conf: "fs_conf s = fs_conf s0" and km: "kmm s = kmm s0"
    using I True by (auto simp: loop_inv_def ind_state_def)
  have bs: "g_block_size s0 = g_block_size s" using conf by (simp add: fs_conf_def)
  obtain p m where m: "kmalloc L (g_block_size s) (kmm s) = Some (p, m)"
    using kheap.alloc_returns [of L "kmm s" "g_block_size s"] hl heap_inv_room [OF R] km by auto
  show ?thesis
  proof (cases "p = 0")
    case p0: True
    then have "m = kmm s"
      using kheap.alloc_null [of L "kmm s" "g_block_size s" m] m hl heap_inv_room [OF R] km by simp
    then have "s\<lparr>kmm := m\<rparr> = s" by simp
    then show ?thesis using True p0 m I km bs by auto
  next
    case p: False
    have R1: "fs_ready P sec idle (s\<lparr>kmm := m\<rparr>)" using R by (simp add: fs_ready_def)
    obtain d where d: "read_fs_block P (i_block ino ! 12) (s\<lparr>kmm := m\<rparr>) =
        Inr (vblock sec (s\<lparr>kmm := m\<rparr>) (i_block ino ! 12), s\<lparr>kmm := m, dev := d\<rparr>)" "idle d"
      using read_fs_block_ok [OF R1 b12] by auto
    have vb: "vblock sec (s\<lparr>kmm := m\<rparr>) (i_block ino ! 12) = vblock sec s0 (i_block ino ! 12)"
      using conf by (intro vblock_conf) (simp add: fs_conf_def)
    let ?s' = "s\<lparr>dev := d, kmm := m\<lparr>mm_mem := write_bytes p (vblock sec s0 (i_block ino ! 12)) (mm_mem m)\<rparr>\<rparr>"
    have "loop_inv P sec idle L ino s0 p k ?s'"
      using I p d(2) m km bs conf by (auto simp: loop_inv_def ind_state_def fs_ready_def fs_conf_def)
    then show ?thesis using True p m d vb km bs by auto
  qed
qed

lemma indirect_entry:
  assumes I: "loop_inv P sec idle L ino s0 ind k s" and "ind \<noteq> 0" and i: "i < unat (g_block_size s0) div 4"
  shows "load32 (mm_mem (kmm s)) (ind + 4 * of_nat i) = file_block sec s0 ino (12 + i)"
proof -
  have R: "fs_ready P sec idle s" and c: "fs_conf s = fs_conf s0" using I by (simp_all add: loop_inv_def)
  have len: "length (vblock sec s0 (i_block ino ! 12)) = unat (g_block_size s0)"
    using length_vblock [OF R] vblock_conf [OF c] c by (metis fst_conv fs_conf_def)
  obtain m1 where "kmm s = m1\<lparr>mm_mem := write_bytes ind (vblock sec s0 (i_block ino ! 12)) (mm_mem m1)\<rparr>"
    using I assms(2) by (auto simp: loop_inv_def ind_state_def)
  moreover have "4 * i + 4 \<le> unat (g_block_size s0)" using i by linarith
  ultimately show ?thesis
    using load32_write_bytes [of "4 * i" "vblock sec s0 (i_block ino ! 12)" ind] len unat_u32_less [of "g_block_size s0"]
    by (simp add: file_block_def)
qed

text \<open>
  The loop from block \<open>blk\<close> on: it visits the blocks that are mapped, reachable and below the
  block count, in order.
\<close>

lemma dir_loop_ok:
  fixes s0 :: "'d fs"
  assumes hl: "heap_link L" "heap_inv L (kmm s0)"
    and b12: "i_block ino ! 12 \<le> 0x100000"
    and mem: "mem \<longleftrightarrow> \<not> (\<exists>m. kmalloc L (g_block_size s0) (kmm s0) = Some (0, m))"
  defines "lim \<equiv> reach_blocks s0 ino mem"
  assumes bodies: "\<And>b. b \<in> set (block_ids sec s0 ino blk (min (blk + n) lim)) \<Longrightarrow>
      b \<le> 0x100000 \<and> body_ok P sec idle s0 body rf cf (vblock sec s0 b)"
    and I: "loop_inv P sec idle L ino s0 ind k s"
  shows "\<exists>r ind' s'. dir_loop L P body ino n blk ind s = Inr (r, ind', s') \<and>
    (case visits rf cf (map (vblock sec s0) (block_ids sec s0 ino blk (min (blk + n) lim))) k of (r', k') \<Rightarrow>
       r = r' \<and> loop_inv P sec idle L ino s0 ind' k' s')"
  using bodies I
proof (induction n arbitrary: blk ind k s)
  case 0
  then show ?case by (auto simp: block_ids_def)
next
  case (Suc n)
  let ?ids = "\<lambda>b. block_ids sec s0 ino b (min (blk + Suc n) lim)"
  have IH: "\<exists>r ind' s'. dir_loop L P body ino n (Suc blk) ind s = Inr (r, ind', s') \<and>
      (case visits rf cf (map (vblock sec s0) (?ids (Suc blk))) k of (r', k') \<Rightarrow>
         r = r' \<and> loop_inv P sec idle L ino s0 ind' k' s')"
    if "loop_inv P sec idle L ino s0 ind k s" and "blk < lim" for ind k s
    using Suc.IH [of "Suc blk" ind k s] Suc.prems(1) that block_ids_Cons [of blk "min (blk + Suc n) lim" sec s0 ino] by auto
  let ?visit = "\<lambda>block_id ind s.
    if block_id = 0 then dir_loop L P body ino n (Suc blk) ind s
    else bindr (read_fs_block P block_id s) (\<lambda>(bs, s).
         bindr (body bs s) (\<lambda>(r, s). case r of Some x \<Rightarrow> Inr (Some x, ind, s)
           | None \<Rightarrow> dir_loop L P body ino n (Suc blk) ind s))"
  have V: "\<exists>r ind' s'. ?visit (file_block sec s0 ino blk) ind s = Inr (r, ind', s') \<and>
      (case visits rf cf (map (vblock sec s0) (?ids blk)) k of (r', k') \<Rightarrow>
         r = r' \<and> loop_inv P sec idle L ino s0 ind' k' s')"
    if J: "loop_inv P sec idle L ino s0 ind k s" and lt: "blk < lim" for ind s
  proof (cases "file_block sec s0 ino blk = 0")
    case True
    then show ?thesis using IH [OF J lt] lt by (simp add: block_ids_Cons)
  next
    case False
    let ?b = "file_block sec s0 ino blk"
    have C: "?ids blk = ?b # ?ids (Suc blk)" using False lt by (simp add: block_ids_Cons)
    have b: "?b \<le> 0x100000" "body_ok P sec idle s0 body rf cf (vblock sec s0 ?b)"
      using Suc.prems(1) [of ?b] C by simp_all
    have R: "fs_ready P sec idle s" and c: "fs_conf s = fs_conf s0" using J by (simp_all add: loop_inv_def)
    obtain d where d: "read_fs_block P ?b s = Inr (vblock sec s0 ?b, s\<lparr>dev := d\<rparr>)" "idle d"
      using read_fs_block_ok [OF R b(1)] vblock_conf [OF c] by auto
    have J1: "loop_inv P sec idle L ino s0 ind k (s\<lparr>dev := d\<rparr>)" by (rule loop_inv_dev [OF J d(2)])
    then have R1: "fs_ready P sec idle (s\<lparr>dev := d\<rparr>)" "fs_conf (s\<lparr>dev := d\<rparr>) = fs_conf s0"
      by (simp_all add: loop_inv_def)
    obtain s' where s': "body (vblock sec s0 ?b) (s\<lparr>dev := d\<rparr>) = Inr (rf (vblock sec s0 ?b), s')"
      "fs_ready P sec idle s'" "quiet (s\<lparr>dev := d, con := cf (vblock sec s0 ?b) k\<rparr>) s'"
      using body_okD [OF b(2) R1] J1 by (auto simp: loop_inv_def)
    have J2: "loop_inv P sec idle L ino s0 ind (cf (vblock sec s0 ?b) k) s'"
      using loop_inv_quiet [OF J1 _ s'(2)] s'(3) by simp
    show ?thesis using False d s' J2 IH [OF J2 lt] C by (auto split: option.splits)
  qed
  show ?case
  proof (cases "blk < 12")
    case True
    then have "blk < lim" by (simp add: lim_def reach_blocks_def)
    moreover have "dir_loop L P body ino (Suc n) blk ind s = ?visit (file_block sec s0 ino blk) ind s"
      using True unfolding dir_loop.simps Let_def by (simp add: file_block_def)
    ultimately show ?thesis using V [OF Suc.prems(2)] by presburger
  next
    case ge: False
    show ?thesis
    proof (cases "i_block ino ! 12 = 0")
      case True
      then have "lim \<le> blk" using ge by (simp add: lim_def reach_blocks_def)
      then show ?thesis using ge True Suc.prems(2) by (simp add: block_ids_Nil)
    next
      case False
      obtain ind' s' where f: "(if ind = 0 then
           bindr (orelse (kmalloc L (g_block_size s) (kmm s)) Hang) (\<lambda>(p, m).
             let s = s\<lparr>kmm := m\<rparr> in
             if p = 0 then Inr (p, s)
             else bindr (read_fs_block P (i_block ino ! 12) s) (\<lambda>(bs, s).
               Inr (p, s\<lparr>kmm := (kmm s)\<lparr>mm_mem := write_bytes p bs (mm_mem (kmm s))\<rparr>\<rparr>)))
         else Inr (ind, s)) = Inr (ind', s')"
        and J: "loop_inv P sec idle L ino s0 ind' k s'" and z: "ind' = 0 \<longleftrightarrow> \<not> mem"
        using fetch_indirect [OF Suc.prems(2) hl b12] mem by auto
      have bs: "g_block_size s' = g_block_size s0" using J by (simp add: loop_inv_def fs_conf_def)
      have q: "unat (g_block_size s0 div 4) = unat (g_block_size s0) div 4" by (simp add: unat_div)
      have eq: "dir_loop L P body ino (Suc n) blk ind s =
          (if ind' = 0 then Inr (None, ind', s')
           else if blk - 12 \<ge> unat (g_block_size s0) div 4 then Inr (None, ind', s')
           else ?visit (load32 (mm_mem (kmm s')) (ind' + 4 * of_nat (blk - 12))) ind' s')"
        unfolding dir_loop.simps Let_def using ge False f [unfolded Let_def] bs q by simp
      show ?thesis
      proof (cases "blk < lim")
        case True
        then have mem': mem and lt: "blk - 12 < unat (g_block_size s0) div 4"
          using ge False by (auto simp: lim_def reach_blocks_def split: if_splits)
        have ld: "load32 (mm_mem (kmm s')) (ind' + 4 * of_nat (blk - 12)) = file_block sec s0 ino blk"
          using indirect_entry [OF J _ lt] z mem' ge by simp
        have "dir_loop L P body ino (Suc n) blk ind s = ?visit (file_block sec s0 ino blk) ind' s'"
          unfolding eq ld using z mem' lt by simp
        with V [OF J True] show ?thesis by presburger
      next
        case no: False
        then have "ind' = 0 \<or> blk - 12 \<ge> unat (g_block_size s0) div 4"
          using ge False z by (auto simp: lim_def reach_blocks_def split: if_splits)
        then show ?thesis using eq J no by (auto simp: block_ids_Nil)
      qed
    qed
  qed
qed

section \<open>The whole search\<close>

definition heap_kept :: "link_map \<Rightarrow> mm \<Rightarrow> mm \<Rightarrow> bool" where
  "heap_kept L m m' \<longleftrightarrow> heap_inv L m' \<and> heap_live L m' = heap_live L m \<and>
     (\<forall>q k x. (q, k) \<in> heap_live L m \<and> q \<le> x \<and> x < q + k \<longrightarrow> mm_mem m' (of_nat x) = mm_mem m (of_nat x))"

lemma heap_kept_refl: "heap_inv L m \<Longrightarrow> heap_kept L m m"
  by (simp add: heap_kept_def)

lemma heap_kept_trans: "heap_kept L m m' \<Longrightarrow> heap_kept L m' m'' \<Longrightarrow> heap_kept L m m''"
  by (simp add: heap_kept_def)

text \<open>A step of the file system that may have used the heap, but gave everything back.\<close>

definition fs_kept :: "link_map \<Rightarrow> 'd fs \<Rightarrow> 'd fs \<Rightarrow> bool" where
  "fs_kept L s s' \<longleftrightarrow> fs_conf s' = fs_conf s \<and> g_cwd_id s' = g_cwd_id s \<and> g_cwd_path s' = g_cwd_path s \<and>
     heap_kept L (kmm s) (kmm s')"

lemma fs_kept_trans: "fs_kept L s s' \<Longrightarrow> fs_kept L s' s'' \<Longrightarrow> fs_kept L s s''"
  unfolding fs_kept_def using heap_kept_trans by metis

lemma quiet_kept: "quiet s s' \<Longrightarrow> heap_inv L (kmm s) \<Longrightarrow> fs_kept L s s'"
  by (simp add: quiet_def fs_kept_def heap_kept_refl)

lemma release_indirect:
  assumes I: "ind_state sec s ino L (kmm s) ind m" and "ind \<noteq> 0" and R: "fs_ready P sec idle s"
    and hl: "heap_link L" "heap_inv L (kmm s)"
  shows "heap_kept L (kmm s) (kfree ind m)"
proof -
  obtain m1 where m1: "kmalloc L (g_block_size s) (kmm s) = Some (ind, m1)"
    "m = m1\<lparr>mm_mem := write_bytes ind (vblock sec s (i_block ino ! 12)) (mm_mem m1)\<rparr>"
    using I assms(2) by (auto simp: ind_state_def)
  have room: "unat (g_block_size s) \<le> 0xFFFFFFD0" by (rule heap_inv_room [OF R])
  have inv: "heap_link L \<and> heap_inv L (kmm s)" using hl by simp
  obtain len where len: "unat (g_block_size s) \<le> len" "(unat ind, len) \<notin> heap_live L (kmm s)"
    "heap_live L m1 = insert (unat ind, len) (heap_live L (kmm s))"
    using kheap.alloc_live [OF inv room m1(1) assms(2)] by blast
  have in1: "(unat ind, len) \<in> heap_live L m1" by (simp add: len(3))
  have "unat ind + len \<le> 2 ^ 32"
    using kheap.live_bound [OF kheap.alloc_inv [OF inv room m1(1)] in1] .
  then have "changes_only (unat ind) (unat (g_block_size s)) (mm_mem m1) (mm_mem m)"
    using write_bytes_changes [of "vblock sec s (i_block ino ! 12)" ind "mm_mem m1"] length_vblock [OF R]
      unat_u32_less [of "g_block_size s"] len(1) m1(2) by simp
  then have "changes_only (unat ind) len (mm_mem m1) (mm_mem m)" using len(1) by (auto simp: changes_only_def)
  note B = kheap.borrow [OF inv room m1(1) assms(2) in1 len(2) this]
  have "m = m1\<lparr>mm_mem := mm_mem m\<rparr>" using m1(2) by simp
  with B show ?thesis unfolding heap_kept_def by auto
qed

definition dir_blocks :: "(nat \<Rightarrow> u8 list) \<Rightarrow> 'd fs \<Rightarrow> ext2_inode \<Rightarrow> bool \<Rightarrow> u8 list list" where
  "dir_blocks sec s ino mem =
     map (vblock sec s) (block_ids sec s ino 0 (min (block_count s ino) (reach_blocks s ino mem)))"

lemma dir_search_ok:
  assumes hl: "heap_link L" "heap_inv L (kmm s)" and R: "fs_ready P sec idle s"
    and b12: "i_block ino ! 12 \<le> 0x100000"
    and mem: "mem \<longleftrightarrow> \<not> (\<exists>m. kmalloc L (g_block_size s) (kmm s) = Some (0, m))"
    and bodies: "\<And>b. b \<in> set (block_ids sec s ino 0 (min (block_count s ino) (reach_blocks s ino mem))) \<Longrightarrow>
      b \<le> 0x100000 \<and> body_ok P sec idle s body rf cf (vblock sec s b)"
  shows "\<exists>r s'. dir_search L P body ino s = Inr (r, s') \<and> fs_ready P sec idle s' \<and> fs_kept L s s' \<and>
    (r, con s') = visits rf cf (dir_blocks sec s ino mem) (con s)"
proof -
  have bs: "g_block_size s \<noteq> 0" using fs_ready_block_size [OF R] by auto
  show ?thesis
  proof (cases "(i_size ino + g_block_size s - 1) div g_block_size s = 0")
    case True
    then show ?thesis using bs R quiet_kept [OF quiet_refl hl(2)]
      by (simp add: dir_search_def dir_blocks_def block_count_def block_ids_def)
  next
    case False
    have "loop_inv P sec idle L ino s 0 (con s) s" using R by (simp add: loop_inv_def ind_state_def)
    from dir_loop_ok [OF hl b12 mem, of sec 0 "block_count s ino", simplified, OF bodies this] obtain r ind s' where
      l: "dir_loop L P body ino (block_count s ino) 0 0 s = Inr (r, ind, s')"
      "case visits rf cf (dir_blocks sec s ino mem) (con s) of (r', k') \<Rightarrow> r = r' \<and> loop_inv P sec idle L ino s ind k' s'"
      unfolding dir_blocks_def by auto
    let ?s = "if ind \<noteq> 0 then s'\<lparr>kmm := kfree ind (kmm s')\<rparr> else s'"
    have I: "loop_inv P sec idle L ino s ind (con s') s'" "(r, con s') = visits rf cf (dir_blocks sec s ino mem) (con s)"
      using l(2) by (auto simp: loop_inv_def split: prod.splits)
    have "heap_kept L (kmm s) (kmm ?s)"
    proof (cases "ind = 0")
      case True
      then show ?thesis using I(1) heap_kept_refl [OF hl(2)] by (auto simp: loop_inv_def ind_state_def)
    next
      case False
      have "ind_state sec s ino L (kmm s) ind (kmm s')" using I(1) by (simp add: loop_inv_def)
      from release_indirect [OF this False R hl] False show ?thesis by simp
    qed
    then have "fs_kept L s ?s" "fs_ready P sec idle ?s" "con ?s = con s'"
      using I(1) by (auto simp: fs_kept_def loop_inv_def fs_conf_def fs_ready_def)
    moreover have "dir_search L P body ino s = Inr (r, ?s)"
      using bs False l(1) by (simp add: dir_search_def block_count_def Let_def)
    ultimately show ?thesis using I(2) by metis
  qed
qed

end
