(* ===== verification/Ext2_Cmd.thy ===== *)
theory Ext2_Cmd
  imports Ext2_Dir
begin

text \<open>
  The commands on directories and files: \<open>ext2_ls\<close>, \<open>ext2_cat\<close>, \<open>ext2_cd\<close> and
  \<open>load_file_to_memory\<close>, with everything they print on the screen and on the serial port.
\<close>

section \<open>Model\<close>

abbreviation upd_con :: "(console \<Rightarrow> console) \<Rightarrow> 'd fs \<Rightarrow> 'd fs" where
  "upd_con f s \<equiv> s\<lparr>con := f (con s)\<rparr>"

definition ls_entry :: "ext2_dir_entry_2 \<Rightarrow> u8 list \<Rightarrow> console \<Rightarrow> console" where
  "ls_entry e name_buf k =
     (let k = (if file_type e = 2 then puts ''<DIR> '' k else puts ''      '' k);
          k = put (vga_puts name_buf) k;
          k = puts newline k;
          k = ser_puts (str ''[ls] entry='') k;
          k = ser_puts name_buf k
      in ser_puts (str newline) k)"

definition ls_visit :: "u8 list \<Rightarrow> nat \<Rightarrow> 'd fs \<Rightarrow> stop + unit option \<times> 'd fs" where
  "ls_visit buf off s =
     (let e = dirent_at buf off;
          len = (if unat (name_len e) > 255 then 255 else unat (name_len e))
      in guardr (off + 8 + len \<le> length buf) Fault (
         let name_buf = take len (drop (off + 8) buf) @ [0]
         in Inr (None, upd_con (ls_entry e name_buf) s)))"

definition ls_block :: "u8 list \<Rightarrow> 'd fs \<Rightarrow> stop + unit option \<times> 'd fs" where
  "ls_block bs s =
     bindr (into (ls_block_buf s) bs) (\<lambda>buf.
       scan_dir (ls_visit buf) buf (unat (g_block_size s)) 0 (s\<lparr>ls_block_buf := buf\<rparr>))"

definition ext2_ls :: "link_map \<Rightarrow> 'd ports \<Rightarrow> u8 list \<Rightarrow> u32 \<Rightarrow> 'd fs \<Rightarrow> stop + 'd fs" where
  "ext2_ls L P junk dir_inode_num s =
     (let s = upd_con (dbg_kv ''ls'' ''dir_inode'' dir_inode_num) s in
      if fs_gdt s = None
      then Inr (upd_con (puts (''Error: File system GDT not initialized.'' @ newline) \<circ>
                         dbg_msg ''ls'' ''fs_gdt not initialized'') s)
      else bindr (get_inode P junk dir_inode_num s) (\<lambda>(inode, s).
        if i_mode inode AND 0xF000 \<noteq> 0x4000
        then Inr (upd_con (puts (''Error: Inode is not a directory.'' @ newline) \<circ>
                           dbg_kv ''ls'' ''not_directory_mode'' (ucast (i_mode inode))) s)
        else guardr (g_block_size s \<noteq> 0) Fault (
          if (i_size inode + g_block_size s - 1) div g_block_size s = 0 then Inr s
          else bindr (dir_search L P ls_block inode s) (\<lambda>(_, s).
            Inr (upd_con (dbg_msg ''ls'' ''completed'') s)))))"

text \<open>
  The two loops of \<open>ext2_cat\<close> have the same body and differ in where the block numbers come
  from: \<open>inode.i_block[0..11]\<close>, then the entries of the indirect block. The result is
  \<open>size_remaining\<close>.
\<close>

fun cat_blocks :: "'d ports \<Rightarrow> u32 list \<Rightarrow> u32 \<Rightarrow> 'd fs \<Rightarrow> stop + u32 \<times> 'd fs" where
  "cat_blocks P [] size_remaining s = Inr (size_remaining, s)"
| "cat_blocks P (block_id # ids) size_remaining s =
     (if size_remaining = 0 then Inr (size_remaining, s)
      else let bytes = (if size_remaining < g_block_size s then size_remaining else g_block_size s) in
      if block_id = 0 then cat_blocks P ids (size_remaining - bytes) s
      else bindr (read_fs_block P block_id s) (\<lambda>(bs, s).
           bindr (into (cat_block_buf s) bs) (\<lambda>buf.
           guardr (unat bytes \<le> length buf) Fault (
             cat_blocks P ids (size_remaining - bytes)
               (upd_con (put (fold vga_putc (take (unat bytes) buf))) (s\<lparr>cat_block_buf := buf\<rparr>))))))"

definition cat_data :: "'d ports \<Rightarrow> ext2_inode \<Rightarrow> 'd fs \<Rightarrow> stop + 'd fs" where
  "cat_data P inode s =
     (if i_size inode = 0 then Inr s
      else bindr (cat_blocks P (take 12 (i_block inode)) (i_size inode)
                    (upd_con (dbg_kv ''cat'' ''file_size'' (i_size inode)) s)) (\<lambda>(size_remaining, s).
        bindr (if 0 < size_remaining \<and> i_block inode ! 12 \<noteq> 0
               then bindr (read_fs_block P (i_block inode ! 12) s) (\<lambda>(bs, s).
                    bindr (into (cat_indirect_buf s) bs) (\<lambda>buf.
                    bindr (cat_blocks P (map (\<lambda>i. le32 buf (4 * i)) [0..<unat (g_block_size s div 4)]) size_remaining
                             (s\<lparr>cat_indirect_buf := buf\<rparr>)) (\<lambda>(_, s). Inr s)))
               else Inr s)
          (\<lambda>s. Inr (upd_con (put (vga_putc 0x0A)) s))))"

definition ext2_cat :: "link_map \<Rightarrow> 'd ports \<Rightarrow> str_ops \<Rightarrow> u8 list \<Rightarrow> u8 list option \<Rightarrow> 'd fs \<Rightarrow> stop + 'd fs" where
  "ext2_cat L P S junk filename_ptr s =
     (let s = upd_con (dbg_msg ''cat'' ''cat request'') s;
          missing = upd_con (puts (''cat: Missing filename.'' @ newline) \<circ> dbg_msg ''cat'' ''missing filename'') s
      in case filename_ptr of None \<Rightarrow> Inr missing | Some filename \<Rightarrow>
      guardr (0 \<in> set filename) Fault (
      if hd filename = 0 then Inr missing
      else let s = upd_con (ser_puts (str newline) \<circ> ser_puts filename \<circ> ser_puts (str ''[cat] filename='')) s in
      bindr (ext2_lookup L P S junk (g_cwd_id s) filename s) (\<lambda>(file_inode_num, s).
        if file_inode_num = 0
        then Inr (upd_con (puts (''cat: File not found.'' @ newline) \<circ> dbg_msg ''cat'' ''file not found'') s)
        else bindr (get_inode P junk file_inode_num s) (\<lambda>(inode, s).
          if i_mode inode AND 0xF000 = 0x4000
          then Inr (upd_con (puts (''cat: Cannot cat a directory.'' @ newline) \<circ>
                             dbg_kv ''cat'' ''is_directory_mode'' (ucast (i_mode inode))) s)
          else if i_mode inode AND 0xF000 \<noteq> 0x8000
          then Inr (upd_con (puts (''cat: Not a regular file.'' @ newline) \<circ>
                             dbg_kv ''cat'' ''invalid_mode'' (ucast (i_mode inode))) s)
          else cat_data P inode s))))"

text \<open>
  The path string of the shell: \<open>parent_path\<close> and \<open>append_path\<close> are the two branches that edit
  \<open>g_cwd_path\<close> in place.
\<close>

definition last_slash :: "u8 list \<Rightarrow> nat option" where
  "last_slash p = fold (\<lambda>i l. if p ! i = 0x2F then Some i else l) [0..<length (cstr p)] None"

definition parent_path :: "u8 list \<Rightarrow> u8 list" where
  "parent_path p =
     (case last_slash p of None \<Rightarrow> p
      | Some l \<Rightarrow> if l > 0 then p[l := 0] else if length (cstr p) > 1 then p[1 := 0] else p)"

definition append_path :: "u8 list \<Rightarrow> u8 list \<Rightarrow> stop + u8 list" where
  "append_path p path =
     (let len = length (cstr p);
          new = (if len = 1 \<and> p ! 0 = 0x2F then take 1 p @ cstr path @ [0] else take len p @ [0x2F] @ cstr path @ [0])
      in guardr (length new \<le> length p) Fault (Inr (new @ drop (length new) p)))"

definition ext2_cd :: "link_map \<Rightarrow> 'd ports \<Rightarrow> str_ops \<Rightarrow> u8 list \<Rightarrow> u8 list option \<Rightarrow> 'd fs \<Rightarrow> stop + 'd fs" where
  "ext2_cd L P S junk path_ptr s =
     (let s = upd_con (dbg_msg ''cd'' ''change directory request'') s in
      case path_ptr of None \<Rightarrow> Inr s | Some path \<Rightarrow>
      guardr (0 \<in> set path) Fault (
      if hd path = 0 then Inr s
      else let s = upd_con (ser_puts (str newline) \<circ> ser_puts path \<circ> ser_puts (str ''[cd] path='')) s in
      bindr (ext2_lookup L P S junk (g_cwd_id s) path s) (\<lambda>(target_inode, s).
        if target_inode = 0
        then Inr (upd_con (puts (''cd: No such directory.'' @ newline) \<circ> dbg_msg ''cd'' ''target not found'') s)
        else bindr (get_inode P junk target_inode s) (\<lambda>(target, s).
          if i_mode target AND 0xF000 \<noteq> 0x4000
          then Inr (upd_con (puts (''cd: Not a directory.'' @ newline) \<circ>
                             dbg_kv ''cd'' ''not_directory_mode'' (ucast (i_mode target))) s)
          else bindr (orelse (op_strcmp S path (str ''.'' @ [0])) Fault) (\<lambda>dot.
               bindr (if dot = 0 then Inr (g_cwd_path s)
                      else bindr (orelse (op_strcmp S path (str ''..'' @ [0])) Fault) (\<lambda>dotdot.
                        guardr (0 \<in> set (g_cwd_path s)) Fault (
                        if dotdot = 0 then Inr (parent_path (g_cwd_path s)) else append_path (g_cwd_path s) path)))
                 (\<lambda>p. Inr (upd_con (ser_puts (str newline) \<circ> ser_puts p \<circ> ser_puts (str ''[cd] cwd_path='') \<circ>
                                   dbg_kv ''cd'' ''cwd_inode'' target_inode)
                             (s\<lparr>g_cwd_path := p, g_cwd_id := target_inode\<rparr>))))))))"

section \<open>Loading a file\<close>

text \<open>\<open>current_ptr\<close> after the blocks \<open>ids\<close> have been stored from it on.\<close>

fun load_blocks :: "'d ports \<Rightarrow> u32 list \<Rightarrow> u32 \<Rightarrow> 'd fs \<Rightarrow> stop + u32 \<times> 'd fs" where
  "load_blocks P [] current_ptr s = Inr (current_ptr, s)"
| "load_blocks P (block_id # ids) current_ptr s =
     bindr (if block_id = 0
            then Inr (s\<lparr>kmm := (kmm s)\<lparr>mm_mem := memset current_ptr 0 (g_block_size s) (mm_mem (kmm s))\<rparr>\<rparr>)
            else bindr (read_fs_block P block_id s) (\<lambda>(bs, s).
              Inr (s\<lparr>kmm := (kmm s)\<lparr>mm_mem := write_bytes current_ptr bs (mm_mem (kmm s))\<rparr>\<rparr>)))
       (\<lambda>s. load_blocks P ids (current_ptr + g_block_size s) s)"

definition load_file_to_memory :: "'d ports \<Rightarrow> u8 list \<Rightarrow> u8 list \<Rightarrow> u32 \<Rightarrow> u32 \<Rightarrow> 'd fs \<Rightarrow> stop + bool \<times> 'd fs" where
  "load_file_to_memory P junk indirect_block inode_num dest_addr s =
     bindr (get_inode P junk inode_num (upd_con (dbg_kv ''load'' ''inode'' inode_num) s)) (\<lambda>(inode, s).
     guardr (g_block_size s \<noteq> 0) Fault (
     let total_blocks = unat ((i_size inode + g_block_size s - 1) div g_block_size s) in
     if i_size inode = 0 then Inr (False, upd_con (dbg_msg ''load'' ''file is empty'') s)
     else bindr (load_blocks P (take total_blocks (take 12 (i_block inode))) dest_addr
                   (upd_con (dbg_kv ''load'' ''file_size'' (i_size inode)) s)) (\<lambda>(current_ptr, s).
       let blocks_loaded = min total_blocks 12 in
       if blocks_loaded < total_blocks then
         if i_block inode ! 12 = 0
         then Inr (False, upd_con (dbg_msg ''load'' ''missing single indirect block'') s)
         else if 4096 < g_block_size s
         then Inr (False, upd_con (dbg_msg ''load'' ''unsupported block size'') s)
         else bindr (read_fs_block P (i_block inode ! 12) s) (\<lambda>(bs, s).
              bindr (into indirect_block bs) (\<lambda>buf.
              let indirect_count = unat (g_block_size s div 4);
                  entries = map (\<lambda>i. le32 buf (4 * i)) [0..<min indirect_count (total_blocks - blocks_loaded)]
              in bindr (load_blocks P entries current_ptr s) (\<lambda>(_, s).
                if blocks_loaded + length entries < total_blocks
                then Inr (False, upd_con (dbg_msg ''load'' ''file truncated by sparse blocks'') s)
                else Inr (True, upd_con (dbg_msg ''load'' ''load complete'') s))))
       else Inr (True, upd_con (dbg_msg ''load'' ''load complete'') s))))"

end
