(* ===== verification/Ext2_Lookup.thy ===== *)
theory Ext2_Lookup
  imports Ext2_Walk Ext2_Cmd
begin

text \<open>
  Names and listings against the volume: the three functions that walk a directory compute
  what the list of its used entries says, and the path resolver follows the names of a
  path from directory to directory.
\<close>

section \<open>Directories as lists of entries\<close>

definition block_entries :: "'d fs \<Rightarrow> u8 list \<Rightarrow> (ext2_dir_entry_2 \<times> u8 list) list" where
  "block_entries s b = filter live_entry (dirents (unat (g_block_size s)) b 0)"

definition dir_list :: "(nat \<Rightarrow> u8 list) \<Rightarrow> 'd fs \<Rightarrow> ext2_inode \<Rightarrow> bool \<Rightarrow> (ext2_dir_entry_2 \<times> u8 list) list" where
  "dir_list sec s ino mem = concat (map (block_entries s) (dir_blocks sec s ino mem))"

definition is_dir :: "ext2_inode \<Rightarrow> bool" where
  "is_dir ino \<longleftrightarrow> i_mode ino AND 0xF000 = 0x4000"

definition dir_ok :: "(nat \<Rightarrow> u8 list) \<Rightarrow> 'd fs \<Rightarrow> ext2_inode \<Rightarrow> bool" where
  "dir_ok sec s ino \<longleftrightarrow> i_block ino ! 12 \<le> 0x100000 \<and>
     (\<forall>b\<in>set (block_ids sec s ino 0 (min (block_count s ino) (reach_blocks s ino True))).
        b \<le> 0x100000 \<and> dir_block_ok (unat (g_block_size s)) (vblock sec s b) 0)"

text \<open>Whether the heap can give the buffer for an indirect block.\<close>

definition heap_room :: "link_map \<Rightarrow> 'd fs \<Rightarrow> bool" where
  "heap_room L s \<longleftrightarrow> \<not> (\<exists>m. kmalloc L (g_block_size s) (kmm s) = Some (0, m))"

definition slot_lookup :: "(nat \<Rightarrow> u8 list) \<Rightarrow> 'd fs \<Rightarrow> u32 \<Rightarrow> u8 list \<Rightarrow> bool \<Rightarrow> u32" where
  "slot_lookup sec s n nm mem =
     (if is_dir (slot_inode sec s n)
      then case find (\<lambda>x. snd x = nm) (dir_list sec s (slot_inode sec s n) mem) of
             None \<Rightarrow> 0 | Some x \<Rightarrow> de_inode (fst x)
      else 0)"

lemma dir_conf:
  assumes "fs_conf s' = fs_conf s"
  shows "dir_list sec s' ino mem = dir_list sec s ino mem" "dir_ok sec s' ino = dir_ok sec s ino"
    "slot_lookup sec s' n nm mem = slot_lookup sec s n nm mem" "block_count s' ino = block_count s ino"
    "block_ids sec s' ino a b = block_ids sec s ino a b" "reach_blocks s' ino mem = reach_blocks s ino mem"
proof -
  have bs: "g_block_size s' = g_block_size s" using assms by (simp add: fs_conf_def)
  have vb: "vblock sec s' = vblock sec s" using vblock_conf [OF assms] by (intro ext)
  have e: "block_entries s' = block_entries s" by (intro ext) (simp add: block_entries_def bs)
  have c: "block_count s' i = block_count s i" "reach_blocks s' i m = reach_blocks s i m" for i m
    by (simp_all add: block_count_def reach_blocks_def bs)
  have fb: "file_block sec s' i = file_block sec s i" for i by (intro ext) (simp add: file_block_def vb)
  have i: "block_ids sec s' i = block_ids sec s i" for i by (intro ext) (simp add: block_ids_def fb)
  have d: "dir_list sec s' i m = dir_list sec s i m" for i m by (simp add: dir_list_def dir_blocks_def e vb c i)
  show "block_count s' ino = block_count s ino" "reach_blocks s' ino mem = reach_blocks s ino mem"
    "block_ids sec s' ino a b = block_ids sec s ino a b" "dir_list sec s' ino mem = dir_list sec s ino mem"
    by (simp_all add: c i d)
  show "dir_ok sec s' ino = dir_ok sec s ino" by (simp add: dir_ok_def c i vb bs)
  show "slot_lookup sec s' n nm mem = slot_lookup sec s n nm mem"
    by (simp add: slot_lookup_def slot_inode_conf [OF assms] d)
qed

lemma block_ids_mono: "b \<le> c \<Longrightarrow> set (block_ids sec s ino a b) \<subseteq> set (block_ids sec s ino a c)"
  by (auto simp: block_ids_def)

lemma dir_okD:
  assumes "dir_ok sec s ino" and "b \<in> set (block_ids sec s ino 0 (min (block_count s ino) (reach_blocks s ino mem)))"
  shows "b \<le> 0x100000" "dir_block_ok (unat (g_block_size s)) (vblock sec s b) 0"
proof -
  have "reach_blocks s ino mem \<le> reach_blocks s ino True" by (simp add: reach_blocks_def)
  then have "min (block_count s ino) (reach_blocks s ino mem) \<le> min (block_count s ino) (reach_blocks s ino True)"
    by (rule min.mono [OF order_refl])
  from block_ids_mono [OF this] assms(2)
  have "b \<in> set (block_ids sec s ino 0 (min (block_count s ino) (reach_blocks s ino True)))" by blast
  with assms(1) show "b \<le> 0x100000" "dir_block_ok (unat (g_block_size s)) (vblock sec s b) 0"
    by (auto simp: dir_ok_def)
qed

section \<open>Visitors\<close>

definition match :: "u8 list \<Rightarrow> ext2_dir_entry_2 \<times> u8 list \<Rightarrow> u32 option" where
  "match nm x = (if snd x = nm then Some (de_inode (fst x)) else None)"

lemma visits_match: "fst (visits (match nm) step xs s) = map_option (\<lambda>x. de_inode (fst x)) (find (\<lambda>x. snd x = nm) xs)"
  by (induction xs arbitrary: s) (auto simp: match_def)

lemma visits_blocks:
  "visits (\<lambda>b. fst (visits rf (\<lambda>x s. s) (f b) ())) (\<lambda>b k. k) bs k = (fst (visits rf (\<lambda>x s. s) (concat (map f bs)) ()), k)"
  by (induction bs) (auto simp: visits_append split: prod.splits option.splits)

lemma fold_concat: "fold (\<lambda>b. fold f (g b)) bs = fold f (concat (map g bs))"
  by (induction bs) (simp_all add: fun_eq_iff)

lemma name_split:
  assumes "off + 8 + n \<le> length b"
  shows "drop (off + 8) (b @ r) = take n (drop (off + 8) b) @ drop n (drop (off + 8) b) @ r"
    and "length (take n (drop (off + 8) b)) = n"
proof -
  have "drop (off + 8) (b @ r) = drop (off + 8) b @ r" using assms by simp
  then show "drop (off + 8) (b @ r) = take n (drop (off + 8) b) @ drop n (drop (off + 8) b) @ r"
    by (metis append_assoc append_take_drop_id)
qed (use assms in simp)

lemma find_visit_ok:
  assumes S: "string_lib S" and name: "0 \<in> set name"
    and off: "off + 8 + unat (name_len (dirent_at b off)) \<le> length b"
    and nz: "0 \<notin> set (take (unat (name_len (dirent_at b off))) (drop (off + 8) b))"
  shows "find_visit S name (b @ r) off s =
    Inr (match (cstr name) (dirent_at b off, take (unat (name_len (dirent_at b off))) (drop (off + 8) b)), s)"
proof -
  let ?e = "dirent_at b off"
  let ?nm = "take (unat (name_len ?e)) (drop (off + 8) b)"
  have e: "dirent_at (b @ r) off = ?e" using off by (intro dirent_at_append) simp
  note ns = name_split(1) [OF off, of r] name_split(2) [OF off]
  obtain c where c: "op_strncmp S (drop (off + 8) (b @ r)) name (unat (name_len ?e)) = Some c"
    "c = 0 \<and> unat (name_len ?e) = length (cstr name) \<longleftrightarrow> ?nm = cstr name"
    using c_strings.match_prefix [OF S name nz, of "drop (unat (name_len ?e)) (drop (off + 8) b) @ r"]
    unfolding ns(1) ns(2) by blast
  have "op_strlen S name = Some (length (cstr name))" by (rule c_strings.slen_ok [OF S name])
  then show ?thesis using c by (auto simp: find_visit_def e match_def Let_def)
qed

lemma lookup_visit_ok:
  assumes S: "string_lib S" and name: "0 \<in> set name"
    and off: "off + 8 + unat (name_len (dirent_at b off)) \<le> length b"
    and nz: "0 \<notin> set (take (unat (name_len (dirent_at b off))) (drop (off + 8) b))"
  shows "lookup_visit S name (b @ r) off s =
    Inr (match (cstr name) (dirent_at b off, take (unat (name_len (dirent_at b off))) (drop (off + 8) b)), s)"
proof -
  let ?e = "dirent_at b off"
  have e: "dirent_at (b @ r) off = ?e" using off by (intro dirent_at_append) simp
  have "take (unat (name_len ?e)) (drop (off + 8) (b @ r)) = take (unat (name_len ?e)) (drop (off + 8) b)"
    using off by simp
  with c_strings.match_copy [OF S name nz, of "[]"] off show ?thesis
    by (auto simp: lookup_visit_def e match_def Let_def)
qed

lemma ls_visit_ok:
  assumes off: "off + 8 + unat (name_len (dirent_at b off)) \<le> length b"
  shows "ls_visit (b @ r) off s = Inr (None, upd_con (ls_entry (dirent_at b off)
    (take (unat (name_len (dirent_at b off))) (drop (off + 8) b) @ [0])) s)"
proof -
  have e: "dirent_at (b @ r) off = dirent_at b off" using off by (intro dirent_at_append) simp
  have "\<not> 255 < unat (name_len (dirent_at b off))"
    using unsigned_less [of "name_len (dirent_at b off)", where 'a = nat] by simp
  then show ?thesis using off by (simp add: ls_visit_def e Let_def)
qed

section \<open>Bodies\<close>

lemma block_fits:
  assumes "fs_ready P sec idle s" and "length b = unat (g_block_size s)"
  shows "length b \<le> 4096"
  using assms fs_ready_block_size [OF assms(1)] by auto

lemma find_block_ok:
  assumes S: "string_lib S" and name: "0 \<in> set name"
    and ok: "dir_block_ok (unat (g_block_size s0)) b 0" and len: "length b = unat (g_block_size s0)"
  shows "body_ok P sec idle s0 (find_block S name) (\<lambda>b. fst (visits (match (cstr name)) (\<lambda>x s. s) (block_entries s0 b) ()))
    (\<lambda>b k. k) b"
  unfolding body_ok_def
proof (intro allI impI, elim conjE)
  fix s :: "'a fs" assume R: "fs_ready P sec idle s" and c: "fs_conf s = fs_conf s0"
  have bs: "g_block_size s = g_block_size s0" using c by (simp add: fs_conf_def)
  have fits: "length b \<le> 4096" and buf: "length (find_block_buf s) = 4096"
    using block_fits [OF R, of b] len bs R by (simp_all add: fs_ready_def)
  let ?buf = "b @ drop (length b) (find_block_buf s)"
  have "scan_dir (find_visit S name ?buf) ?buf (unat (g_block_size s0)) 0 t =
      Inr (visits (match (cstr name)) (\<lambda>x s. s) (block_entries s0 b) t)" for t :: "'a fs"
    unfolding block_entries_def using find_visit_ok [OF S name, of _ b "drop (length b) (find_block_buf s)"]
    by (intro scan_dir_ok [OF len ok]) (simp add: Let_def len [symmetric])
  then have "find_block S name b s = Inr (visits (match (cstr name)) (\<lambda>x s. s) (block_entries s0 b) (s\<lparr>find_block_buf := ?buf\<rparr>))"
    using fits buf by (simp add: find_block_def into_def bs)
  moreover have "fs_ready P sec idle (s\<lparr>find_block_buf := ?buf\<rparr>)" using R fits by (simp add: fs_ready_def)
  ultimately show "\<exists>s'. find_block S name b s = Inr (fst (visits (match (cstr name)) (\<lambda>x s. s) (block_entries s0 b) ()), s') \<and>
      fs_ready P sec idle s' \<and> quiet (s\<lparr>con := con s\<rparr>) s'"
    using visits_pure [of "match (cstr name)" "block_entries s0 b" "s\<lparr>find_block_buf := ?buf\<rparr>"]
    by (auto simp: quiet_def fs_conf_def)
qed

lemma lookup_block_ok:
  assumes S: "string_lib S" and name: "0 \<in> set name"
    and ok: "dir_block_ok (unat (g_block_size s0)) b 0" and len: "length b = unat (g_block_size s0)"
  shows "body_ok P sec idle s0 (lookup_block S name) (\<lambda>b. fst (visits (match (cstr name)) (\<lambda>x s. s) (block_entries s0 b) ()))
    (\<lambda>b k. k) b"
  unfolding body_ok_def
proof (intro allI impI, elim conjE)
  fix s :: "'a fs" assume R: "fs_ready P sec idle s" and c: "fs_conf s = fs_conf s0"
  have bs: "g_block_size s = g_block_size s0" using c by (simp add: fs_conf_def)
  have fits: "length b \<le> 4096" and buf: "length (lookup_block_buf s) = 4096"
    using block_fits [OF R, of b] len bs R by (simp_all add: fs_ready_def)
  let ?buf = "b @ drop (length b) (lookup_block_buf s)"
  have "scan_dir (lookup_visit S name ?buf) ?buf (unat (g_block_size s0)) 0 t =
      Inr (visits (match (cstr name)) (\<lambda>x s. s) (block_entries s0 b) t)" for t :: "'a fs"
    unfolding block_entries_def using lookup_visit_ok [OF S name, of _ b "drop (length b) (lookup_block_buf s)"]
    by (intro scan_dir_ok [OF len ok]) (simp add: Let_def len [symmetric])
  then have "lookup_block S name b s = Inr (visits (match (cstr name)) (\<lambda>x s. s) (block_entries s0 b) (s\<lparr>lookup_block_buf := ?buf\<rparr>))"
    using fits buf by (simp add: lookup_block_def into_def bs)
  moreover have "fs_ready P sec idle (s\<lparr>lookup_block_buf := ?buf\<rparr>)" using R fits by (simp add: fs_ready_def)
  ultimately show "\<exists>s'. lookup_block S name b s = Inr (fst (visits (match (cstr name)) (\<lambda>x s. s) (block_entries s0 b) ()), s') \<and>
      fs_ready P sec idle s' \<and> quiet (s\<lparr>con := con s\<rparr>) s'"
    using visits_pure [of "match (cstr name)" "block_entries s0 b" "s\<lparr>lookup_block_buf := ?buf\<rparr>"]
    by (auto simp: quiet_def fs_conf_def)
qed

definition ls_line :: "ext2_dir_entry_2 \<times> u8 list \<Rightarrow> console \<Rightarrow> console" where
  "ls_line x = ls_entry (fst x) (snd x @ [0])"

lemma fold_upd_con: "fold (\<lambda>x. upd_con (f x)) xs s = s\<lparr>con := fold f xs (con s)\<rparr>"
  by (induction xs arbitrary: s) simp_all

lemma ls_block_ok:
  assumes ok: "dir_block_ok (unat (g_block_size s0)) b 0" and len: "length b = unat (g_block_size s0)"
  shows "body_ok P sec idle s0 ls_block (\<lambda>b. None) (\<lambda>b. fold ls_line (block_entries s0 b)) b"
  unfolding body_ok_def
proof (intro allI impI, elim conjE)
  fix s :: "'a fs" assume R: "fs_ready P sec idle s" and c: "fs_conf s = fs_conf s0"
  have bs: "g_block_size s = g_block_size s0" using c by (simp add: fs_conf_def)
  have fits: "length b \<le> 4096" and buf: "length (ls_block_buf s) = 4096"
    using block_fits [OF R, of b] len bs R by (simp_all add: fs_ready_def)
  let ?buf = "b @ drop (length b) (ls_block_buf s)"
  have "scan_dir (ls_visit ?buf) ?buf (unat (g_block_size s0)) 0 t =
      Inr (visits (\<lambda>x. None) (\<lambda>x. upd_con (ls_line x)) (block_entries s0 b) t)" for t :: "'a fs"
    unfolding block_entries_def using ls_visit_ok [of _ b "drop (length b) (ls_block_buf s)"]
    by (intro scan_dir_ok [OF len ok]) (simp add: Let_def ls_line_def len [symmetric])
  then have "ls_block b s = Inr (None, s\<lparr>ls_block_buf := ?buf, con := fold ls_line (block_entries s0 b) (con s)\<rparr>)"
    using fits buf by (simp add: ls_block_def into_def bs visits_all fold_upd_con)
  moreover have "fs_ready P sec idle (s\<lparr>ls_block_buf := ?buf, con := fold ls_line (block_entries s0 b) (con s)\<rparr>)"
    using R fits by (simp add: fs_ready_def)
  ultimately show "\<exists>s'. ls_block b s = Inr (None, s') \<and> fs_ready P sec idle s' \<and>
      quiet (s\<lparr>con := fold ls_line (block_entries s0 b) (con s)\<rparr>) s'"
    by (auto simp: quiet_def fs_conf_def)
qed

section \<open>Looking up\<close>

text \<open>The assumptions under which a directory can be walked.\<close>

definition dir_ready :: "link_map \<Rightarrow> 'd ports \<Rightarrow> (nat \<Rightarrow> u8 list) \<Rightarrow> ('d \<Rightarrow> bool) \<Rightarrow> u32 \<Rightarrow> 'd fs \<Rightarrow> bool" where
  "dir_ready L P sec idle n s \<longleftrightarrow> heap_link L \<and> heap_inv L (kmm s) \<and> fs_ready P sec idle s \<and> valid_inode s n \<and>
     (is_dir (slot_inode sec s n) \<longrightarrow> dir_ok sec s (slot_inode sec s n))"

lemma quiet_heap_room: "quiet s s' \<Longrightarrow> heap_room L s' = heap_room L s"
  by (simp add: heap_room_def quiet_def fs_conf_def)

lemma lookup_run:
  assumes D: "dir_ready L P sec idle n s" and junk: "length junk = 128"
    and body: "\<And>s0 b. dir_block_ok (unat (g_block_size s0)) b 0 \<Longrightarrow> length b = unat (g_block_size s0) \<Longrightarrow>
      body_ok P sec idle s0 body (\<lambda>b. fst (visits (match nm) (\<lambda>x s. s) (block_entries s0 b) ())) (\<lambda>b k. k) b"
  shows "\<exists>s'. bindr (get_inode P junk n s) (\<lambda>(ino, s).
       if i_mode ino AND 0xF000 \<noteq> 0x4000 then Inr (0, s)
       else bindr (dir_search L P body ino s) (\<lambda>(r, s). Inr (case r of None \<Rightarrow> 0 | Some i \<Rightarrow> i, s))) =
     Inr (slot_lookup sec s n nm (heap_room L s), s') \<and> fs_ready P sec idle s' \<and> fs_kept L s s' \<and> con s' = con s"
proof -
  let ?ino = "slot_inode sec s n"
  have hl: "heap_link L" "heap_inv L (kmm s)" and R: "fs_ready P sec idle s" and v: "valid_inode s n"
    using D by (simp_all add: dir_ready_def)
  obtain s1 where g: "get_inode P junk n s = Inr (?ino, s1)" and R1: "fs_ready P sec idle s1" and q: "quiet s s1"
    using get_inode_ok [OF R v junk] by blast
  note c = quietD(1) [OF q]
  show ?thesis
  proof (cases "is_dir ?ino")
    case False
    then show ?thesis using g R1 quiet_kept [OF q hl(2)] quietD(2) [OF q] by (simp add: is_dir_def slot_lookup_def)
  next
    case True
    have ok: "dir_ok sec s1 ?ino" using D True by (simp add: dir_ready_def dir_conf [OF c])
    have hl1: "heap_inv L (kmm s1)" using hl(2) quietD(3) [OF q] by simp
    have "heap_room L s1 = heap_room L s" by (rule quiet_heap_room [OF q])
    then have mem: "heap_room L s \<longleftrightarrow> \<not> (\<exists>m. kmalloc L (g_block_size s1) (kmm s1) = Some (0, m))"
      by (simp add: heap_room_def)
    have "\<exists>r s'. dir_search L P body ?ino s1 = Inr (r, s') \<and> fs_ready P sec idle s' \<and> fs_kept L s1 s' \<and>
        (r, con s') = visits (\<lambda>b. fst (visits (match nm) (\<lambda>x s. s) (block_entries s1 b) ())) (\<lambda>b k. k)
          (dir_blocks sec s1 ?ino (heap_room L s)) (con s1)"
    proof (rule dir_search_ok [OF hl(1) hl1 R1 _ mem])
      show "i_block ?ino ! 12 \<le> 0x100000" using ok by (simp add: dir_ok_def)
      fix b assume "b \<in> set (block_ids sec s1 ?ino 0 (min (block_count s1 ?ino) (reach_blocks s1 ?ino (heap_room L s))))"
      from dir_okD [OF ok this] show "b \<le> 0x100000 \<and> body_ok P sec idle s1 body
          (\<lambda>b. fst (visits (match nm) (\<lambda>x s. s) (block_entries s1 b) ())) (\<lambda>b k. k) (vblock sec s1 b)"
        using body length_vblock [OF R1] by blast
    qed
    then obtain r s2 where d: "dir_search L P body ?ino s1 = Inr (r, s2)" "fs_ready P sec idle s2" "fs_kept L s1 s2"
      "con s2 = con s1" and r: "r = map_option (\<lambda>x. de_inode (fst x)) (find (\<lambda>x. snd x = nm) (dir_list sec s1 ?ino (heap_room L s)))"
      unfolding visits_blocks dir_list_def [symmetric] by (auto simp: visits_match)
    have "fs_kept L s s2" using fs_kept_trans [OF quiet_kept [OF q hl(2)] d(3)] .
    moreover have "(case r of None \<Rightarrow> 0 | Some i \<Rightarrow> i) = slot_lookup sec s n nm (heap_room L s)"
      unfolding slot_lookup_def r dir_conf [OF c] using True by (auto split: option.splits)
    ultimately show ?thesis using g d True quietD(2) [OF q] by (simp add: is_dir_def)
  qed
qed

lemma find_inode_ok:
  assumes "dir_ready L P sec idle n s" and "length junk = 128" and "string_lib S" and "0 \<in> set name"
  shows "\<exists>s'. find_inode_in_dir L P S junk n name s = Inr (slot_lookup sec s n (cstr name) (heap_room L s), s') \<and>
    fs_ready P sec idle s' \<and> fs_kept L s s' \<and> con s' = con s"
  unfolding find_inode_in_dir_def by (rule lookup_run [OF assms(1,2) find_block_ok [OF assms(3,4)]])

lemma ext2_lookup_ok:
  assumes "dir_ready L P sec idle n s" and "length junk = 128" and "string_lib S" and "0 \<in> set name"
  shows "\<exists>s'. ext2_lookup L P S junk n name s = Inr (slot_lookup sec s n (cstr name) (heap_room L s), s') \<and>
    fs_ready P sec idle s' \<and> fs_kept L s s' \<and> con s' = con s"
  unfolding ext2_lookup_def by (rule lookup_run [OF assms(1,2) lookup_block_ok [OF assms(3,4)]])

end
