(* ===== verification/Ext2_File.thy ===== *)
theory Ext2_File
  imports Ext2_Lookup
begin

text \<open>
  The contents of files: what \<open>ext2_cat\<close> prints and what \<open>load_file_to_memory\<close> stores is the
  data of the file's blocks in order; \<open>cat\<close> prints the first \<open>i_size\<close> bytes, the loader stores
  whole blocks and fills holes with zeros.
\<close>

section \<open>Printing\<close>

text \<open>The bytes printed for the blocks \<open>ids\<close> when \<open>n\<close> bytes are left.\<close>

fun pieces :: "(u32 \<Rightarrow> u8 list) \<Rightarrow> nat \<Rightarrow> u32 list \<Rightarrow> nat \<Rightarrow> u8 list" where
  "pieces blk bs [] n = []"
| "pieces blk bs (b # ids) n = (if b = 0 then [] else take (min n bs) (blk b)) @ pieces blk bs ids (n - min n bs)"

lemma pieces_0 [simp]: "pieces blk bs ids 0 = []"
  by (induction ids) auto

lemma pieces_take:
  assumes "\<And>b. length (blk b) = bs"
  shows "0 \<notin> set ids \<Longrightarrow> pieces blk bs ids n = take n (concat (map blk ids))"
proof (induction ids arbitrary: n)
  case (Cons b ids)
  then have IH: "pieces blk bs ids m = take m (concat (map blk ids))" for m by simp
  show ?case
  proof (cases "n \<le> bs")
    case True
    then show ?thesis using Cons.prems assms by (simp add: IH)
  next
    case False
    then show ?thesis using Cons.prems assms by (simp add: IH)
  qed
qed simp

lemma pieces_append:
  "pieces blk bs (xs @ ys) n = pieces blk bs xs n @ pieces blk bs ys (n - length xs * bs)"
proof (induction xs arbitrary: n)
  case (Cons b xs)
  have "n - min n bs - length xs * bs = n - (bs + length xs * bs)" by (simp add: min_def)
  then show ?case by (simp add: Cons)
qed simp

lemma min_u32: "unat (if r < bs then r else bs :: u32) = min (unat r) (unat bs)"
  by (simp add: word_less_nat_alt)

lemma put_put: "put g (put f k) = put (g \<circ> f) k"
  by (simp add: put_def)

lemma put_id: "put id k = k" "put (\<lambda>v. v) k = k"
  by (simp_all add: put_def)

lemma cat_blocks_ok:
  assumes "fs_ready P sec idle s" and "\<forall>b\<in>set ids. b \<le> 0x100000"
  shows "\<exists>r s'. cat_blocks P ids rem s = Inr (r, s') \<and> unat r = unat rem - length ids * unat (g_block_size s) \<and>
    fs_ready P sec idle s' \<and>
    quiet (upd_con (put (fold vga_putc (pieces (vblock sec s) (unat (g_block_size s)) ids (unat rem)))) s) s'"
  using assms
proof (induction ids arbitrary: rem s)
  case Nil
  then show ?case by (simp add: put_id)
next
  case (Cons b ids)
  let ?bs = "unat (g_block_size s)"
  define n where "n = (if rem < g_block_size s then rem else g_block_size s)"
  have n: "unat n = min (unat rem) ?bs" by (simp add: n_def min_u32)
  then have sub: "unat (rem - n) = unat rem - min (unat rem) ?bs"
    by (subst unat_sub_u32) (simp_all add: word_le_nat_alt)
  show ?case
  proof (cases "rem = 0")
    case True
    then show ?thesis using Cons.prems(1) by (simp add: put_id)
  next
    case False
    show ?thesis
    proof (cases "b = 0")
      case True
      from Cons.IH [OF Cons.prems(1), of "rem - n"] Cons.prems(2) False True show ?thesis
        by (auto simp: sub n_def [symmetric] Let_def min_def put_id)
    next
      case nb: False
      have "b \<le> 0x100000" using Cons.prems(2) by simp
      from read_fs_block_ok [OF Cons.prems(1) this] obtain d where
        d: "read_fs_block P b s = Inr (vblock sec s b, s\<lparr>dev := d\<rparr>)" "idle d" by blast
      have fits: "?bs \<le> 4096" "length (cat_block_buf s) = 4096"
        using fs_ready_block_size [OF Cons.prems(1)] Cons.prems(1) by (auto simp: fs_ready_def)
      note len = length_vblock [OF Cons.prems(1), of b]
      let ?buf = "vblock sec s b @ drop ?bs (cat_block_buf s)"
      let ?s1 = "upd_con (put (fold vga_putc (take (unat n) (vblock sec s b)))) (s\<lparr>dev := d, cat_block_buf := ?buf\<rparr>)"
      have R1: "fs_ready P sec idle ?s1" using Cons.prems(1) d(2) fits len by (simp add: fs_ready_def)
      have c1: "fs_conf ?s1 = fs_conf s" by (simp add: fs_conf_def)
      have step: "cat_blocks P (b # ids) rem s = cat_blocks P ids (rem - n) ?s1"
        using False nb d fits len n by (simp add: n_def [symmetric] Let_def into_def min_le_iff_disj)
      have vb: "vblock sec ?s1 = vblock sec s" by (intro ext vblock_conf [OF c1])
      have bs1: "g_block_size ?s1 = g_block_size s" by simp
      from Cons.IH [OF R1, of "rem - n"] Cons.prems(2) obtain r s' where
        "cat_blocks P ids (rem - n) ?s1 = Inr (r, s')" "unat r = unat (rem - n) - length ids * ?bs"
        "fs_ready P sec idle s'"
        "quiet (upd_con (put (fold vga_putc (pieces (vblock sec s) ?bs ids (unat (rem - n))))) ?s1) s'"
        unfolding vb bs1 by auto
      then show ?thesis
        unfolding step sub using nb n by (auto simp: quiet_def fs_conf_def put_put min_def put_id)
    qed
  qed
qed

section \<open>Storing\<close>

lemma write_bytes_append:
  "write_bytes p (xs @ ys) m = write_bytes (p + of_nat (length xs)) ys (write_bytes p xs m)"
  by (induction xs arbitrary: p m) (simp_all add: add.assoc)

lemma memset_write: "memset p 0 n m = write_bytes p (replicate (unat n) 0) m"
proof -
  have "memset_loop k p c m = write_bytes p (replicate k c) m" for k c
    by (induction k arbitrary: p m) auto
  then show ?thesis by (simp add: memset_def)
qed

definition block_data :: "(nat \<Rightarrow> u8 list) \<Rightarrow> 'd fs \<Rightarrow> u32 \<Rightarrow> u8 list" where
  "block_data sec s b = (if b = 0 then replicate (unat (g_block_size s)) 0 else vblock sec s b)"

lemma block_data_conf: "fs_conf s' = fs_conf s \<Longrightarrow> block_data sec s' = block_data sec s"
  using vblock_conf [of s' s sec] by (auto simp: block_data_def fs_conf_def fun_eq_iff)

lemma length_block_data: "fs_ready P sec idle s \<Longrightarrow> length (block_data sec s b) = unat (g_block_size s)"
  by (simp add: block_data_def length_vblock)

abbreviation upd_mem :: "(mem \<Rightarrow> mem) \<Rightarrow> 'd fs \<Rightarrow> 'd fs" where
  "upd_mem f s \<equiv> s\<lparr>kmm := (kmm s)\<lparr>mm_mem := f (mm_mem (kmm s))\<rparr>\<rparr>"

lemma load_blocks_ok:
  assumes "fs_ready P sec idle s" and "\<forall>b\<in>set ids. b \<le> 0x100000"
  shows "\<exists>s'. load_blocks P ids p s = Inr (p + of_nat (length ids) * g_block_size s, s') \<and> fs_ready P sec idle s' \<and>
    quiet (upd_mem (write_bytes p (concat (map (block_data sec s) ids))) s) s'"
  using assms
proof (induction ids arbitrary: p s)
  case Nil
  then show ?case by simp
next
  case (Cons b ids)
  let ?bs = "unat (g_block_size s)"
  have "\<exists>s1. load_blocks P (b # ids) p s = load_blocks P ids (p + g_block_size s) s1 \<and> fs_ready P sec idle s1 \<and>
      quiet (upd_mem (write_bytes p (block_data sec s b)) s) s1"
  proof (cases "b = 0")
    case True
    have "fs_ready P sec idle (upd_mem f s)" for f using Cons.prems(1) by (simp add: fs_ready_def)
    then show ?thesis using True by (auto simp: block_data_def memset_write quiet_def)
  next
    case False
    have "b \<le> 0x100000" using Cons.prems(2) by simp
    from read_fs_block_ok [OF Cons.prems(1) this] obtain d where
      d: "read_fs_block P b s = Inr (vblock sec s b, s\<lparr>dev := d\<rparr>)" "idle d" by blast
    have "fs_ready P sec idle (upd_mem f (s\<lparr>dev := d\<rparr>))" for f using Cons.prems(1) d(2) by (simp add: fs_ready_def)
    then show ?thesis using False d by (auto simp: block_data_def quiet_def fs_conf_def)
  qed
  then obtain s1 where s1: "load_blocks P (b # ids) p s = load_blocks P ids (p + g_block_size s) s1"
    "fs_ready P sec idle s1" "quiet (upd_mem (write_bytes p (block_data sec s b)) s) s1" by blast
  have c: "fs_conf s1 = fs_conf s" using s1(3) by (simp add: quiet_def fs_conf_def)
  then have bs: "g_block_size s1 = g_block_size s" by (simp add: fs_conf_def)
  from Cons.IH [OF s1(2), of "p + g_block_size s"] Cons.prems(2) obtain s' where
    s': "load_blocks P ids (p + g_block_size s) s1 = Inr (p + g_block_size s + of_nat (length ids) * g_block_size s, s')"
    "fs_ready P sec idle s'"
    "quiet (upd_mem (write_bytes (p + g_block_size s) (concat (map (block_data sec s) ids))) s1) s'"
    unfolding block_data_conf [OF c] bs by auto
  have "of_nat (length (block_data sec s b)) = g_block_size s" by (simp add: length_block_data [OF Cons.prems(1)])
  then have "quiet (upd_mem (write_bytes p (concat (map (block_data sec s) (b # ids)))) s) s'"
    using s'(3) s1(3) by (simp add: quiet_def fs_conf_def write_bytes_append)
  then show ?case using s1(1) s'(1,2) by (auto simp: algebra_simps)
qed

section \<open>Files\<close>

definition file_content :: "(nat \<Rightarrow> u8 list) \<Rightarrow> 'd fs \<Rightarrow> ext2_inode \<Rightarrow> u8 list" where
  "file_content sec s ino =
     take (unat (i_size ino)) (concat (map (block_data sec s) (map (file_block sec s ino) [0..<block_count s ino])))"

text \<open>The file ends before the double indirect blocks, and its blocks have legal numbers.\<close>

definition file_ok :: "(nat \<Rightarrow> u8 list) \<Rightarrow> 'd fs \<Rightarrow> ext2_inode \<Rightarrow> bool" where
  "file_ok sec s ino \<longleftrightarrow> unat (i_size ino) \<le> reach_blocks s ino True * unat (g_block_size s) \<and>
     i_block ino ! 12 \<le> 0x100000 \<and> (\<forall>i<block_count s ino. file_block sec s ino i \<le> 0x100000)"

lemma length_i_block [simp]: "length (i_block (inode_of b)) = 15" "length (i_block (slot_inode sec s n)) = 15"
  by (simp_all add: inode_of_def slot_inode_def)

lemma block_count_props:
  assumes R: "fs_ready P sec idle s" and sz: "unat (i_size ino) \<le> reach_blocks s ino True * unat (g_block_size s)"
  shows "unat (i_size ino) \<le> block_count s ino * unat (g_block_size s)"
    and "block_count s ino \<le> reach_blocks s ino True"
    and "i_size ino \<noteq> 0 \<Longrightarrow> (block_count s ino - 1) * unat (g_block_size s) < unat (i_size ino)"
    and "block_count s ino = 0 \<longleftrightarrow> i_size ino = 0"
proof -
  let ?bs = "unat (g_block_size s)" and ?sz = "unat (i_size ino)"
  have bs: "?bs \<in> {1024, 2048, 4096}" by (rule fs_ready_block_size [OF R])
  have "reach_blocks s ino True \<le> 12 + 1024" using bs by (auto simp: reach_blocks_def)
  then have "reach_blocks s ino True * ?bs \<le> 1036 * 4096" using bs by (intro mult_le_mono) auto
  then have small: "?sz + ?bs \<le> 2 ^ 32 - 1" using sz bs by auto
  have pos: "0 < ?bs" using bs by auto
  have "i_size ino + g_block_size s - 1 = of_nat (?sz + ?bs - 1)"
    using pos by (simp add: of_nat_diff)
  then have "unat (i_size ino + g_block_size s - 1) = ?sz + ?bs - 1" using small unat_of_nat_u32 by simp
  then have c: "block_count s ino = (?sz + ?bs - 1) div ?bs" by (simp add: block_count_def unat_div)
  show ge: "?sz \<le> block_count s ino * ?bs" using round_up_ge [OF pos, of ?sz] by (simp add: c round_up_def)
  have lt: "block_count s ino * ?bs < ?sz + ?bs" using round_up_less [OF pos, of ?sz] by (simp add: c round_up_def)
  then have "block_count s ino * ?bs < (reach_blocks s ino True + 1) * ?bs" using sz by simp
  then show "block_count s ino \<le> reach_blocks s ino True" unfolding mult_less_cancel2 by simp
  show z: "block_count s ino = 0 \<longleftrightarrow> i_size ino = 0" using ge c pos by (auto simp: unat_eq_0)
  show "(block_count s ino - 1) * ?bs < ?sz" if "i_size ino \<noteq> 0"
    using lt z that pos by (cases "block_count s ino") auto
qed

lemma cat_blocks_0 [simp]: "cat_blocks P ids 0 s = Inr (0, s)"
  by (cases ids) auto

lemma cat_blocks_append:
  "cat_blocks P (xs @ ys) rem s = bindr (cat_blocks P xs rem s) (\<lambda>(r, s). cat_blocks P ys r s)"
proof (induction xs arbitrary: rem s)
  case (Cons x xs)
  show ?case
    by (auto simp: Cons Let_def bindr_def guardr_def split: sum.splits)
qed simp

lemma map_upt_split: "a \<le> b \<Longrightarrow> b \<le> c \<Longrightarrow> map f [a..<c] = map f [a..<b] @ map f [b..<c]"
  by (metis map_append le_add_diff_inverse upt_add_eq_append)

lemma take12: "length (i_block ino) = 15 \<Longrightarrow> take 12 (i_block ino) = map (file_block sec s ino) [0..<12]"
  by (rule nth_equalityI) (simp_all add: file_block_def)

lemma indirect_ids:
  assumes "fs_ready P sec idle s"
  shows "map (\<lambda>i. le32 (vblock sec s (i_block ino ! 12) @ r) (4 * i)) [0..<unat (g_block_size s) div 4] =
    map (file_block sec s ino) [12..<12 + unat (g_block_size s) div 4]"
  using length_vblock [OF assms, of "i_block ino ! 12"]
  by (intro nth_equalityI) (simp_all add: file_block_def le32_def byte_at_append)

text \<open>The two loops of \<open>ext2_cat\<close> as one run over the block numbers of the file.\<close>

lemma cat_run:
  assumes R: "fs_ready P sec idle s" and ok: "file_ok sec s ino" and len: "length (i_block ino) = 15"
    and ne: "i_size ino \<noteq> 0"
  shows "\<exists>s'. bindr (cat_blocks P (take 12 (i_block ino)) (i_size ino) s) (\<lambda>(size_remaining, s).
       if 0 < size_remaining \<and> i_block ino ! 12 \<noteq> 0
       then bindr (read_fs_block P (i_block ino ! 12) s) (\<lambda>(bs, s).
            bindr (into (cat_indirect_buf s) bs) (\<lambda>buf.
            bindr (cat_blocks P (map (\<lambda>i. le32 buf (4 * i)) [0..<unat (g_block_size s div 4)]) size_remaining
                     (s\<lparr>cat_indirect_buf := buf\<rparr>)) (\<lambda>(_, s). Inr s)))
       else Inr s) = Inr s' \<and> fs_ready P sec idle s' \<and>
     quiet (upd_con (put (fold vga_putc (pieces (vblock sec s) (unat (g_block_size s))
       (map (file_block sec s ino) [0..<block_count s ino]) (unat (i_size ino))))) s) s'"
proof -
  let ?bs = "unat (g_block_size s)" and ?c = "block_count s ino" and ?fb = "file_block sec s ino"
  note C = block_count_props [OF R, of ino] 
  have sz: "unat (i_size ino) \<le> reach_blocks s ino True * ?bs" and b12: "i_block ino ! 12 \<le> 0x100000"
    and ids: "\<And>i. i < ?c \<Longrightarrow> ?fb i \<le> 0x100000" using ok by (auto simp: file_ok_def)
  define k where "k = min ?c 12"
  have k: "\<forall>b\<in>set (map ?fb [0..<k]). b \<le> 0x100000" using ids by (auto simp: k_def)
  obtain r s1 where d: "cat_blocks P (map ?fb [0..<k]) (i_size ino) s = Inr (r, s1)"
    "unat r = unat (i_size ino) - k * ?bs" "fs_ready P sec idle s1"
    "quiet (upd_con (put (fold vga_putc (pieces (vblock sec s) ?bs (map ?fb [0..<k]) (unat (i_size ino))))) s) s1"
    using cat_blocks_ok [OF R k, of "i_size ino"] by auto
  show ?thesis
  proof (cases "?c \<le> 12")
    case True
    then have kc: "k = ?c" by (simp add: k_def)
    then have "r = 0" using d(2) C(1) [OF sz] by (simp add: unat_eq_zero)
    moreover have "take 12 (i_block ino) = map ?fb [0..<k] @ map ?fb [k..<12]"
      using take12 [OF len, of sec s] map_upt_split [of 0 k 12 ?fb] by (simp add: k_def)
    ultimately show ?thesis using d kc by (simp add: cat_blocks_append)
  next
    case False
    then have k12: "k = 12" by (simp add: k_def)
    have "12 * ?bs \<le> (?c - 1) * ?bs" using False by (intro mult_le_mono1) simp
    then have big: "12 * ?bs < unat (i_size ino)" using C(3) [OF sz ne] by linarith
    then have "12 < reach_blocks s ino True" using C(2) [OF sz] False by linarith
    then have b12n: "i_block ino ! 12 \<noteq> 0" and cr: "?c \<le> 12 + ?bs div 4"
      using C(2) [OF sz] by (auto simp: reach_blocks_def split: if_splits)
    have r0: "0 < r" using d(2) big by (simp add: k12 word_less_nat_alt)
    have c1: "fs_conf s1 = fs_conf s" using d(4) by (simp add: quiet_def fs_conf_def)
    then have bs1: "g_block_size s1 = g_block_size s" by (simp add: fs_conf_def)
    have vb1: "vblock sec s1 = vblock sec s" by (intro ext vblock_conf [OF c1])
    obtain e where e: "read_fs_block P (i_block ino ! 12) s1 = Inr (vblock sec s (i_block ino ! 12), s1\<lparr>dev := e\<rparr>)" "idle e"
      using read_fs_block_ok [OF d(3) b12] vb1 by auto
    have fits: "?bs \<le> 4096" "length (cat_indirect_buf s1) = 4096"
      using fs_ready_block_size [OF R] d(3) by (auto simp: fs_ready_def)
    let ?buf = "vblock sec s (i_block ino ! 12) @ drop ?bs (cat_indirect_buf s1)"
    let ?s2 = "s1\<lparr>dev := e, cat_indirect_buf := ?buf\<rparr>"
    have R2: "fs_ready P sec idle ?s2" using d(3) e(2) fits by (simp add: fs_ready_def length_vblock [OF R])
    have c2: "fs_conf ?s2 = fs_conf s" using c1 by (simp add: fs_conf_def)
    have vb2: "vblock sec ?s2 = vblock sec s" by (intro ext vblock_conf [OF c2])
    have k2: "\<forall>b\<in>set (map ?fb [12..<?c]). b \<le> 0x100000" using ids by auto
    obtain r3 s3 where f: "cat_blocks P (map ?fb [12..<?c]) r ?s2 = Inr (r3, s3)"
      "unat r3 = unat r - (?c - 12) * ?bs" "fs_ready P sec idle s3"
      "quiet (upd_con (put (fold vga_putc (pieces (vblock sec s) ?bs (map ?fb [12..<?c]) (unat r)))) ?s2) s3"
      using cat_blocks_ok [OF R2 k2, of r] bs1 vb2 by auto
    have "?c * ?bs = 12 * ?bs + (?c - 12) * ?bs"
      using False by (metis add_mult_distrib le_add_diff_inverse nat_le_linear)
    then have "unat r3 = 0" using f(2) d(2) C(1) [OF sz] by (simp add: k12)
    then have "r3 = 0" by (simp add: unat_eq_zero)
    have "map ?fb [12..<12 + ?bs div 4] = map ?fb [12..<?c] @ map ?fb [?c..<12 + ?bs div 4]"
      using False cr by (intro map_upt_split) auto
    then have ent: "map (\<lambda>i. le32 ?buf (4 * i)) [0..<?bs div 4] = map ?fb [12..<?c] @ map ?fb [?c..<12 + ?bs div 4]"
      using indirect_ids [OF R] by simp
    have "bindr (cat_blocks P (map (\<lambda>i. le32 ?buf (4 * i)) [0..<?bs div 4]) r ?s2) (\<lambda>(_, s). Inr s) = Inr s3"
      unfolding ent cat_blocks_append f(1) by (simp add: \<open>r3 = 0\<close>)
    moreover have "map ?fb [0..<?c] = map ?fb [0..<12] @ map ?fb [12..<?c]" using False by (intro map_upt_split) auto
    then have "pieces (vblock sec s) ?bs (map ?fb [0..<?c]) (unat (i_size ino)) =
        pieces (vblock sec s) ?bs (map ?fb [0..<12]) (unat (i_size ino)) @ pieces (vblock sec s) ?bs (map ?fb [12..<?c]) (unat r)"
      by (simp add: pieces_append d(2) k12)
    ultimately show ?thesis
      using d e f(3,4) r0 b12n fits k12 bs1 take12 [OF len, of sec s]
      by (simp add: into_def length_vblock [OF R] unat_div quiet_def fs_conf_def put_put comp_def)
  qed
qed

end
