(* ===== verification/Ext2_Spec.thy ===== *)
theory Ext2_Spec
  imports Ext2_File
begin

text \<open>
  What an ext2 volume says, read from its sectors as the format defines it and independently
  of the driver: the superblock at byte 1024, the table of group descriptors after it, an
  inode in the table of its own block group, a directory as the used entries of all its
  blocks.

  The kernel reads one group descriptor and takes every inode from that table
  (\<open>slot_inode\<close>, \<open>slot_lookup\<close>). The two agree for the inodes of the first block group
  (\<open>first_group\<close>) and the directories whose blocks the kernel reaches; outside the first
  group it reads past the end of the table (\<open>get_inode_outside_table\<close>).
\<close>

section \<open>The volume\<close>

definition volume_sb :: "(nat \<Rightarrow> u8 list) \<Rightarrow> 'd fs \<Rightarrow> ext2_superblock" where
  "volume_sb sec s = read_superblock (sec (unat (ext2_start_lba s) + 2) @ sec (unat (ext2_start_lba s) + 3))"

text \<open>The size of an inode: 128 bytes in revision 0, a field of the superblock from then on.\<close>

definition volume_inode_size :: "(nat \<Rightarrow> u8 list) \<Rightarrow> 'd fs \<Rightarrow> u32" where
  "volume_inode_size sec s = (let sb = volume_sb sec s in if s_rev_level sb = 0 then 128 else ucast (s_inode_size sb))"

text \<open>Descriptor \<open>g\<close> of the table that starts in the block after the one with the superblock.\<close>

definition group_desc :: "(nat \<Rightarrow> u8 list) \<Rightarrow> 'd fs \<Rightarrow> nat \<Rightarrow> ext2_group_desc" where
  "group_desc sec s g =
     (let per = unat (g_block_size s) div 32
      in read_group_desc (drop (32 * (g mod per)) (vblock sec s (s_first_data_block (volume_sb sec s) + 1 + of_nat (g div per)))))"

text \<open>Inode \<open>n\<close> is entry \<open>(n - 1) mod ipg\<close> of the table of group \<open>(n - 1) div ipg\<close>.\<close>

definition inode_at :: "(nat \<Rightarrow> u8 list) \<Rightarrow> 'd fs \<Rightarrow> u32 \<Rightarrow> ext2_inode" where
  "inode_at sec s n =
     (let ipg = unat (s_inodes_per_group (volume_sb sec s)); size = unat (volume_inode_size sec s);
          ipb = unat (g_block_size s) div size; g = (unat n - 1) div ipg; i = (unat n - 1) mod ipg
      in inode_of (take 128 (drop (i mod ipb * size)
           (vblock sec s (bg_inode_table (group_desc sec s g) + of_nat (i div ipb))))))"

text \<open>The used entries of all blocks of a directory, and the inode of the first one with a name.\<close>

definition dir_entries :: "(nat \<Rightarrow> u8 list) \<Rightarrow> 'd fs \<Rightarrow> ext2_inode \<Rightarrow> (ext2_dir_entry_2 \<times> u8 list) list" where
  "dir_entries sec s ino =
     (let bs = unat (g_block_size s); count = (unat (i_size ino) + bs - 1) div bs
      in concat (map (\<lambda>b. block_entries s (vblock sec s b)) (filter (\<lambda>b. b \<noteq> 0) (map (file_block sec s ino) [0..<count]))))"

definition dir_lookup :: "(nat \<Rightarrow> u8 list) \<Rightarrow> 'd fs \<Rightarrow> u32 \<Rightarrow> u8 list \<Rightarrow> u32" where
  "dir_lookup sec s n nm =
     (if is_dir (inode_at sec s n)
      then case find (\<lambda>x. snd x = nm) (dir_entries sec s (inode_at sec s n)) of
             None \<Rightarrow> 0 | Some x \<Rightarrow> de_inode (fst x)
      else 0)"

text \<open>
  The variables of the driver hold what the volume says: its superblock, its first group
  descriptor, the size of a block and of an inode.
\<close>

definition on_volume :: "(nat \<Rightarrow> u8 list) \<Rightarrow> 'd fs \<Rightarrow> bool" where
  "on_volume sec s \<longleftrightarrow> g_sb s = Some (volume_sb sec s) \<and> fs_gdt s = Some (group_desc sec s 0) \<and>
     g_block_size s = push_bit (unat (s_log_block_size (volume_sb sec s))) 1024 \<and> g_inode_size s = volume_inode_size sec s"

definition first_group :: "(nat \<Rightarrow> u8 list) \<Rightarrow> 'd fs \<Rightarrow> u32 \<Rightarrow> bool" where
  "first_group sec s n \<longleftrightarrow> n \<noteq> 0 \<and> n \<le> s_inodes_count (volume_sb sec s) \<and> n \<le> s_inodes_per_group (volume_sb sec s)"

lemma spec_conf:
  assumes c: "fs_conf s' = fs_conf s"
  shows "volume_sb sec s' = volume_sb sec s" "group_desc sec s' g = group_desc sec s g"
    "inode_at sec s' n = inode_at sec s n" "dir_lookup sec s' n nm = dir_lookup sec s n nm"
    "on_volume sec s' = on_volume sec s" "first_group sec s' n = first_group sec s n"
proof -
  have f: "g_block_size s' = g_block_size s" "g_inode_size s' = g_inode_size s" "ext2_start_lba s' = ext2_start_lba s"
    "g_sb s' = g_sb s" "fs_gdt s' = fs_gdt s" using c by (simp_all add: fs_conf_def)
  have v: "vblock sec s' = vblock sec s" using vblock_conf [OF c] by (intro ext)
  show sb: "volume_sb sec s' = volume_sb sec s" by (simp add: volume_sb_def f)
  have gd: "group_desc sec s' g = group_desc sec s g" for g by (simp add: group_desc_def f v sb)
  then show "group_desc sec s' g = group_desc sec s g" .
  have isz: "volume_inode_size sec s' = volume_inode_size sec s" by (simp add: volume_inode_size_def sb)
  have i: "inode_at sec s' n = inode_at sec s n" for n by (simp add: inode_at_def f v sb gd isz)
  then show "inode_at sec s' n = inode_at sec s n" .
  have "block_entries s' = block_entries s" by (intro ext) (simp add: block_entries_def f)
  moreover have "file_block sec s' ino = file_block sec s ino" for ino by (intro ext) (simp add: file_block_def v)
  ultimately have "dir_entries sec s' ino = dir_entries sec s ino" for ino by (simp add: dir_entries_def f v)
  then show "dir_lookup sec s' n nm = dir_lookup sec s n nm" by (simp add: dir_lookup_def i)
  show "on_volume sec s' = on_volume sec s" "first_group sec s' n = first_group sec s n"
    by (simp_all add: on_volume_def first_group_def f sb gd isz)
qed

section \<open>The driver's view agrees in the first group\<close>

lemma first_group_valid: "on_volume sec s \<Longrightarrow> first_group sec s n \<Longrightarrow> valid_inode s n"
  by (simp add: on_volume_def first_group_def valid_inode_def)

lemma inode_at_slot:
  assumes "on_volume sec s" and "g_inode_size s = 128" and "first_group sec s n"
  shows "inode_at sec s n = slot_inode sec s n"
proof -
  have "0 < unat n" "unat n \<le> unat (s_inodes_per_group (volume_sb sec s))"
    using assms(3) by (simp_all add: first_group_def unat_gt_0 word_le_nat_alt)
  then have "(unat n - 1) div unat (s_inodes_per_group (volume_sb sec s)) = 0"
    "(unat n - 1) mod unat (s_inodes_per_group (volume_sb sec s)) = unat n - 1" by simp_all
  then show ?thesis
    using assms(1,2) by (simp add: inode_at_def slot_inode_def slot_bytes_def on_volume_def Let_def)
qed

lemma dir_entries_list:
  assumes R: "fs_ready P sec idle s" and sz: "unat (i_size ino) \<le> reach_blocks s ino mem * unat (g_block_size s)"
  shows "dir_entries sec s ino = dir_list sec s ino mem"
proof -
  let ?bs = "unat (g_block_size s)"
  have pos: "0 < ?bs" using fs_ready_block_size [OF R] by auto
  have "reach_blocks s ino mem \<le> reach_blocks s ino True" by (simp add: reach_blocks_def)
  then have sz': "unat (i_size ino) \<le> reach_blocks s ino True * ?bs" using sz by (meson le_trans mult_le_mono1)
  note c = block_count_props [OF R sz']
  have "block_count s ino = (unat (i_size ino) + ?bs - 1) div ?bs"
  proof (cases "i_size ino = 0")
    case True
    then show ?thesis using c(4) pos by simp
  next
    case False
    then have "0 < block_count s ino" using c(4) by simp
    then obtain k where k: "block_count s ino = Suc k" by (cases "block_count s ino") auto
    have "k * ?bs < unat (i_size ino)" "unat (i_size ino) \<le> Suc k * ?bs" using c(1) c(3) [OF False] by (simp_all add: k)
    then have "Suc k * ?bs \<le> unat (i_size ino) + ?bs - 1" "unat (i_size ino) + ?bs - 1 < Suc (Suc k) * ?bs" using pos by auto
    then have "(unat (i_size ino) + ?bs - 1) div ?bs = Suc k" by (intro div_nat_eqI) (simp_all add: mult.commute)
    then show ?thesis using k by simp
  qed
  moreover have "block_count s ino \<le> reach_blocks s ino mem"
  proof (rule ccontr)
    assume "\<not> block_count s ino \<le> reach_blocks s ino mem"
    then have "reach_blocks s ino mem * ?bs \<le> (block_count s ino - 1) * ?bs" "i_size ino \<noteq> 0"
      using c(4) by (auto intro!: mult_le_mono1)
    then show False using c(3) sz by linarith
  qed
  ultimately show ?thesis
    by (simp add: dir_entries_def dir_list_def dir_blocks_def block_ids_def comp_def Let_def min_def)
qed

text \<open>
  A directory of the first group that a search can read to its end: its blocks are well
  formed, and it ends in the twelve direct blocks or in the single indirect ones, for which
  the heap must have room.
\<close>

definition searchable :: "link_map \<Rightarrow> 'd ports \<Rightarrow> (nat \<Rightarrow> u8 list) \<Rightarrow> ('d \<Rightarrow> bool) \<Rightarrow> u32 \<Rightarrow> 'd fs \<Rightarrow> bool" where
  "searchable L P sec idle n s \<longleftrightarrow> heap_link L \<and> heap_inv L (kmm s) \<and> fs_ready P sec idle s \<and> on_volume sec s \<and>
     first_group sec s n \<and> (let ino = inode_at sec s n in
       is_dir ino \<longrightarrow> dir_ok sec s ino \<and> unat (i_size ino) \<le> reach_blocks s ino (heap_room L s) * unat (g_block_size s))"

lemma searchableD:
  assumes "searchable L P sec idle n s"
  shows "dir_ready L P sec idle n s" and "slot_lookup sec s n nm (heap_room L s) = dir_lookup sec s n nm"
    and "fs_ready P sec idle s" and "on_volume sec s" and "g_inode_size s = 128"
proof -
  show R: "fs_ready P sec idle s" and V: "on_volume sec s" and isz: "g_inode_size s = 128"
    using assms by (simp_all add: searchable_def fs_ready_def)
  have f: "first_group sec s n" using assms by (simp add: searchable_def)
  note e = inode_at_slot [OF V isz f]
  show "dir_ready L P sec idle n s"
    using assms first_group_valid [OF V f] by (simp add: searchable_def dir_ready_def e Let_def)
  have "dir_entries sec s (inode_at sec s n) = dir_list sec s (slot_inode sec s n) (heap_room L s)" if "is_dir (slot_inode sec s n)"
    using dir_entries_list [OF R] assms that by (simp add: searchable_def e Let_def)
  then show "slot_lookup sec s n nm (heap_room L s) = dir_lookup sec s n nm"
    by (simp add: slot_lookup_def dir_lookup_def e split: option.split)
qed

section \<open>Outside the first group\<close>

text \<open>
  For an inode beyond the first group the kernel takes its 128 bytes from a block behind the
  inode table of group 0, whatever the descriptor of the inode's own group says.
\<close>

theorem get_inode_outside_table:
  assumes R: "fs_ready P sec idle s" and V: "on_volume sec s" and v: "valid_inode s n" and "length junk = 128"
    and out: "s_inodes_per_group (volume_sb sec s) < n"
  shows "\<exists>s' b off. get_inode P junk n s = Inr (inode_of (take 128 (drop off (vblock sec s b))), s') \<and>
    unat b \<ge> unat (bg_inode_table (group_desc sec s 0)) +
      unat (s_inodes_per_group (volume_sb sec s)) div (unat (g_block_size s) div 128)"
proof -
  define ipb where "ipb = unat (g_block_size s) div 128"
  let ?b = "bg_inode_table (group_desc sec s 0) + of_nat ((unat n - 1) div ipb)"
  obtain s' where s': "get_inode P junk n s = Inr (slot_inode sec s n, s')"
    using get_inode_ok [OF R v assms(4)] by blast
  have "slot_inode sec s n = inode_of (take 128 (drop ((unat n - 1) mod ipb * 128) (vblock sec s ?b)))"
    using V by (simp add: slot_inode_def slot_bytes_def on_volume_def ipb_def Let_def)
  moreover have "unat (bg_inode_table (group_desc sec s 0)) + unat n \<le> 0x100000"
    using R V v by (auto simp: fs_ready_def on_volume_def valid_inode_def word_le_nat_alt)
  then have "unat (bg_inode_table (group_desc sec s 0)) + (unat n - 1) div ipb \<le> 0x100000"
    using div_le_dividend [of "unat n - 1" ipb] by linarith
  then have "unat ?b = unat (bg_inode_table (group_desc sec s 0)) + (unat n - 1) div ipb"
    by (subst unat_add_u32) (simp_all add: unat_of_nat_u32)
  moreover have "unat (s_inodes_per_group (volume_sb sec s)) \<le> unat n - 1" using out by (simp add: word_less_nat_alt)
  then have "unat (s_inodes_per_group (volume_sb sec s)) div ipb \<le> (unat n - 1) div ipb" by (rule div_le_mono)
  ultimately show ?thesis using s' unfolding ipb_def by (metis add_le_cancel_left)
qed

end
