(* ===== verification/Ext2_Path.thy ===== *)
theory Ext2_Path
  imports Ext2_Spec
begin

text \<open>
  Paths as lists of names. \<open>walk\<close> follows the names through the directories of the volume and
  \<open>slot_walk\<close> through what the kernel reads as inodes; the path resolver computes the second
  for every path whose names have at most 31 bytes, and cuts a longer name into pieces. The
  two agree when the directories on the way belong to the first block group and have at
  most twelve blocks (\<open>walk_ready\<close>).
\<close>

section \<open>Paths\<close>

definition proper_name :: "u8 list \<Rightarrow> bool" where
  "proper_name nm \<longleftrightarrow> nm \<noteq> [] \<and> 0x2F \<notin> set nm \<and> 0 \<notin> set nm"

fun join :: "u8 list list \<Rightarrow> u8 list" where
  "join [] = []"
| "join [nm] = nm"
| "join (nm # nms) = nm @ 0x2F # join nms"

fun slot_walk :: "(nat \<Rightarrow> u8 list) \<Rightarrow> 'd fs \<Rightarrow> u32 \<Rightarrow> u8 list list \<Rightarrow> u32" where
  "slot_walk sec s n [] = n"
| "slot_walk sec s n (nm # nms) = (let i = slot_lookup sec s n nm True in if i = 0 then 0 else slot_walk sec s i nms)"

text \<open>
  Every directory on the way can be walked, and none has more than twelve blocks (the
  others need a heap buffer whose allocation may fail).
\<close>

definition dir_small :: "(nat \<Rightarrow> u8 list) \<Rightarrow> 'd fs \<Rightarrow> u32 \<Rightarrow> bool" where
  "dir_small sec s n \<longleftrightarrow> valid_inode s n \<and>
     (is_dir (slot_inode sec s n) \<longrightarrow> dir_ok sec s (slot_inode sec s n) \<and>
        (block_count s (slot_inode sec s n) \<le> 12 \<or> i_block (slot_inode sec s n) ! 12 = 0))"

fun slot_walk_ready :: "(nat \<Rightarrow> u8 list) \<Rightarrow> 'd fs \<Rightarrow> u32 \<Rightarrow> u8 list list \<Rightarrow> bool" where
  "slot_walk_ready sec s n [] = True"
| "slot_walk_ready sec s n (nm # nms) =
     (dir_small sec s n \<and> (let i = slot_lookup sec s n nm True in i \<noteq> 0 \<longrightarrow> slot_walk_ready sec s i nms))"

lemma slot_lookup_small:
  assumes "dir_small sec s n"
  shows "slot_lookup sec s n nm mem = slot_lookup sec s n nm True"
proof (cases "is_dir (slot_inode sec s n)")
  case True
  with assms have "min (block_count s (slot_inode sec s n)) (reach_blocks s (slot_inode sec s n) mem) =
      min (block_count s (slot_inode sec s n)) (reach_blocks s (slot_inode sec s n) True)"
    by (auto simp: dir_small_def reach_blocks_def)
  then show ?thesis by (simp add: slot_lookup_def dir_list_def dir_blocks_def)
qed (simp add: slot_lookup_def)

lemma slot_walk_conf:
  assumes c: "fs_conf s' = fs_conf s"
  shows "slot_walk sec s' n nms = slot_walk sec s n nms" "slot_walk_ready sec s' n nms = slot_walk_ready sec s n nms"
proof -
  have "dir_small sec s' n = dir_small sec s n" for n
    by (simp add: dir_small_def slot_inode_conf [OF c] valid_inode_conf [OF c] dir_conf [OF c])
  then show "slot_walk sec s' n nms = slot_walk sec s n nms" "slot_walk_ready sec s' n nms = slot_walk_ready sec s n nms"
    by (induction nms arbitrary: n) (simp_all add: dir_conf(3) [OF c] Let_def)
qed

text \<open>The same through the volume as the format defines it.\<close>

fun walk :: "(nat \<Rightarrow> u8 list) \<Rightarrow> 'd fs \<Rightarrow> u32 \<Rightarrow> u8 list list \<Rightarrow> u32" where
  "walk sec s n [] = n"
| "walk sec s n (nm # nms) = (let i = dir_lookup sec s n nm in if i = 0 then 0 else walk sec s i nms)"

definition dir_direct :: "(nat \<Rightarrow> u8 list) \<Rightarrow> 'd fs \<Rightarrow> u32 \<Rightarrow> bool" where
  "dir_direct sec s n \<longleftrightarrow> first_group sec s n \<and> (let ino = inode_at sec s n in
     is_dir ino \<longrightarrow> dir_ok sec s ino \<and> unat (i_size ino) \<le> 12 * unat (g_block_size s))"

fun walk_ready :: "(nat \<Rightarrow> u8 list) \<Rightarrow> 'd fs \<Rightarrow> u32 \<Rightarrow> u8 list list \<Rightarrow> bool" where
  "walk_ready sec s n [] = True"
| "walk_ready sec s n (nm # nms) =
     (dir_direct sec s n \<and> (let i = dir_lookup sec s n nm in i \<noteq> 0 \<longrightarrow> walk_ready sec s i nms))"

lemma dir_direct_small:
  assumes R: "fs_ready P sec idle s" and V: "on_volume sec s" and D: "dir_direct sec s n"
  shows "dir_small sec s n" and "slot_lookup sec s n nm True = dir_lookup sec s n nm"
proof -
  have isz: "g_inode_size s = 128" using R by (simp add: fs_ready_def)
  have f: "first_group sec s n" using D by (simp add: dir_direct_def)
  note e = inode_at_slot [OF V isz f]
  let ?ino = "slot_inode sec s n"
  have sz12: "unat (i_size ?ino) \<le> 12 * unat (g_block_size s)" if "is_dir ?ino"
    using D that by (simp add: dir_direct_def e Let_def)
  have sz: "unat (i_size ?ino) \<le> reach_blocks s ?ino mem * unat (g_block_size s)" if "is_dir ?ino" for mem
  proof -
    have "12 * unat (g_block_size s) \<le> reach_blocks s ?ino mem * unat (g_block_size s)"
      by (rule mult_le_mono1) (simp add: reach_blocks_def)
    with sz12 [OF that] show ?thesis by (rule order_trans)
  qed
  have "block_count s ?ino \<le> 12" if "is_dir ?ino"
  proof (rule ccontr)
    assume "\<not> block_count s ?ino \<le> 12"
    then have "12 * unat (g_block_size s) \<le> (block_count s ?ino - 1) * unat (g_block_size s)" "i_size ?ino \<noteq> 0"
      using block_count_props(4) [OF R sz [OF that]] by (auto intro!: mult_le_mono1)
    then show False using block_count_props(3) [OF R sz [OF that]] sz12 [OF that] by linarith
  qed
  then show "dir_small sec s n"
    using first_group_valid [OF V f] D by (simp add: dir_small_def dir_direct_def e Let_def)
  show "slot_lookup sec s n nm True = dir_lookup sec s n nm"
    using dir_entries_list [OF R sz, of True] by (simp add: slot_lookup_def dir_lookup_def e split: option.split)
qed

lemma walk_slot:
  assumes "fs_ready P sec idle s" and "on_volume sec s"
  shows "walk_ready sec s n nms \<Longrightarrow> slot_walk_ready sec s n nms \<and> slot_walk sec s n nms = walk sec s n nms"
  using dir_direct_small [OF assms] by (induction nms arbitrary: n) (auto simp: Let_def)

section \<open>Splitting\<close>

lemma take_name_proper:
  "length nm \<le> k \<Longrightarrow> 0x2F \<notin> set nm \<Longrightarrow> 0 \<notin> set nm \<Longrightarrow> x = 0x2F \<or> x = 0 \<Longrightarrow>
   take_name k (nm @ x # r) = Some (nm, x # r)"
proof (induction nm arbitrary: k)
  case Nil
  then show ?case by (cases k) auto
next
  case (Cons c nm)
  then show ?case by (cases k) auto
qed

lemma take_name_long:
  "k < length nm \<Longrightarrow> 0x2F \<notin> set nm \<Longrightarrow> 0 \<notin> set nm \<Longrightarrow> take_name k (nm @ r) = Some (take k nm, drop k nm @ r)"
proof (induction nm arbitrary: k)
  case (Cons c nm)
  then show ?case by (cases k) auto
qed simp

text \<open>One round of the loop.\<close>

lemma resolve_step:
  assumes c: "c \<noteq> 0" and t: "take_name 31 (c # path) = Some (nm, rest)" and nz: "0 \<notin> set nm"
    and hl: "heap_link L" "heap_inv L (kmm s)" and R: "fs_ready P sec idle s" and small: "dir_small sec s n"
    and junk: "length junk = 128" and S: "string_lib S"
  shows "\<exists>s'. resolve_loop L P S junk (c # path) n s =
      (if slot_lookup sec s n nm True = 0 then Inr (0, s')
       else resolve_loop L P S junk (skip_slash rest)
              (slot_lookup sec s n nm True) s') \<and>
    fs_ready P sec idle s' \<and> fs_kept L s s' \<and> con s' = con s"
proof -
  have "dir_ready L P sec idle n s" using hl R small by (simp add: dir_ready_def dir_small_def)
  from find_inode_ok [OF this junk S, of "nm @ [0]"] obtain s' where
    "find_inode_in_dir L P S junk n (nm @ [0]) s = Inr (slot_lookup sec s n nm True, s')"
    "fs_ready P sec idle s'" "fs_kept L s s'" "con s' = con s"
    using nz slot_lookup_small [OF small] by auto
  then show ?thesis using c t by (subst resolve_loop.simps) auto
qed

lemma resolve_end: "resolve_loop L P S junk (0 # r) n s = Inr (n, s)"
  by (simp add: resolve_loop.simps)

lemma join_Cons: "nms \<noteq> [] \<Longrightarrow> join (nm # nms) = nm @ 0x2F # join nms"
  by (cases nms) auto

lemma resolve_loop_ok:
  assumes L: "heap_link L" and junk: "length junk = 128" and S: "string_lib S"
    and post: "post = [] \<or> post = [0x2F]"
  shows "heap_inv L (kmm s) \<Longrightarrow> fs_ready P sec idle s \<Longrightarrow> nms \<noteq> [] \<Longrightarrow>
    \<forall>nm\<in>set nms. proper_name nm \<and> length nm \<le> 31 \<Longrightarrow> slot_walk_ready sec s n nms \<Longrightarrow>
    \<exists>s'. resolve_loop L P S junk (join nms @ post @ 0 # r) n s = Inr (slot_walk sec s n nms, s') \<and>
      fs_ready P sec idle s' \<and> fs_kept L s s' \<and> con s' = con s"
proof (induction nms arbitrary: n s)
  case (Cons nm nms)
  have pr: "nm \<noteq> []" "0x2F \<notin> set nm" "0 \<notin> set nm" "length nm \<le> 31" and small: "dir_small sec s n"
    using Cons.prems by (auto simp: proper_name_def)
  define x rest where "x = (if nms = [] \<and> post = [] then (0 :: u8) else 0x2F)"
    and "rest = (if nms = [] then (if post = [] then r else 0 # r) else join nms @ post @ 0 # r)"
  have path: "join (nm # nms) @ post @ 0 # r = nm @ x # rest"
    using post by (cases nms) (auto simp: x_def rest_def)
  obtain c nm' where nm: "nm = c # nm'" using pr(1) by (cases nm) auto
  have t: "take_name 31 (c # nm' @ x # rest) = Some (nm, x # rest)"
    using take_name_proper [of nm 31 x rest] pr nm by (simp add: x_def)
  from resolve_step [OF _ t pr(3) L Cons.prems(1,2) small junk S] pr(3) nm
  obtain s' where s': "resolve_loop L P S junk (nm @ x # rest) n s =
      (if slot_lookup sec s n nm True = 0 then Inr (0, s')
       else resolve_loop L P S junk (skip_slash (x # rest)) (slot_lookup sec s n nm True) s')"
    and R': "fs_ready P sec idle s'" and K: "fs_kept L s s'" and C: "con s' = con s"
    by (auto simp del: skip_slash.simps)
  have c: "fs_conf s' = fs_conf s" and inv: "heap_inv L (kmm s')" using K by (simp_all add: fs_kept_def heap_kept_def)
  show ?case
  proof (cases "slot_lookup sec s n nm True = 0")
    case True
    then show ?thesis using s' R' K C unfolding path by (auto simp: Let_def)
  next
    case False
    show ?thesis
    proof (cases "nms = []")
      case True
      then have "skip_slash (x # rest) = 0 # r" using post by (auto simp: x_def rest_def)
      then show ?thesis using False s' R' K C True unfolding path by (auto simp: Let_def resolve_end)
    next
      case ne: False
      have "slot_walk_ready sec s' (slot_lookup sec s n nm True) nms"
        unfolding slot_walk_conf [OF c] using Cons.prems(5) False by (simp add: Let_def)
      from Cons.IH [OF inv R' ne _ this] Cons.prems(4) obtain s'' where
        "resolve_loop L P S junk (join nms @ post @ 0 # r) (slot_lookup sec s n nm True) s' =
          Inr (slot_walk sec s (slot_lookup sec s n nm True) nms, s'')"
        "fs_ready P sec idle s''" "fs_kept L s' s''" "con s'' = con s'" by (auto simp: slot_walk_conf [OF c])
      moreover have "skip_slash (x # rest) = join nms @ post @ 0 # r"
        using ne by (simp add: x_def rest_def)
      ultimately show ?thesis using False s' fs_kept_trans [OF K] C unfolding path by (auto simp: Let_def)
    qed
  qed
qed simp

section \<open>Properties\<close>

lemma resolve_path_ok:
  assumes "heap_link L" and "heap_inv L (kmm s)" and "fs_ready P sec idle s" and "string_lib S" and "length junk = 128"
    and "nms \<noteq> []" and "\<forall>nm\<in>set nms. proper_name nm \<and> length nm \<le> 31" and "slot_walk_ready sec s 2 nms"
    and "pre = [] \<or> pre = [0x2F]" and "post = [] \<or> post = [0x2F]"
  shows "\<exists>s'. resolve_path L P S junk (Some (pre @ join nms @ post @ 0 # r)) s = Inr (slot_walk sec s 2 nms, s') \<and>
    fs_ready P sec idle s' \<and> fs_kept L s s' \<and> con s' = con s"
proof -
  let ?p = "pre @ join nms @ post @ 0 # r"
  obtain c nm' nms' where nm: "nms = (c # nm') # nms'" and c: "c \<noteq> 0" "c \<noteq> 0x2F"
    using assms(6,7) by (cases nms) (auto simp: proper_name_def neq_Nil_conv)
  obtain j where j: "join nms @ post @ 0 # r = c # j" using nm by (cases nms') auto
  have "cstr ?p \<noteq> [0x2F]" using assms(9) j c by auto
  moreover obtain e where "op_strcmp S ?p [0x2F, 0] = Some e" "e = 0 \<longleftrightarrow> cstr ?p = [0x2F]"
    using c_strings.scmp_ok [OF assms(4), of ?p "[0x2F, 0]"] by auto
  moreover have "(if hd ?p = 0x2F then tl ?p else ?p) = join nms @ post @ 0 # r" "hd ?p \<noteq> 0" "?p \<noteq> []"
    using assms(9) j c by auto
  ultimately have "resolve_path L P S junk (Some ?p) s = resolve_loop L P S junk (join nms @ post @ 0 # r) 2 s"
    by (simp add: resolve_path_def)
  with resolve_loop_ok [OF assms(1,5,4,10,2,3,6,7,8)] show ?thesis by simp
qed

text \<open>
  C10: \<open>resolve_path\<close> follows a path. For names of 1 to 31 bytes, joined with slashes, with or
  without a slash in front or at the end, it returns the inode that the directories of the
  volume give, 0 as soon as one name is missing or one parent is not a directory; it prints
  nothing and gives back every heap block. The directories searched must have inodes in the
  first block group, and well-formed entries in at most twelve blocks.
\<close>

theorem resolve_path_correct:
  assumes "heap_link L" and "heap_inv L (kmm s)" and "fs_ready P sec idle s" and "on_volume sec s" and "string_lib S"
    and "length junk = 128" and "nms \<noteq> []" and "\<forall>nm\<in>set nms. proper_name nm \<and> length nm \<le> 31" and "walk_ready sec s 2 nms"
    and "pre = [] \<or> pre = [0x2F]" and "post = [] \<or> post = [0x2F]"
  shows "\<exists>s'. resolve_path L P S junk (Some (pre @ join nms @ post @ 0 # r)) s = Inr (walk sec s 2 nms, s') \<and>
    fs_ready P sec idle s' \<and> fs_kept L s s' \<and> con s' = con s"
  using resolve_path_ok [OF assms(1-3,5-8) _ assms(10,11)] walk_slot [OF assms(3,4,9)] by simp

text \<open>
  A name of more than 31 bytes is not looked up as it stands. For a single name of 32 to
  62 bytes \<open>resolve_path\<close> looks up its first 31 bytes and then, in what it finds, the rest: a
  file with such a name is never found, and another one may be.
\<close>

theorem resolve_path_splits_long_names:
  assumes "heap_link L" and "heap_inv L (kmm s)" and "fs_ready P sec idle s" and "string_lib S" and "length junk = 128"
    and "proper_name nm" and "31 < length nm" and "length nm \<le> 62" and "slot_walk_ready sec s 2 [take 31 nm, drop 31 nm]"
  shows "\<exists>s'. resolve_path L P S junk (Some (nm @ 0 # r)) s = Inr (slot_walk sec s 2 [take 31 nm, drop 31 nm], s')"
proof -
  obtain c nm' where nm: "nm = c # nm'" and c: "c \<noteq> 0" "c \<noteq> 0x2F"
    using assms(6) by (cases nm) (auto simp: proper_name_def)
  have "cstr (nm @ 0 # r) \<noteq> [0x2F]" using nm c by auto
  moreover obtain e where "op_strcmp S (nm @ 0 # r) [0x2F, 0] = Some e" "e = 0 \<longleftrightarrow> cstr (nm @ 0 # r) = [0x2F]"
    using c_strings.scmp_ok [OF assms(4), of "nm @ 0 # r" "[0x2F, 0]"] by auto
  ultimately have p: "resolve_path L P S junk (Some (nm @ 0 # r)) s = resolve_loop L P S junk (nm @ 0 # r) 2 s"
    using nm c by (simp add: resolve_path_def)
  have t: "take_name 31 (c # nm' @ 0 # r) = Some (take 31 nm, drop 31 nm @ 0 # r)"
    using take_name_long [of 31 nm "0 # r"] assms(6,7) nm by (simp add: proper_name_def)
  have z: "0 \<notin> set (take 31 nm)" "0x2F \<notin> set (drop 31 nm)" "0 \<notin> set (drop 31 nm)" "drop 31 nm \<noteq> []"
    using assms(6,7) by (auto simp: proper_name_def dest: in_set_takeD in_set_dropD)
  have small: "dir_small sec s 2" using assms(9) by simp
  let ?i = "slot_lookup sec s 2 (take 31 nm) True"
  have skip: "skip_slash (drop 31 nm @ 0 # r) = drop 31 nm @ 0 # r"
    using z(2,4) by (cases "drop 31 nm") auto
  from resolve_step [OF c(1) t z(1) assms(1,2,3) small assms(5,4)] obtain s' where
    s': "resolve_loop L P S junk (nm @ 0 # r) 2 s =
      (if ?i = 0 then Inr (0, s') else resolve_loop L P S junk (drop 31 nm @ 0 # r) ?i s')"
    and R': "fs_ready P sec idle s'" and K: "fs_kept L s s'" unfolding skip using nm by auto
  have cf: "fs_conf s' = fs_conf s" and inv: "heap_inv L (kmm s')" using K by (simp_all add: fs_kept_def heap_kept_def)
  show ?thesis
  proof (cases "?i = 0")
    case True
    then show ?thesis using p s' by (auto simp: Let_def)
  next
    case False
    have "slot_walk_ready sec s' ?i [drop 31 nm]" unfolding slot_walk_conf [OF cf] using assms(9) False by (simp add: Let_def)
    moreover have "length (drop 31 nm) \<le> 31" using assms(8) by simp
    ultimately
    obtain s'' where "resolve_loop L P S junk (drop 31 nm @ 0 # r) ?i s' = Inr (slot_walk sec s' ?i [drop 31 nm], s'')"
      using resolve_loop_ok [OF assms(1,5,4) _ inv R', of "[]" "[drop 31 nm]" ?i r] z by (auto simp: proper_name_def)
    then have "resolve_loop L P S junk (drop 31 nm @ 0 # r) ?i s' = Inr (slot_walk sec s ?i [drop 31 nm], s'')"
      unfolding slot_walk_conf [OF cf] .
    then show ?thesis using p s' False by (auto simp: Let_def)
  qed
qed

end
