(* ===== verification/Ext2_Image.thy ===== *)
theory Ext2_Image
  imports Ext2_Path Heap_Props
begin

text \<open>
  A small volume for the witnesses: 1 KiB blocks, the superblock in block 1, one group
  descriptor in block 2, 32 inodes of 128 bytes in a table from block 5 on, the root directory (inode 2) in block 20 with the entries \<^verbatim>\<open>.\<close>, \<^verbatim>\<open>..\<close>,
  \<^verbatim>\<open>hi\<close> and \<^verbatim>\<open>d\<close> (the root again), and the file \<^verbatim>\<open>hi\<close> (inode 12) with the five bytes of block 21. It is held by the
  drive of \<open>Ata\<close>, on a machine with a fresh heap.
\<close>

section \<open>The image\<close>

definition img_inode :: "u16 \<Rightarrow> u32 \<Rightarrow> u32 \<Rightarrow> u8 list" where
  "img_inode mode sz blk =
     [ucast mode, ucast (drop_bit 8 mode), 0, 0, ucast sz, ucast (drop_bit 8 sz), 0, 0] @ replicate 32 0 @
     [ucast blk, 0, 0, 0] @ replicate 84 0"

definition img_root_dir :: "u8 list" where
  "img_root_dir =
     [2, 0, 0, 0, 12, 0, 1, 2, 0x2E, 0, 0, 0] @ [2, 0, 0, 0, 12, 0, 2, 2, 0x2E, 0x2E, 0, 0] @
     [12, 0, 0, 0, 12, 0, 2, 1, 0x68, 0x69, 0, 0] @ [2, 0, 0, 0, 0xDC, 3, 1, 2, 0x64] @ replicate 979 0"

definition img_block :: "nat \<Rightarrow> u8 list" where
  "img_block b =
     (if b = 1 then [32] @ replicate 19 0 @ [1] @ replicate 19 0 @ [32] @ replicate 983 0
      else if b = 2 then replicate 8 0 @ [5] @ replicate 1015 0
      else if b = 5 then replicate 128 0 @ img_inode 0x41ED 1024 20 @ replicate 768 0
      else if b = 6 then replicate 384 0 @ img_inode 0x81A4 5 21 @ replicate 512 0
      else if b = 20 then img_root_dir
      else if b = 21 then str ''hello'' @ replicate 1019 0
      else replicate 1024 0)"

definition img_sec :: "nat \<Rightarrow> u8 list" where
  "img_sec lba = take 512 (drop (512 * (lba mod 2)) (img_block (lba div 2)))"

definition img_fs :: "ide fs" where
  "img_fs = \<lparr>dev = ide_idle,
     con = \<lparr>scr = \<lparr>video_mem = replicate 2000 0x0F20, cursor_x = 0, cursor_y = 0, g_current_color = 0x0F, outs = []\<rparr>, ser = []\<rparr>,
     kmm = wit_heap, g_block_size = 1024, g_inode_size = 128, g_inodes_per_block = 8, ext2_start_lba = 0,
     g_sb = Some (read_superblock (img_block 1)), fs_gdt = Some (read_group_desc (img_block 2)),
     safe_inode_buf = replicate 4096 0, find_block_buf = replicate 4096 0, lookup_block_buf = replicate 4096 0,
     ls_block_buf = replicate 4096 0, cat_block_buf = replicate 4096 0, cat_indirect_buf = replicate 4096 0,
     g_cwd_id = 2, g_cwd_path = [0x2F, 0] @ replicate 126 0\<rparr>"

section \<open>What it holds\<close>

lemma length_img_block: "length (img_block b) = 1024"
  by (simp add: img_block_def img_inode_def img_root_dir_def)

lemma img_disk: "disk_ok (ide_ports img_sec) img_sec (\<lambda>d. left d = 0)"
  by (rule ide_ok) (auto simp: img_sec_def length_img_block)

lemma img_conf [simp]: "g_block_size img_fs = 1024" "ext2_start_lba img_fs = 0"
  by (simp_all add: img_fs_def)

lemma img_vblock: "vblock img_sec img_fs b = img_block (unat b)"
proof -
  have e: "(2 * n) div 2 = n" "Suc (2 * n) div 2 = n" "2 * n mod 2 = 0" "Suc (2 * n) mod 2 = 1" for n :: nat by simp_all
  have "vblock img_sec img_fs b = img_sec (2 * unat b) @ img_sec (Suc (2 * unat b))"
    by (simp add: vblock_def upt_rec mult.commute Let_def)
  also have "\<dots> = take 512 (img_block (unat b)) @ take 512 (drop 512 (img_block (unat b)))"
    unfolding img_sec_def e by simp
  also have "take 512 (drop 512 (img_block (unat b))) = drop 512 (img_block (unat b))"
    by (simp add: length_img_block)
  finally show ?thesis by simp
qed

lemma img_sb: "s_inodes_count (the (g_sb img_fs)) = 32" "bg_inode_table (the (fs_gdt img_fs)) = 5"
  by (simp_all add: img_fs_def img_block_def read_superblock_def read_group_desc_def le32_def byte_at_def nth_append)

lemma img_ready: "fs_ready (ide_ports img_sec) img_sec (\<lambda>d. left d = 0) img_fs"
  using img_disk img_sb unfolding fs_ready_def by (simp add: img_fs_def ide_idle_def)

lemma img_heap: "heap_link wit_link" "heap_inv wit_link (kmm img_fs)"
  by (simp_all add: wit_link_ok img_fs_def wit_heap_ok)

lemma img_inode_bytes:
  "slot_bytes img_sec img_fs 2 = img_inode 0x41ED 1024 20" "slot_bytes img_sec img_fs 12 = img_inode 0x81A4 5 21"
  by (simp_all add: slot_bytes_def img_vblock img_sb Let_def img_block_def img_inode_def)

lemma img_inodes:
  "i_mode (slot_inode img_sec img_fs 2) = 0x41ED" "i_size (slot_inode img_sec img_fs 2) = 1024"
  "i_block (slot_inode img_sec img_fs 2) = 20 # replicate 14 0"
  "i_mode (slot_inode img_sec img_fs 12) = 0x81A4" "i_size (slot_inode img_sec img_fs 12) = 5"
  "i_block (slot_inode img_sec img_fs 12) = 21 # replicate 14 0"
  unfolding slot_inode_def img_inode_bytes by code_simp+

lemma img_entries:
  "map (\<lambda>x. (de_inode (fst x), file_type (fst x), snd x)) (filter live_entry (dirents 1024 img_root_dir 0)) =
     [(2, 2, [0x2E]), (2, 2, [0x2E, 0x2E]), (12, 1, [0x68, 0x69]), (2, 2, [0x64])]"
  "dir_block_ok 1024 img_root_dir 0"
  by code_simp+

text \<open>What the specification says about the image.\<close>

lemma img_block_20 [simp]: "img_block 20 = img_root_dir"
  by (simp add: img_block_def)

lemma img_dir_blocks: "block_ids img_sec img_fs (slot_inode img_sec img_fs 2) 0
    (min (block_count img_fs (slot_inode img_sec img_fs 2)) (reach_blocks img_fs (slot_inode img_sec img_fs 2) mem)) = [20]"
  "block_count img_fs (slot_inode img_sec img_fs 2) = 1"
  by (simp_all add: block_ids_def block_count_def reach_blocks_def img_inodes file_block_def)

lemma img_dir_ok: "dir_ok img_sec img_fs (slot_inode img_sec img_fs 2)" "is_dir (slot_inode img_sec img_fs 2)"
  using img_entries(2) by (simp_all add: dir_ok_def img_dir_blocks(1) img_vblock img_inodes is_dir_def)

lemma img_dir_ready: "dir_ready wit_link (ide_ports img_sec) img_sec (\<lambda>d. left d = 0) 2 img_fs"
  using img_heap img_ready img_dir_ok(1) by (simp add: dir_ready_def valid_inode_def img_sb)

lemma find_key: "map_option f (find (\<lambda>x. g x = v) xs) = map_option snd (find (\<lambda>y. fst y = v) (map (\<lambda>x. (g x, f x)) xs))"
  by (induction xs) auto

lemma img_lookup:
  "slot_lookup img_sec img_fs 2 nm mem =
     (if nm = [0x2E] \<or> nm = [0x2E, 0x2E] \<or> nm = [0x64] then 2 else if nm = [0x68, 0x69] then 12 else 0)"
proof -
  have "dir_list img_sec img_fs (slot_inode img_sec img_fs 2) mem = filter live_entry (dirents 1024 img_root_dir 0)"
    by (simp add: dir_list_def dir_blocks_def img_dir_blocks(1) img_vblock block_entries_def)
  moreover have "map (\<lambda>x. (snd x, de_inode (fst x))) (filter live_entry (dirents 1024 img_root_dir 0)) =
      [([0x2E], 2), ([0x2E, 0x2E], 2), ([0x68, 0x69], 12), ([0x64], 2)]"
    using arg_cong [OF img_entries(1), of "map (\<lambda>(i, t, nm). (nm, i))"] by (simp add: comp_def)
  ultimately have "map_option (\<lambda>x. de_inode (fst x)) (find (\<lambda>x. snd x = nm) (dir_list img_sec img_fs (slot_inode img_sec img_fs 2) mem)) =
      (if nm = [0x2E] \<or> nm = [0x2E, 0x2E] \<or> nm = [0x64] then Some 2 else if nm = [0x68, 0x69] then Some 12 else None)"
    by (simp add: find_key)
  then show ?thesis using img_dir_ok(2)
    by (auto simp: slot_lookup_def split: option.splits if_splits)
qed

lemma img_small: "dir_small img_sec img_fs 2"
  using img_dir_ok(1) by (simp add: dir_small_def valid_inode_def img_sb img_dir_blocks)

section \<open>The volume as the format defines it\<close>

lemma img_volume_sb: "volume_sb img_sec img_fs = read_superblock (img_block 1)"
proof -
  have "img_sec 2 @ img_sec 3 = img_block 1" by (simp add: img_sec_def length_img_block)
  then show ?thesis unfolding volume_sb_def by (simp add: eval_nat_numeral)
qed

lemma img_volume_fields: "s_inodes_count (volume_sb img_sec img_fs) = 32" "s_first_data_block (volume_sb img_sec img_fs) = 1"
  "s_inodes_per_group (volume_sb img_sec img_fs) = 32" "s_log_block_size (volume_sb img_sec img_fs) = 0"
  "s_rev_level (volume_sb img_sec img_fs) = 0"
  by (simp_all add: img_volume_sb img_block_def read_superblock_def le32_def byte_at_def nth_append)

lemma img_on_volume: "on_volume img_sec img_fs"
proof -
  have "group_desc img_sec img_fs 0 = read_group_desc (img_block 2)"
    by (simp add: group_desc_def img_volume_fields img_vblock)
  then show ?thesis unfolding on_volume_def volume_inode_size_def Let_def img_volume_fields
    by (simp add: img_volume_sb) (simp add: img_fs_def)
qed

lemma img_first_group: "first_group img_sec img_fs 2" "first_group img_sec img_fs 12"
  by (simp_all add: first_group_def img_volume_fields)

lemma img_inode_at: "inode_at img_sec img_fs 2 = slot_inode img_sec img_fs 2" "inode_at img_sec img_fs 12 = slot_inode img_sec img_fs 12"
proof -
  have "g_inode_size img_fs = 128" by (simp add: img_fs_def)
  note e = inode_at_slot [OF img_on_volume this]
  show "inode_at img_sec img_fs 2 = slot_inode img_sec img_fs 2" "inode_at img_sec img_fs 12 = slot_inode img_sec img_fs 12"
    by (rule e [OF img_first_group(1)], rule e [OF img_first_group(2)])
qed

lemma img_searchable: "searchable wit_link (ide_ports img_sec) img_sec (\<lambda>d. left d = 0) 2 img_fs"
  using img_heap img_ready img_on_volume img_first_group(1) img_dir_ok
  by (simp add: searchable_def img_inode_at img_inodes reach_blocks_def)

lemma img_dir_lookup:
  "dir_lookup img_sec img_fs 2 nm =
     (if nm = [0x2E] \<or> nm = [0x2E, 0x2E] \<or> nm = [0x64] then 2 else if nm = [0x68, 0x69] then 12 else 0)"
  using searchableD(2) [OF img_searchable, of nm] img_lookup [of nm] by simp

lemma img_direct: "dir_direct img_sec img_fs 2"
  using img_first_group(1) img_dir_ok(1) by (simp add: dir_direct_def img_inode_at img_inodes)

end
