(* ===== verification/Ext2_Props.thy ===== *)
theory Ext2_Props
  imports Ext2_File Ext2_Image
begin

text \<open>
  The properties of the file system, with witnesses on the volume of \<open>Ext2_Image\<close>.
\<close>

section \<open>Lookup\<close>

text \<open>
  C11: The two directory searches of the kernel, \<open>find_inode_in_dir\<close> (\<open>strncmp\<close> on the name in
  the block) and \<open>ext2_lookup\<close> (\<open>strcmp\<close> on a copy), compute the same function: both return the
  inode of the first used entry with that name in the directory's blocks, direct and
  indirect, and 0 if there is none or the inode is not a directory. Neither prints
  anything, and every heap block is as before: the buffer for the indirect block is given
  back on every way out. The inode is read from the one table the kernel knows; for a
  directory of the first block group that the search can read to its end, the result is
  the entry of the volume (\<open>dir_lookup\<close>).
\<close>

theorem directory_lookups_agree:
  assumes "dir_ready L P sec idle n s" and "length junk = 128" and "string_lib S" and "0 \<in> set name"
  shows "\<exists>s1 s2. find_inode_in_dir L P S junk n name s = Inr (slot_lookup sec s n (cstr name) (heap_room L s), s1) \<and>
    ext2_lookup L P S junk n name s = Inr (slot_lookup sec s n (cstr name) (heap_room L s), s2) \<and>
    fs_ready P sec idle s1 \<and> fs_kept L s s1 \<and> con s1 = con s \<and>
    fs_ready P sec idle s2 \<and> fs_kept L s s2 \<and> con s2 = con s \<and>
    (searchable L P sec idle n s \<longrightarrow> slot_lookup sec s n (cstr name) (heap_room L s) = dir_lookup sec s n (cstr name))"
  using find_inode_ok [OF assms] ext2_lookup_ok [OF assms] searchableD(2) by blast

theorem directory_lookups_agree_witness:
  "dir_ready wit_link (ide_ports img_sec) img_sec (\<lambda>d. left d = 0) 2 img_fs \<and>
   (\<exists>s1 s2. find_inode_in_dir wit_link (ide_ports img_sec) ush_ops (replicate 128 0) 2 (str ''hi'' @ [0]) img_fs = Inr (12, s1) \<and>
      ext2_lookup wit_link (ide_ports img_sec) ush_ops (replicate 128 0) 2 (str ''hi'' @ [0]) img_fs = Inr (12, s2))"
proof -
  have c: "cstr (str ''hi'' @ [0]) = [0x68, 0x69]" by (simp add: of_char_def)
  show ?thesis
    using directory_lookups_agree [OF img_dir_ready _ ush_ops_lib, of "replicate 128 0" "str ''hi'' @ [0]"] img_dir_ready
    unfolding c img_lookup by auto
qed

section \<open>Paths\<close>

theorem resolve_path_correct_witness:
  "\<exists>s'. resolve_path wit_link (ide_ports img_sec) ush_ops (replicate 128 0) (Some (str ''/d/hi'' @ [0])) img_fs = Inr (12, s')"
proof -
  have p: "str ''/d/hi'' @ [0] = [0x2F] @ join [[0x64], [0x68, 0x69]] @ [] @ 0 # []" by (simp add: of_char_def)
  have "\<exists>s'. resolve_path wit_link (ide_ports img_sec) ush_ops (replicate 128 0)
      (Some ([0x2F] @ join [[0x64], [0x68, 0x69]] @ [] @ 0 # [])) img_fs =
      Inr (walk img_sec img_fs 2 [[0x64], [0x68, 0x69]], s') \<and>
      fs_ready (ide_ports img_sec) img_sec (\<lambda>d. left d = 0) s' \<and> fs_kept wit_link img_fs s' \<and> con s' = con img_fs"
    by (rule resolve_path_correct [OF img_heap img_ready img_on_volume ush_ops_lib])
      (simp_all add: proper_name_def img_direct img_dir_lookup Let_def)
  then show ?thesis unfolding p by (auto simp: img_dir_lookup Let_def)
qed

theorem resolve_path_splits_long_names_witness:
  "proper_name (replicate 40 0x61) \<and>
   (\<exists>s'. resolve_path wit_link (ide_ports img_sec) ush_ops (replicate 128 0) (Some (replicate 40 0x61 @ [0])) img_fs = Inr (0, s'))"
proof -
  have ne: "replicate 31 (0x61 :: u8) \<noteq> [0x2E]" "replicate 31 (0x61 :: u8) \<noteq> [0x2E, 0x2E]"
    "replicate 31 (0x61 :: u8) \<noteq> [0x64]" "replicate 31 (0x61 :: u8) \<noteq> [0x68, 0x69]"
    by (auto dest: arg_cong [of _ _ length])
  have z: "slot_lookup img_sec img_fs 2 (take 31 (replicate 40 0x61)) True = 0" by (simp add: img_lookup ne)
  have pr: "proper_name (replicate 40 0x61)" by (simp add: proper_name_def)
  have "\<exists>s'. resolve_path wit_link (ide_ports img_sec) ush_ops (replicate 128 0) (Some (replicate 40 0x61 @ 0 # [])) img_fs =
      Inr (slot_walk img_sec img_fs 2 [take 31 (replicate 40 0x61), drop 31 (replicate 40 0x61)], s')"
    by (rule resolve_path_splits_long_names [OF img_heap img_ready ush_ops_lib _ pr])
      (use z in \<open>simp_all add: img_small\<close>)
  with pr z show ?thesis by auto
qed

section \<open>Files\<close>

lemma cat_data_ok:
  assumes R: "fs_ready P sec idle s" and ok: "file_ok sec s ino" and len: "length (i_block ino) = 15"
    and ne: "i_size ino \<noteq> 0" and full: "\<And>i. i < block_count s ino \<Longrightarrow> file_block sec s ino i \<noteq> 0"
  shows "\<exists>s'. cat_data P ino s = Inr s' \<and> fs_ready P sec idle s' \<and>
    quiet (upd_con (put (fold vga_putc (file_content sec s ino @ [0x0A])) \<circ> dbg_kv ''cat'' ''file_size'' (i_size ino)) s) s'"
proof -
  let ?s = "upd_con (dbg_kv ''cat'' ''file_size'' (i_size ino)) s"
  have c: "fs_conf ?s = fs_conf s" by (simp add: fs_conf_def)
  have R': "fs_ready P sec idle ?s" using R by (simp add: fs_ready_def)
  have fb: "file_block sec ?s ino = file_block sec s ino" and vb: "vblock sec ?s = vblock sec s"
    using vblock_conf [OF c] by (auto simp: file_block_def fun_eq_iff)
  have ok': "file_ok sec ?s ino" using ok by (simp add: file_ok_def fb dir_conf [OF c])
  let ?ids = "map (file_block sec s ino) [0..<block_count s ino]"
  have "block_data sec s b = vblock sec s b" if "b \<in> set ?ids" for b using full that by (auto simp: block_data_def)
  then have eq: "map (block_data sec s) ?ids = map (vblock sec s) ?ids" by (intro map_cong) auto
  have "0 \<notin> set ?ids" using full by auto
  then have pc: "pieces (vblock sec s) (unat (g_block_size s)) ?ids (unat (i_size ino)) = file_content sec s ino"
    unfolding file_content_def eq by (rule pieces_take [OF length_vblock [OF R]])
  have bs: "g_block_size ?s = g_block_size s" by simp
  from cat_run [OF R' ok' len ne] obtain s' where s': "bindr (cat_blocks P (take 12 (i_block ino)) (i_size ino) ?s)
      (\<lambda>(size_remaining, s).
       if 0 < size_remaining \<and> i_block ino ! 12 \<noteq> 0
       then bindr (read_fs_block P (i_block ino ! 12) s) (\<lambda>(bs, s).
            bindr (into (cat_indirect_buf s) bs) (\<lambda>buf.
            bindr (cat_blocks P (map (\<lambda>i. le32 buf (4 * i)) [0..<unat (g_block_size s div 4)]) size_remaining
                     (s\<lparr>cat_indirect_buf := buf\<rparr>)) (\<lambda>(_, s). Inr s)))
       else Inr s) = Inr s'" "fs_ready P sec idle s'"
    "quiet (upd_con (put (fold vga_putc (file_content sec s ino))) ?s) s'"
    unfolding fb vb dir_conf(4) [OF c] bs pc by blast
  let ?s' = "upd_con (put (vga_putc 0x0A)) s'"
  have "cat_data P ino s = Inr ?s'"
    using s'(1) ne by (auto simp: cat_data_def bindr_def split: sum.splits prod.splits)
  moreover have "fs_ready P sec idle ?s'" using s'(2) by (simp add: fs_ready_def)
  moreover have "quiet (upd_con (put (fold vga_putc (file_content sec s ino @ [0x0A])) \<circ>
      dbg_kv ''cat'' ''file_size'' (i_size ino)) s) ?s'"
    using s'(3) by (simp add: quiet_def fs_conf_def put_put comp_def)
  ultimately show ?thesis by blast
qed

lemma dir_ready_con: "dir_ready L P sec idle n (upd_con f s) = dir_ready L P sec idle n s"
proof -
  have c: "fs_conf (upd_con f s) = fs_conf s" by (simp add: fs_conf_def)
  show ?thesis
    by (simp add: dir_ready_def slot_inode_conf [OF c] valid_inode_conf [OF c] dir_conf [OF c] fs_ready_def)
qed

lemma lookup_con:
  "slot_lookup sec (upd_con f s) n nm m = slot_lookup sec s n nm m" "heap_room L (upd_con f s) = heap_room L s"
proof -
  have c: "fs_conf (upd_con f s) = fs_conf s" by (simp add: fs_conf_def)
  show "slot_lookup sec (upd_con f s) n nm m = slot_lookup sec s n nm m" by (rule dir_conf(3) [OF c])
qed (simp add: heap_room_def)

text \<open>The common start of \<open>cat\<close> and \<open>cd\<close>: look a name up in the working directory and read its inode.\<close>

lemma lookup_then_inode:
  assumes D: "dir_ready L P sec idle n s" and junk: "length junk = 128" and S: "string_lib S" and name: "0 \<in> set name"
    and t: "t = slot_lookup sec s n (cstr name) (heap_room L s)" and v: "valid_inode s t"
  shows "\<exists>s1 s2. ext2_lookup L P S junk n name (upd_con f s) = Inr (t, s1) \<and>
    get_inode P junk t s1 = Inr (slot_inode sec s t, s2) \<and> fs_ready P sec idle s2 \<and> fs_kept L s s2 \<and> con s2 = f (con s)"
proof -
  have kept: "fs_kept L s' = fs_kept L s" if "s' = upd_con f s" for s' using that by (simp add: fs_kept_def fs_conf_def fun_eq_iff)
  have "dir_ready L P sec idle n (upd_con f s)" using D by (simp add: dir_ready_con)
  from ext2_lookup_ok [OF this junk S name] obtain s1 where s1: "ext2_lookup L P S junk n name (upd_con f s) = Inr (t, s1)"
    "fs_ready P sec idle s1" "fs_kept L s s1" "con s1 = f (con s)" using t by (auto simp: lookup_con kept)
  have c: "fs_conf s1 = fs_conf s" and h: "heap_inv L (kmm s1)" using s1(3) by (simp_all add: fs_kept_def heap_kept_def)
  have "valid_inode s1 t" using v by (simp add: valid_inode_conf [OF c])
  from get_inode_ok [OF s1(2) this junk] obtain s2 where s2: "get_inode P junk t s1 = Inr (slot_inode sec s t, s2)"
    "fs_ready P sec idle s2" "quiet s1 s2" by (auto simp: slot_inode_conf [OF c])
  have "fs_kept L s s2" using fs_kept_trans [OF s1(3) quiet_kept [OF s2(3) h]] .
  then show ?thesis using s1 s2 quietD(2) [OF s2(3)] by auto
qed

lemma cat_run_ok:
  assumes "dir_ready L P sec idle (g_cwd_id s) s" and "length junk = 128" and "string_lib S"
    and "0 \<in> set name" and "cstr name \<noteq> []"
    and t: "t = slot_lookup sec s (g_cwd_id s) (cstr name) (heap_room L s)" "t \<noteq> 0" "valid_inode s t"
    and ino: "ino = slot_inode sec s t" "i_mode ino AND 0xF000 = 0x8000" "i_size ino \<noteq> 0" "file_ok sec s ino"
    and full: "\<forall>i<block_count s ino. file_block sec s ino i \<noteq> 0"
  shows "\<exists>s'. ext2_cat L P S junk (Some name) s = Inr s' \<and>
    scr (con s') = fold vga_putc (file_content sec s ino @ [0x0A]) (scr (con s)) \<and>
    fs_ready P sec idle s' \<and> fs_kept L s s'"
proof -
  let ?f = "\<lambda>k. ser_puts (str newline) (ser_puts name (ser_puts (str ''[cat] filename='') (dbg_msg ''cat'' ''cat request'' k)))"
  have hd: "hd name \<noteq> 0" using assms(4,5) by (cases name) auto
  obtain s1 s2 where a: "ext2_lookup L P S junk (g_cwd_id s) name (upd_con ?f s) = Inr (t, s1)"
    "get_inode P junk t s1 = Inr (ino, s2)" "fs_ready P sec idle s2" "fs_kept L s s2" "con s2 = ?f (con s)"
    using lookup_then_inode [OF assms(1-4) t(1,3), of ?f] ino(1) by blast
  have c: "fs_conf s2 = fs_conf s" and h: "heap_inv L (kmm s2)" using a(4) by (simp_all add: fs_kept_def heap_kept_def)
  have fb: "file_block sec s2 ino = file_block sec s ino" using vblock_conf [OF c] by (auto simp: file_block_def fun_eq_iff)
  have bs: "g_block_size s2 = g_block_size s" using c by (simp add: fs_conf_def)
  have fc: "file_content sec s2 ino = file_content sec s ino"
    by (simp add: file_content_def fb block_data_conf [OF c] dir_conf [OF c])
  have "file_ok sec s2 ino" using ino(4) by (simp add: file_ok_def fb dir_conf [OF c] bs)
  from cat_data_ok [OF a(3) this _ ino(3)] full obtain s' where s': "cat_data P ino s2 = Inr s'" "fs_ready P sec idle s'"
    "quiet (upd_con (put (fold vga_putc (file_content sec s ino @ [0x0A])) \<circ> dbg_kv ''cat'' ''file_size'' (i_size ino)) s2) s'"
    by (auto simp: ino(1) fb [unfolded ino(1)] fc [unfolded ino(1)] dir_conf [OF c])
  have "fs_kept L s2 s'" using s'(3) heap_kept_refl [OF h] by (simp add: quiet_def fs_kept_def fs_conf_def)
  then have "fs_kept L s s'" by (rule fs_kept_trans [OF a(4)])
  moreover have "scr (con s') = fold vga_putc (file_content sec s ino @ [0x0A]) (scr (con s))"
    using s'(3) a(5) by (simp add: quiet_def)
  moreover have "ext2_cat L P S junk (Some name) s = Inr s'"
    using assms(4) hd a s'(1) t(2) ino(2) by (simp add: ext2_cat_def comp_def)
  ultimately show ?thesis using s'(2) by blast
qed

text \<open>
  C12: \<open>ext2_cat\<close> prints the file. When the working directory holds the name of a regular file
  that is not empty, has no holes and ends before the double indirect blocks, the screen
  receives exactly the \<open>i_size\<close> bytes of the file, direct and indirect blocks in order, and a
  newline; the working directory and the heap are as before. The working directory and the
  file must have inodes of the first block group, the only one whose table the kernel reads.
\<close>

theorem ext2_cat_prints_file:
  assumes D: "searchable L P sec idle (g_cwd_id s) s" and "length junk = 128" and "string_lib S"
    and "0 \<in> set name" and "cstr name \<noteq> []"
    and t: "t = dir_lookup sec s (g_cwd_id s) (cstr name)" "t \<noteq> 0" "first_group sec s t"
    and ino: "ino = inode_at sec s t" "i_mode ino AND 0xF000 = 0x8000" "i_size ino \<noteq> 0" "file_ok sec s ino"
    and "\<forall>i<block_count s ino. file_block sec s ino i \<noteq> 0"
  shows "\<exists>s'. ext2_cat L P S junk (Some name) s = Inr s' \<and>
    scr (con s') = fold vga_putc (file_content sec s ino @ [0x0A]) (scr (con s)) \<and>
    fs_ready P sec idle s' \<and> fs_kept L s s'"
proof (rule cat_run_ok [OF searchableD(1) [OF D] assms(2-5) _ t(2) _ _ ino(2-4) assms(13)])
  show "t = slot_lookup sec s (g_cwd_id s) (cstr name) (heap_room L s)" using t(1) searchableD(2) [OF D] by simp
  show "valid_inode s t" by (rule first_group_valid [OF searchableD(4) [OF D] t(3)])
  show "ino = slot_inode sec s t" using ino(1) inode_at_slot [OF searchableD(4,5) [OF D] t(3)] by simp
qed

lemma img_file:
  "block_count img_fs (slot_inode img_sec img_fs 12) = 1" "file_block img_sec img_fs (slot_inode img_sec img_fs 12) 0 = 21"
  "file_ok img_sec img_fs (slot_inode img_sec img_fs 12)"
  "file_content img_sec img_fs (slot_inode img_sec img_fs 12) = str ''hello''"
proof -
  show c: "block_count img_fs (slot_inode img_sec img_fs 12) = 1" "file_block img_sec img_fs (slot_inode img_sec img_fs 12) 0 = 21"
    by (simp_all add: block_count_def file_block_def img_inodes)
  then show "file_ok img_sec img_fs (slot_inode img_sec img_fs 12)"
    by (auto simp: file_ok_def reach_blocks_def img_inodes less_Suc_eq)
  show "file_content img_sec img_fs (slot_inode img_sec img_fs 12) = str ''hello''"
    unfolding file_content_def c(1) using c(2) by (simp add: img_inodes block_data_def img_vblock img_block_def)
qed

theorem ext2_cat_prints_file_witness:
  "\<exists>s'. ext2_cat wit_link (ide_ports img_sec) ush_ops (replicate 128 0) (Some (str ''hi'' @ [0])) img_fs = Inr s' \<and>
     scr (con s') = fold vga_putc (str ''hello'' @ [0x0A]) (scr (con img_fs))"
proof -
  have c: "cstr (str ''hi'' @ [0]) = [0x68, 0x69]" by (simp add: of_char_def)
  have id: "g_cwd_id img_fs = 2" by (simp add: img_fs_def)
  have d: "searchable wit_link (ide_ports img_sec) img_sec (\<lambda>d. left d = 0) (g_cwd_id img_fs) img_fs"
    using img_searchable by (simp add: id)
  have t: "12 = dir_lookup img_sec img_fs (g_cwd_id img_fs) (cstr (str ''hi'' @ [0]))"
    unfolding c id img_dir_lookup by simp
  from ext2_cat_prints_file [OF d _ ush_ops_lib _ _ t _ img_first_group(2) refl, of "replicate 128 0"] img_file show ?thesis
    by (auto simp: img_inode_at img_inodes)
qed

lemma load_run:
  assumes R: "fs_ready P sec idle s" and v: "valid_inode s n" and junk: "length junk = 128" "length ib = 4096"
    and ino: "ino = slot_inode sec s n" "i_size ino \<noteq> 0" "file_ok sec s ino"
  shows "\<exists>s'. load_file_to_memory P junk ib n dest s = Inr (True, s') \<and> fs_ready P sec idle s' \<and>
    fs_conf s' = fs_conf s \<and> scr (con s') = scr (con s) \<and>
    kmm s' = (kmm s)\<lparr>mm_mem := write_bytes dest (concat (map (block_data sec s)
      (map (file_block sec s ino) [0..<block_count s ino]))) (mm_mem (kmm s))\<rparr>"
proof -
  let ?c = "block_count s ino" and ?fb = "file_block sec s ino" and ?bs = "unat (g_block_size s)"
  let ?s0 = "upd_con (dbg_kv ''load'' ''inode'' n) s"
  have c0: "fs_conf ?s0 = fs_conf s" by (simp add: fs_conf_def)
  have R0: "fs_ready P sec idle ?s0" and v0: "valid_inode ?s0 n"
    using R v by (simp_all add: fs_ready_def valid_inode_def)
  obtain s1 where s1: "get_inode P junk n ?s0 = Inr (ino, s1)" "fs_ready P sec idle s1" "quiet ?s0 s1"
    using get_inode_ok [OF R0 v0 junk(1)] slot_inode_conf [OF c0] ino(1) by auto
  let ?s1 = "upd_con (dbg_kv ''load'' ''file_size'' (i_size ino)) s1"
  have c1: "fs_conf ?s1 = fs_conf s" and R1: "fs_ready P sec idle ?s1"
    using s1(2) quietD(1) [OF s1(3)] c0 by (simp_all add: fs_conf_def fs_ready_def)
  have bs1: "g_block_size s1 = g_block_size s" using c1 by (simp add: fs_conf_def)
  have bn: "g_block_size s \<noteq> 0" and b4: "\<not> 4096 < g_block_size s" "?bs \<le> 4096"
    using fs_ready_block_size [OF R] by (auto simp: word_less_nat_alt)
  have sz: "unat (i_size ino) \<le> reach_blocks s ino True * ?bs" and b12: "i_block ino ! 12 \<le> 0x100000"
    and ids: "\<And>i. i < ?c \<Longrightarrow> ?fb i \<le> 0x100000" using ino(3) by (auto simp: file_ok_def)
  define k where "k = min ?c 12"
  have len: "length (i_block ino) = 15" by (simp add: ino(1))
  have t: "take ?c (take 12 (i_block ino)) = map ?fb [0..<k]"
    unfolding take12 [OF len, of sec s] by (cases "?c \<le> 12") (simp_all add: k_def take_map)
  have "\<forall>b\<in>set (map ?fb [0..<k]). b \<le> 0x100000" using ids by (auto simp: k_def)
  from load_blocks_ok [OF R1 this, of dest] obtain s2 where
    s2: "load_blocks P (map ?fb [0..<k]) dest ?s1 = Inr (dest + of_nat k * g_block_size s, s2)" "fs_ready P sec idle s2"
    "quiet (upd_mem (write_bytes dest (concat (map (block_data sec s) (map ?fb [0..<k])))) ?s1) s2"
    unfolding block_data_conf [OF c1] using bs1 by auto
  have c2: "fs_conf s2 = fs_conf s" using s2(3) c1 by (simp add: quiet_def fs_conf_def)
  have bs2: "g_block_size s2 = g_block_size s" using c2 by (simp add: fs_conf_def)
  have m2: "scr (con s2) = scr (con s)" "kmm s2 = (kmm s)\<lparr>mm_mem := write_bytes dest (concat (map (block_data sec s)
      (map ?fb [0..<k]))) (mm_mem (kmm s))\<rparr>"
    using s2(3) s1(3) by (simp_all add: quiet_def)
  have uc: "unat ((i_size ino + g_block_size s - 1) div g_block_size s) = ?c" by (simp add: block_count_def)
  show ?thesis
  proof (cases "?c \<le> 12")
    case True
    then have "k = ?c" by (simp add: k_def)
    then show ?thesis
      using s1(1) s2(1,2) c2 m2 bn bs1 ino(2) t True
      by (simp add: load_file_to_memory_def uc Let_def fs_ready_def fs_conf_def)
  next
    case False
    then have k12: "k = 12" by (simp add: k_def)
    have "12 < reach_blocks s ino True" using block_count_props(2) [OF R sz] False by linarith
    then have b12n: "i_block ino ! 12 \<noteq> 0" and cr: "?c - 12 \<le> ?bs div 4"
      using block_count_props(2) [OF R sz] by (auto simp: reach_blocks_def split: if_splits)
    obtain e where e: "read_fs_block P (i_block ino ! 12) s2 = Inr (vblock sec s (i_block ino ! 12), s2\<lparr>dev := e\<rparr>)" "idle e"
      using read_fs_block_ok [OF s2(2) b12] vblock_conf [OF c2] by auto
    let ?buf = "vblock sec s (i_block ino ! 12) @ drop ?bs ib"
    have mn: "min (?bs div 4) (?c - 12) = ?c - 12" using cr by simp
    have ent: "map (\<lambda>i. le32 ?buf (4 * i)) [0..<?c - 12] = map ?fb [12..<?c]"
      using length_vblock [OF R, of "i_block ino ! 12"] cr False
      by (intro nth_equalityI) (simp_all add: file_block_def le32_def byte_at_append)
    have R3: "fs_ready P sec idle (s2\<lparr>dev := e\<rparr>)" using s2(2) e(2) by (simp add: fs_ready_dev)
    have c3: "fs_conf (s2\<lparr>dev := e\<rparr>) = fs_conf s" using c2 by (simp add: fs_conf_def)
    have "\<forall>b\<in>set (map ?fb [12..<?c]). b \<le> 0x100000" using ids by auto
    from load_blocks_ok [OF R3 this, of "dest + 12 * g_block_size s"] obtain p s4 where
      s4: "load_blocks P (map ?fb [12..<?c]) (dest + 12 * g_block_size s) (s2\<lparr>dev := e\<rparr>) = Inr (p, s4)" "fs_ready P sec idle s4"
      "quiet (upd_mem (write_bytes (dest + 12 * g_block_size s) (concat (map (block_data sec s) (map ?fb [12..<?c]))))
        (s2\<lparr>dev := e\<rparr>)) s4"
      unfolding block_data_conf [OF c3] by auto
    have "length (concat (map (block_data sec s) (map ?fb [0..<12]))) = 12 * ?bs"
      using length_concat_map [of "\<lambda>i. block_data sec s (?fb i)" ?bs 0 12] length_block_data [OF R] by (simp add: comp_def)
    then have l: "(of_nat (length (concat (map (block_data sec s) (map ?fb [0..<12])))) :: u32) = 12 * g_block_size s" by simp
    have "map ?fb [0..<?c] = map ?fb [0..<12] @ map ?fb [12..<?c]" using False by (intro map_upt_split) auto
    then have w: "write_bytes dest (concat (map (block_data sec s) (map ?fb [0..<?c]))) m =
        write_bytes (dest + 12 * g_block_size s) (concat (map (block_data sec s) (map ?fb [12..<?c])))
          (write_bytes dest (concat (map (block_data sec s) (map ?fb [0..<12]))) m)" for m
      by (simp only: map_append concat_append write_bytes_append l)
    have q: "unat (g_block_size s div 4) = ?bs div 4" by (simp add: unat_div)
    let ?s' = "upd_con (dbg_msg ''load'' ''load complete'') s4"
    have "load_file_to_memory P junk ib n dest s = Inr (True, ?s')"
      using s1(1) s2(1) e(1) bn bs1 bs2 b4 ino(2) t False b12n s4(1) junk(2) k12 length_vblock [OF R, of "i_block ino ! 12"]
      by (simp add: load_file_to_memory_def uc Let_def into_def q mn ent del: map_map)
    moreover have "fs_ready P sec idle ?s'" "fs_conf ?s' = fs_conf s" "scr (con ?s') = scr (con s)"
      using s4(2,3) c2 m2(1) by (simp_all add: fs_ready_def quiet_def fs_conf_def)
    moreover have "kmm ?s' = (kmm s)\<lparr>mm_mem := write_bytes dest (concat (map (block_data sec s) (map ?fb [0..<?c]))) (mm_mem (kmm s))\<rparr>"
      using s4(3) m2(2) by (simp add: quiet_def w k12 del: map_map)
    ultimately show ?thesis by blast
  qed
qed

lemma load_file_ok:
  assumes R: "fs_ready P sec idle s" and "valid_inode s n" and "length junk = 128" and "length ib = 4096"
    and ino: "ino = slot_inode sec s n" "i_size ino \<noteq> 0" "file_ok sec s ino"
    and room: "unat dest + block_count s ino * unat (g_block_size s) \<le> 2 ^ 32"
  shows "\<exists>s'. load_file_to_memory P junk ib n dest s = Inr (True, s') \<and> fs_ready P sec idle s' \<and>
    (\<forall>i<unat (i_size ino). mm_mem (kmm s') (dest + of_nat i) = file_content sec s ino ! i) \<and>
    changes_only (unat dest) (block_count s ino * unat (g_block_size s)) (mm_mem (kmm s)) (mm_mem (kmm s'))"
proof -
  let ?data = "concat (map (block_data sec s) (map (file_block sec s ino) [0..<block_count s ino]))"
  obtain s' where s': "load_file_to_memory P junk ib n dest s = Inr (True, s')" "fs_ready P sec idle s'"
    "mm_mem (kmm s') = write_bytes dest ?data (mm_mem (kmm s))"
    using load_run [OF assms(1-7), of dest] by auto
  have sz: "unat (i_size ino) \<le> reach_blocks s ino True * unat (g_block_size s)" using ino(3) by (simp add: file_ok_def)
  note bc = block_count_props [OF R sz]
  have len: "length ?data = block_count s ino * unat (g_block_size s)"
    using length_concat_map [of "\<lambda>i. block_data sec s (file_block sec s ino i)" _ 0 "block_count s ino"] length_block_data [OF R]
    by (simp add: comp_def)
  have "reach_blocks s ino True * unat (g_block_size s) \<le> 1036 * 4096"
    using fs_ready_block_size [OF R] by (intro mult_le_mono) (auto simp: reach_blocks_def)
  moreover have "block_count s ino * unat (g_block_size s) \<le> reach_blocks s ino True * unat (g_block_size s)"
    by (rule mult_le_mono1 [OF bc(2)])
  ultimately have "length ?data \<le> 1036 * 4096" unfolding len by (meson order_trans)
  then have small: "length ?data < 2 ^ 32" by (rule le_less_trans) simp
  have "mm_mem (kmm s') (dest + of_nat i) = file_content sec s ino ! i" if "i < unat (i_size ino)" for i
    using that small bc(1) len unat_of_nat_u32 [of i] by (simp add: s'(3) write_bytes_apply file_content_def)
  moreover have "changes_only (unat dest) (length ?data) (mm_mem (kmm s)) (mm_mem (kmm s'))"
    unfolding s'(3) using room len by (intro write_bytes_changes [OF small]) simp
  ultimately show ?thesis using s'(1,2) len by metis
qed

text \<open>
  C13: \<open>load_file_to_memory\<close> loads the file. For an inode of the first block group whose file is
  not empty and ends before the double indirect blocks, it returns true, the bytes at
  \<open>dest_addr\<close> are those of the file with holes read as zeros, and memory changes only in the
  whole blocks stored from \<open>dest_addr\<close> on (the last block is stored in full, past the end of
  the file). The blocks must lie in the first 128 MiB, which the kernel maps one to one.
\<close>

theorem load_file_correct:
  assumes R: "fs_ready P sec idle s" and V: "on_volume sec s" and n: "first_group sec s n"
    and "length junk = 128" and "length ib = 4096"
    and ino: "ino = inode_at sec s n" "i_size ino \<noteq> 0" "file_ok sec s ino"
    and room: "unat dest + block_count s ino * unat (g_block_size s) \<le> 0x8000000"
  shows "\<exists>s'. load_file_to_memory P junk ib n dest s = Inr (True, s') \<and> fs_ready P sec idle s' \<and>
    (\<forall>i<unat (i_size ino). mm_mem (kmm s') (dest + of_nat i) = file_content sec s ino ! i) \<and>
    changes_only (unat dest) (block_count s ino * unat (g_block_size s)) (mm_mem (kmm s)) (mm_mem (kmm s'))"
proof (rule load_file_ok [OF R first_group_valid [OF V n] assms(4,5) _ ino(2,3)])
  show "unat dest + block_count s ino * unat (g_block_size s) \<le> 2 ^ 32" using room by (rule order_trans) simp
  have "g_inode_size s = 128" using R by (simp add: fs_ready_def)
  then show "ino = slot_inode sec s n" using ino(1) inode_at_slot [OF V _ n] by simp
qed

theorem load_file_correct_witness:
  "\<exists>s'. load_file_to_memory (ide_ports img_sec) (replicate 128 0) (replicate 4096 0) 12 0x800000 img_fs = Inr (True, s') \<and>
     mm_mem (kmm s') 0x800001 = 0x65"
proof -
  have r: "unat (0x800000 :: u32) + block_count img_fs (slot_inode img_sec img_fs 12) * unat (g_block_size img_fs) \<le> 0x8000000"
    by (simp add: img_file)
  from load_file_correct [OF img_ready img_on_volume img_first_group(2) _ _ img_inode_at(2) [symmetric] _ img_file(3) r,
      of "replicate 128 0" "replicate 4096 0"]
  obtain s' where "load_file_to_memory (ide_ports img_sec) (replicate 128 0) (replicate 4096 0) 12 0x800000 img_fs = Inr (True, s')"
    "\<forall>i<5. mm_mem (kmm s') (0x800000 + of_nat i) = str ''hello'' ! i"
    unfolding img_file by (auto simp: img_inodes)
  then show ?thesis by (auto simp: of_char_def dest: spec [of _ 1])
qed

section \<open>Large inodes\<close>

text \<open>
  C39: On a volume with 256-byte inodes, the default of current \<^verbatim>\<open>mke2fs\<close>, \<open>read_inode\<close> writes past
  the 128-byte structure of its caller: it copies \<open>g_inode_size\<close> bytes, so every read of a
  valid inode is an overrun.
\<close>

theorem read_inode_overruns_caller:
  assumes R: "fs_ready P sec idle (s\<lparr>g_inode_size := 128\<rparr>)" and isz: "g_inode_size s = 256"
    and v: "valid_inode s n" and "length junk = 128"
  shows "get_inode P junk n s = Inl Fault"
proof -
  obtain sb gdt where sb: "g_sb s = Some sb" "fs_gdt s = Some gdt"
    and bound: "unat (bg_inode_table gdt) + unat (s_inodes_count sb) \<le> 0x100000" using R by (auto simp: fs_ready_def)
  define ipb where "ipb = g_block_size s div 256"
  define b where "b = bg_inode_table gdt + (n - 1) div ipb"
  have bs: "g_block_size s \<in> {1024, 2048, 4096}" using R by (simp add: fs_ready_def)
  then have ipb: "ipb \<noteq> 0" by (auto simp: ipb_def)
  have n: "n \<noteq> 0" "unat n \<le> unat (s_inodes_count sb)" using v sb by (simp_all add: valid_inode_def word_le_nat_alt)
  have "unat ((n - 1) div ipb) \<le> unat n" using n(1) by (simp add: unat_div unat_minus_one le_trans [OF div_le_dividend])
  then have s: "unat (bg_inode_table gdt) + unat ((n - 1) div ipb) \<le> 0x100000" using n(2) bound by linarith
  then have "b \<le> 0x100000" unfolding b_def word_le_nat_alt by (subst unat_add_u32) simp_all
  from read_fs_block_ok [OF R this] obtain d where
    "read_fs_block P b (s\<lparr>g_inode_size := 128\<rparr>) = Inr (vblock sec s b, s\<lparr>g_inode_size := 128, dev := d\<rparr>)"
    by (auto simp: vblock_def)
  then have rd: "read_fs_block P b s = Inr (vblock sec s b, s\<lparr>dev := d\<rparr>)"
    by (auto simp: read_fs_block_def Let_def bindr_def split: if_splits sum.splits prod.splits
        dest!: arg_cong [of _ _ dev])
  have len: "length (vblock sec s b) \<le> 4096" "length (safe_inode_buf s) = 4096"
    using length_vblock [OF R, of b] fs_ready_block_size [OF R] R by (auto simp: vblock_def fs_ready_def)
  have "\<not> s_inodes_count sb < n" using n(2) by (simp add: word_le_nat_alt not_less)
  then have "read_inode P n sb gdt junk s = Inl Fault"
    using n(1) ipb rd [unfolded b_def] len assms(4) by (simp add: read_inode_def isz ipb_def [symmetric] into_def Let_def b_def)
  then show ?thesis using sb by (simp add: get_inode_def)
qed

theorem read_inode_overruns_caller_witness:
  "get_inode (ide_ports img_sec) (replicate 128 0) 2 (img_fs\<lparr>g_inode_size := 256\<rparr>) = Inl Fault"
proof (rule read_inode_overruns_caller)
  have "img_fs\<lparr>g_inode_size := 256, g_inode_size := 128\<rparr> = img_fs" by (simp add: img_fs_def)
  then show "fs_ready (ide_ports img_sec) img_sec (\<lambda>d. left d = 0) (img_fs\<lparr>g_inode_size := 256, g_inode_size := 128\<rparr>)"
    using img_ready by simp
qed (simp_all add: valid_inode_def img_sb)

end
