(* ===== verification/Ext2_Cd.thy ===== *)
theory Ext2_Cd
  imports Ext2_Props
begin

text \<open>
  The working directory: \<open>g_cwd_path\<close> as a list of names. \<open>ext2_cd\<close> edits the string in place;
  as long as it fits its 128 bytes it spells the names of the directories entered, and what
  a step does to the list is what the argument says. A name that is missing or does not
  lead to a directory changes nothing.
\<close>

section \<open>The path string\<close>

definition cwd_path_ok :: "u8 list \<Rightarrow> u8 list list \<Rightarrow> bool" where
  "cwd_path_ok p nms \<longleftrightarrow> length p = 128 \<and> 0 \<in> set p \<and> cstr p = 0x2F # join nms \<and> (\<forall>nm\<in>set nms. proper_name nm)"

definition cd_names :: "u8 list list \<Rightarrow> u8 list \<Rightarrow> u8 list list" where
  "cd_names nms x = (if x = [0x2E] then nms else if x = [0x2E, 0x2E] then butlast nms else nms @ [x])"

lemma join_snoc: "nms \<noteq> [] \<Longrightarrow> join (nms @ [x]) = join nms @ 0x2F # x"
proof (induction nms rule: join.induct)
  case (3 nm nm' nms)
  then show ?case by (cases nms) auto
qed auto

lemma zero_notin_join: "\<forall>nm\<in>set nms. proper_name nm \<Longrightarrow> 0 \<notin> set (join nms)"
  by (induction nms rule: join.induct) (auto simp: proper_name_def)

lemma join_Nil_iff: "\<forall>nm\<in>set nms. proper_name nm \<Longrightarrow> join nms = [] \<longleftrightarrow> nms = []"
  by (cases nms rule: join.cases) (auto simp: proper_name_def)

lemma cstr_cut: "l \<le> length (cstr p) \<Longrightarrow> l < length p \<Longrightarrow> cstr (p[l := 0]) = take l (cstr p)"
proof -
  assume l: "l \<le> length (cstr p)" "l < length p"
  have "cstr (p[l := 0]) = take l (p[l := 0])"
    using l by (intro cstr_eqI) (auto simp: nth_cstr_neq_0)
  also have "take l (p[l := 0]) = take l (cstr p)"
    using l nth_cstr [of _ p] by (auto simp: list_eq_iff_nth_eq)
  finally show ?thesis .
qed

lemma last_index:
  "c \<notin> set b \<Longrightarrow> fold (\<lambda>i l. if (a @ c # b) ! i = c then Some i else l) [0..<length (a @ c # b)] None = Some (length a)"
proof (induction b rule: rev_induct)
  case Nil
  then show ?case by (simp add: nth_append)
next
  case (snoc y b)
  have "fold (\<lambda>i l. if (a @ c # b @ [y]) ! i = c then Some i else l) [0..<length (a @ c # b)] None =
      fold (\<lambda>i l. if (a @ c # b) ! i = c then Some i else l) [0..<length (a @ c # b)] None"
    by (rule fold_cong) (auto simp: nth_append nth_Cons split: nat.splits)
  with snoc show ?case by (auto simp: nth_append)
qed

lemma last_slash_eq:
  assumes "cstr p = a @ 0x2F # b" and "0x2F \<notin> set b"
  shows "last_slash p = Some (length a)"
proof -
  have "fold (\<lambda>i l. if p ! i = 0x2F then Some i else l) [0..<length (cstr p)] None =
      fold (\<lambda>i l. if cstr p ! i = 0x2F then Some i else l) [0..<length (cstr p)] None"
    using nth_cstr [of _ p] by (intro fold_cong) auto
  then show ?thesis using last_index [OF assms(2), of a] by (simp add: last_slash_def assms(1))
qed

lemma parent_path_ok:
  assumes "cwd_path_ok p nms"
  shows "cwd_path_ok (parent_path p) (butlast nms)"
proof -
  have p: "length p = 128" "0 \<in> set p" "cstr p = 0x2F # join nms" and pr: "\<forall>nm\<in>set nms. proper_name nm"
    using assms by (simp_all add: cwd_path_ok_def)
  have len: "length (cstr p) < 128" using length_cstr_less [OF p(2)] p(1) by simp
  have cut: "cwd_path_ok (p[l := 0]) (butlast nms)" if "l < 128" "l \<le> length (cstr p)" "take l (cstr p) = 0x2F # join (butlast nms)" for l
    using that p pr cstr_cut [of l p] set_update_memI [of l p 0] by (auto simp: cwd_path_ok_def dest: in_set_butlastD)
  show ?thesis
  proof (cases nms rule: rev_cases)
    case Nil
    then show ?thesis using p assms last_slash_eq [of p "[]" "[]"] by (simp add: parent_path_def)
  next
    case (snoc ys x)
    have x: "0x2F \<notin> set x" "x \<noteq> []" using pr snoc by (auto simp: proper_name_def)
    show ?thesis
    proof (cases "ys = []")
      case True
      then have "last_slash p = Some 0" using last_slash_eq [of p "[]" x] p(3) snoc x(1) by simp
      then show ?thesis using cut [of 1] p(3) snoc True x(2) by (simp add: parent_path_def)
    next
      case False
      then have c: "cstr p = (0x2F # join ys) @ 0x2F # x" using p(3) snoc by (simp add: join_snoc)
      then have "last_slash p = Some (Suc (length (join ys)))" using last_slash_eq [OF c x(1)] by simp
      then show ?thesis using cut [of "Suc (length (join ys))"] c len snoc by (simp add: parent_path_def)
    qed
  qed
qed

lemma append_path_ok:
  assumes p: "cwd_path_ok p nms" and x: "proper_name (cstr path)"
  shows "if Suc (length (join (nms @ [cstr path]))) < 128
    then \<exists>p'. append_path p path = Inr p' \<and> cwd_path_ok p' (nms @ [cstr path]) else append_path p path = Inl Fault"
proof -
  have len: "length p = 128" and c: "cstr p = 0x2F # join nms" and pr: "\<forall>nm\<in>set nms. proper_name nm"
    using p by (simp_all add: cwd_path_ok_def)
  let ?new = "0x2F # join (nms @ [cstr path])"
  have tk: "take (length (cstr p)) p = cstr p" unfolding cstr_def by (metis takeWhile_eq_take)
  have "length (cstr p) = 1 \<and> p ! 0 = 0x2F \<longleftrightarrow> nms = []"
    using c join_Nil_iff [OF pr] nth_cstr [of 0 p] by auto
  moreover have "take 1 p = [0x2F]" using tk c len by (cases p) auto
  ultimately have new: "(if length (cstr p) = 1 \<and> p ! 0 = 0x2F then take 1 p @ cstr path @ [0]
      else take (length (cstr p)) p @ [0x2F] @ cstr path @ [0]) = ?new @ [0]"
    using tk c join_snoc [of nms "cstr path"] by auto
  have nz: "0 \<notin> set ?new" using zero_notin_join [of "nms @ [cstr path]"] pr x by auto
  show ?thesis
  proof (cases "Suc (length (join (nms @ [cstr path]))) < 128")
    case True
    let ?p = "?new @ 0 # drop (Suc (length ?new)) p"
    have "append_path p path = Inr ?p" unfolding append_path_def Let_def new using True len by simp
    moreover have "cwd_path_ok ?p (nms @ [cstr path])"
      using True len nz pr x by (simp add: cwd_path_ok_def cstr_append)
    ultimately show ?thesis using True by auto
  next
    case False
    then show ?thesis unfolding append_path_def Let_def new using len by simp
  qed
qed

section \<open>Properties\<close>

text \<open>The run of \<open>ext2_cd\<close> up to the editing of the path string.\<close>

lemma cd_run:
  assumes D: "dir_ready L P sec idle (g_cwd_id s) s" and junk: "length junk = 128" and S: "string_lib S"
    and path: "0 \<in> set path" "proper_name (cstr path)" and cwd: "cwd_path_ok (g_cwd_path s) nms"
    and t: "t = slot_lookup sec s (g_cwd_id s) (cstr path) (heap_room L s)" "t \<noteq> 0" "valid_inode s t"
    and dir: "is_dir (slot_inode sec s t)"
  shows "\<exists>s2. fs_ready P sec idle s2 \<and> fs_kept L s s2 \<and> scr (con s2) = scr (con s) \<and>
    ext2_cd L P S junk (Some path) s =
      bindr (if cstr path = [0x2E] then Inr (g_cwd_path s)
             else if cstr path = [0x2E, 0x2E] then Inr (parent_path (g_cwd_path s)) else append_path (g_cwd_path s) path)
        (\<lambda>p. Inr (upd_con (ser_puts (str newline) \<circ> ser_puts p \<circ> ser_puts (str ''[cd] cwd_path='') \<circ>
                          dbg_kv ''cd'' ''cwd_inode'' t) (s2\<lparr>g_cwd_path := p, g_cwd_id := t\<rparr>)))"
proof -
  let ?f = "\<lambda>k. ser_puts (str newline) (ser_puts path (ser_puts (str ''[cd] path='') (dbg_msg ''cd'' ''change directory request'' k)))"
  have hd: "hd path \<noteq> 0" using path by (cases path) (auto simp: proper_name_def)
  obtain s1 s2 where a: "ext2_lookup L P S junk (g_cwd_id s) path (upd_con ?f s) = Inr (t, s1)"
    "get_inode P junk t s1 = Inr (slot_inode sec s t, s2)" "fs_ready P sec idle s2" "fs_kept L s s2" "con s2 = ?f (con s)"
    using lookup_then_inode [OF D junk S path(1) t(1,3), of ?f] by blast
  obtain d1 d2 where d: "op_strcmp S path (str ''.'' @ [0]) = Some d1" "d1 = 0 \<longleftrightarrow> cstr path = [0x2E]"
    "op_strcmp S path (str ''..'' @ [0]) = Some d2" "d2 = 0 \<longleftrightarrow> cstr path = [0x2E, 0x2E]"
    using c_strings.keyword [OF S path(1), of "str ''.''"] c_strings.keyword [OF S path(1), of "str ''..''"]
    by (auto simp: of_char_def)
  have p2: "g_cwd_path s2 = g_cwd_path s" using a(4) by (simp add: fs_kept_def)
  have z: "0 \<in> set (g_cwd_path s)" using cwd by (simp add: cwd_path_ok_def)
  have "ext2_cd L P S junk (Some path) s =
      bindr (if cstr path = [0x2E] then Inr (g_cwd_path s)
             else if cstr path = [0x2E, 0x2E] then Inr (parent_path (g_cwd_path s)) else append_path (g_cwd_path s) path)
        (\<lambda>p. Inr (upd_con (ser_puts (str newline) \<circ> ser_puts p \<circ> ser_puts (str ''[cd] cwd_path='') \<circ>
                          dbg_kv ''cd'' ''cwd_inode'' t) (s2\<lparr>g_cwd_path := p, g_cwd_id := t\<rparr>)))"
    using path(1) hd a t(2) dir d p2 z by (simp add: ext2_cd_def comp_def is_dir_def Let_def)
  moreover have "scr (con s2) = scr (con s)" using a(5) by simp
  ultimately show ?thesis using a(3,4) by blast
qed

text \<open>The runs that refuse: an empty argument, no such entry, not a directory.\<close>

lemma cd_empty:
  assumes "fs_ready P sec idle s" and "heap_inv L (kmm s)" and "0 \<in> set path" and "cstr path = []"
  shows "\<exists>s'. ext2_cd L P S junk (Some path) s = Inr s' \<and> fs_ready P sec idle s' \<and> fs_kept L s s' \<and> scr (con s') = scr (con s)"
proof -
  let ?s = "upd_con (dbg_msg ''cd'' ''change directory request'') s"
  have "hd path = 0" using assms(3,4) by (cases path) (auto split: if_splits)
  then have "ext2_cd L P S junk (Some path) s = Inr ?s" using assms(3) by (simp add: ext2_cd_def)
  moreover have "fs_ready P sec idle ?s" "fs_kept L s ?s"
    using assms(1,2) by (simp_all add: fs_ready_def fs_kept_def fs_conf_def heap_kept_refl)
  ultimately show ?thesis by auto
qed

lemma lookup_missing:
  assumes D: "dir_ready L P sec idle n s" and junk: "length junk = 128" and S: "string_lib S" and name: "0 \<in> set name"
    and t: "slot_lookup sec s n (cstr name) (heap_room L s) = 0"
  shows "\<exists>s'. ext2_lookup L P S junk n name (upd_con f s) = Inr (0, s') \<and> fs_ready P sec idle s' \<and> fs_kept L s s' \<and>
    con s' = f (con s)"
proof -
  have "dir_ready L P sec idle n (upd_con f s)" using D by (simp add: dir_ready_con)
  from ext2_lookup_ok [OF this junk S name] show ?thesis unfolding lookup_con t by (auto simp: fs_kept_def fs_conf_def)
qed

lemma cd_missing:
  assumes D: "dir_ready L P sec idle (g_cwd_id s) s" and junk: "length junk = 128" and S: "string_lib S"
    and path: "0 \<in> set path" "cstr path \<noteq> []" and t: "slot_lookup sec s (g_cwd_id s) (cstr path) (heap_room L s) = 0"
  shows "\<exists>s'. ext2_cd L P S junk (Some path) s = Inr s' \<and> fs_ready P sec idle s' \<and> fs_kept L s s' \<and>
    scr (con s') = vga_puts (str (''cd: No such directory.'' @ newline)) (scr (con s))"
proof -
  let ?f = "\<lambda>k. ser_puts (str newline) (ser_puts path (ser_puts (str ''[cd] path='') (dbg_msg ''cd'' ''change directory request'' k)))"
  have hd: "hd path \<noteq> 0" using path by (cases path) auto
  from lookup_missing [OF D junk S path(1) t, of ?f] obtain s1 where
    s1: "ext2_lookup L P S junk (g_cwd_id s) path (upd_con ?f s) = Inr (0, s1)" "fs_ready P sec idle s1"
      "fs_kept L s s1" "con s1 = ?f (con s)" by blast
  let ?s = "upd_con (puts (''cd: No such directory.'' @ newline) \<circ> dbg_msg ''cd'' ''target not found'') s1"
  have "ext2_cd L P S junk (Some path) s = Inr ?s" using path(1) hd s1(1) by (simp add: ext2_cd_def comp_def)
  moreover have "fs_ready P sec idle ?s" "fs_kept L s ?s" using s1(2,3) by (simp_all add: fs_ready_def fs_kept_def fs_conf_def)
  moreover have "scr (con ?s) = vga_puts (str (''cd: No such directory.'' @ newline)) (scr (con s))"
    using s1(4) by (simp add: put_def)
  ultimately show ?thesis by blast
qed

lemma cd_not_dir:
  assumes D: "dir_ready L P sec idle (g_cwd_id s) s" and junk: "length junk = 128" and S: "string_lib S"
    and path: "0 \<in> set path" "cstr path \<noteq> []"
    and t: "t = slot_lookup sec s (g_cwd_id s) (cstr path) (heap_room L s)" "t \<noteq> 0" "valid_inode s t"
    and dir: "\<not> is_dir (slot_inode sec s t)"
  shows "\<exists>s'. ext2_cd L P S junk (Some path) s = Inr s' \<and> fs_ready P sec idle s' \<and> fs_kept L s s' \<and>
    scr (con s') = vga_puts (str (''cd: Not a directory.'' @ newline)) (scr (con s))"
proof -
  let ?f = "\<lambda>k. ser_puts (str newline) (ser_puts path (ser_puts (str ''[cd] path='') (dbg_msg ''cd'' ''change directory request'' k)))"
  have hd: "hd path \<noteq> 0" using path by (cases path) auto
  obtain s1 s2 where a: "ext2_lookup L P S junk (g_cwd_id s) path (upd_con ?f s) = Inr (t, s1)"
    "get_inode P junk t s1 = Inr (slot_inode sec s t, s2)" "fs_ready P sec idle s2" "fs_kept L s s2" "con s2 = ?f (con s)"
    using lookup_then_inode [OF D junk S path(1) t(1,3), of ?f] by blast
  let ?s = "upd_con (puts (''cd: Not a directory.'' @ newline) \<circ>
    dbg_kv ''cd'' ''not_directory_mode'' (ucast (i_mode (slot_inode sec s t)))) s2"
  have "ext2_cd L P S junk (Some path) s = Inr ?s"
    using path(1) hd a(1,2) t(2) dir by (simp add: ext2_cd_def comp_def is_dir_def)
  moreover have "fs_ready P sec idle ?s" "fs_kept L s ?s" using a(3,4) by (simp_all add: fs_ready_def fs_kept_def fs_conf_def)
  moreover have "scr (con ?s) = vga_puts (str (''cd: Not a directory.'' @ newline)) (scr (con s))"
    using a(5) by (simp add: put_def)
  ultimately show ?thesis by blast
qed

text \<open>What \<open>cd\<close> answers to a name it refuses; \<open>None\<close> for the name of a directory.\<close>

definition cd_refusal :: "(nat \<Rightarrow> u8 list) \<Rightarrow> 'd fs \<Rightarrow> u8 list \<Rightarrow> string option" where
  "cd_refusal sec s x =
     (let t = dir_lookup sec s (g_cwd_id s) x
      in if x = [] then Some [] else if t = 0 then Some (''cd: No such directory.'' @ newline)
         else if \<not> is_dir (inode_at sec s t) then Some (''cd: Not a directory.'' @ newline) else None)"

lemma cd_enters:
  assumes "dir_ready L P sec idle (g_cwd_id s) s" and "length junk = 128" and "string_lib S"
    and "0 \<in> set path" and "proper_name (cstr path)" and "cwd_path_ok (g_cwd_path s) nms"
    and "t = slot_lookup sec s (g_cwd_id s) (cstr path) (heap_room L s)" and "t \<noteq> 0" and "valid_inode s t"
    and "is_dir (slot_inode sec s t)"
  shows "if cstr path = [0x2E] \<or> cstr path = [0x2E, 0x2E] \<or> Suc (length (join (nms @ [cstr path]))) < 128
    then \<exists>s'. ext2_cd L P S junk (Some path) s = Inr s' \<and> g_cwd_id s' = t \<and>
      cwd_path_ok (g_cwd_path s') (cd_names nms (cstr path)) \<and> fs_ready P sec idle s' \<and> heap_kept L (kmm s) (kmm s') \<and>
      scr (con s') = scr (con s)
    else ext2_cd L P S junk (Some path) s = Inl Fault"
proof -
  let ?p = "if cstr path = [0x2E] then Inr (g_cwd_path s)
    else if cstr path = [0x2E, 0x2E] then Inr (parent_path (g_cwd_path s)) else append_path (g_cwd_path s) path"
  obtain s2 where s2: "fs_ready P sec idle s2" "fs_kept L s s2" "scr (con s2) = scr (con s)" "ext2_cd L P S junk (Some path) s =
      bindr ?p (\<lambda>p. Inr (upd_con (ser_puts (str newline) \<circ> ser_puts p \<circ> ser_puts (str ''[cd] cwd_path='') \<circ>
                          dbg_kv ''cd'' ''cwd_inode'' t) (s2\<lparr>g_cwd_path := p, g_cwd_id := t\<rparr>)))"
    using cd_run [OF assms] by blast
  show ?thesis
  proof (cases "cstr path = [0x2E] \<or> cstr path = [0x2E, 0x2E] \<or> Suc (length (join (nms @ [cstr path]))) < 128")
    case True
    then have "\<exists>p. ?p = Inr p \<and> cwd_path_ok p (cd_names nms (cstr path))"
      using append_path_ok [OF assms(6,5)] parent_path_ok [OF assms(6)] assms(6) by (auto simp: cd_names_def)
    then obtain p where p: "?p = Inr p" "cwd_path_ok p (cd_names nms (cstr path))" by blast
    have "fs_ready P sec idle (upd_con f (s2\<lparr>g_cwd_path := p, g_cwd_id := t\<rparr>))" for f
      using s2(1) by (simp add: fs_ready_def)
    then show ?thesis using s2 p True by (auto simp: fs_kept_def)
  next
    case False
    then have "?p = Inl Fault" using append_path_ok [OF assms(6,5)] by auto
    then show ?thesis using s2(4) False by simp
  qed
qed

text \<open>
  C28: \<open>ext2_cd\<close> decides every argument by the volume. An empty one changes nothing; a name that
  the working directory does not have, and a name of something that is not a directory,
  print their message and leave the working directory and its path as they were. Otherwise
  the directory becomes the working directory and the path string spells the names on the
  way: \<^verbatim>\<open>.\<close> keeps it, \<^verbatim>\<open>..\<close> drops the last name (and stays at the root), any other name is
  appended if the string then fits its 128 bytes, and else written past them, a fault. The
  working directory and the one entered must have inodes of the first block group.
\<close>

theorem ext2_cd_correct:
  assumes D: "searchable L P sec idle (g_cwd_id s) s" and "length junk = 128" and "string_lib S"
    and path: "0 \<in> set path" and cwd: "cwd_path_ok (g_cwd_path s) nms"
    and t: "t = dir_lookup sec s (g_cwd_id s) (cstr path)" "t \<noteq> 0 \<longrightarrow> first_group sec s t \<and> 0x2F \<notin> set (cstr path)"
  shows "case cd_refusal sec s (cstr path) of
      Some msg \<Rightarrow> \<exists>s'. ext2_cd L P S junk (Some path) s = Inr s' \<and> fs_ready P sec idle s' \<and> fs_kept L s s' \<and>
        scr (con s') = vga_puts (str msg) (scr (con s))
    | None \<Rightarrow>
        if cstr path = [0x2E] \<or> cstr path = [0x2E, 0x2E] \<or> Suc (length (join (nms @ [cstr path]))) < 128
        then \<exists>s'. ext2_cd L P S junk (Some path) s = Inr s' \<and> g_cwd_id s' = t \<and>
          cwd_path_ok (g_cwd_path s') (cd_names nms (cstr path)) \<and> fs_ready P sec idle s' \<and> heap_kept L (kmm s) (kmm s') \<and>
          scr (con s') = scr (con s)
        else ext2_cd L P S junk (Some path) s = Inl Fault"
proof -
  note D' = searchableD [OF D]
  have sl: "t = slot_lookup sec s (g_cwd_id s) (cstr path) (heap_room L s)" using t(1) D'(2) by simp
  have hi: "heap_inv L (kmm s)" using D by (simp add: searchable_def)
  consider "cstr path = []" | "cstr path \<noteq> []" "t = 0"
    | "cstr path \<noteq> []" "t \<noteq> 0" "\<not> is_dir (inode_at sec s t)" | "cstr path \<noteq> []" "t \<noteq> 0" "is_dir (inode_at sec s t)" by blast
  then show ?thesis
  proof cases
    case 1
    then show ?thesis using cd_empty [OF D'(3) hi path] by (simp add: cd_refusal_def)
  next
    case 2
    then show ?thesis using cd_missing [OF D'(1) assms(2,3) path] sl by (simp add: cd_refusal_def t(1) [symmetric] Let_def)
  next
    case 3
    then have f: "first_group sec s t" using t(2) by blast
    note i = inode_at_slot [OF D'(4,5) f] and v = first_group_valid [OF D'(4) f]
    from 3 show ?thesis using cd_not_dir [OF D'(1) assms(2,3) path 3(1) sl 3(2) v]
      by (simp add: cd_refusal_def t(1) [symmetric] i Let_def)
  next
    case 4
    then have f: "first_group sec s t" and n: "0x2F \<notin> set (cstr path)" using t(2) by blast+
    note i = inode_at_slot [OF D'(4,5) f] and v = first_group_valid [OF D'(4) f]
    have pn: "proper_name (cstr path)" using 4(1) n by (simp add: proper_name_def zero_notin_cstr)
    from 4 show ?thesis using cd_enters [OF D'(1) assms(2,3) path pn cwd sl 4(2) v]
      by (simp add: cd_refusal_def t(1) [symmetric] i Let_def)
  qed
qed

lemma img_path:
  "cwd_path_ok (str ''/'' @ 0 # replicate 126 0) []"
  "cwd_path_ok (concat (replicate 63 [0x2F, 0x64]) @ [0, 0]) (replicate 63 [0x64])"
proof -
  have j: "0x2F # join (replicate (Suc n) [0x64]) = concat (replicate (Suc n) [0x2F, 0x64])" for n
    by (induction n) (auto simp: join_Cons)
  have "0 \<notin> set (concat (replicate 63 [0x2F, 0x64 :: u8]))" by (auto simp: set_concat)
  then show "cwd_path_ok (concat (replicate 63 [0x2F, 0x64]) @ [0, 0]) (replicate 63 [0x64])"
    using j [of 62] by (simp add: cwd_path_ok_def proper_name_def cstr_append length_concat sum_list_replicate)
qed (simp add: cwd_path_ok_def of_char_def)

lemma img_cwd: "g_cwd_path img_fs = str ''/'' @ 0 # replicate 126 0" "g_cwd_id img_fs = 2"
  by (simp_all add: img_fs_def of_char_def)

theorem ext2_cd_correct_witness:
  "(\<exists>s'. ext2_cd wit_link (ide_ports img_sec) ush_ops (replicate 128 0) (Some (str ''d'' @ [0])) img_fs = Inr s' \<and>
     g_cwd_id s' = 2 \<and> cwd_path_ok (g_cwd_path s') [[0x64]]) \<and>
   (\<exists>s'. ext2_cd wit_link (ide_ports img_sec) ush_ops (replicate 128 0) (Some (str ''hi'' @ [0])) img_fs = Inr s' \<and>
     scr (con s') = vga_puts (str (''cd: Not a directory.'' @ newline)) (scr (con img_fs)))"
proof -
  have d: "searchable wit_link (ide_ports img_sec) img_sec (\<lambda>d. left d = 0) (g_cwd_id img_fs) img_fs"
    using img_searchable by (simp add: img_cwd)
  have p: "cwd_path_ok (g_cwd_path img_fs) []" using img_path(1) by (simp add: img_cwd)
  have c: "cstr (str ''d'' @ [0]) = [0x64]" "cstr (str ''hi'' @ [0]) = [0x68, 0x69]" by (simp_all add: of_char_def)
  have t: "2 = dir_lookup img_sec img_fs (g_cwd_id img_fs) (cstr (str ''d'' @ [0]))"
    "12 = dir_lookup img_sec img_fs (g_cwd_id img_fs) (cstr (str ''hi'' @ [0]))"
    unfolding c img_cwd img_dir_lookup by simp_all
  have "\<not> is_dir (slot_inode img_sec img_fs 12)" by (simp add: is_dir_def img_inodes)
  then have r: "cd_refusal img_sec img_fs [0x64] = None"
    "cd_refusal img_sec img_fs [0x68, 0x69] = Some (''cd: Not a directory.'' @ newline)"
    by (simp_all add: cd_refusal_def img_cwd img_dir_lookup img_inode_at img_dir_ok(2))
  show ?thesis
    using ext2_cd_correct [OF d _ ush_ops_lib _ p t(1), of "replicate 128 0"]
      ext2_cd_correct [OF d _ ush_ops_lib _ p t(2), of "replicate 128 0"] img_first_group
    unfolding c r by (auto simp: cd_names_def)
qed

text \<open>
  Nothing bounds the path string: entering a directory whose name no longer fits writes
  past the 128 bytes of \<open>g_cwd_path\<close>. On a volume where a directory is reachable from itself
  under a name of one byte, 63 steps fill the string and the next one overruns it.
\<close>

theorem ext2_cd_overruns_path:
  assumes "dir_ready L P sec idle (g_cwd_id s) s" and "length junk = 128" and "string_lib S"
    and "0 \<in> set path" and "proper_name (cstr path)" and "cwd_path_ok (g_cwd_path s) nms"
    and "t = slot_lookup sec s (g_cwd_id s) (cstr path) (heap_room L s)" and "t \<noteq> 0" and "valid_inode s t"
    and "is_dir (slot_inode sec s t)" and "cstr path \<noteq> [0x2E]" and "cstr path \<noteq> [0x2E, 0x2E]"
    and full: "128 \<le> Suc (length (join (nms @ [cstr path])))"
  shows "ext2_cd L P S junk (Some path) s = Inl Fault"
proof -
  have "append_path (g_cwd_path s) path = Inl Fault" using append_path_ok [OF assms(6,5)] full by simp
  with cd_run [OF assms(1-10)] assms(11,12) show ?thesis by auto
qed

theorem ext2_cd_overruns_path_witness:
  "let s = img_fs\<lparr>g_cwd_path := concat (replicate 63 [0x2F, 0x64]) @ [0, 0]\<rparr> in
     cwd_path_ok (g_cwd_path s) (replicate 63 [0x64]) \<and>
     ext2_cd wit_link (ide_ports img_sec) ush_ops (replicate 128 0) (Some (str ''d'' @ [0])) s = Inl Fault"
proof -
  define s where "s = img_fs\<lparr>g_cwd_path := concat (replicate 63 [0x2F, 0x64]) @ [0, 0]\<rparr>"
  have c: "fs_conf s = fs_conf img_fs" by (simp add: s_def fs_conf_def)
  have id: "g_cwd_id s = 2" by (simp add: s_def img_cwd)
  have d: "dir_ready wit_link (ide_ports img_sec) img_sec (\<lambda>d. left d = 0) (g_cwd_id s) s"
    using img_dir_ready unfolding id
    by (simp add: dir_ready_def slot_inode_conf [OF c] valid_inode_conf [OF c] dir_conf [OF c] fs_ready_def) (simp add: s_def)
  have p: "cwd_path_ok (g_cwd_path s) (replicate 63 [0x64])" using img_path(2) by (simp add: s_def)
  have j: "Suc (length (join (replicate (Suc n) [0x64 :: u8]))) = 2 * Suc n" for n
    by (induction n) (auto simp: join_Cons)
  have "replicate 63 [0x64] @ [[0x64]] = replicate (Suc 63) [0x64 :: u8]" by (metis replicate_append_same replicate_Suc)
  then have full: "128 \<le> Suc (length (join (replicate 63 [0x64] @ [cstr (str ''d'' @ [0])])))"
    using j [of 63] by (simp add: of_char_def)
  have v: "valid_inode s 2" unfolding valid_inode_conf [OF c] by (simp add: valid_inode_def img_sb)
  have "ext2_cd wit_link (ide_ports img_sec) ush_ops (replicate 128 0) (Some (str ''d'' @ [0])) s = Inl Fault"
    by (rule ext2_cd_overruns_path [OF d _ ush_ops_lib _ _ p _ _ _ _ _ _ full, of _ 2])
      (simp_all add: id img_lookup dir_conf [OF c] slot_inode_conf [OF c] of_char_def proper_name_def v img_dir_ok(2))
  with p show ?thesis by (simp add: s_def)
qed

end
