(* ===== verification/Line_Buffer.thy ===== *)
theory Line_Buffer
  imports Cstring Run
begin

text \<open>
  What the two shells share: arrays with checked accesses, the loops that open and close a
  gap in a line, an abstract text with a cursor, and the contract of a command history.

  A text is the pair of the bytes before and after the cursor. An array \<open>buf\<close> with the
  indices \<open>pos\<close> and \<open>len\<close> shows a text when its first \<open>len\<close> bytes are the text and \<open>pos\<close> is
  the cursor; there is always room for a terminator.
\<close>

section \<open>Checked array accesses\<close>

definition rd :: "'a list \<Rightarrow> nat \<Rightarrow> stop + 'a" where
  "rd buf i = (if i < length buf then Inr (buf ! i) else Inl Fault)"

definition wr :: "'a list \<Rightarrow> nat \<Rightarrow> 'a \<Rightarrow> stop + 'a list" where
  "wr buf i c = (if i < length buf then Inr (buf[i := c]) else Inl Fault)"

text \<open>A loop that stores the bytes \<open>bs\<close> at \<open>pos\<close>, \<open>pos + 1\<close>, and so on.\<close>

definition blit :: "u8 list \<Rightarrow> nat \<Rightarrow> u8 list \<Rightarrow> stop + u8 list" where
  "blit buf pos bs =
     (if pos + length bs \<le> length buf then Inr (take pos buf @ bs @ drop (pos + length bs) buf) else Inl Fault)"

lemma rd_ok [simp]: "i < length buf \<Longrightarrow> rd buf i = Inr (buf ! i)"
  by (simp add: rd_def)

lemma wr_ok [simp]: "i < length buf \<Longrightarrow> wr buf i c = Inr (buf[i := c])"
  by (simp add: wr_def)

text \<open>A string literal, and a test that may stop.\<close>

abbreviation lit :: "string \<Rightarrow> u8 list" where
  "lit s \<equiv> str s @ [0]"

definition ifr :: "stop + bool \<Rightarrow> stop + 'a \<Rightarrow> stop + 'a \<Rightarrow> stop + 'a" where
  "ifr b x y = bindr b (\<lambda>t. if t then x else y)"

lemma ifr_simps [simp]: "ifr (Inr True) x y = x" "ifr (Inr False) x y = y" "ifr (Inl e) x y = Inl e"
  by (simp_all add: ifr_def)

section \<open>Opening and closing a gap\<close>

text \<open>\<^verbatim>\<open>for (i = len; i > pos; i--) buf[i] = buf[i - 1]\<close>\<close>

fun shift_up :: "nat \<Rightarrow> nat \<Rightarrow> u8 list \<Rightarrow> stop + u8 list" where
  "shift_up pos i buf =
     (if pos < i then bindr (rd buf (i - 1)) (\<lambda>c. bindr (wr buf i c) (shift_up pos (i - 1))) else Inr buf)"

declare shift_up.simps [simp del]

text \<open>\<^verbatim>\<open>for (i = pos; i < stop_at; i++) buf[i] = buf[i + 1]\<close>\<close>

function shift_down :: "nat \<Rightarrow> nat \<Rightarrow> u8 list \<Rightarrow> stop + u8 list" where
  "shift_down i stop_at buf =
     (if i < stop_at then bindr (rd buf (i + 1)) (\<lambda>c. bindr (wr buf i c) (shift_down (i + 1) stop_at)) else Inr buf)"
  by pat_completeness auto
termination by (relation "measure (\<lambda>(i, stop_at, _). stop_at - i)") auto

declare shift_down.simps [simp del]

lemma shift_up_eq:
  assumes "pos \<le> i" and "i < length buf"
  shows "\<exists>buf'. shift_up pos i buf = Inr buf' \<and> length buf' = length buf \<and>
    take pos buf' = take pos buf \<and> take (i - pos) (drop (Suc pos) buf') = take (i - pos) (drop pos buf) \<and>
    drop (Suc i) buf' = drop (Suc i) buf"
  using assms
proof (induction "i - pos" arbitrary: i buf)
  case 0
  then show ?case by (simp add: shift_up.simps)
next
  case (Suc n)
  let ?b = "buf[i := buf ! (i - 1)]"
  have "n = (i - 1) - pos" "pos \<le> i - 1" "i - 1 < length ?b" using Suc by auto
  from Suc.hyps(1) [OF this] obtain b' where b': "shift_up pos (i - 1) ?b = Inr b'" "length b' = length buf"
    "take pos b' = take pos ?b" "take (i - 1 - pos) (drop (Suc pos) b') = take (i - 1 - pos) (drop pos ?b)"
    "drop i b' = drop i ?b"
    using Suc by (auto simp: Suc_diff_Suc)
  have i: "pos < i" using Suc by simp
  have at: "b' ! i = buf ! (i - 1)"
    using b'(2,5) Suc.prems(2) by (metis nth_list_update_eq nth_via_drop Cons_nth_drop_Suc length_list_update)
  have "drop (Suc i) b' = drop (Suc i) buf"
    using b'(5) by (metis drop_Suc tl_drop drop_update_cancel lessI)
  moreover have "take (i - pos) (drop (Suc pos) b') = take (i - pos) (drop pos buf)"
  proof (rule nth_equalityI)
    fix j assume j: "j < length (take (i - pos) (drop (Suc pos) b'))"
    show "take (i - pos) (drop (Suc pos) b') ! j = take (i - pos) (drop pos buf) ! j"
    proof (cases "j < i - 1 - pos")
      case True
      then have "take (i - 1 - pos) (drop (Suc pos) b') ! j = take (i - 1 - pos) (drop pos ?b) ! j" using b'(4) by simp
      then show ?thesis using True j b'(2) Suc.prems by (simp add: nth_list_update)
    next
      case False
      then have "j = i - 1 - pos" using j by auto
      then show ?thesis using at j b'(2) Suc.prems i by (simp add: add.commute)
    qed
  qed (use b'(2) Suc.prems in auto)
  moreover have "shift_up pos i buf = Inr b'" using b'(1) i Suc.prems(2) by (subst shift_up.simps) simp
  ultimately show ?case using b'(2,3) i by simp
qed

lemma shift_down_eq:
  assumes "i \<le> stop_at" and "stop_at < length buf"
  shows "shift_down i stop_at buf = Inr (take i buf @ take (stop_at - i) (drop (Suc i) buf) @ drop stop_at buf)"
  using assms
proof (induction "stop_at - i" arbitrary: i buf)
  case 0
  then show ?case by (simp add: shift_down.simps)
next
  case (Suc n)
  let ?b = "buf[i := buf ! Suc i]"
  have "n = stop_at - Suc i" "Suc i \<le> stop_at" "stop_at < length ?b" using Suc by auto
  have il: "i < stop_at" using Suc.hyps(2) by simp
  from Suc.hyps(1) [OF \<open>n = stop_at - Suc i\<close> \<open>Suc i \<le> stop_at\<close> \<open>stop_at < length ?b\<close>] have "shift_down i stop_at buf =
      Inr (take (Suc i) ?b @ take (stop_at - Suc i) (drop (Suc (Suc i)) ?b) @ drop stop_at ?b)"
    using il Suc.prems(2) by (subst shift_down.simps) simp
  moreover have "take (Suc i) ?b = take i buf @ [buf ! Suc i]" using Suc by (simp add: take_Suc_conv_app_nth)
  moreover have "take (stop_at - i) (drop (Suc i) buf) = buf ! Suc i # take (stop_at - Suc i) (drop (Suc (Suc i)) buf)"
    using il Suc.prems(2) by (simp add: Cons_nth_drop_Suc [symmetric] take_Cons')
  ultimately show ?case using il by simp
qed

section \<open>Texts with a cursor\<close>

type_synonym cursor_text = "u8 list \<times> u8 list"

definition shows_text :: "u8 list \<Rightarrow> nat \<Rightarrow> nat \<Rightarrow> cursor_text \<Rightarrow> bool" where
  "shows_text buf pos len = (\<lambda>(b, a). pos = length b \<and> len = length b + length a \<and> len < length buf \<and>
     take len buf = b @ a)"

lemma shows_text_empty: "0 < length buf \<Longrightarrow> shows_text buf 0 0 ([], [])"
  by (simp add: shows_text_def)

lemma shows_textD:
  assumes "shows_text buf pos len (b, a)"
  shows "pos = length b" "len = length b + length a" "len < length buf" "take pos buf = b" "take (len - pos) (drop pos buf) = a"
proof -
  have t: "take len buf = b @ a" and p: "pos = length b" "len = length b + length a" "len < length buf"
    using assms by (auto simp: shows_text_def)
  show "pos = length b" "len = length b + length a" "len < length buf" by (fact p)+
  have "take pos buf = take pos (take len buf)" using p by (simp add: min_def)
  then show "take pos buf = b" unfolding t using p(1) by simp
  have "take (len - pos) (drop pos buf) = drop pos (take len buf)" by (simp add: drop_take)
  then show "take (len - pos) (drop pos buf) = a" unfolding t using p(1) by simp
qed

lemma shows_textI:
  assumes "len < length buf" and "pos \<le> len"
  shows "shows_text buf pos len (take pos buf, take (len - pos) (drop pos buf))"
  using assms by (simp add: shows_text_def take_add [symmetric])

text \<open>Typing a byte, deleting the byte before the cursor, moving the cursor.\<close>

lemma insert_text:
  assumes "shows_text buf pos len (b, a)" and "Suc len < length buf"
  shows "\<exists>buf'. bindr (shift_up pos len buf) (\<lambda>buf. wr buf pos c) = Inr buf' \<and> length buf' = length buf \<and>
    shows_text buf' (Suc pos) (Suc len) (b @ [c], a) \<and> drop (Suc len) buf' = drop (Suc len) buf"
proof -
  note d = shows_textD [OF assms(1)]
  obtain b1 where b1: "shift_up pos len buf = Inr b1" "length b1 = length buf" "take pos b1 = take pos buf"
    "take (len - pos) (drop (Suc pos) b1) = take (len - pos) (drop pos buf)" "drop (Suc len) b1 = drop (Suc len) buf"
    using shift_up_eq [of pos len buf] d by auto
  let ?b = "b1[pos := c]"
  have "take (Suc pos) ?b = b @ [c]" using b1(2,3) d by (simp add: take_Suc_conv_app_nth)
  moreover have "take (Suc len - Suc pos) (drop (Suc pos) ?b) = a" using b1(4) d by simp
  moreover have "shows_text ?b (Suc pos) (Suc len) (take (Suc pos) ?b, take (Suc len - Suc pos) (drop (Suc pos) ?b))"
    using assms(2) b1(2) d(1,2) by (intro shows_textI) auto
  ultimately show ?thesis using b1 d by auto
qed

lemma delete_text:
  assumes "shows_text buf pos len (b, a)" and "0 < pos"
  shows "\<exists>buf'. shift_down (pos - 1) (len - 1) buf = Inr buf' \<and> length buf' = length buf \<and>
    shows_text buf' (pos - 1) (len - 1) (butlast b, a) \<and> drop len buf' = drop len buf"
proof -
  note d = shows_textD [OF assms(1)]
  let ?b = "take (pos - 1) buf @ take (len - 1 - (pos - 1)) (drop (Suc (pos - 1)) buf) @ drop (len - 1) buf"
  have sd: "shift_down (pos - 1) (len - 1) buf = Inr ?b" using d assms(2) by (intro shift_down_eq) auto
  have t: "take (pos - 1) buf = butlast b" using butlast_take [of pos buf] d by simp
  have a: "take (len - 1 - (pos - 1)) (drop (Suc (pos - 1)) buf) = a" using d(5) assms(2) by simp
  have l: "length (butlast b) = pos - 1" "length a = len - pos" using d(1,2) by auto
  have "shows_text (butlast b @ a @ drop (len - 1) buf) (pos - 1) (len - 1) (butlast b, a)"
    using d(1,2,3) assms(2) by (cases b rule: rev_cases) (auto simp: shows_text_def)
  moreover have "drop len (butlast b @ a @ drop (len - 1) buf) = drop len buf"
    using d(1,2) assms(2) by (cases b rule: rev_cases) auto
  moreover have "length (butlast b @ a @ drop (len - 1) buf) = length buf"
    using d(1,2,3) assms(2) by (cases b rule: rev_cases) auto
  ultimately show ?thesis using sd unfolding t a by blast
qed

section \<open>Command histories\<close>

text \<open>\<^verbatim>\<open>for (i = 0; i < n - 1; i++) strcpy(rows[i], rows[i + 1])\<close>, for the string routine \<open>cpy\<close>.\<close>

fun scroll :: "(u8 list \<Rightarrow> u8 list \<Rightarrow> u8 list option) \<Rightarrow> u8 list list \<Rightarrow> u8 list list option" where
  "scroll cpy (a # b # rows) = do { a \<leftarrow> cpy a b; rows \<leftarrow> scroll cpy (b # rows); Some (a # rows) }"
| "scroll cpy rows = Some rows"

definition hist_add :: "nat \<Rightarrow> u8 list \<Rightarrow> u8 list list \<Rightarrow> u8 list list" where
  "hist_add cap line h =
     (if line = [] \<or> h \<noteq> [] \<and> last h = line then h else if length h < cap then h @ [line] else tl h @ [line])"

text \<open>
  The law of a history: adding a line that fits has the effect of \<open>hist_add\<close>. It follows
  that the history always is the end of the log of all lines, without the empty ones and the
  immediate repetitions.
\<close>

locale line_history =
  fixes inv :: "'s \<Rightarrow> bool"
    and entries :: "'s \<Rightarrow> u8 list list"
    and add :: "u8 list \<Rightarrow> 's \<Rightarrow> stop + 's"
    and cap :: nat
    and width :: nat
  assumes cap_pos: "0 < cap"
    and add_ok: "inv s \<Longrightarrow> 0 \<in> set line \<Longrightarrow> length (cstr line) < width \<Longrightarrow>
      \<exists>s'. add line s = Inr s' \<and> inv s' \<and> entries s' = hist_add cap (cstr line) (entries s)"
begin

fun add_all :: "u8 list list \<Rightarrow> 's \<Rightarrow> stop + 's" where
  "add_all [] s = Inr s"
| "add_all (l # ls) s = bindr (add l s) (add_all ls)"

definition log :: "u8 list list \<Rightarrow> u8 list list" where
  "log ls = remdups_adj (filter (\<lambda>l. l \<noteq> []) (map cstr ls))"

definition recent :: "u8 list list \<Rightarrow> u8 list list" where
  "recent l = drop (length l - cap) l"

lemma log_snoc:
  "log (ls @ [l]) =
     (if cstr l = [] \<or> log ls \<noteq> [] \<and> last (log ls) = cstr l then log ls else log ls @ [cstr l])"
proof -
  have "remdups_adj (xs @ [x]) = (if xs \<noteq> [] \<and> last xs = x then remdups_adj xs else remdups_adj xs @ [x])"
    for xs and x :: "u8 list"
    by (induction xs rule: remdups_adj.induct) auto
  then show ?thesis by (simp add: log_def last_remdups_adj)
qed

lemma recent_add: "hist_add cap (cstr l) (recent (log ls)) = recent (log (ls @ [l]))"
proof -
  have "recent (log ls) \<noteq> [] \<longleftrightarrow> log ls \<noteq> []" using cap_pos by (cases "log ls") (auto simp: recent_def)
  moreover have "last (recent (log ls)) = last (log ls)" if "log ls \<noteq> []"
    using that cap_pos by (simp add: recent_def last_drop)
  moreover have "recent (log ls @ [x]) =
      (if length (recent (log ls)) < cap then recent (log ls) @ [x] else tl (recent (log ls)) @ [x])" for x
    using cap_pos by (auto simp: recent_def Suc_diff_le drop_Suc tl_drop)
  ultimately show ?thesis by (auto simp: hist_add_def log_snoc)
qed

lemma add_all_recent:
  assumes "inv s" and "entries s = recent (log done)"
    and "\<forall>l\<in>set ls. 0 \<in> set l \<and> length (cstr l) < width"
  shows "\<exists>s'. add_all ls s = Inr s' \<and> inv s' \<and> entries s' = recent (log (done @ ls))"
  using assms
proof (induction ls arbitrary: s "done")
  case (Cons l ls)
  obtain s1 where s1: "add l s = Inr s1" "inv s1" "entries s1 = hist_add cap (cstr l) (entries s)"
    using add_ok [OF Cons.prems(1), of l] Cons.prems(3) by auto
  then have "entries s1 = recent (log (done @ [l]))" using Cons.prems(2) recent_add by simp
  from Cons.IH [OF s1(2) this] Cons.prems(3) s1(1) show ?case by simp
qed simp

end

text \<open>Rows of \<open>w\<close> bytes that hold strings; what the routines of the contract do to them.\<close>

definition row_ok :: "nat \<Rightarrow> u8 list \<Rightarrow> bool" where
  "row_ok w r \<longleftrightarrow> length r = w \<and> 0 \<in> set r"

lemma row_ok_cstr: "row_ok w r \<Longrightarrow> length (cstr r) < w"
  using length_cstr_less [of r] by (auto simp: row_ok_def)

text \<open>An array of \<open>cap\<close> rows whose first \<open>n\<close> rows are lines.\<close>

definition rows_wf :: "nat \<Rightarrow> nat \<Rightarrow> u8 list list \<Rightarrow> nat \<Rightarrow> bool" where
  "rows_wf w cap rows n \<longleftrightarrow> length rows = cap \<and> (\<forall>r\<in>set rows. length r = w) \<and> n \<le> cap \<and>
     (\<forall>r\<in>set (take n rows). row_ok w r)"

definition lines_of :: "u8 list list \<Rightarrow> nat \<Rightarrow> u8 list list" where
  "lines_of rows n = map cstr (take n rows)"

context c_strings
begin

lemma copy_row:
  assumes "length d = w" and "0 \<in> set s" and "length (cstr s) < w"
  shows "\<exists>r. scpy d s = Some r \<and> row_ok w r \<and> cstr r = cstr s"
  using scpy_ok [OF assms(2), of d] assms by (auto simp: row_ok_def)

lemma scroll_ok:
  assumes "rows \<noteq> []" and "\<forall>r\<in>set rows. row_ok w r"
  shows "\<exists>rows'. scroll scpy rows = Some rows' \<and> length rows' = length rows \<and> (\<forall>r\<in>set rows'. row_ok w r) \<and>
    map cstr (butlast rows') = map cstr (tl rows)"
  using assms
proof (induction rows rule: induct_list012)
  case (3 a b rows)
  obtain rs where rs: "scroll scpy (b # rows) = Some rs" "length rs = length (b # rows)" "\<forall>r\<in>set rs. row_ok w r"
    "map cstr (butlast rs) = map cstr (tl (b # rows))"
    using 3 by auto
  have "length a = w" "0 \<in> set b" "length (cstr b) < w"
    using 3(4) row_ok_cstr [of w b] by (simp_all add: row_ok_def)
  from copy_row [OF this] obtain r where "scpy a b = Some r" "row_ok w r" "cstr r = cstr b" by blast
  then show ?case using rs by (cases rs) auto
qed auto

text \<open>Adding a line to an array of lines, with room and without.\<close>

lemma append_line:
  assumes "rows_wf w cap rows n" and "n < cap" and "0 \<in> set line" and "length (cstr line) < w"
  shows "\<exists>r. scpy (rows ! n) line = Some r \<and> rows_wf w cap (rows[n := r]) (Suc n) \<and>
    lines_of (rows[n := r]) (Suc n) = lines_of rows n @ [cstr line]"
proof -
  have len: "length rows = cap" "length (rows ! n) = w" using assms(1,2) by (auto simp: rows_wf_def)
  obtain r where r: "scpy (rows ! n) line = Some r" "row_ok w r" "cstr r = cstr line"
    using copy_row [OF len(2) assms(3,4)] by blast
  have "take (Suc n) (rows[n := r]) = take n rows @ [r]" using len(1) assms(2) by (simp add: take_Suc_conv_app_nth)
  then show ?thesis
    using r assms(1,2) len(1)
    by (auto simp: rows_wf_def lines_of_def row_ok_def dest: set_update_subset_insert [THEN subsetD])
qed

lemma scroll_line:
  assumes "rows_wf w cap rows cap" and "0 < cap" and "0 \<in> set line" and "length (cstr line) < w"
  shows "\<exists>rows' r. scroll scpy rows = Some rows' \<and> length rows' = cap \<and> scpy (rows' ! (cap - 1)) line = Some r \<and>
    rows_wf w cap (rows'[cap - 1 := r]) cap \<and> lines_of (rows'[cap - 1 := r]) cap = tl (lines_of rows cap) @ [cstr line]"
proof -
  have len: "length rows = cap" "rows \<noteq> []" "\<forall>r\<in>set rows. row_ok w r" using assms(1,2) by (auto simp: rows_wf_def)
  obtain rows' where r': "scroll scpy rows = Some rows'" "length rows' = cap" "\<forall>r\<in>set rows'. row_ok w r"
    "map cstr (butlast rows') = map cstr (tl rows)"
    using scroll_ok [OF len(2,3)] len(1) by auto
  have "length (rows' ! (cap - 1)) = w" using r'(2,3) assms(2) by (simp add: row_ok_def)
  from copy_row [OF this assms(3,4)] obtain r
    where r: "scpy (rows' ! (cap - 1)) line = Some r" "row_ok w r" "cstr r = cstr line" by blast
  have "rows'[cap - 1 := r] = butlast rows' @ [r]"
    using r'(2) assms(2) by (cases rows' rule: rev_cases) auto
  then show ?thesis
    using r r' len(1) by (auto simp: rows_wf_def lines_of_def row_ok_def map_tl dest: in_set_butlastD)
qed

end

end
