(* ===== verification/User_Shell.thy ===== *)
theory User_Shell
  imports Line_Buffer
begin

text \<open>
  The user program \<^verbatim>\<open>user/shell.c\<close>: environment, history, variable expansion, tokenizer, built-in
  commands, line editor and main loop.

  The static variables are the record \<open>ush\<close>; its field \<open>out\<close> lists the system calls made
  so far. The results of \<open>sys_read_raw\<close> are an argument, and running out of them is \<open>Hang\<close>.
  A pointer into an array is the array's bytes from there on; any access outside an array is
  \<open>Fault\<close>. The local arrays are uninitialised: their arbitrary contents are arguments. Indices
  that the code keeps in an \<open>int\<close> and that never become negative are natural numbers.
\<close>

section \<open>State and output\<close>

datatype uev = UWrite u32 "u8 list" | UClear | UExit u32

record ush =
  env_vars :: "u8 list list"
  env_count :: nat
  last_exit_status :: int
  history :: "u8 list list"
  history_count :: nat
  out :: "uev list"
  exited :: bool

definition LINE_MAX :: nat where [simp]: "LINE_MAX = 256"
definition MAX_ARGS :: nat where [simp]: "MAX_ARGS = 32"
definition MAX_ENV :: nat where [simp]: "MAX_ENV = 32"
definition ENV_VAL_MAX :: nat where [simp]: "ENV_VAL_MAX = 128"
definition HISTORY_SIZE :: nat where [simp]: "HISTORY_SIZE = 16"

definition ush_boot :: ush where
  "ush_boot = \<lparr>env_vars = replicate 32 (replicate 128 0), env_count = 0, last_exit_status = 0,
     history = replicate 16 (replicate 256 0), history_count = 0, out = [], exited = False\<rparr>"

definition emit :: "uev \<Rightarrow> ush \<Rightarrow> ush" where
  "emit e u = u\<lparr>out := out u @ [e]\<rparr>"

definition sys_write_str :: "u8 list \<Rightarrow> ush \<Rightarrow> stop + ush" where
  "sys_write_str s u = guardr (0 \<in> set s) Fault (Inr (emit (UWrite 0 (cstr s)) u))"

text \<open>The same for a literal, which is always terminated.\<close>

definition say :: "string \<Rightarrow> ush \<Rightarrow> ush" where
  "say s u = emit (UWrite 0 (str s)) u"

definition nl :: string where [simp]: "nl = [CHR 0x0A]"
definition bs :: string where [simp]: "bs = [CHR 0x08]"

section \<open>Environment\<close>

text \<open>The index at which the comparison of an entry with a name stops.\<close>

fun env_scan :: "u8 list \<Rightarrow> u8 list \<Rightarrow> nat option" where
  "env_scan [] name = None"
| "env_scan (c # e) (n # name) =
     (if c \<noteq> 0 \<and> c \<noteq> 0x3D then if c \<noteq> n then Some 0 else map_option Suc (env_scan e name) else Some 0)"
| "env_scan (c # e) [] = Some 0"

definition env_match :: "u8 list \<Rightarrow> u8 list \<Rightarrow> stop + nat option" where
  "env_match e name =
     bindr (orelse (env_scan e name) Fault) (\<lambda>j. Inr (if j = length name \<and> e ! j = 0x3D then Some j else None))"

fun env_find :: "u8 list list \<Rightarrow> u8 list \<Rightarrow> nat \<Rightarrow> stop + (nat \<times> nat) option" where
  "env_find [] name i = Inr None"
| "env_find (e # es) name i =
     bindr (env_match e name) (\<lambda>m. case m of Some j \<Rightarrow> Inr (Some (i, j)) | None \<Rightarrow> env_find es name (Suc i))"

definition status_text :: "int \<Rightarrow> u8 list" where
  "status_text v = [of_int (48 + v div 100), of_int (48 + v mod 100 div 10), of_int (48 + v mod 100 mod 10), 0]"

definition env_get :: "u8 list \<Rightarrow> ush \<Rightarrow> stop + u8 list" where
  "env_get name u =
     bindr (orelse (strlen name) Fault) (\<lambda>name_len.
     bindr (env_find (take (env_count u) (env_vars u)) (take name_len name) 0) (\<lambda>r.
       case r of Some (i, j) \<Rightarrow> Inr (drop (j + 1) (env_vars u ! i))
       | None \<Rightarrow> bindr (orelse (strcmp name (lit ''?'')) Fault) (\<lambda>q.
           Inr (if q = 0 then status_text (last_exit_status u) else [0]))))"

definition env_set :: "u8 list \<Rightarrow> u8 list \<Rightarrow> ush \<Rightarrow> stop + ush" where
  "env_set name val u =
     bindr (orelse (strlen name) Fault) (\<lambda>name_len.
     bindr (orelse (strlen val) Fault) (\<lambda>val_len.
     if name_len + 1 + val_len \<ge> ENV_VAL_MAX then Inr u
     else bindr (env_find (take (env_count u) (env_vars u)) (take name_len name) 0) (\<lambda>r.
       case r of
         Some (i, _) \<Rightarrow> bindr (blit (env_vars u ! i) (name_len + 1) (take val_len val @ [0])) (\<lambda>e.
           Inr (u\<lparr>env_vars := (env_vars u)[i := e]\<rparr>))
       | None \<Rightarrow>
           if env_count u < MAX_ENV then
             bindr (rd (env_vars u) (env_count u)) (\<lambda>row.
             bindr (blit row 0 (take name_len name @ [0x3D] @ take val_len val @ [0])) (\<lambda>e.
               Inr (u\<lparr>env_vars := (env_vars u)[env_count u := e], env_count := env_count u + 1\<rparr>)))
           else Inr u)))"

fun env_list :: "u8 list list \<Rightarrow> ush \<Rightarrow> stop + ush" where
  "env_list [] u = Inr u"
| "env_list (e # es) u = bindr (sys_write_str e u) (\<lambda>u. env_list es (say nl u))"

section \<open>History\<close>

definition history_add :: "u8 list \<Rightarrow> ush \<Rightarrow> stop + ush" where
  "history_add line u =
     bindr (rd line 0) (\<lambda>c. if c = 0 then Inr u else
     bindr (if 0 < history_count u
            then bindr (rd (history u) (history_count u - 1)) (\<lambda>l. orelse (strcmp l line) Fault) else Inr 1) (\<lambda>d.
     if d = 0 then Inr u
     else if history_count u < HISTORY_SIZE then
       bindr (rd (history u) (history_count u)) (\<lambda>row.
       bindr (orelse (strcpy row line) Fault) (\<lambda>row.
         Inr (u\<lparr>history := (history u)[history_count u := row], history_count := history_count u + 1\<rparr>)))
     else
       bindr (orelse (scroll strcpy (history u)) Fault) (\<lambda>h.
       bindr (rd h (HISTORY_SIZE - 1)) (\<lambda>row.
       bindr (orelse (strcpy row line) Fault) (\<lambda>row. Inr (u\<lparr>history := h[HISTORY_SIZE - 1 := row]\<rparr>))))))"

fun count_digits :: "nat \<Rightarrow> nat" where
  "count_digits t = (if t > 0 then Suc (count_digits (t div 10)) else 0)"

declare count_digits.simps [simp del]

fun fill_digits :: "nat \<Rightarrow> nat \<Rightarrow> u8 list \<Rightarrow> u8 list" where
  "fill_digits 0 t num = num"
| "fill_digits (Suc j) t num = fill_digits j (t div 10) (num[j := of_nat (48 + t mod 10)])"

definition number_text :: "u8 list \<Rightarrow> nat \<Rightarrow> stop + u8 list" where
  "number_text num n = (let d = count_digits n in bindr (wr num d 0) (\<lambda>num. Inr (fill_digits d n num)))"

fun history_list :: "u8 list \<Rightarrow> u8 list list \<Rightarrow> nat \<Rightarrow> ush \<Rightarrow> stop + ush" where
  "history_list num [] i u = Inr u"
| "history_list num (h # hs) i u =
     bindr (number_text num (i + 1)) (\<lambda>t.
     bindr (sys_write_str t (say ''  '' u)) (\<lambda>u.
     bindr (sys_write_str h (say ''  '' u)) (\<lambda>u. history_list num hs (i + 1) (say nl u))))"

section \<open>Variable expansion\<close>

text \<open>A loop that collects up to \<open>k\<close> name bytes from \<open>src[si]\<close> on.\<close>

fun scan_name :: "(u8 \<Rightarrow> bool) \<Rightarrow> nat \<Rightarrow> u8 list \<Rightarrow> nat \<Rightarrow> stop + u8 list \<times> nat" where
  "scan_name P k src si =
     bindr (rd src si) (\<lambda>c.
       if c \<noteq> 0 \<and> P c \<and> 0 < k then bindr (scan_name P (k - 1) src (si + 1)) (\<lambda>(nm, si). Inr (c # nm, si))
       else Inr ([], si))"

declare scan_name.simps [simp del]

fun copy_value :: "u8 list \<Rightarrow> nat \<Rightarrow> nat \<Rightarrow> u8 list \<Rightarrow> stop + nat \<times> u8 list" where
  "copy_value [] maxl di dst = Inl Fault"
| "copy_value (c # val) maxl di dst =
     (if c \<noteq> 0 \<and> di < maxl - 1 then bindr (wr dst di c) (copy_value val maxl (di + 1)) else Inr (di, dst))"

definition name_char :: "u8 \<Rightarrow> bool" where
  "name_char c \<longleftrightarrow> 0x61 \<le> c \<and> c \<le> 0x7A \<or> 0x41 \<le> c \<and> c \<le> 0x5A \<or> 0x30 \<le> c \<and> c \<le> 0x39 \<or>
     c = 0x5F \<or> c = 0x3F \<or> c = 0x24"

text \<open>One round of the loop at the byte \<open>c = src[si]\<close>: the next \<open>si\<close> and \<open>di\<close>, and the output.\<close>

definition expand_step :: "u8 list \<Rightarrow> nat \<Rightarrow> ush \<Rightarrow> u8 \<Rightarrow> nat \<Rightarrow> nat \<Rightarrow> u8 list \<Rightarrow> stop + nat \<times> nat \<times> u8 list" where
  "expand_step src maxl u c si di dst =
     (if c = 0x24 then
        bindr (rd src (si + 1)) (\<lambda>c1.
        if c1 = 0x7B then
          bindr (scan_name (\<lambda>c. c \<noteq> 0x7D) 63 src (si + 2)) (\<lambda>(name, si).
          bindr (rd src si) (\<lambda>c2.
          bindr (env_get (name @ [0]) u) (\<lambda>val.
          bindr (copy_value val maxl di dst) (\<lambda>(di, dst).
            Inr ((if c2 = 0x7D then si + 1 else si) + 1, di, dst)))))
        else
          bindr (scan_name name_char 63 src (si + 1)) (\<lambda>(name, si).
          if name = [] then
            bindr (wr dst di 0x24) (\<lambda>dst.
            bindr (rd src si) (\<lambda>c2.
            if c2 \<noteq> 0 then bindr (wr dst (di + 1) c2) (\<lambda>dst. Inr (si + 1, di + 2, dst)) else Inr (si + 1, di + 1, dst)))
          else
            bindr (env_get (name @ [0]) u) (\<lambda>val.
            bindr (copy_value val maxl di dst) (\<lambda>(di, dst). Inr (si - 1 + 1, di, dst)))))
      else bindr (wr dst di c) (\<lambda>dst. Inr (si + 1, di + 1, dst)))"

lemma scan_name_ge: "scan_name P k src si = Inr (nm, si') \<Longrightarrow> si' = si + length nm"
proof (induction P k src si arbitrary: nm rule: scan_name.induct)
  case (1 P k src si)
  then show ?case by (subst (asm) scan_name.simps) (fastforce simp: bindr_eq_Inr split: if_splits)
qed

lemma expand_step_advances:
  assumes "expand_step src maxl u c si di dst = Inr (si', di', dst')"
  shows "si < si'"
  using assms unfolding expand_step_def
  by (auto simp: bindr_eq_Inr dest!: scan_name_ge split: if_splits prod.splits)

function expand_loop :: "u8 list \<Rightarrow> nat \<Rightarrow> ush \<Rightarrow> nat \<Rightarrow> nat \<Rightarrow> u8 list \<Rightarrow> stop + nat \<times> u8 list" where
  "expand_loop src maxl u si di dst =
     (if si < length src then
        let c = src ! si in
        if c \<noteq> 0 \<and> di < maxl - 1 then
          bindr (expand_step src maxl u c si di dst) (\<lambda>(si, di, dst). expand_loop src maxl u si di dst)
        else Inr (di, dst)
      else Inl Fault)"
  by pat_completeness auto
termination
  by (relation "measure (\<lambda>(src, _, _, si, _, _). length src - si)") (auto dest!: expand_step_advances)

declare expand_loop.simps [simp del]

definition expand_vars :: "u8 list \<Rightarrow> u8 list \<Rightarrow> nat \<Rightarrow> ush \<Rightarrow> stop + nat \<times> u8 list" where
  "expand_vars src dst maxl u =
     bindr (expand_loop src maxl u 0 0 dst) (\<lambda>(di, dst). bindr (wr dst di 0) (\<lambda>dst. Inr (di, dst)))"

section \<open>Tokenizer\<close>

fun blanks :: "u8 list \<Rightarrow> nat option" where
  "blanks [] = None"
| "blanks (c # cs) = (if c = 0x20 \<or> c = 0x09 then map_option Suc (blanks cs) else Some 0)"

text \<open>The length of the token at the start, with the quoting state \<open>in_sq\<close>, \<open>in_dq\<close>.\<close>

fun tok_len :: "bool \<Rightarrow> bool \<Rightarrow> u8 list \<Rightarrow> nat option" where
  "tok_len in_sq in_dq [] = None"
| "tok_len in_sq in_dq (c # cs) =
     (if c \<noteq> 0 \<and> (in_sq \<or> in_dq \<or> c \<noteq> 0x20 \<and> c \<noteq> 0x09) then
        if in_sq then map_option Suc (tok_len (c \<noteq> 0x27) in_dq cs)
        else if in_dq then map_option Suc (tok_len in_sq (c \<noteq> 0x22) cs)
        else if c = 0x27 then map_option Suc (tok_len True in_dq cs)
        else if c = 0x22 then map_option Suc (tok_len in_sq True cs)
        else if c = 0x5C then
          (case cs of [] \<Rightarrow> None
           | d # ds \<Rightarrow> if d \<noteq> 0 then map_option (\<lambda>n. n + 2) (tok_len in_sq in_dq ds)
                      else map_option Suc (tok_len in_sq in_dq cs))
        else map_option Suc (tok_len in_sq in_dq cs)
      else Some 0)"

text \<open>\<open>argv\<close> holds the offsets of the arguments found so far; their number is \<open>argc\<close>.\<close>

function tokenize_loop :: "nat \<Rightarrow> u8 list \<Rightarrow> nat list \<Rightarrow> nat \<Rightarrow> stop + nat list \<times> u8 list" where
  "tokenize_loop max_args input argv i =
     bindr (rd input i) (\<lambda>c.
     if c \<noteq> 0 \<and> length argv < max_args - 1 then
       bindr (orelse (blanks (drop i input)) Fault) (\<lambda>n.
       bindr (rd input (i + n)) (\<lambda>c.
       if c = 0 then Inr (argv, input)
       else bindr (orelse (tok_len False False (drop (i + n) input)) Fault) (\<lambda>l.
         let start = i + n; tend = start + l in
         tokenize_loop max_args (if tend < max_args * 4 then input[tend := 0] else input) (argv @ [start]) tend)))
     else Inr (argv, input))"
  by pat_completeness auto
termination by (relation "measure (\<lambda>(max_args, _, argv, _). max_args - length argv)") auto

declare tokenize_loop.simps [simp del]

definition tokenize :: "u8 list \<Rightarrow> nat \<Rightarrow> stop + nat list \<times> u8 list" where
  "tokenize input max_args = tokenize_loop max_args input [] 0"

section \<open>Commands\<close>

definition cmd_help :: "ush \<Rightarrow> ush" where
  "cmd_help u = fold say
     [''Commands:'' @ nl, ''  help       Show this help'' @ nl, ''  clear      Clear screen'' @ nl,
      ''  echo [..]  Print args'' @ nl, ''  exit [n]   Exit shell'' @ nl, ''  env        List env vars'' @ nl,
      ''  export n=v Set env var'' @ nl, ''  unset n    Unset env var'' @ nl, ''  history    Show history'' @ nl,
      ''  true/false Return 0/1'' @ nl] u"

fun echo_args :: "nat \<Rightarrow> u8 list list \<Rightarrow> ush \<Rightarrow> stop + ush" where
  "echo_args i [] u = Inr u"
| "echo_args i (a # args) u = bindr (sys_write_str a (if i > 1 then say '' '' u else u)) (echo_args (i + 1) args)"

text \<open>The number at the start of an argument; exceeding the range of \<open>int\<close> is undefined.\<close>

fun parse_status :: "u8 list \<Rightarrow> int \<Rightarrow> stop + int" where
  "parse_status [] status = Inl Fault"
| "parse_status (c # cs) status =
     (if c \<noteq> 0 \<and> 0x30 \<le> c \<and> c \<le> 0x39 then
        let v = status * 10 + (uint c - 48) in guardr (v < 2 ^ 31) Fault (parse_status cs v)
      else Inr status)"

fun find_eq :: "u8 list \<Rightarrow> nat option option" where
  "find_eq [] = None"
| "find_eq (c # cs) =
     (if c = 0 then Some None else if c = 0x3D then Some (Some 0) else map_option (map_option Suc) (find_eq cs))"

fun export_args :: "nat list \<Rightarrow> u8 list \<Rightarrow> ush \<Rightarrow> stop + ush" where
  "export_args [] buf u = Inr u"
| "export_args (a # args) buf u =
     bindr (orelse (find_eq (drop a buf)) Fault) (\<lambda>m.
     case m of None \<Rightarrow> export_args args buf u
     | Some j \<Rightarrow>
         let buf = buf[a + j := 0] in bindr (env_set (drop a buf) (drop (a + j + 1) buf) u) (export_args args buf))"

definition env_has_eq :: "u8 list \<Rightarrow> stop + bool" where
  "env_has_eq e = bindr (orelse (find_eq e) Fault) (\<lambda>m. Inr (m \<noteq> None))"

text \<open>\<open>unset\<close>: the entries from the \<open>i\<close>-th on; \<open>passed\<close> are the ones already passed.\<close>

fun unset_loop :: "u8 list list \<Rightarrow> u8 list list \<Rightarrow> u8 list \<Rightarrow> stop + u8 list list option" where
  "unset_loop passed [] arg = Inr None"
| "unset_loop passed (e # es) arg =
     bindr (env_has_eq e) (\<lambda>h.
     bindr (if h then bindr (orelse (strcmp e arg) Fault) (\<lambda>r. Inr (r = 0)) else Inr False) (\<lambda>hit.
     if hit then bindr (orelse (scroll strcpy (e # es)) Fault) (\<lambda>rows. Inr (Some (passed @ rows)))
     else unset_loop (passed @ [e]) es arg))"

definition cmd_is :: "u8 list \<Rightarrow> string \<Rightarrow> stop + bool" where
  "cmd_is a k = bindr (orelse (strcmp a (lit k)) Fault) (\<lambda>r. Inr (r = 0))"

definition execute_builtin :: "u8 list \<Rightarrow> nat list \<Rightarrow> u8 list \<Rightarrow> ush \<Rightarrow> stop + int \<times> ush" where
  "execute_builtin num argv buf u =
     (case argv of [] \<Rightarrow> Inr (0, u) | a0 # args \<Rightarrow>
      let cmd = drop a0 buf in
      ifr (cmd_is cmd ''help'') (Inr (0, cmd_help u)) (
      ifr (cmd_is cmd ''clear'') (Inr (0, emit UClear u)) (
      ifr (cmd_is cmd ''echo'')
        (bindr (echo_args 1 (map (\<lambda>a. drop a buf) args) u) (\<lambda>u. Inr (0, say nl u))) (
      ifr (cmd_is cmd ''exit'')
        (bindr (case args of [] \<Rightarrow> Inr 0 | a # _ \<Rightarrow> parse_status (drop a buf) 0) (\<lambda>status.
           Inr (0, (emit (UExit (of_int status)) u)\<lparr>exited := True\<rparr>))) (
      ifr (cmd_is cmd ''env'') (bindr (env_list (take (env_count u) (env_vars u)) u) (\<lambda>u. Inr (0, u))) (
      ifr (cmd_is cmd ''export'') (bindr (export_args args buf u) (\<lambda>u. Inr (0, u))) (
      ifr (cmd_is cmd ''unset'')
        (case args of [] \<Rightarrow> Inr (0, u)
         | a # _ \<Rightarrow> bindr (unset_loop [] (take (env_count u) (env_vars u)) (drop a buf)) (\<lambda>m.
             case m of None \<Rightarrow> Inr (0, u)
             | Some rows \<Rightarrow> Inr (0, u\<lparr>env_vars := rows @ drop (env_count u) (env_vars u), env_count := env_count u - 1\<rparr>))) (
      ifr (cmd_is cmd ''history'') (bindr (history_list num (take (history_count u) (history u)) 0 u) (\<lambda>u. Inr (0, u))) (
      ifr (cmd_is cmd ''true'') (Inr (0, u)) (
      ifr (cmd_is cmd ''false'') (Inr (1, u)) (
      Inr (- 1, u))))))))))))"

text \<open>\<open>expanded\<close> and \<open>num\<close> are the uninitialised local arrays.\<close>

definition execute_command :: "u8 list \<Rightarrow> u8 list \<Rightarrow> u8 list \<Rightarrow> ush \<Rightarrow> stop + ush" where
  "execute_command expanded num cmdline u =
     bindr (expand_vars cmdline expanded LINE_MAX u) (\<lambda>(_, expanded).
     bindr (tokenize expanded MAX_ARGS) (\<lambda>(argv, expanded).
     if argv = [] then Inr u
     else bindr (execute_builtin num argv expanded u) (\<lambda>(ret, u).
       if exited u then Inr u
       else if ret = - 1 then
         bindr (sys_write_str (drop (argv ! 0) expanded) u) (\<lambda>u.
           Inr ((say ('': command not found'' @ nl) u)\<lparr>last_exit_status := 127\<rparr>))
       else Inr (u\<lparr>last_exit_status := ret\<rparr>))))"

section \<open>Line editor\<close>

definition show_prompt :: "ush \<Rightarrow> stop + ush" where
  "show_prompt u =
     bindr (env_get (lit ''PS1'') u) (\<lambda>ps1.
     bindr (rd ps1 0) (\<lambda>c. if c \<noteq> 0 then sys_write_str ps1 u else Inr (say ''$ '' u)))"

definition say_n :: "nat \<Rightarrow> string \<Rightarrow> ush \<Rightarrow> ush" where
  "say_n n s u = (say s ^^ n) u"

definition backspace_n :: "nat \<Rightarrow> ush \<Rightarrow> ush" where
  "backspace_n n u = say_n n bs (say_n n '' '' (say_n n bs u))"

record editor =
  buf :: "u8 list"
  pos :: nat
  len :: nat
  hist_idx :: nat

text \<open>Loading a line of the history into the buffer, for the up and down keys.\<close>

definition recall :: "nat \<Rightarrow> editor \<Rightarrow> ush \<Rightarrow> stop + editor \<times> ush" where
  "recall i ed u =
     bindr (rd (history u) i) (\<lambda>h.
     bindr (orelse (strcpy (buf ed) h) Fault) (\<lambda>b.
     bindr (orelse (strlen b) Fault) (\<lambda>n.
     bindr (sys_write_str b u) (\<lambda>u. Inr (ed\<lparr>buf := b, len := n, pos := n, hist_idx := i\<rparr>, u)))))"

text \<open>One round of the loop: whether the line is complete, and the new state.\<close>

definition read_key :: "nat \<Rightarrow> u8 \<Rightarrow> editor \<Rightarrow> ush \<Rightarrow> stop + bool \<times> editor \<times> ush" where
  "read_key maxl c ed u =
     (let continue = (\<lambda>(ed, u). Inr (False, ed, u)) in
      if c = 0x1B then continue (ed, u)
      else if c = 0x11 then
        if hist_idx ed > 0 then bindr (recall (hist_idx ed - 1) ed (backspace_n (len ed) u)) continue
        else continue (ed, u)
      else if c = 0x12 then
        if hist_idx ed < history_count u then
          let u = backspace_n (len ed) u in
          if hist_idx ed + 1 = history_count u then
            bindr (wr (buf ed) 0 0) (\<lambda>b. continue (ed\<lparr>buf := b, len := 0, pos := 0, hist_idx := hist_idx ed + 1\<rparr>, u))
          else bindr (recall (hist_idx ed + 1) ed u) continue
        else continue (ed, u)
      else if c = 0x13 then
        if pos ed > 0 then continue (ed\<lparr>pos := pos ed - 1\<rparr>, say bs u) else continue (ed, u)
      else if c = 0x14 then
        if pos ed < len ed then
          bindr (sys_write_str (drop (pos ed) (buf ed)) u) (\<lambda>u.
            continue (ed\<lparr>pos := len ed\<rparr>, say_n (len ed - pos ed) bs u))
        else continue (ed, u)
      else if c = 0x0C then
        bindr (show_prompt (emit UClear u)) (\<lambda>u.
        bindr (sys_write_str (buf ed) u) (\<lambda>u. continue (ed, say_n (len ed - pos ed) bs u)))
      else if c = 0x0A then
        bindr (wr (buf ed) (len ed) 0) (\<lambda>b.
        bindr (history_add b (say nl u)) (\<lambda>u. Inr (True, ed\<lparr>buf := b\<rparr>, u)))
      else if c = 0x08 then
        if pos ed > 0 then
          bindr (shift_down (pos ed - 1) (len ed - 1) (buf ed)) (\<lambda>b.
          let ed = ed\<lparr>buf := b, pos := pos ed - 1, len := len ed - 1\<rparr> in
          bindr (sys_write_str (drop (pos ed) b) (say bs u)) (\<lambda>u.
            continue (ed, say_n (len ed + 1 - pos ed) bs (say '' '' u))))
        else continue (ed, u)
      else if len ed < maxl - 1 then
        bindr (bindr (shift_up (pos ed) (len ed) (buf ed)) (\<lambda>b. wr b (pos ed) c)) (\<lambda>b.
        let ed = ed\<lparr>buf := b, pos := pos ed + 1, len := len ed + 1\<rparr> in
        bindr (sys_write_str (drop (pos ed - 1) b) u) (\<lambda>u. continue (ed, say_n (len ed - pos ed) bs u)))
      else continue (ed, u))"

text \<open>The keys, the buffer, and what is left of both when the line is complete.\<close>

fun read_keys :: "u8 list \<Rightarrow> nat \<Rightarrow> editor \<Rightarrow> ush \<Rightarrow> stop + u8 list \<times> u8 list \<times> ush" where
  "read_keys [] maxl ed u = Inl Hang"
| "read_keys (c # keys) maxl ed u =
     bindr (read_key maxl c ed u) (\<lambda>(fin, ed, u). if fin then Inr (buf ed, keys, u) else read_keys keys maxl ed u)"

definition read_line :: "u8 list \<Rightarrow> u8 list \<Rightarrow> nat \<Rightarrow> ush \<Rightarrow> stop + u8 list \<times> u8 list \<times> ush" where
  "read_line keys b maxl u = read_keys keys maxl \<lparr>buf = b, pos = 0, len = 0, hist_idx = history_count u\<rparr> u"

section \<open>Main loop\<close>

definition shell_round :: "u8 list \<Rightarrow> u8 list \<Rightarrow> u8 list \<Rightarrow> u8 list \<Rightarrow> ush \<Rightarrow> stop + u8 list \<times> u8 list \<times> ush" where
  "shell_round expanded num keys line u =
     bindr (show_prompt u) (\<lambda>u.
     bindr (read_line keys line LINE_MAX u) (\<lambda>(line, keys, u).
     bindr (rd line 0) (\<lambda>c.
     if c = 0 then Inr (line, keys, u)
     else bindr (execute_command expanded num line u) (\<lambda>u. Inr (line, keys, u)))))"

lemma read_keys_consumes: "read_keys keys maxl ed u = Inr (b, keys', u') \<Longrightarrow> length keys' < length keys"
proof (induction keys arbitrary: ed u)
  case (Cons c keys)
  then show ?case by (fastforce simp: bindr_eq_Inr split: if_splits)
qed simp

function shell_session :: "u8 list \<Rightarrow> u8 list \<Rightarrow> u8 list \<Rightarrow> u8 list \<Rightarrow> ush \<Rightarrow> stop + ush" where
  "shell_session expanded num keys line u =
     (if exited u then Inr u
      else bindr (shell_round expanded num keys line u) (\<lambda>(line, keys, u). shell_session expanded num keys line u))"
  by pat_completeness auto
termination
  by (relation "measure (\<lambda>(_, _, keys, _, _). length keys)")
    (auto simp: shell_round_def read_line_def bindr_eq_Inr dest!: read_keys_consumes split: if_splits)

declare shell_session.simps [simp del]

text \<open>\<open>_start\<close>; it returns only by \<open>exit\<close>.\<close>

definition start :: "u8 list \<Rightarrow> u8 list \<Rightarrow> u8 list \<Rightarrow> u8 list \<Rightarrow> ush \<Rightarrow> stop + ush" where
  "start expanded num line keys u =
     bindr (env_set (lit ''SHELL'') (lit ''antigravity-sh'') u) (\<lambda>u.
     bindr (env_set (lit ''USER'') (lit ''user'') u) (\<lambda>u.
     bindr (env_set (lit ''HOME'') (lit ''/'') u) (\<lambda>u.
     bindr (env_set (lit ''PS1'') (lit ''$ '') u) (\<lambda>u.
       shell_session expanded num keys line
         (say (''Type '' @ [CHR 0x27] @ ''help'' @ [CHR 0x27] @ '' for commands.'' @ nl @ nl)
           (say (''Antigravity OS Shell'' @ nl) u))))))"

end
