(* ===== verification/User_Env.thy ===== *)
theory User_Env
  imports User_Shell
begin

text \<open>
  The environment and the history of the user shell: the array of \<open>NAME=VALUE\<close> strings
  implements a finite map, and the array of lines keeps the contract of a history.
\<close>

section \<open>Environment entries\<close>

definition entry_ok :: "u8 list \<Rightarrow> bool" where
  "entry_ok e \<longleftrightarrow> length e = 128 \<and> 0 \<in> set e \<and> 0x3D \<in> set (cstr e)"

definition entry_of :: "u8 list \<Rightarrow> u8 list \<times> u8 list" where
  "entry_of e = (takeWhile (\<lambda>c. c \<noteq> 0x3D) (cstr e), tl (dropWhile (\<lambda>c. c \<noteq> 0x3D) (cstr e)))"

definition env_wf :: "ush \<Rightarrow> bool" where
  "env_wf u \<longleftrightarrow> length (env_vars u) = 32 \<and> (\<forall>e\<in>set (env_vars u). length e = 128) \<and> env_count u \<le> 32 \<and>
     (\<forall>e\<in>set (take (env_count u) (env_vars u)). entry_ok e)"

definition env_abs :: "ush \<Rightarrow> u8 list \<Rightarrow> u8 list option" where
  "env_abs u = map_of (map entry_of (take (env_count u) (env_vars u)))"

lemma entry_ofD:
  assumes "entry_ok e" and "entry_of e = (nm, v)"
  shows "e = nm @ 0x3D # v @ 0 # drop (length nm + length v + 2) e" "0 \<notin> set nm" "0x3D \<notin> set nm" "0 \<notin> set v"
proof -
  have nm: "nm = takeWhile (\<lambda>c. c \<noteq> 0x3D) (cstr e)" and v: "v = tl (dropWhile (\<lambda>c. c \<noteq> 0x3D) (cstr e))"
    using assms(2) by (auto simp: entry_of_def)
  have "dropWhile (\<lambda>c. c \<noteq> 0x3D) (cstr e) \<noteq> []" using assms(1) by (auto simp: entry_ok_def)
  then have "dropWhile (\<lambda>c. c \<noteq> 0x3D) (cstr e) = 0x3D # v"
    using hd_dropWhile [of "\<lambda>c. c \<noteq> 0x3D" "cstr e"] v by (metis list.collapse)
  then have c: "cstr e = nm @ 0x3D # v" unfolding nm by (metis takeWhile_dropWhile_id)
  have t: "e = cstr e @ 0 # drop (Suc (length (cstr e))) e"
    using assms(1) by (intro terminated_decomp) (simp add: entry_ok_def)
  show "e = nm @ 0x3D # v @ 0 # drop (length nm + length v + 2) e"
    by (subst t) (simp add: c)
  show "0 \<notin> set nm" "0 \<notin> set v" using zero_notin_cstr [of e] by (auto simp: c)
  show "0x3D \<notin> set nm" unfolding nm by (auto dest: set_takeWhileD)
qed

lemma entry_ofI:
  assumes "0 \<notin> set nm" and "0x3D \<notin> set nm" and "0 \<notin> set v" and "length (nm @ 0x3D # v @ 0 # r) = 128"
  shows "entry_ok (nm @ 0x3D # v @ 0 # r)" "entry_of (nm @ 0x3D # v @ 0 # r) = (nm, v)"
proof -
  have "cstr (nm @ 0x3D # v @ 0 # r) = nm @ 0x3D # v" using assms by (simp add: cstr_append)
  then show "entry_ok (nm @ 0x3D # v @ 0 # r)" "entry_of (nm @ 0x3D # v @ 0 # r) = (nm, v)"
    using assms by (auto simp: entry_ok_def entry_of_def takeWhile_append dropWhile_append)
qed

lemma env_scan_entry:
  assumes "0x3D \<notin> set name" and "0 \<notin> set name" and "0x3D \<notin> set nm" and "0 \<notin> set nm"
  shows "\<exists>j. env_scan (nm @ 0x3D # r) name = Some j \<and> j \<le> length nm \<and>
    (j = length name \<and> (nm @ 0x3D # r) ! j = 0x3D \<longleftrightarrow> nm = name)"
  using assms
proof (induction nm arbitrary: name)
  case Nil
  then show ?case by (cases name) auto
next
  case (Cons c nm)
  show ?case
  proof (cases name)
    case (Cons n name')
    show ?thesis
    proof (cases "c = n")
      case True
      then show ?thesis using Cons.IH [of name'] Cons.prems Cons by auto
    qed (use Cons Cons.prems in auto)
  qed (use Cons.prems in auto)
qed

lemma env_match_entry:
  assumes "entry_ok e" and "0x3D \<notin> set name" and "0 \<notin> set name"
  shows "env_match e name = Inr (if fst (entry_of e) = name then Some (length name) else None)"
proof -
  obtain nm v where nv: "entry_of e = (nm, v)" by fastforce
  note d = entry_ofD [OF assms(1) nv]
  from env_scan_entry [OF assms(2,3) d(3,2), of "v @ 0 # drop (length nm + length v + 2) e"]
  show ?thesis unfolding env_match_def d(1) [symmetric] nv by auto
qed

lemma env_find_spec:
  assumes "\<forall>e\<in>set es. entry_ok e" and "0x3D \<notin> set name" and "0 \<notin> set name"
  shows "case map_of (map entry_of es) name of
      None \<Rightarrow> env_find es name i = Inr None
    | Some v \<Rightarrow> \<exists>k<length es. env_find es name i = Inr (Some (i + k, length name)) \<and> entry_of (es ! k) = (name, v) \<and>
        (\<forall>j<k. fst (entry_of (es ! j)) \<noteq> name)"
  using assms(1)
proof (induction es arbitrary: i)
  case (Cons e es)
  have m: "env_match e name = Inr (if fst (entry_of e) = name then Some (length name) else None)"
    using env_match_entry [OF _ assms(2,3)] Cons.prems by simp
  show ?case
  proof (cases "fst (entry_of e) = name")
    case True
    then show ?thesis using m by (cases "entry_of e") auto
  next
    case False
    show ?thesis
    proof (cases "map_of (map entry_of es) name")
      case None
      then show ?thesis using Cons m False by (simp add: map_of_Cons_code prod.case_eq_if)
    next
      case (Some v)
      then obtain k where "k < length es" "env_find es name (Suc i) = Inr (Some (Suc i + k, length name))"
        "entry_of (es ! k) = (name, v)" "\<forall>j<k. fst (entry_of (es ! j)) \<noteq> name"
        using Cons.IH [of "Suc i"] Cons.prems by auto
      then show ?thesis
        using m False Some
        by (auto simp: less_Suc_eq_0_disj prod.case_eq_if intro!: exI [of _ "Suc k"])
    qed
  qed
qed simp

lemma map_of_entry_update:
  assumes "k < length es" and "entry_of (es ! k) = (name, v)" and "\<forall>j<k. fst (entry_of (es ! j)) \<noteq> name"
    and "entry_of e = (name, val)"
  shows "map_of (map entry_of (es[k := e])) = (map_of (map entry_of es))(name \<mapsto> val)"
proof -
  have n: "name \<notin> fst ` set (map entry_of (take k es))"
    using assms(3) by (auto simp: in_set_conv_nth) (metis fst_conv)
  have "map_of (map entry_of (take k es)) name = None" using n by (simp add: map_of_eq_None_iff)
  moreover have "map entry_of es = map entry_of (take k es) @ (name, v) # map entry_of (drop (Suc k) es)"
    using assms(1,2) by (metis id_take_nth_drop list.simps(9) map_append)
  moreover have "map entry_of (es[k := e]) = map entry_of (take k es) @ (name, val) # map entry_of (drop (Suc k) es)"
    using assms(1,4) by (simp add: upd_conv_take_nth_drop)
  ultimately show ?thesis by (auto simp: fun_eq_iff map_add_def split: option.split)
qed

lemma env_get_refines:
  assumes "env_wf u" and "0 \<in> set name" and "0x3D \<notin> set (cstr name)"
  shows "\<exists>p. env_get name u = Inr p \<and> 0 \<in> set p \<and>
    cstr p = (case env_abs u (cstr name) of Some v \<Rightarrow> v
      | None \<Rightarrow> if cstr name = str ''?'' then cstr (status_text (last_exit_status u)) else [])"
proof -
  let ?es = "take (env_count u) (env_vars u)"
  have es: "\<forall>e\<in>set ?es. entry_ok e" using assms(1) by (simp add: env_wf_def)
  have tk: "take (length (cstr name)) name = cstr name"
    using terminated_decomp [OF assms(2)] by (metis append_eq_conv_conj)
  obtain r where r: "strcmp name (lit ''?'') = Some r" "r = 0 \<longleftrightarrow> cstr name = str ''?''"
    using ush.keyword [OF assms(2), of "str ''?''"] by (auto simp: of_char_def)
  show ?thesis
  proof (cases "env_abs u (cstr name)")
    case None
    then have "env_find ?es (cstr name) 0 = Inr None"
      using env_find_spec [OF es assms(3), of 0] by (simp add: env_abs_def)
    then show ?thesis
      using None r by (simp add: env_get_def strlen_eq [OF assms(2)] tk status_text_def)
  next
    case (Some v)
    then obtain k where k: "k < length ?es" "env_find ?es (cstr name) 0 = Inr (Some (k, length (cstr name)))"
      "entry_of (?es ! k) = (cstr name, v)"
      using env_find_spec [OF es assms(3), of 0] by (auto simp: env_abs_def)
    have "entry_ok (?es ! k)" using es k(1) nth_mem by blast
    note d = entry_ofD [OF this k(3)]
    have e: "env_vars u ! k = ?es ! k" using k(1) by simp
    have "drop (length (cstr name) + 1) (?es ! k) = v @ 0 # drop (length (cstr name) + length v + 2) (?es ! k)"
      by (subst d(1)) simp
    then show ?thesis
      using k(2) Some d(4) e by (simp add: env_get_def strlen_eq [OF assms(2)] tk)
  qed
qed

lemma take_cstr: "0 \<in> set s \<Longrightarrow> take (length (cstr s)) s = cstr s"
  using terminated_decomp [of s] by (metis append_eq_conv_conj)

lemma env_wf_store:
  assumes "env_wf u" and "entry_ok e" and "k \<le> env_count u" and "n = env_count u \<or> n = Suc (env_count u) \<and> k = env_count u"
    and "k < 32"
  shows "env_wf (u\<lparr>env_vars := (env_vars u)[k := e], env_count := n\<rparr>)"
proof -
  have "set (take n ((env_vars u)[k := e])) \<subseteq> insert e (set (take (env_count u) (env_vars u)))"
  proof (cases "n = env_count u")
    case True
    then show ?thesis by (simp add: take_update_swap set_update_subset_insert)
  next
    case False
    then have "n = Suc k" "k = env_count u" using assms(4) by auto
    then show ?thesis using assms(1,5) by (simp add: env_wf_def take_Suc_conv_app_nth)
  qed
  then show ?thesis
    using assms by (auto simp: env_wf_def entry_ok_def dest: set_update_subset_insert [THEN subsetD])
qed

lemma env_set_insert:
  assumes wf: "env_wf u" and nm: "0 \<in> set name" "0x3D \<notin> set (cstr name)" and vl: "0 \<in> set val"
    and fits: "length (cstr name) + 1 + length (cstr val) < 128"
    and none: "env_abs u (cstr name) = None" and room: "env_count u < 32"
  shows "\<exists>vs. env_set name val u = Inr (u\<lparr>env_vars := vs, env_count := Suc (env_count u)\<rparr>) \<and>
    env_wf (u\<lparr>env_vars := vs, env_count := Suc (env_count u)\<rparr>) \<and>
    env_abs (u\<lparr>env_vars := vs, env_count := Suc (env_count u)\<rparr>) = (env_abs u)(cstr name \<mapsto> cstr val)"
proof -
  let ?es = "take (env_count u) (env_vars u)"
  let ?row = "env_vars u ! env_count u"
  let ?e = "cstr name @ 0x3D # cstr val @ 0 # drop (length (cstr name) + 1 + length (cstr val) + 1) ?row"
  have len: "length (env_vars u) = 32" and row: "length ?row = 128" using wf room by (simp_all add: env_wf_def)
  have f: "env_find ?es (cstr name) 0 = Inr None"
    using env_find_spec [of ?es "cstr name" 0] wf nm none by (simp add: env_abs_def env_wf_def)
  have e: "entry_ok ?e" "entry_of ?e = (cstr name, cstr val)"
    using nm row fits by (intro entry_ofI; simp)+
  have "env_set name val u = Inr (u\<lparr>env_vars := (env_vars u)[env_count u := ?e], env_count := Suc (env_count u)\<rparr>)"
    using f fits room len row by (simp add: env_set_def strlen_eq [OF nm(1)] strlen_eq [OF vl] take_cstr [OF nm(1)] take_cstr [OF vl] blit_def)
  moreover have "take (Suc (env_count u)) ((env_vars u)[env_count u := ?e]) = ?es @ [?e]"
    using room len by (simp add: take_Suc_conv_app_nth)
  moreover have "map_of (map entry_of (?es @ [?e])) = (map_of (map entry_of ?es))(cstr name \<mapsto> cstr val)"
    using none e(2) by (auto simp: env_abs_def fun_eq_iff map_add_def split: option.split)
  ultimately show ?thesis
    using env_wf_store [OF wf e(1), of "env_count u"] room by (intro exI conjI) (auto simp: env_abs_def)
qed

lemma env_set_replace:
  assumes wf: "env_wf u" and nm: "0 \<in> set name" "0x3D \<notin> set (cstr name)" and vl: "0 \<in> set val"
    and fits: "length (cstr name) + 1 + length (cstr val) < 128" and some: "env_abs u (cstr name) = Some v"
  shows "\<exists>vs. env_set name val u = Inr (u\<lparr>env_vars := vs\<rparr>) \<and> env_wf (u\<lparr>env_vars := vs\<rparr>) \<and>
    env_abs (u\<lparr>env_vars := vs\<rparr>) = (env_abs u)(cstr name \<mapsto> cstr val)"
proof -
  let ?es = "take (env_count u) (env_vars u)"
  have es: "\<forall>e\<in>set ?es. entry_ok e" using wf by (simp add: env_wf_def)
  obtain k where k: "k < length ?es" "env_find ?es (cstr name) 0 = Inr (Some (k, length (cstr name)))"
    "entry_of (?es ! k) = (cstr name, v)" "\<forall>j<k. fst (entry_of (?es ! j)) \<noteq> cstr name"
    using env_find_spec [OF es nm(2), of 0] some by (auto simp: env_abs_def)
  let ?e = "cstr name @ 0x3D # cstr val @ 0 # drop (length (cstr name) + 1 + (length (cstr val) + 1)) (env_vars u ! k)"
  have ek: "env_vars u ! k = ?es ! k" "k < 32" "k < env_count u" using k(1) wf by (simp_all add: env_wf_def)
  have row: "length (env_vars u ! k) = 128" using wf ek(2) by (simp add: env_wf_def)
  have "entry_ok (?es ! k)" using es k(1) nth_mem by blast
  note d = entry_ofD [OF this k(3)]
  have "take (length (cstr name) + 1) (?es ! k) = cstr name @ [0x3D]" by (subst d(1)) simp
  then have bl: "blit (env_vars u ! k) (length (cstr name) + 1) (cstr val @ [0]) = Inr ?e"
    using fits row by (simp add: blit_def ek(1) [symmetric])
  have e: "entry_ok ?e" "entry_of ?e = (cstr name, cstr val)"
    using nm row fits by (intro entry_ofI; simp)+
  have "env_set name val u = Inr (u\<lparr>env_vars := (env_vars u)[k := ?e]\<rparr>)"
    using k(2) bl fits by (simp add: env_set_def strlen_eq [OF nm(1)] strlen_eq [OF vl] take_cstr [OF nm(1)] take_cstr [OF vl])
  moreover have "env_wf (u\<lparr>env_vars := (env_vars u)[k := ?e]\<rparr>)"
    using env_wf_store [OF wf e(1), of k "env_count u"] ek(2,3) by simp
  moreover have "env_abs (u\<lparr>env_vars := (env_vars u)[k := ?e]\<rparr>) = (env_abs u)(cstr name \<mapsto> cstr val)"
    using map_of_entry_update [OF k(1,3,4) e(2)] by (simp add: env_abs_def take_update_swap)
  ultimately show ?thesis by blast
qed

text \<open>
  C20: The environment is a finite map. For any name without \<^verbatim>\<open>=\<close>, \<open>env_get\<close> returns the value last
  stored under the name, the exit status for \<^verbatim>\<open>?\<close> and the empty string otherwise. \<open>env_set\<close> stores the
  value under the name, leaves all other names alone and keeps the array well-formed; it
  does nothing when the entry would exceed 128 bytes or a new one finds all 32 places taken.
\<close>

theorem env_refines_map:
  assumes "env_wf u" and "0 \<in> set name" and "0x3D \<notin> set (cstr name)" and "0 \<in> set val"
  shows "(\<exists>p. env_get name u = Inr p \<and> 0 \<in> set p \<and>
      cstr p = (case env_abs u (cstr name) of Some v \<Rightarrow> v
        | None \<Rightarrow> if cstr name = str ''?'' then cstr (status_text (last_exit_status u)) else [])) \<and>
    (\<exists>vs n. env_set name val u = Inr (u\<lparr>env_vars := vs, env_count := n\<rparr>) \<and>
      env_wf (u\<lparr>env_vars := vs, env_count := n\<rparr>) \<and>
      env_abs (u\<lparr>env_vars := vs, env_count := n\<rparr>) =
        (if length (cstr name) + 1 + length (cstr val) < 128 \<and> (cstr name \<in> dom (env_abs u) \<or> env_count u < 32)
         then (env_abs u)(cstr name \<mapsto> cstr val) else env_abs u))"
proof (rule conjI [OF env_get_refines [OF assms(1-3)]])
  let ?fits = "length (cstr name) + 1 + length (cstr val) < 128"
  have self: "u\<lparr>env_vars := env_vars u, env_count := env_count u\<rparr> = u" by simp
  consider "\<not> ?fits" | v where ?fits "env_abs u (cstr name) = Some v" | ?fits "env_abs u (cstr name) = None" "env_count u < 32"
    | ?fits "env_abs u (cstr name) = None" "\<not> env_count u < 32" by fastforce
  then show "\<exists>vs n. env_set name val u = Inr (u\<lparr>env_vars := vs, env_count := n\<rparr>) \<and>
      env_wf (u\<lparr>env_vars := vs, env_count := n\<rparr>) \<and>
      env_abs (u\<lparr>env_vars := vs, env_count := n\<rparr>) =
        (if ?fits \<and> (cstr name \<in> dom (env_abs u) \<or> env_count u < 32)
         then (env_abs u)(cstr name \<mapsto> cstr val) else env_abs u)"
  proof cases
    case 1
    then have "env_set name val u = Inr u" by (simp add: env_set_def strlen_eq assms)
    with 1 self assms(1) show ?thesis by (metis (full_types))
  next
    case (2 v)
    obtain vs where "env_set name val u = Inr (u\<lparr>env_vars := vs\<rparr>)" "env_wf (u\<lparr>env_vars := vs\<rparr>)"
      "env_abs (u\<lparr>env_vars := vs\<rparr>) = (env_abs u)(cstr name \<mapsto> cstr val)"
      using env_set_replace [OF assms 2] by blast
    with 2 show ?thesis by (intro exI [of _ vs] exI [of _ "env_count u"]) (simp add: domI)
  next
    case 3
    then show ?thesis using env_set_insert [OF assms 3] by auto
  next
    case 4
    have "env_find (take (env_count u) (env_vars u)) (cstr name) 0 = Inr None"
      using env_find_spec [of "take (env_count u) (env_vars u)" "cstr name" 0] assms 4
      by (simp add: env_abs_def env_wf_def)
    then have "env_set name val u = Inr u"
      using 4 by (simp add: env_set_def strlen_eq assms take_cstr)
    with 4 self assms(1) show ?thesis by (metis (full_types) domIff)
  qed
qed

lemma ush_boot_wf: "env_wf ush_boot" "env_abs ush_boot = Map.empty"
  by (simp_all add: env_wf_def ush_boot_def env_abs_def)

theorem env_refines_map_witness:
  "\<exists>u'. env_set (lit ''HOME'') (lit ''/'') ush_boot = Inr u' \<and> env_wf u' \<and> env_abs u' (str ''HOME'') = Some (str ''/'')"
proof -
  have n: "0 \<in> set (lit ''HOME'')" "0x3D \<notin> set (cstr (lit ''HOME''))" "0 \<in> set (lit ''/'')"
    "cstr (lit ''HOME'') = str ''HOME''" "cstr (lit ''/'') = str ''/''"
    by (simp_all add: of_char_def)
  have "env_count ush_boot < 32" by (simp add: ush_boot_def)
  with env_refines_map [OF ush_boot_wf(1) n(1-3)] show ?thesis
    unfolding n(4,5) by auto
qed

section \<open>History\<close>

definition hist_wf :: "ush \<Rightarrow> bool" where
  "hist_wf u \<longleftrightarrow> rows_wf 256 16 (history u) (history_count u)"

definition hist_entries :: "ush \<Rightarrow> u8 list list" where
  "hist_entries u = lines_of (history u) (history_count u)"

lemma history_last:
  assumes "hist_wf u" and "0 < history_count u"
  shows "history_count u - 1 < length (history u)" "0 \<in> set (history u ! (history_count u - 1))"
    "hist_entries u \<noteq> []" "last (hist_entries u) = cstr (history u ! (history_count u - 1))"
proof -
  have c: "history_count u \<le> length (history u)" using assms(1) by (simp add: hist_wf_def rows_wf_def)
  with assms(2) show l: "history_count u - 1 < length (history u)" by linarith
  have "history u ! (history_count u - 1) \<in> set (take (history_count u) (history u))"
    using c assms(2) by (auto simp: in_set_conv_nth intro!: exI [of _ "history_count u - 1"])
  then show "0 \<in> set (history u ! (history_count u - 1))" using assms(1) by (auto simp: hist_wf_def rows_wf_def row_ok_def)
  show ne: "hist_entries u \<noteq> []" using c assms(2) l by (auto simp: hist_entries_def lines_of_def)
  show "last (hist_entries u) = cstr (history u ! (history_count u - 1))"
    unfolding last_conv_nth [OF ne] using c assms(2) l by (simp add: hist_entries_def lines_of_def min_def)
qed

lemma history_add_frame:
  assumes "hist_wf u" and "0 \<in> set line" and "length (cstr line) < 256"
  shows "\<exists>h n. history_add line u = Inr (u\<lparr>history := h, history_count := n\<rparr>) \<and>
    hist_wf (u\<lparr>history := h, history_count := n\<rparr>) \<and>
    hist_entries (u\<lparr>history := h, history_count := n\<rparr>) = hist_add 16 (cstr line) (hist_entries u)"
proof -
  have self: "u\<lparr>history := history u, history_count := history_count u\<rparr> = u" by simp
  obtain c line' where l: "line = c # line'" using assms(2) by (cases line) auto
  show ?thesis
  proof (cases "cstr line = [] \<or> hist_entries u \<noteq> [] \<and> last (hist_entries u) = cstr line")
    case True
    have "history_add line u = Inr u"
    proof (cases "cstr line = []")
      case False
      then have "0 < history_count u" using True by (auto simp: hist_entries_def lines_of_def)
      note hl = history_last [OF assms(1) this]
      from ush.scmp_ok [OF hl(2) assms(2)] hl True False l \<open>0 < history_count u\<close> show ?thesis
        by (auto simp: history_add_def split: if_splits)
    qed (use l in \<open>auto simp: history_add_def split: if_splits\<close>)
    with True self assms(1) show ?thesis by (metis hist_add_def)
  next
    case False
    obtain d where d: "(if 0 < history_count u
            then bindr (rd (history u) (history_count u - 1)) (\<lambda>l. orelse (strcmp l line) Fault) else Inr 1) = Inr d" "d \<noteq> 0"
    proof (cases "0 < history_count u")
      case True
      note hl = history_last [OF assms(1) True]
      from ush.scmp_ok [OF hl(2) assms(2)] hl False True that show ?thesis by auto
    qed (use that in auto)
    have c: "c \<noteq> 0" using False l by auto
    have wf: "rows_wf 256 16 (history u) (history_count u)" using assms(1) by (simp add: hist_wf_def)
    have len: "length (history u) = 16" "history_count u \<le> 16" "length (hist_entries u) = history_count u"
      using wf by (auto simp: rows_wf_def hist_entries_def lines_of_def)
    show ?thesis
    proof (cases "history_count u < 16")
      case True
      obtain r where "strcpy (history u ! history_count u) line = Some r"
        "rows_wf 256 16 ((history u)[history_count u := r]) (Suc (history_count u))"
        "lines_of ((history u)[history_count u := r]) (Suc (history_count u)) = hist_entries u @ [cstr line]"
        using ush.append_line [OF wf True assms(2,3)] by (auto simp: hist_entries_def)
      then show ?thesis
        using True len d c False
        by (intro exI [of _ "(history u)[history_count u := r]"] exI [of _ "Suc (history_count u)"])
          (auto simp: history_add_def l hist_wf_def hist_entries_def hist_add_def)
    next
      case full: False
      then have n: "history_count u = 16" using len by simp
      obtain rows' r where "scroll strcpy (history u) = Some rows'" "length rows' = 16"
        "strcpy (rows' ! 15) line = Some r" "rows_wf 256 16 (rows'[15 := r]) 16"
        "lines_of (rows'[15 := r]) 16 = tl (hist_entries u) @ [cstr line]"
        using ush.scroll_line [OF wf [unfolded n] _ assms(2,3)] n by (auto simp: hist_entries_def)
      then show ?thesis
        using full n len d c False
        by (intro exI [of _ "rows'[15 := r]"] exI [of _ 16])
          (auto simp: history_add_def l hist_wf_def hist_entries_def hist_add_def)
    qed
  qed
qed

interpretation uh: line_history hist_wf hist_entries history_add 16 256
proof unfold_locales
  show "(0 :: nat) < 16" by simp
  fix u line assume "hist_wf u" "0 \<in> set line" "length (cstr line) < 256"
  from history_add_frame [OF this]
  show "\<exists>u'. history_add line u = Inr u' \<and> hist_wf u' \<and> hist_entries u' = hist_add 16 (cstr line) (hist_entries u)"
    by blast
qed

end
