(* ===== verification/User_Edit.thy ===== *)
theory User_Edit
  imports User_Env
begin

text \<open>
  The line editor of the user shell against its specification: a text with a cursor, the
  recalled line of the history, and the effect of each key on them.
\<close>

section \<open>Specification\<close>

definition edit_key :: "u8 list list \<Rightarrow> u8 \<Rightarrow> cursor_text \<times> nat \<Rightarrow> cursor_text \<times> nat" where
  "edit_key h c = (\<lambda>((b, a), i).
     if c = 0x11 then (if i > 0 then ((h ! (i - 1), []), i - 1) else ((b, a), i))
     else if c = 0x12 then
       (if i < length h then ((if i + 1 = length h then [] else h ! (i + 1), []), i + 1) else ((b, a), i))
     else if c = 0x13 then ((if b = [] then (b, a) else (butlast b, last b # a)), i)
     else if c = 0x14 then ((b @ a, []), i)
     else if c = 0x08 then ((butlast b, a), i)
     else if c = 0x1B \<or> c = 0x0C \<or> length b + length a \<ge> 255 then ((b, a), i)
     else ((b @ [c], a), i))"

text \<open>The line that a sequence of keys enters, and the keys after it.\<close>

fun edit_line :: "u8 list list \<Rightarrow> u8 list \<Rightarrow> cursor_text \<times> nat \<Rightarrow> (u8 list \<times> u8 list) option" where
  "edit_line h [] st = None"
| "edit_line h (c # keys) st =
     (if c = 0x0A then Some (fst (fst st) @ snd (fst st), keys) else edit_line h keys (edit_key h c st))"

section \<open>Output changes nothing else\<close>

definition same :: "ush \<Rightarrow> ush \<Rightarrow> bool" where
  "same u u' \<longleftrightarrow> (\<exists>w. u' = u\<lparr>out := w\<rparr>)"

lemma same_refl [simp]: "same u u"
  unfolding same_def by (rule exI [of _ "out u"]) simp

lemma same_emit [simp]: "same u (emit e u') = same u u'"
proof -
  have "u' = u\<lparr>out := out u'\<rparr>" if "emit e u' = u\<lparr>out := w\<rparr>" for w
    using that by (cases u; cases u') (simp add: emit_def)
  then show ?thesis by (auto simp: same_def) (auto simp: emit_def)
qed

lemma same_say [simp]: "same u (say s u') = same u u'"
  by (simp add: say_def)

lemma same_say_n [simp]: "same u (say_n n s u') = same u u'"
  by (induction n arbitrary: u') (simp_all add: say_n_def)

lemma same_backspace_n [simp]: "same u (backspace_n n u') = same u u'"
  by (simp add: backspace_n_def)

lemma sameD:
  assumes "same u u'"
  shows "history u' = history u" "history_count u' = history_count u" "hist_wf u' = hist_wf u"
    "hist_entries u' = hist_entries u" "env_wf u' = env_wf u" "env_abs u' = env_abs u" "exited u' = exited u"
    "last_exit_status u' = last_exit_status u"
  using assms by (auto simp: same_def hist_wf_def hist_entries_def env_wf_def env_abs_def)

lemma write_str_same: "0 \<in> set s \<Longrightarrow> same u u' \<Longrightarrow> \<exists>u''. sys_write_str s u' = Inr u'' \<and> same u u''"
  by (simp add: sys_write_str_def)

lemma show_prompt_same:
  assumes "env_wf u" and "same u u'"
  shows "\<exists>u''. show_prompt u' = Inr u'' \<and> same u u''"
proof -
  have n: "0 \<in> set (lit ''PS1'')" "0x3D \<notin> set (cstr (lit ''PS1''))" by (simp_all add: of_char_def)
  have wf: "env_wf u'" using assms sameD by blast
  obtain p where p: "env_get (lit ''PS1'') u' = Inr p" "0 \<in> set p" using env_get_refines [OF wf n] by blast
  then have "p \<noteq> []" by auto
  then show ?thesis using p write_str_same [OF p(2) assms(2)] assms(2) by (auto simp: show_prompt_def)
qed

section \<open>One key\<close>

definition ed_ok :: "ush \<Rightarrow> editor \<Rightarrow> cursor_text \<times> nat \<Rightarrow> bool" where
  "ed_ok u ed = (\<lambda>((b, a), i). shows_text (buf ed) (pos ed) (len ed) (b, a) \<and> length (buf ed) = 256 \<and>
     buf ed ! 255 = 0 \<and> hist_idx ed = i \<and> i \<le> history_count u \<and> 0 \<notin> set b \<and> 0 \<notin> set a)"

lemma terminated_from:
  assumes "length s = 256" and "s ! 255 = (0 :: u8)" and "k \<le> 255"
  shows "0 \<in> set (drop k s)"
proof -
  have "255 - k < length (drop k s)" using assms(1,3) by simp
  moreover have "drop k s ! (255 - k) = 0" using assms by (subst nth_drop) simp_all
  ultimately show ?thesis by (metis nth_mem)
qed

lemma drop_nth_eq:
  assumes "drop n xs = drop n ys" and "length xs = length ys" and "n \<le> k" and "k < length xs"
  shows "xs ! k = ys ! k"
proof -
  have "drop n xs ! (k - n) = drop n ys ! (k - n)" using assms(1) by simp
  with assms(2-4) show ?thesis by simp
qed

text \<open>Recalling a line of the history.\<close>

lemma recall_ok:
  assumes "hist_wf u" and "same u u'" and "i < history_count u" and "length (buf ed) = 256" and "buf ed ! 255 = 0"
  shows "\<exists>ed' u''. recall i ed u' = Inr (ed', u'') \<and> same u u'' \<and> ed_ok u ed' ((hist_entries u ! i, []), i)"
proof -
  let ?h = "history u ! i"
  have wf: "rows_wf 256 16 (history u) (history_count u)" using assms(1) by (simp add: hist_wf_def)
  then have i: "i < length (history u)" "?h \<in> set (take (history_count u) (history u))"
    using assms(3) by (auto simp: rows_wf_def in_set_conv_nth)
  then have h: "row_ok 256 ?h" using wf by (simp add: rows_wf_def)
  let ?n = "length (cstr ?h)"
  let ?b = "cstr ?h @ 0 # drop (Suc ?n) (buf ed)"
  have n: "?n < 256" and z: "0 \<in> set ?h" using row_ok_cstr [OF h] h by (auto simp: row_ok_def)
  have cp: "strcpy (buf ed) ?h = Some ?b" using strcpy_eq [OF z] n assms(4) by simp
  have sl: "strlen ?b = Some ?n" by (subst strlen_eq) simp_all
  have last: "?b ! 255 = 0"
  proof (cases "?n = 255")
    case False
    then show ?thesis using n assms(4,5) by (simp add: nth_append nth_Cons')
  qed (simp add: nth_append)
  obtain u'' where u'': "sys_write_str ?b u' = Inr u''" "same u u''" using write_str_same [OF _ assms(2), of ?b] by auto
  have "hist_entries u ! i = cstr ?h" using assms(3) i by (simp add: hist_entries_def lines_of_def)
  then show ?thesis
    using i cp sl u'' n assms(3,4) last sameD(1) [OF assms(2)] by (auto simp: recall_def ed_ok_def shows_text_def)
qed

lemma key_insert:
  assumes ok: "ed_ok u ed ((b, a), i)" and "same u u'" and c: "c \<notin> {0, 0x11, 0x12, 0x13, 0x14, 0x08, 0x0A, 0x0C, 0x1B}"
  shows "\<exists>ed' u''. read_key 256 c ed u' = Inr (False, ed', u'') \<and> same u u'' \<and>
    ed_ok u ed' (if length b + length a \<ge> 255 then ((b, a), i) else ((b @ [c], a), i))"
proof (cases "len ed < 255")
  case True
  have e: "shows_text (buf ed) (pos ed) (len ed) (b, a)" "length (buf ed) = 256" "buf ed ! 255 = 0"
    "len ed = length b + length a"
    using ok shows_textD(2) by (auto simp: ed_ok_def)
  obtain b' where b': "bindr (shift_up (pos ed) (len ed) (buf ed)) (\<lambda>x. wr x (pos ed) c) = Inr b'" "length b' = 256"
    "shows_text b' (Suc (pos ed)) (Suc (len ed)) (b @ [c], a)" "drop (Suc (len ed)) b' = drop (Suc (len ed)) (buf ed)"
    using insert_text [OF e(1), of c] True e(2) by auto
  have z: "b' ! 255 = 0" using drop_nth_eq [OF b'(4), of 255] b'(2) e(2,3) True by simp
  have "pos ed \<le> 255" using shows_textD(1,2) [OF e(1)] True by simp
  from write_str_same [OF terminated_from [OF b'(2) z this] assms(2)] obtain u''
    where u'': "sys_write_str (drop (pos ed) b') u' = Inr u''" "same u u''" by blast
  show ?thesis using b' u'' z c True ok e(4) by (auto simp: read_key_def Let_def ed_ok_def)
next
  case False
  moreover have "len ed = length b + length a" using ok shows_textD(2) by (auto simp: ed_ok_def)
  ultimately show ?thesis using c ok assms(2) by (auto simp: read_key_def Let_def)
qed

lemma key_backspace:
  assumes ok: "ed_ok u ed ((b, a), i)" and "same u u'"
  shows "\<exists>ed' u''. read_key 256 0x08 ed u' = Inr (False, ed', u'') \<and> same u u'' \<and> ed_ok u ed' ((butlast b, a), i)"
proof (cases "pos ed > 0")
  case True
  have e: "shows_text (buf ed) (pos ed) (len ed) (b, a)" "length (buf ed) = 256" "buf ed ! 255 = 0"
    using ok by (auto simp: ed_ok_def)
  obtain b' where b': "shift_down (pos ed - 1) (len ed - 1) (buf ed) = Inr b'" "length b' = 256"
    "shows_text b' (pos ed - 1) (len ed - 1) (butlast b, a)" "drop (len ed) b' = drop (len ed) (buf ed)"
    using delete_text [OF e(1) True] e(2) by auto
  note d = shows_textD [OF e(1)]
  have z: "b' ! 255 = 0" using drop_nth_eq [OF b'(4), of 255] b'(2) e(2,3) d(3) by simp
  have "pos ed - 1 \<le> 255" using d(1-3) e(2) by simp
  from write_str_same [OF terminated_from [OF b'(2) z this], of u "say bs u'"] assms(2) obtain u''
    where u'': "sys_write_str (drop (pos ed - 1) b') (say bs u') = Inr u''" "same u u''" by auto
  have "0 \<notin> set (butlast b)" using ok by (auto simp: ed_ok_def dest: in_set_butlastD)
  then show ?thesis using b' u'' z True ok by (auto simp: read_key_def Let_def ed_ok_def)
next
  case False
  then have "b = []" using ok by (auto simp: ed_ok_def shows_text_def)
  with False ok assms(2) show ?thesis by (auto simp: read_key_def Let_def)
qed

lemma key_move:
  assumes ok: "ed_ok u ed ((b, a), i)" and "same u u'" and "c = 0x13 \<or> c = 0x14"
  shows "\<exists>ed' u''. read_key 256 c ed u' = Inr (False, ed', u'') \<and> same u u'' \<and> ed_ok u ed' (edit_key h c ((b, a), i))"
proof -
  have e: "shows_text (buf ed) (pos ed) (len ed) (b, a)" "length (buf ed) = 256" "buf ed ! 255 = 0"
    using ok by (auto simp: ed_ok_def)
  note d = shows_textD [OF e(1)]
  have w: "\<exists>u''. sys_write_str (drop (pos ed) (buf ed)) u' = Inr u'' \<and> same u u''"
    using terminated_from [OF e(2,3), of "pos ed"] d(1-3) e(2) by (intro write_str_same [OF _ assms(2)]) simp
  show ?thesis
  proof (cases "c = 0x13")
    case True
    have "ed_ok u (ed\<lparr>pos := pos ed - 1\<rparr>) ((butlast b, last b # a), i)" if "b \<noteq> []"
      using ok that by (auto simp: ed_ok_def shows_text_def dest: in_set_butlastD last_in_set)
    then show ?thesis using True d(1) assms(2) ok by (auto simp: read_key_def Let_def edit_key_def)
  next
    case False
    then have c: "c = 0x14" using assms(3) by simp
    have "ed_ok u (ed\<lparr>pos := len ed\<rparr>) ((b @ a, []), i)" using ok by (auto simp: ed_ok_def shows_text_def)
    moreover have "ed\<lparr>pos := len ed\<rparr> = ed" if "\<not> pos ed < len ed" using d(1,2) that by simp
    ultimately show ?thesis using c w assms(2) by (auto simp: read_key_def Let_def edit_key_def)
  qed
qed

lemma key_history:
  assumes ok: "ed_ok u ed ((b, a), i)" and s: "same u u'" and wf: "hist_wf u" and "c = 0x11 \<or> c = 0x12"
  shows "\<exists>ed' u''. read_key 256 c ed u' = Inr (False, ed', u'') \<and> same u u'' \<and>
    ed_ok u ed' (edit_key (hist_entries u) c ((b, a), i))"
proof -
  have e: "length (buf ed) = 256" "buf ed ! 255 = 0" "hist_idx ed = i" "i \<le> history_count u" using ok by (auto simp: ed_ok_def)
  have n: "length (hist_entries u) = history_count u"
    using wf by (auto simp: hist_wf_def rows_wf_def hist_entries_def lines_of_def)
  have hc: "history_count (backspace_n k u') = history_count u" "history_count u' = history_count u" for k
    using sameD(2) [of u "backspace_n k u'"] sameD(2) [of u u'] s by simp_all
  have rc: "\<exists>ed' u''. recall j ed (backspace_n (len ed) u') = Inr (ed', u'') \<and> same u u'' \<and>
      ed_ok u ed' ((hist_entries u ! j, []), j)" if "j < history_count u" for j
    using recall_ok [OF wf _ that e(1,2), of "backspace_n (len ed) u'"] s by simp
  show ?thesis
  proof (cases "c = 0x11")
    case True
    have "i - 1 < history_count u" if "i > 0" using that e(4) by linarith
    with True rc [of "i - 1"] e(3) ok s show ?thesis
      by (cases "i > 0") (auto simp: read_key_def Let_def edit_key_def)
  next
    case False
    then have c: "c = 0x12" using assms(4) by simp
    have "ed_ok u (ed\<lparr>buf := (buf ed)[0 := 0], len := 0, pos := 0, hist_idx := Suc i\<rparr>) (([], []), Suc i)" if "i < history_count u"
      using e that by (simp add: ed_ok_def shows_text_def)
    moreover have "Suc i < history_count u" if "i < history_count u" "Suc i \<noteq> history_count u" using that by linarith
    ultimately show ?thesis
      using c rc [of "Suc i"] e ok s n hc by (cases "i < history_count u") (auto simp: read_key_def Let_def edit_key_def)
  qed
qed

lemma read_key_ok:
  assumes "ed_ok u ed st" and "same u u'" and "hist_wf u" and "env_wf u" and "c \<noteq> 0" and "c \<noteq> 0x0A"
  shows "\<exists>ed' u''. read_key 256 c ed u' = Inr (False, ed', u'') \<and> same u u'' \<and>
    ed_ok u ed' (edit_key (hist_entries u) c st)"
proof -
  obtain b a i where st: "st = ((b, a), i)" by (cases st) auto
  note ok = assms(1) [unfolded st]
  consider "c = 0x11 \<or> c = 0x12" | "c = 0x13 \<or> c = 0x14" | "c = 0x08" | "c = 0x1B" | "c = 0x0C"
    | "c \<notin> {0, 0x11, 0x12, 0x13, 0x14, 0x08, 0x0A, 0x0C, 0x1B}" using assms(5,6) by auto
  then show ?thesis
  proof cases
    case 1 then show ?thesis using key_history [OF ok assms(2,3) 1] st by simp
  next
    case 2 then show ?thesis using key_move [OF ok assms(2) 2] st by simp
  next
    case 3 then show ?thesis using key_backspace [OF ok assms(2)] st by (simp add: edit_key_def)
  next
    case 4 then show ?thesis using ok assms(2) st by (simp add: read_key_def edit_key_def)
  next
    case 5
    obtain u1 where u1: "show_prompt (emit UClear u') = Inr u1" "same u u1"
      using show_prompt_same [OF assms(4), of "emit UClear u'"] assms(2) by auto
    have "0 \<in> set (buf ed)" using ok terminated_from [of "buf ed" 0] by (simp add: ed_ok_def)
    then obtain u2 where "sys_write_str (buf ed) u1 = Inr u2" "same u u2" using write_str_same [OF _ u1(2)] by blast
    with 5 u1 ok st show ?thesis by (simp add: read_key_def edit_key_def)
  next
    case 6 then show ?thesis using key_insert [OF ok assms(2) 6] st by (auto simp: edit_key_def split: if_splits)
  qed
qed

lemma key_enter:
  assumes "ed_ok u ed ((b, a), i)" and "same u u'" and "hist_wf u"
  shows "\<exists>ed' h n w. read_key 256 0x0A ed u' = Inr (True, ed', u\<lparr>history := h, history_count := n, out := w\<rparr>) \<and>
    length (buf ed') = 256 \<and> buf ed' ! 255 = 0 \<and> cstr (buf ed') = b @ a \<and>
    hist_wf (u\<lparr>history := h, history_count := n, out := w\<rparr>) \<and>
    hist_entries (u\<lparr>history := h, history_count := n, out := w\<rparr>) = hist_add 16 (b @ a) (hist_entries u)"
proof -
  have e: "shows_text (buf ed) (pos ed) (len ed) (b, a)" "length (buf ed) = 256" "buf ed ! 255 = 0" "0 \<notin> set (b @ a)"
    using assms(1) by (auto simp: ed_ok_def)
  let ?b = "(buf ed)[len ed := 0]"
  have l: "len ed < 256" and t: "take (len ed) (buf ed) = b @ a" using e(1,2) by (auto simp: shows_text_def)
  have "?b = (b @ a) @ 0 # drop (Suc (len ed)) (buf ed)"
    using l t e(2) by (simp add: upd_conv_take_nth_drop)
  then have c: "cstr ?b = b @ a" "0 \<in> set ?b" using e(4) by (metis cstr_append_0) (simp add: l e(2) set_update_memI)
  have "length (cstr ?b) < 256" using length_cstr_less [OF c(2)] e(2) by simp
  moreover obtain w where u': "u' = u\<lparr>out := w\<rparr>" using assms(2) by (auto simp: same_def)
  moreover have "hist_wf (say nl u')" "hist_entries (say nl u') = hist_entries u"
    using assms(2,3) sameD(3,4) [of u "say nl u'"] by simp_all
  ultimately obtain h n where "history_add ?b (say nl u') = Inr ((say nl u')\<lparr>history := h, history_count := n\<rparr>)"
    "hist_wf ((say nl u')\<lparr>history := h, history_count := n\<rparr>)"
    "hist_entries ((say nl u')\<lparr>history := h, history_count := n\<rparr>) = hist_add 16 (b @ a) (hist_entries u)"
    using history_add_frame [of "say nl u'" ?b] c by auto
  moreover have "(say nl u')\<lparr>history := h, history_count := n\<rparr> =
      u\<lparr>history := h, history_count := n, out := w @ [UWrite 0 (str nl)]\<rparr>" for h n
    by (simp add: u' say_def emit_def)
  ultimately show ?thesis
    using c l e(2,3)
    by (intro exI [of _ "ed\<lparr>buf := ?b\<rparr>"] exI [of _ h] exI [of _ n] exI [of _ "w @ [UWrite 0 (str nl)]"])
      (simp add: read_key_def nth_list_update)
qed

text \<open>
  C19: \<open>read_line\<close> enters exactly the line that its keys edit: typing inserts at the cursor (up to
  255 bytes), backspace deletes before it, left moves it, right moves it to the end of the line,
  up and down recall the history, newline completes the line wherever the cursor
  stands. The line is added to the history. Nothing outside the buffer is touched,
  provided its last byte is zero on entry; without a newline the shell waits for ever.
\<close>

theorem read_line_correct:
  assumes "hist_wf u" and "env_wf u" and "length line = 256" and "line ! 255 = 0" and "0 \<notin> set keys"
  shows "case edit_line (hist_entries u) keys (([], []), length (hist_entries u)) of
      None \<Rightarrow> read_line keys line 256 u = Inl Hang
    | Some (text, rest) \<Rightarrow> \<exists>line' h n w.
        read_line keys line 256 u = Inr (line', rest, u\<lparr>history := h, history_count := n, out := w\<rparr>) \<and>
        length line' = 256 \<and> line' ! 255 = 0 \<and> cstr line' = text \<and>
        hist_wf (u\<lparr>history := h, history_count := n, out := w\<rparr>) \<and>
        hist_entries (u\<lparr>history := h, history_count := n, out := w\<rparr>) = hist_add 16 text (hist_entries u)"
proof -
  have run: "case edit_line (hist_entries u) keys st of
      None \<Rightarrow> read_keys keys 256 ed u' = Inl Hang
    | Some (text, rest) \<Rightarrow> \<exists>line' h n w.
        read_keys keys 256 ed u' = Inr (line', rest, u\<lparr>history := h, history_count := n, out := w\<rparr>) \<and>
        length line' = 256 \<and> line' ! 255 = 0 \<and> cstr line' = text \<and>
        hist_wf (u\<lparr>history := h, history_count := n, out := w\<rparr>) \<and>
        hist_entries (u\<lparr>history := h, history_count := n, out := w\<rparr>) = hist_add 16 text (hist_entries u)"
    if "ed_ok u ed st" "same u u'" for ed st u'
    using that assms(5)
  proof (induction keys arbitrary: ed st u')
    case (Cons c keys)
    obtain b a i where st: "st = ((b, a), i)" by (cases st) auto
    show ?case
    proof (cases "c = 0x0A")
      case True
      with key_enter [OF Cons.prems(1) [unfolded st] Cons.prems(2) assms(1)] st show ?thesis by fastforce
    next
      case False
      obtain ed' u'' where k: "read_key 256 c ed u' = Inr (False, ed', u'')" "same u u''"
        "ed_ok u ed' (edit_key (hist_entries u) c st)"
        using read_key_ok [OF Cons.prems(1,2) assms(1,2) _ False] Cons.prems(3) by auto
      have step: "read_keys (c # keys) 256 ed u' = read_keys keys 256 ed' u''" using k(1) by simp
      from Cons.IH [OF k(3,2)] Cons.prems(3) False show ?thesis unfolding step by simp
    qed
  qed simp
  have "length (hist_entries u) = history_count u"
    using assms(1) by (auto simp: hist_wf_def rows_wf_def hist_entries_def lines_of_def)
  moreover have "ed_ok u \<lparr>buf = line, pos = 0, len = 0, hist_idx = history_count u\<rparr> (([], []), history_count u)"
    using assms(3,4) by (simp add: ed_ok_def shows_text_def)
  ultimately show ?thesis using run [OF _ same_refl] unfolding read_line_def by simp
qed

theorem read_line_correct_witness:
  "\<exists>line' u'. read_line (str ''lx'' @ [0x08, 0x73, 0x13, 0x61, 0x0A, 0x62]) (replicate 256 0) 256 ush_boot = Inr (line', [0x62], u') \<and>
     cstr line' = str ''las'' \<and> hist_entries u' = [str ''las'']"
proof -
  have wf: "hist_wf ush_boot" "hist_entries ush_boot = []"
    by (simp_all add: hist_wf_def rows_wf_def ush_boot_def hist_entries_def lines_of_def)
  have ed: "edit_line [] (str ''lx'' @ [0x08, 0x73, 0x13, 0x61, 0x0A, 0x62]) (([], []), 0) = Some (str ''las'', [0x62])"
    by code_simp
  have "0 \<notin> set (str ''lx'' @ [0x08, 0x73, 0x13, 0x61, 0x0A, 0x62])" by (simp add: of_char_def)
  from read_line_correct [OF wf(1) ush_boot_wf(1) _ _ this, of "replicate 256 0"] ed show ?thesis
    by (auto simp: wf(2) hist_add_def)
qed

end
