(* ===== verification/Traps.thy ===== *)
theory Traps
  imports Keyboard Console Paging
begin

text \<open>
  What the processor enters through the interrupt table: the exception handler and the
  system calls of \<^verbatim>\<open>src/kernel/main.c\<close>, the page-fault handler of \<^verbatim>\<open>arch/memory.c\<close>, and the user
  side of the system calls of \<^verbatim>\<open>include/syscall.h\<close>.

  A handler that ends in \<^verbatim>\<open>cli; hlt; while(1);\<close> gives the console at that moment. A system
  call runs in ring 0 on the caller's page tables: an access to a page that is not present
  raises a page fault in the kernel, which halts it, and is \<open>Fault\<close> here. \<open>task_exit\<close> and
  \<open>schedule\<close> are not in the repository: SYS_EXIT gives the status it passes to them.

  Waiting for a key is \<^verbatim>\<open>hlt\<close> until the buffer has a byte. A halted processor wakes up for an
  interrupt only when interrupts are enabled; \<open>irqs\<close> are the keyboard interrupts to come.
\<close>

section \<open>Waiting for a key\<close>

record keys =
  kb :: kbd
  irqs :: "(u8 \<times> u8) list"
  iflag :: bool

definition hlt :: "keys \<Rightarrow> stop + keys" where
  "hlt k = (if iflag k then
      (case irqs k of (st, sc) # es \<Rightarrow> Inr (k\<lparr>kb := keyboard_handler st sc (kb k), irqs := es\<rparr>) | [] \<Rightarrow> Inl Hang)
      else Inl Hang)"

lemma hlt_irqs: "hlt k = Inr k' \<Longrightarrow> length (irqs k) = Suc (length (irqs k')) \<and> iflag k' = iflag k"
  by (auto simp: hlt_def split: if_splits list.splits)

function wait_key :: "keys \<Rightarrow> stop + u8 \<times> keys" where
  "wait_key k =
     (case keyboard_buffer_pop (kb k) of (c, q) \<Rightarrow>
        if c = 0 then bindr (hlt (k\<lparr>kb := q\<rparr>)) wait_key else Inr (c, k\<lparr>kb := q\<rparr>))"
  by pat_completeness auto
termination
  by (relation "measure (\<lambda>k. length (irqs k))") (auto dest: hlt_irqs)

declare wait_key.simps [simp del]

section \<open>Exceptions\<close>

definition exception_names :: "string list" where
  "exception_names =
     [''#DE Divide Error'', '''', '''', '''', '''', '''', '''', '''', ''#NM Device Not Available'', '''',
      ''#DF Double Fault'', '''', ''#TS Invalid TSS'', ''#NP Segment Not Present'', ''#SS Stack-Segment Fault'',
      ''#GP General Protection Fault'', ''#PF Page Fault'']"

text \<open>\<open>stack\<close> is the array of words at \<open>esp\<close>.\<close>

definition generic_exception_handler :: "u32 \<Rightarrow> (nat \<Rightarrow> u32) \<Rightarrow> console \<Rightarrow> console" where
  "generic_exception_handler vector stack k =
     (let eip = stack 13;
          error_code = (if vector \<ge> 10 \<and> vector \<le> 14 then stack 14 else 0);
          name = (if vector < 17 then exception_names ! unat vector else ''Unknown Exception'');
          k = put (vga_set_color COLOR_WHITE COLOR_RED) k;
          k = puts (newline @ ''!!! KERNEL EXCEPTION !!!'' @ newline) k;
          k = puts ''Exception: '' k;
          k = puts name k;
          k = puts (newline @ ''Vector: '') k;
          k = print_hex vector k;
          k = puts (newline @ ''EIP: '') k;
          k = print_hex eip k;
          k = puts newline k;
          k = put vga_reset_color k;
          k = dbg_kv ''exception'' ''vector'' vector k;
          k = dbg_kv ''exception'' ''eip'' eip k
      in dbg_kv ''exception'' ''error'' error_code k)"

record page_fault_frame =
  pf_gs :: u32
  pf_fs :: u32
  pf_es :: u32
  pf_ds :: u32
  pf_edi :: u32
  pf_esi :: u32
  pf_ebp :: u32
  pf_orig_esp :: u32
  pf_ebx :: u32
  pf_edx :: u32
  pf_ecx :: u32
  pf_eax :: u32
  pf_error_code :: u32
  pf_eip :: u32
  pf_cs :: u32
  pf_eflags :: u32
  pf_user_esp :: u32
  pf_user_ss :: u32

text \<open>
  A fault in user mode continues in \<open>run_shell\<close> on the stack \<open>g_user_kernel_esp\<close>, with the
  kernel's data segments and interrupts enabled; a fault in the kernel halts.
\<close>

datatype trap_end = Halted console | Enter_shell u32 console

definition page_fault_handler :: "u32 \<Rightarrow> u32 \<Rightarrow> page_fault_frame \<Rightarrow> console \<Rightarrow> trap_end" where
  "page_fault_handler g_user_kernel_esp cr2 frame k =
     (let err = pf_error_code frame;
          k = dbg_kv ''mm'' ''cr2'' cr2 k;
          k = dbg_kv ''mm'' ''eip'' (pf_eip frame) k;
          k = dbg_kv ''mm'' ''err'' err k
      in if err AND 4 \<noteq> 0 then
           let k = put (vga_set_color COLOR_WHITE COLOR_RED) k;
               k = puts (newline @ ''Program crashed: page fault at 0x'') k;
               k = print_hex cr2 k;
               k = puts '', eip=0x'' k;
               k = print_hex (pf_eip frame) k;
               k = puts newline k;
               k = put vga_reset_color k;
               k = dbg_msg ''mm'' ''user page fault, returning to kernel'' k
           in Enter_shell g_user_kernel_esp k
         else
           let k = put (vga_set_color COLOR_WHITE COLOR_RED) k;
               k = puts (newline @ ''Kernel page fault at 0x'') k;
               k = print_hex cr2 k;
               k = puts '', eip=0x'' k;
               k = print_hex (pf_eip frame) k;
               k = puts newline k;
               k = put vga_reset_color k;
               k = dbg_msg ''mm'' ''kernel page fault, halting'' k
           in Halted k)"

section \<open>System calls\<close>

record syscall_regs =
  r_es :: u32
  r_ds :: u32
  r_edi :: u32
  r_esi :: u32
  r_ebp :: u32
  r_esp_dummy :: u32
  r_ebx :: u32
  r_edx :: u32
  r_ecx :: u32
  r_eax :: u32
  r_eip :: u32
  r_cs :: u32
  r_eflags :: u32
  r_user_esp :: u32
  r_user_ss :: u32

record sys =
  sys_con :: console
  sys_keys :: keys
  sys_mm :: mm

definition SYS_WRITE :: u32 where [simp]: "SYS_WRITE = 1"
definition SYS_CLEAR :: u32 where [simp]: "SYS_CLEAR = 2"
definition SYS_EXIT :: u32 where [simp]: "SYS_EXIT = 3"
definition SYS_READ :: u32 where [simp]: "SYS_READ = 4"
definition SYS_READ_RAW :: u32 where [simp]: "SYS_READ_RAW = 5"

text \<open>
  The handler runs on the page tables of the caller; each byte of a user buffer is accessed
  at the physical address its own translation gives.
\<close>

definition kernel_can_access :: "mm \<Rightarrow> u32 \<Rightarrow> bool" where
  "kernel_can_access s a \<longleftrightarrow> virt_to_phys s a \<noteq> None"

text \<open>The string at an address with its terminator; \<open>None\<close> when the reading faults or never ends.\<close>

partial_function (option) string_at :: "mm \<Rightarrow> u32 \<Rightarrow> u8 list option" where
  "string_at s a =
     do { p \<leftarrow> virt_to_phys s a;
          if mm_mem s p = 0 then Some [0]
          else do { cs \<leftarrow> string_at s (a + 1); Some (mm_mem s p # cs) } }"

definition putc_both :: "u8 \<Rightarrow> console \<Rightarrow> console" where
  "putc_both c k = put (vga_putc c) (ser_putc c k)"

fun write_loop :: "nat \<Rightarrow> u32 \<Rightarrow> sys \<Rightarrow> stop + sys" where
  "write_loop 0 buf s = Inr s"
| "write_loop (Suc n) buf s =
     bindr (orelse (virt_to_phys (sys_mm s) buf) Fault) (\<lambda>p.
       write_loop n (buf + 1) (s\<lparr>sys_con := putc_both (mm_mem (sys_mm s) p) (sys_con s)\<rparr>))"

text \<open>\<open>room\<close> is \<open>max_len - count\<close>; the result counts the bytes stored.\<close>

fun read_loop :: "nat \<Rightarrow> u32 \<Rightarrow> u32 \<Rightarrow> sys \<Rightarrow> stop + u32 \<times> sys" where
  "read_loop 0 buf count s = Inr (count, s)"
| "read_loop (Suc room) buf count s =
     bindr (wait_key (sys_keys s)) (\<lambda>(c, ks).
     bindr (orelse (virt_to_phys (sys_mm s) (buf + count)) Fault) (\<lambda>p.
     let s = s\<lparr>sys_keys := ks, sys_mm := (sys_mm s)\<lparr>mm_mem := (mm_mem (sys_mm s))(p := c)\<rparr>\<rparr>
     in if c = 10 then Inr (count + 1, s) else read_loop room buf (count + 1) s))"

datatype sys_end = Iret syscall_regs | Exit u32

definition c_syscall_handler :: "str_ops \<Rightarrow> syscall_regs \<Rightarrow> sys \<Rightarrow> stop + sys_end \<times> sys" where
  "c_syscall_handler S regs s =
     (let syscall_num = r_eax regs in
      if syscall_num = SYS_WRITE then
        if r_ecx regs = 0 \<and> r_edx regs = 0 then
          if r_ebx regs \<noteq> 0 then
            bindr (orelse (string_at (sys_mm s) (r_ebx regs)) Fault) (\<lambda>str.
            bindr (orelse (op_strlen S str) Fault) (\<lambda>len.
              Inr (Iret (regs\<lparr>r_eax := of_nat len\<rparr>), s\<lparr>sys_con := put (vga_puts str) (ser_puts str (sys_con s))\<rparr>)))
          else Inr (Iret (regs\<lparr>r_eax := 0\<rparr>), s)
        else if r_ebx regs \<noteq> 1 \<and> r_ebx regs \<noteq> 2 then Inr (Iret (regs\<lparr>r_eax := - 1\<rparr>), s)
        else bindr (write_loop (unat (r_edx regs)) (r_ecx regs) s) (\<lambda>s. Inr (Iret (regs\<lparr>r_eax := r_edx regs\<rparr>), s))
      else if syscall_num = SYS_CLEAR then
        Inr (Iret (regs\<lparr>r_eax := 0\<rparr>), s\<lparr>sys_con := put clear_screen (sys_con s)\<rparr>)
      else if syscall_num = SYS_EXIT then Inr (Exit (r_ebx regs), s)
      else if syscall_num = SYS_READ_RAW then
        bindr (wait_key (sys_keys s)) (\<lambda>(c, ks). Inr (Iret (regs\<lparr>r_eax := ucast c\<rparr>), s\<lparr>sys_keys := ks\<rparr>))
      else if syscall_num = SYS_READ then
        bindr (read_loop (unat (r_edx regs)) (r_ecx regs) 0 s) (\<lambda>(count, s). Inr (Iret (regs\<lparr>r_eax := count\<rparr>), s))
      else Inr (Iret (regs\<lparr>r_eax := - 1\<rparr>), s\<lparr>sys_con := dbg_kv ''syscall'' ''unknown'' syscall_num (sys_con s)\<rparr>))"

text \<open>
  \<^verbatim>\<open>int $0x80\<close>: the interrupt gate and the \<^verbatim>\<open>cli\<close> of \<open>syscall_handler_asm\<close> disable interrupts, \<^verbatim>\<open>iret\<close>
  restores the flag of the caller.
\<close>

definition int80 :: "str_ops \<Rightarrow> syscall_regs \<Rightarrow> sys \<Rightarrow> stop + sys_end \<times> sys" where
  "int80 S regs s =
     bindr (c_syscall_handler S regs (s\<lparr>sys_keys := (sys_keys s)\<lparr>iflag := False\<rparr>\<rparr>)) (\<lambda>(r, s').
       Inr (r, s'\<lparr>sys_keys := (sys_keys s')\<lparr>iflag := iflag (sys_keys s)\<rparr>\<rparr>))"

text \<open>The wrappers that user programs call, with the registers the caller happens to have.\<close>

definition sys_write :: "str_ops \<Rightarrow> syscall_regs \<Rightarrow> u32 \<Rightarrow> u32 \<Rightarrow> u32 \<Rightarrow> sys \<Rightarrow> stop + sys_end \<times> sys" where
  "sys_write S regs fd buf len = int80 S (regs\<lparr>r_eax := SYS_WRITE, r_ebx := fd, r_ecx := buf, r_edx := len\<rparr>)"

definition sys_read :: "str_ops \<Rightarrow> syscall_regs \<Rightarrow> u32 \<Rightarrow> u32 \<Rightarrow> u32 \<Rightarrow> sys \<Rightarrow> stop + sys_end \<times> sys" where
  "sys_read S regs fd buf len = int80 S (regs\<lparr>r_eax := SYS_READ, r_ebx := fd, r_ecx := buf, r_edx := len\<rparr>)"

definition sys_read_raw :: "str_ops \<Rightarrow> syscall_regs \<Rightarrow> sys \<Rightarrow> stop + sys_end \<times> sys" where
  "sys_read_raw S regs = int80 S (regs\<lparr>r_eax := SYS_READ_RAW\<rparr>)"

definition sys_clear :: "str_ops \<Rightarrow> syscall_regs \<Rightarrow> sys \<Rightarrow> stop + sys_end \<times> sys" where
  "sys_clear S regs = int80 S (regs\<lparr>r_eax := SYS_CLEAR\<rparr>)"

definition sys_exit :: "str_ops \<Rightarrow> syscall_regs \<Rightarrow> u32 \<Rightarrow> sys \<Rightarrow> stop + sys_end \<times> sys" where
  "sys_exit S regs status = int80 S (regs\<lparr>r_eax := SYS_EXIT, r_ebx := status\<rparr>)"

end
