(* ===== verification/Trap_Props.thy ===== *)
theory Trap_Props
  imports Traps Mm_Props
begin

text \<open>
  Properties of the exception handlers and of the system calls: what SYS_WRITE prints, what
  SYS_READ and SYS_READ_RAW return, where they store it and when they never return; and what a
  fault report says.
\<close>

section \<open>Keys\<close>

lemma wait_key_Nil:
  assumes "ring_wf (kb k)" and "ring_contents (kb k) = []" and "\<not> iflag k"
  shows "wait_key k = Inl Hang"
  using kq.pop_none [OF assms(1,2)] assms(3) by (simp add: wait_key.simps hlt_def)

lemma wait_key_Cons:
  assumes "ring_wf (kb k)" and "ring_contents (kb k) = c # cs" and "c \<noteq> 0"
  obtains q where "wait_key k = Inr (c, k\<lparr>kb := q\<rparr>)" "ring_wf q" "ring_contents q = cs"
proof -
  obtain q where q: "keyboard_buffer_pop (kb k) = (c, q)" "ring_contents q = cs"
    using kq.pop_some [OF assms(1,2)] by blast
  with assms(3) kq.pop_inv [OF assms(1) q(1)] show thesis
    by (intro that [of q]) (simp_all add: wait_key.simps)
qed

text \<open>
  With interrupts enabled, a wait ends as soon as one of the coming interrupts has put a
  byte into the buffer.
\<close>

lemma wait_key_returns:
  assumes "ring_wf (kb k)" and "0 \<notin> set (ring_contents (kb k))" and "iflag k"
    and "irqs k = es @ es'" and "ring_contents (fold (\<lambda>(st, sc). keyboard_handler st sc) es (kb k)) \<noteq> []"
  shows "\<exists>c k'. wait_key k = Inr (c, k') \<and> c \<noteq> 0"
  using assms
proof (induction es arbitrary: k)
  case Nil
  then obtain c cs where "ring_contents (kb k) = c # cs" by (cases "ring_contents (kb k)") auto
  with Nil wait_key_Cons [of k c cs] show ?case by (metis list.set_intros(1))
next
  case (Cons e es)
  obtain st sc where e: "e = (st, sc)" by fastforce
  let ?k = "k\<lparr>kb := keyboard_handler st sc (kb k), irqs := es @ es'\<rparr>"
  show ?case
  proof (cases "ring_contents (kb k)")
    case Nil
    have "wait_key k = wait_key ?k"
      using kq.pop_none [OF Cons.prems(1) Nil] Cons.prems(3,4) e by (simp add: wait_key.simps [of k] hlt_def)
    moreover have "\<exists>c k'. wait_key ?k = Inr (c, k') \<and> c \<noteq> 0"
      using Cons.prems kbd_step_inv [OF Cons.prems(1,2), of "Irq st sc"] e by (intro Cons.IH) auto
    ultimately show ?thesis by simp
  next
    case (Cons c cs)
    with Cons.prems wait_key_Cons [of k c cs] show ?thesis by (metis list.set_intros(1))
  qed
qed

section \<open>System calls\<close>

lemma putc_both_fold:
  "scr (fold putc_both bs k) = fold vga_putc bs (scr k)" "ser (fold putc_both bs k) = ser k @ bs"
  by (induction bs arbitrary: k) (simp_all add: putc_both_def)

text \<open>The bytes at an address as the current page tables show them.\<close>

definition mapped_byte :: "mm \<Rightarrow> u32 \<Rightarrow> u8" where
  "mapped_byte s a = mm_mem s (the (virt_to_phys s a))"

definition bytes_at :: "mm \<Rightarrow> u32 \<Rightarrow> nat \<Rightarrow> u8 list" where
  "bytes_at s buf n = map (\<lambda>i. mapped_byte s (buf + of_nat i)) [0..<n]"

lemma bytes_at_Suc: "bytes_at s buf (Suc n) = mapped_byte s buf # bytes_at s (buf + 1) n"
  unfolding bytes_at_def by (subst upt_conv_Cons) (simp_all add: map_Suc_upt [symmetric] comp_def add.assoc del: upt_Suc)

lemma all_less_Suc_word:
  fixes buf :: u32
  shows "(\<forall>i<Suc n. P (buf + of_nat i)) \<longleftrightarrow> P buf \<and> (\<forall>i<n. P (buf + 1 + of_nat i))"
  by (simp add: all_less_Suc_iff add.assoc)

lemma write_loop_eq:
  "write_loop n buf s =
     (if \<forall>i<n. kernel_can_access (sys_mm s) (buf + of_nat i)
      then Inr (s\<lparr>sys_con := fold putc_both (bytes_at (sys_mm s) buf n) (sys_con s)\<rparr>) else Inl Fault)"
proof (induction n arbitrary: buf s)
  case 0
  then show ?case by (simp add: bytes_at_def)
next
  case (Suc n)
  show ?case
    using all_less_Suc_word [of n "kernel_can_access (sys_mm s)" buf]
    by (cases "virt_to_phys (sys_mm s) buf") (simp_all add: Suc.IH bytes_at_Suc mapped_byte_def kernel_can_access_def)
qed

text \<open>The bytes that SYS_READ takes from the buffer, or \<open>None\<close> when there are too few.\<close>

fun take_line :: "nat \<Rightarrow> u8 list \<Rightarrow> u8 list option" where
  "take_line 0 cs = Some []"
| "take_line (Suc n) [] = None"
| "take_line (Suc n) (c # cs) = (if c = 10 then Some [10] else map_option ((#) c) (take_line n cs))"

lemma take_line_prefix: "take_line n cs = Some bs \<Longrightarrow> length bs \<le> n \<and> take (length bs) cs = bs"
  by (induction n cs arbitrary: bs rule: take_line.induct) (auto split: if_splits)

text \<open>
  The bytes of the buffer are mapped, and stay mapped to the same places whatever is stored
  in them: the buffer does not hold the tables that map it.
\<close>

definition buffer_bytes :: "mm \<Rightarrow> u32 \<Rightarrow> nat \<Rightarrow> u32 set" where
  "buffer_bytes s buf n = {p. \<exists>i<n. virt_to_phys s (buf + of_nat i) = Some p}"

definition buffer_mapped :: "mm \<Rightarrow> u32 \<Rightarrow> nat \<Rightarrow> bool" where
  "buffer_mapped s buf n \<longleftrightarrow>
     (\<forall>i<n. kernel_can_access s (buf + of_nat i)) \<and>
     (\<forall>m. (\<forall>p. p \<notin> buffer_bytes s buf n \<longrightarrow> m p = mm_mem s p) \<longrightarrow>
        (\<forall>i<n. virt_to_phys (s\<lparr>mm_mem := m\<rparr>) (buf + of_nat i) = virt_to_phys s (buf + of_nat i)))"

text \<open>Storing bytes one after the other through the page tables of \<open>s\<close>.\<close>

fun store_bytes :: "mm \<Rightarrow> u32 \<Rightarrow> u8 list \<Rightarrow> mem \<Rightarrow> mem" where
  "store_bytes s a [] m = m"
| "store_bytes s a (c # cs) m = store_bytes s (a + 1) cs (m(the (virt_to_phys s a) := c))"

lemma store_bytes_cong:
  "(\<forall>i<length cs. virt_to_phys s' (a + of_nat i) = virt_to_phys s (a + of_nat i)) \<Longrightarrow> store_bytes s' a cs m = store_bytes s a cs m"
proof (induction cs arbitrary: a m)
  case (Cons c cs)
  then have v: "virt_to_phys s' a = virt_to_phys s a"
    "\<forall>i<length cs. virt_to_phys s' (a + 1 + of_nat i) = virt_to_phys s (a + 1 + of_nat i)"
    using all_less_Suc_word [of "length cs" "\<lambda>x. virt_to_phys s' x = virt_to_phys s x" a] by simp_all
  show ?case unfolding store_bytes.simps v(1) by (rule Cons.IH [OF v(2)])
qed simp

text \<open>Where the buffer is mapped to itself, the bytes go to the addresses given.\<close>

lemma store_bytes_identity:
  assumes "\<forall>i<length cs. virt_to_phys s (a + of_nat i) = Some (a + of_nat i)" and "length cs < 2 ^ 32"
  shows "store_bytes s a cs m x = (if unat (x - a) < length cs then cs ! unat (x - a) else m x)"
  using assms
proof (induction cs arbitrary: a m)
  case (Cons c cs)
  then have v: "virt_to_phys s a = Some a" "\<forall>i<length cs. virt_to_phys s (a + 1 + of_nat i) = Some (a + 1 + of_nat i)"
    using all_less_Suc_word [of "length cs" "\<lambda>x. virt_to_phys s x = Some x" a] by simp_all
  note IH = Cons.IH [OF v(2)]
  show ?case
  proof (cases "x = a")
    case True
    have "unat (a - (a + 1)) = 2 ^ 32 - 1" by (simp add: unsigned_minus_1_eq_mask mask_eq_exp_minus_1)
    then show ?thesis using Cons.prems(2) True IH by (simp add: v)
  next
    case False
    then have "unat (x - a) = Suc (unat (x - (a + 1)))"
      using unat_minus_one [of "x - a"] by (simp add: diff_diff_eq unat_gt_0)
    then show ?thesis using False IH Cons.prems(2) by (simp add: v)
  qed
qed simp

lemma buffer_mapped_step:
  assumes B: "buffer_mapped s buf (Suc n)"
  obtains p where "virt_to_phys s buf = Some p" "buffer_mapped (s\<lparr>mm_mem := (mm_mem s)(p := c)\<rparr>) (buf + 1) n"
    "\<forall>i<n. virt_to_phys (s\<lparr>mm_mem := (mm_mem s)(p := c)\<rparr>) (buf + 1 + of_nat i) = virt_to_phys s (buf + 1 + of_nat i)"
proof -
  note all = all_less_Suc_word [of n _ buf]
  obtain p where p: "virt_to_phys s buf = Some p" and k: "\<forall>i<n. kernel_can_access s (buf + 1 + of_nat i)"
    using B all [of "kernel_can_access s"] by (auto simp: buffer_mapped_def kernel_can_access_def)
  have bb: "buffer_bytes s buf (Suc n) = insert p (buffer_bytes s (buf + 1) n)"
  proof (rule set_eqI)
    fix q
    show "q \<in> buffer_bytes s buf (Suc n) \<longleftrightarrow> q \<in> insert p (buffer_bytes s (buf + 1) n)"
      using all [of "\<lambda>x. virt_to_phys s x \<noteq> Some q"] p by (auto simp: buffer_bytes_def)
  qed
  have st: "\<forall>i<Suc n. virt_to_phys (s\<lparr>mm_mem := m\<rparr>) (buf + of_nat i) = virt_to_phys s (buf + of_nat i)"
    if "\<forall>q. q \<notin> buffer_bytes s buf (Suc n) \<longrightarrow> m q = mm_mem s q" for m
    using B that by (simp add: buffer_mapped_def)
  let ?s = "s\<lparr>mm_mem := (mm_mem s)(p := c)\<rparr>"
  have v: "\<forall>i<n. virt_to_phys ?s (buf + 1 + of_nat i) = virt_to_phys s (buf + 1 + of_nat i)"
    using st [of "(mm_mem s)(p := c)"] all [of "\<lambda>x. virt_to_phys ?s x = virt_to_phys s x"] bb by auto
  then have bs: "buffer_bytes ?s (buf + 1) n = buffer_bytes s (buf + 1) n" by (auto simp: buffer_bytes_def)
  have "\<forall>i<n. virt_to_phys (?s\<lparr>mm_mem := m\<rparr>) (buf + 1 + of_nat i) = virt_to_phys ?s (buf + 1 + of_nat i)"
    if "\<forall>q. q \<notin> buffer_bytes ?s (buf + 1) n \<longrightarrow> m q = mm_mem ?s q" for m
  proof -
    have "\<forall>q. q \<notin> buffer_bytes s buf (Suc n) \<longrightarrow> m q = mm_mem s q" using that bs bb by auto
    from st [OF this] have w: "\<forall>i<n. virt_to_phys (s\<lparr>mm_mem := m\<rparr>) (buf + 1 + of_nat i) = virt_to_phys s (buf + 1 + of_nat i)"
      using all [of "\<lambda>x. virt_to_phys (s\<lparr>mm_mem := m\<rparr>) x = virt_to_phys s x"] by blast
    show ?thesis
    proof (intro allI impI)
      fix i assume "i < n"
      have e: "?s\<lparr>mm_mem := m\<rparr> = s\<lparr>mm_mem := m\<rparr>" by simp
      show "virt_to_phys (?s\<lparr>mm_mem := m\<rparr>) (buf + 1 + of_nat i) = virt_to_phys ?s (buf + 1 + of_nat i)"
        unfolding e using w v \<open>i < n\<close> by (metis (no_types))
    qed
  qed
  moreover have "\<forall>i<n. kernel_can_access ?s (buf + 1 + of_nat i)"
    using k v unfolding kernel_can_access_def by metis
  ultimately have "buffer_mapped ?s (buf + 1) n" unfolding buffer_mapped_def by blast
  from that [OF p this v] show thesis .
qed

lemma read_loop_ok:
  assumes "ring_wf (kb (sys_keys s))" and "0 \<notin> set (ring_contents (kb (sys_keys s)))" and "\<not> iflag (sys_keys s)"
    and "buffer_mapped (sys_mm s) (buf + count) n"
  shows "case take_line n (ring_contents (kb (sys_keys s))) of
      None \<Rightarrow> read_loop n buf count s = Inl Hang
    | Some bs \<Rightarrow> \<exists>q. read_loop n buf count s = Inr (count + of_nat (length bs),
        s\<lparr>sys_keys := (sys_keys s)\<lparr>kb := q\<rparr>,
          sys_mm := (sys_mm s)\<lparr>mm_mem := store_bytes (sys_mm s) (buf + count) bs (mm_mem (sys_mm s))\<rparr>\<rparr>) \<and>
        ring_wf q \<and> ring_contents q = drop (length bs) (ring_contents (kb (sys_keys s)))"
  using assms
proof (induction n arbitrary: s count)
  case 0
  then show ?case by (intro exI [of _ "kb (sys_keys s)"] | simp)+
next
  case (Suc n)
  show ?case
  proof (cases "ring_contents (kb (sys_keys s))")
    case Nil
    then show ?thesis using wait_key_Nil Suc.prems by simp
  next
    case (Cons c cs)
    have c0: "c \<noteq> 0" "0 \<notin> set cs" using Suc.prems(2) Cons by auto
    obtain q where q: "wait_key (sys_keys s) = Inr (c, (sys_keys s)\<lparr>kb := q\<rparr>)" "ring_wf q" "ring_contents q = cs"
      using wait_key_Cons [OF Suc.prems(1) Cons c0(1)] .
    obtain p where p: "virt_to_phys (sys_mm s) (buf + count) = Some p"
      and bm: "buffer_mapped ((sys_mm s)\<lparr>mm_mem := (mm_mem (sys_mm s))(p := c)\<rparr>) (buf + count + 1) n"
        "\<forall>i<n. virt_to_phys ((sys_mm s)\<lparr>mm_mem := (mm_mem (sys_mm s))(p := c)\<rparr>) (buf + count + 1 + of_nat i) =
          virt_to_phys (sys_mm s) (buf + count + 1 + of_nat i)"
      using buffer_mapped_step [OF Suc.prems(4)] .
    let ?s = "s\<lparr>sys_keys := (sys_keys s)\<lparr>kb := q\<rparr>, sys_mm := (sys_mm s)\<lparr>mm_mem := (mm_mem (sys_mm s))(p := c)\<rparr>\<rparr>"
    have step: "read_loop (Suc n) buf count s = (if c = 10 then Inr (count + 1, ?s) else read_loop n buf (count + 1) ?s)"
      using q(1) p by simp
    show ?thesis
    proof (cases "c = 10")
      case True
      then show ?thesis using step q Cons p by auto
    next
      case False
      have pre: "ring_wf (kb (sys_keys ?s))" "0 \<notin> set (ring_contents (kb (sys_keys ?s)))" "\<not> iflag (sys_keys ?s)"
        "buffer_mapped (sys_mm ?s) (buf + (count + 1)) n"
        using Suc.prems(3) q bm(1) c0(2) by (simp_all add: add.assoc)
      note IH = Suc.IH [OF pre]
      show ?thesis
      proof (cases "take_line n cs")
        case None
        then show ?thesis using IH step False Cons by (simp add: q(3))
      next
        case (Some bs)
        have "store_bytes (sys_mm ?s) (buf + count + 1) bs m = store_bytes (sys_mm s) (buf + count + 1) bs m" for m
          using take_line_prefix [OF Some] bm(2) by (intro store_bytes_cong) simp
        then show ?thesis using Some IH step False Cons p
          by (auto simp: q(3) add.assoc)
      qed
    qed
  qed
qed

text \<open>
  C17: SYS_WRITE with a length: on descriptor 1 or 2 it writes exactly the caller's bytes, in
  order, on the serial port and on the screen, returns the length and changes nothing else;
  any other descriptor is refused with -1 and no effect; a buffer with a byte on a page
  that is not present brings the kernel down with a page fault of its own. The bytes are
  those that the caller's page tables show at the address.
\<close>

theorem sys_write_correct:
  assumes "buf \<noteq> 0 \<or> len \<noteq> 0"
  shows "sys_write S regs fd buf len s =
     (if fd \<noteq> 1 \<and> fd \<noteq> 2 then Inr (Iret (regs\<lparr>r_eax := - 1, r_ebx := fd, r_ecx := buf, r_edx := len\<rparr>), s)
      else if \<forall>i<unat len. kernel_can_access (sys_mm s) (buf + of_nat i)
      then Inr (Iret (regs\<lparr>r_eax := len, r_ebx := fd, r_ecx := buf, r_edx := len\<rparr>),
        s\<lparr>sys_con := \<lparr>scr = fold vga_putc (bytes_at (sys_mm s) buf (unat len)) (scr (sys_con s)),
                        ser = ser (sys_con s) @ bytes_at (sys_mm s) buf (unat len)\<rparr>\<rparr>)
      else Inl Fault)"
proof -
  have con: "fold putc_both bs k = \<lparr>scr = fold vga_putc bs (scr k), ser = ser k @ bs\<rparr>" for bs k
    using putc_both_fold [of bs k] by (cases "fold putc_both bs k") simp
  have w: "write_loop (unat len) buf (s\<lparr>sys_keys := (sys_keys s)\<lparr>iflag := False\<rparr>\<rparr>) =
     (if \<forall>i<unat len. kernel_can_access (sys_mm s) (buf + of_nat i)
      then Inr (s\<lparr>sys_keys := (sys_keys s)\<lparr>iflag := False\<rparr>,
        sys_con := fold putc_both (bytes_at (sys_mm s) buf (unat len)) (sys_con s)\<rparr>) else Inl Fault)"
    by (subst write_loop_eq) simp
  have n: "(buf = 0 \<and> len = 0) = False" using assms by auto
  show ?thesis by (simp add: sys_write_def int80_def c_syscall_handler_def n w con) blast
qed

text \<open>
  C16: SYS_READ stores the oldest bytes of the keyboard buffer at the caller's address, up to
  and including the first newline or the length given, returns their number and takes them
  out of the buffer. It stores them wherever the page tables map the address, whether or not the
  caller could write there itself; where the buffer is mapped to itself, as \<open>memory_init\<close> maps
  everything, the bytes at the address are the ones read and no other byte of memory
  changes. When the keyboard buffer runs out before, the system stops for good: the handler
  halts with interrupts disabled.
\<close>

theorem sys_read_correct:
  assumes "ring_wf (kb (sys_keys s))" and "0 \<notin> set (ring_contents (kb (sys_keys s)))"
    and "buffer_mapped (sys_mm s) buf (unat len)"
  shows "case take_line (unat len) (ring_contents (kb (sys_keys s))) of
      None \<Rightarrow> sys_read S regs fd buf len s = Inl Hang
    | Some bs \<Rightarrow> \<exists>s'. sys_read S regs fd buf len s =
          Inr (Iret (regs\<lparr>r_eax := of_nat (length bs), r_ebx := fd, r_ecx := buf, r_edx := len\<rparr>), s') \<and>
        mm_mem (sys_mm s') = store_bytes (sys_mm s) buf bs (mm_mem (sys_mm s)) \<and>
        ((\<forall>i<unat len. virt_to_phys (sys_mm s) (buf + of_nat i) = Some (buf + of_nat i)) \<longrightarrow>
           (\<forall>x. mm_mem (sys_mm s') x =
              (if unat (x - buf) < length bs then bs ! unat (x - buf) else mm_mem (sys_mm s) x))) \<and>
        sys_con s' = sys_con s \<and> ring_wf (kb (sys_keys s')) \<and>
        ring_contents (kb (sys_keys s')) = drop (length bs) (ring_contents (kb (sys_keys s)))"
proof -
  let ?s = "s\<lparr>sys_keys := (sys_keys s)\<lparr>iflag := False\<rparr>\<rparr>"
  have p: "ring_wf (kb (sys_keys ?s))" "0 \<notin> set (ring_contents (kb (sys_keys ?s)))" "\<not> iflag (sys_keys ?s)"
    "buffer_mapped (sys_mm ?s) (buf + 0) (unat len)"
    using assms by simp_all
  have call: "sys_read S regs fd buf len s =
     bindr (read_loop (unat len) buf 0 ?s) (\<lambda>(count, s').
       Inr (Iret (regs\<lparr>r_eax := count, r_ebx := fd, r_ecx := buf, r_edx := len\<rparr>),
            s'\<lparr>sys_keys := (sys_keys s')\<lparr>iflag := iflag (sys_keys s)\<rparr>\<rparr>))"
    by (cases "read_loop (unat len) buf 0 ?s")
      (simp_all add: sys_read_def int80_def c_syscall_handler_def case_prod_beta)
  have id: "store_bytes (sys_mm s) buf bs m x = (if unat (x - buf) < length bs then bs ! unat (x - buf) else m x)"
    if "\<forall>i<unat len. virt_to_phys (sys_mm s) (buf + of_nat i) = Some (buf + of_nat i)"
      "take_line (unat len) cs = Some bs" for bs cs m x
    using that(1) take_line_prefix [OF that(2)] unat_u32_less [of len] by (intro store_bytes_identity) auto
  show ?thesis
  proof (cases "take_line (unat len) (ring_contents (kb (sys_keys s)))")
    case None
    then show ?thesis using read_loop_ok [OF p] unfolding call by simp
  next
    case (Some bs)
    with read_loop_ok [OF p] show ?thesis unfolding call by (auto simp: id)
  qed
qed

text \<open>
  C33: SYS_READ_RAW returns the oldest byte of the keyboard buffer and removes it. When the
  buffer is empty it never returns, whatever keys are pressed afterwards: it halts the
  processor with interrupts disabled.
\<close>

theorem sys_read_raw_correct:
  assumes "ring_wf (kb (sys_keys s))" and "0 \<notin> set (ring_contents (kb (sys_keys s)))"
  shows "case ring_contents (kb (sys_keys s)) of
      [] \<Rightarrow> \<forall>events. sys_read_raw S regs (s\<lparr>sys_keys := (sys_keys s)\<lparr>irqs := events\<rparr>\<rparr>) = Inl Hang
    | c # cs \<Rightarrow> \<exists>q. sys_read_raw S regs s =
          Inr (Iret (regs\<lparr>r_eax := ucast c\<rparr>), s\<lparr>sys_keys := (sys_keys s)\<lparr>kb := q\<rparr>\<rparr>) \<and>
        ring_wf q \<and> ring_contents q = cs"
proof (cases "ring_contents (kb (sys_keys s))")
  case Nil
  then show ?thesis
    using wait_key_Nil [of "(sys_keys s)\<lparr>irqs := _, iflag := False\<rparr>"] assms(1)
    by (simp add: sys_read_raw_def int80_def c_syscall_handler_def)
next
  case (Cons c cs)
  then have "c \<noteq> 0" using assms(2) by auto
  with wait_key_Cons [of "(sys_keys s)\<lparr>iflag := False\<rparr>" c cs] Cons assms(1)
  obtain q where "wait_key ((sys_keys s)\<lparr>iflag := False\<rparr>) = Inr (c, (sys_keys s)\<lparr>iflag := False, kb := q\<rparr>)"
    "ring_wf q" "ring_contents q = cs" by auto
  then show ?thesis
    by (intro exI [of _ q] | simp add: Cons sys_read_raw_def int80_def c_syscall_handler_def)+
qed

section \<open>Fault reports\<close>

lemma vga_puts_append: "0 \<notin> set a \<Longrightarrow> vga_puts b (vga_puts a v) = vga_puts (a @ b) v"
  by (simp add: vga_puts_fold cstr_append cstr_id)

lemma ser_print_hex [simp]: "ser (print_hex val k) = ser k @ str ''0x'' @ hex_digits val"
proof -
  have "cstr (str ''0x'' @ hex_digits val @ [0]) = str ''0x'' @ hex_digits val"
    using hex_digits_ok(2) [of val] by (simp add: of_char_def)
  then show ?thesis by (simp only: print_hex_def Let_def hex_fill_buf ser_sel)
qed

text \<open>
  A page fault raised in user mode ends in \<open>run_shell\<close> on the saved kernel stack, one
  raised in the kernel halts. In both cases the faulting address and instruction go to the
  serial port only: the message on the screen has no number after its \<^verbatim>\<open>0x\<close>.
\<close>

theorem page_fault_report:
  "\<exists>k' log. page_fault_handler esp cr2 frame k =
     (if pf_error_code frame AND 4 \<noteq> 0 then Enter_shell esp k' else Halted k') \<and>
   scr k' = vga_reset_color (vga_puts (str (newline @
       (if pf_error_code frame AND 4 \<noteq> 0 then ''Program crashed: page fault at 0x'' else ''Kernel page fault at 0x'') @
       '', eip=0x'' @ newline)) (vga_set_color COLOR_WHITE COLOR_RED (scr k))) \<and>
   ser k' = ser k @ str ''[mm] cr2=0x'' @ hex_digits cr2 @ str (newline @ ''[mm] eip=0x'') @ hex_digits (pf_eip frame) @
       str newline @ log"
proof -
  have z: "0 \<notin> set (str (newline @ ''Program crashed: page fault at 0x''))"
    "0 \<notin> set (str (newline @ ''Kernel page fault at 0x''))" "0 \<notin> set (str '', eip=0x'')"
    "0 \<notin> set (str newline)"
    by (simp_all add: of_char_def)
  show ?thesis
    by (cases "pf_error_code frame AND 4 = 0")
      (simp_all add: page_fault_handler_def Let_def dbg_kv_def dbg_msg_def dbg_prefix_def vga_puts_append z of_char_def)
qed

text \<open>
  The stack that the stubs of \<^verbatim>\<open>boot.s\<close> hand to the exception handler: four segment registers and
  eight general registers, on top of what the processor pushed, which starts with an error
  code for the vectors 8 and 10 to 14 only.
\<close>

definition exc_stack :: "u32 \<Rightarrow> u32 list \<Rightarrow> u32 \<Rightarrow> u32 \<Rightarrow> u32 \<Rightarrow> u32 \<Rightarrow> nat \<Rightarrow> u32" where
  "exc_stack vector pushed err eip cs eflags i =
     (pushed @ (if vector = 8 \<or> 10 \<le> vector \<and> vector \<le> 14 then [err] else []) @ [eip, cs, eflags]) ! i"

text \<open>
  C34: What the exception handler reports for the seven vectors that are routed to it. Only
  \<^verbatim>\<open>#DE\<close> gets its own name; the name table is shifted for the others, so that a general
  protection fault (13) is reported as \<^verbatim>\<open>#NP\<close>, a double fault (8) as \<^verbatim>\<open>#NM\<close>, and 7 and 11
  have no name. The value shown as the instruction pointer is the code segment for the
  vectors without an error code, and the value logged as the error code is the code segment, or 0 for a
  double fault.
\<close>

theorem exception_report:
  assumes "length pushed = 12"
    and "(v, name) \<in> {(0, ''#DE Divide Error''), (7, ''''), (8, ''#NM Device Not Available''), (10, ''#DF Double Fault''),
      (11, ''''), (12, ''#TS Invalid TSS''), (13, ''#NP Segment Not Present'')}"
  shows "let k' = generic_exception_handler v (exc_stack v pushed err eip cs eflags) k;
             shown = (if v = 0 \<or> v = 7 then cs else eip)
     in scr k' = vga_reset_color (vga_puts (str (newline @ ''!!! KERNEL EXCEPTION !!!'' @ newline @ ''Exception: '' @ name @
          newline @ ''Vector: '' @ newline @ ''EIP: '' @ newline)) (vga_set_color COLOR_WHITE COLOR_RED (scr k))) \<and>
        ser k' = ser k @ str ''0x'' @ hex_digits v @ str ''0x'' @ hex_digits shown @
          str ''[exception] vector=0x'' @ hex_digits v @ str (newline @ ''[exception] eip=0x'') @ hex_digits shown @
          str (newline @ ''[exception] error=0x'') @ hex_digits (if 10 \<le> v then cs else 0) @ str newline"
proof -
  have n: "0 \<notin> set (str name)" using assms(2) by (auto simp: of_char_def)
  have st: "exc_stack v pushed err eip cs eflags 13 = (if v = 0 \<or> v = 7 then cs else eip)"
    "10 \<le> v \<Longrightarrow> exc_stack v pushed err eip cs eflags 14 = cs"
    and nm: "(if v < 17 then exception_names ! unat v else ''Unknown Exception'') = name"
    and le: "v \<le> 14"
    using assms by (auto simp: exc_stack_def nth_append exception_names_def)
  define shown where "shown = (if v = 0 \<or> v = 7 then cs else eip)"
  show ?thesis
    unfolding generic_exception_handler_def Let_def nm st(1) shown_def [symmetric]
    using st(2) le by (simp add: dbg_kv_def dbg_prefix_def vga_puts_append [OF n, symmetric] of_char_def)
qed

section \<open>Witnesses\<close>

text \<open>A page directory at 0x1000 and a page table at 0x2000 that map the page 0x3000 for the kernel.\<close>

definition demo_mm :: mm where
  "demo_mm = mm_boot\<lparr>mm_mem := (\<lambda>_. 0)(0x1000 := 0x03, 0x1001 := 0x20, 0x200C := 0x03, 0x200D := 0x30, 0x3000 := 0x68),
     cr0 := 0x80000001, cr3 := 0x1000\<rparr>"

definition demo_regs :: syscall_regs where
  "demo_regs = \<lparr>r_es = 0x23, r_ds = 0x23, r_edi = 0, r_esi = 0, r_ebp = 0, r_esp_dummy = 0, r_ebx = 0, r_edx = 0, r_ecx = 0,
     r_eax = 0, r_eip = 0x800000, r_cs = 0x1B, r_eflags = 0x202, r_user_esp = 0xC00000, r_user_ss = 0x23\<rparr>"

definition demo_screen :: vga where
  "demo_screen = \<lparr>video_mem = replicate 2000 0x0F20, cursor_x = 0, cursor_y = 0, g_current_color = 0x0F, outs = []\<rparr>"

definition demo_sys :: "u8 list \<Rightarrow> sys" where
  "demo_sys cs = \<lparr>sys_con = \<lparr>scr = demo_screen, ser = []\<rparr>,
     sys_keys = \<lparr>kb = fold keyboard_buffer_push cs kbd_boot, irqs = [], iflag = True\<rparr>, sys_mm = demo_mm\<rparr>"

lemma demo_keys:
  "ring_wf (kb (sys_keys (demo_sys [])))" "ring_contents (kb (sys_keys (demo_sys []))) = []"
  "ring_wf (kb (sys_keys (demo_sys [0x61, 0x0A, 0x62])))"
  "ring_contents (kb (sys_keys (demo_sys [0x61, 0x0A, 0x62]))) = [0x61, 0x0A, 0x62]"
  by (simp_all add: demo_sys_def kbd_boot_def keyboard_buffer_push_def ring_wf_def ring_contents_def ring_count_def
      Let_def upt_conv_Cons)

lemma demo_page:
  assumes "\<forall>x. unat x \<in> {0x1000..<0x3000} \<longrightarrow> m x = mm_mem demo_mm x" and "i < 8"
  shows "virt_to_phys (demo_mm\<lparr>mm_mem := m\<rparr>) (0x3000 + of_nat i) = Some (0x3000 + of_nat i) \<and>
    \<not> user_can_access m 0x1000 (0x3000 + of_nat i)"
proof -
  have x: "unat (0x3000 + of_nat i :: u32) = 0x3000 + i" using assms(2) by (simp add: unat_word_ariths unat_of_nat_u32)
  then have "drop_bit 22 (0x3000 + of_nat i :: u32) = 0" "drop_bit 12 (0x3000 + of_nat i :: u32) AND 0x3FF = 3"
    using assms(2) by (auto intro!: word_unat_eq_iff [THEN iffD2] simp: unat_drop_bit mask_10 take_bit_eq_mask [symmetric] unat_take_bit)
  moreover have "load32 m 0x1000 = 0x2003" "load32 m 0x200C = 0x3003"
    using assms(1) by (simp_all add: load32_def demo_mm_def)
  moreover have "0x3000 OR ((0x3000 + of_nat i) AND 0xFFF) = (0x3000 + of_nat i :: u32)"
  proof -
    have "(0x3000 + i) div 4096 = 3" using assms(2) by simp
    then show ?thesis using vaddr_bits(4) [of "0x3000 + of_nat i"] unfolding x by simp
  qed
  ultimately show ?thesis
    by (simp add: virt_to_phys_def user_can_access_def walk_pde_def walk_pte_def entry_at_def demo_mm_def)
qed

lemma demo_buffer: "buffer_mapped demo_mm 0x3000 8"
proof -
  have v: "virt_to_phys demo_mm (0x3000 + of_nat i) = Some (0x3000 + of_nat i)" if "i < 8" for i
    using demo_page [of "mm_mem demo_mm" i] that by simp
  have "virt_to_phys (demo_mm\<lparr>mm_mem := m\<rparr>) (0x3000 + of_nat i) = virt_to_phys demo_mm (0x3000 + of_nat i)"
    if m: "\<forall>p. p \<notin> buffer_bytes demo_mm 0x3000 8 \<longrightarrow> m p = mm_mem demo_mm p" and i: "i < 8" for m i
  proof -
    have "x \<notin> buffer_bytes demo_mm 0x3000 8" if "unat x \<in> {0x1000..<0x3000}" for x
      using that v by (auto simp: buffer_bytes_def unat_word_ariths unat_of_nat_u32)
    with m have "\<forall>x. unat x \<in> {0x1000..<0x3000} \<longrightarrow> m x = mm_mem demo_mm x" by blast
    from demo_page [OF this i] v [OF i] show ?thesis by simp
  qed
  with v show ?thesis by (simp add: buffer_mapped_def kernel_can_access_def)
qed

theorem sys_write_correct_witness:
  "\<exists>s' r. sys_write ush_ops demo_regs 1 0x3000 2 (demo_sys []) = Inr (r, s') \<and> ser (sys_con s') = [0x68, 0]"
proof -
  have v: "virt_to_phys demo_mm (0x3000 + of_nat i) = Some (0x3000 + of_nat i)" if "i < 8" for i
    using demo_page [of "mm_mem demo_mm" i] that by simp
  then have "\<forall>i<unat (2 :: u32). kernel_can_access (sys_mm (demo_sys [])) (0x3000 + of_nat i)"
    by (simp add: demo_sys_def kernel_can_access_def)
  moreover have "bytes_at (sys_mm (demo_sys [])) 0x3000 2 = [0x68, 0]"
    using v [of 0] v [of 1] by (simp add: bytes_at_def mapped_byte_def upt_conv_Cons demo_sys_def) (simp add: demo_mm_def)
  ultimately show ?thesis
    using sys_write_correct [of "0x3000" 2 ush_ops demo_regs 1 "demo_sys []"] by (simp add: demo_sys_def)
qed

theorem sys_read_correct_witness:
  "\<not> user_can_access (mm_mem demo_mm) (cr3 demo_mm) 0x3000 \<and>
   (\<exists>r s'. sys_read ush_ops demo_regs 0 0x3000 8 (demo_sys [0x61, 0x0A, 0x62]) = Inr (r, s') \<and>
      mm_mem (sys_mm s') 0x3000 = 0x61 \<and> ring_contents (kb (sys_keys s')) = [0x62])"
proof -
  have bm: "buffer_mapped (sys_mm (demo_sys [0x61, 0x0A, 0x62])) 0x3000 (unat (8 :: u32))"
    using demo_buffer by (simp add: demo_sys_def)
  have v: "\<forall>i<unat (8 :: u32). virt_to_phys (sys_mm (demo_sys [0x61, 0x0A, 0x62])) (0x3000 + of_nat i) = Some (0x3000 + of_nat i)"
    using demo_page [of "mm_mem demo_mm"] by (simp add: demo_sys_def)
  have tl: "take_line (unat (8 :: u32)) [0x61, 0x0A, 0x62] = Some [0x61, 0x0A]" by code_simp
  have u: "\<not> user_can_access (mm_mem demo_mm) (cr3 demo_mm) 0x3000"
    using demo_page [of "mm_mem demo_mm" 0] by (simp add: demo_mm_def)
  have "0 \<notin> set (ring_contents (kb (sys_keys (demo_sys [0x61, 0x0A, 0x62]))))" by (simp add: demo_keys)
  from sys_read_correct [OF demo_keys(3) this bm, of ush_ops demo_regs 0] v
  obtain r s' where "sys_read ush_ops demo_regs 0 0x3000 8 (demo_sys [0x61, 0x0A, 0x62]) = Inr (r, s')"
    "\<forall>x. mm_mem (sys_mm s') x = (if unat (x - 0x3000) < length [0x61, 0x0A :: u8] then [0x61, 0x0A] ! unat (x - 0x3000)
       else mm_mem (sys_mm (demo_sys [0x61, 0x0A, 0x62])) x)"
    "ring_contents (kb (sys_keys s')) = drop (length [0x61, 0x0A :: u8]) [0x61, 0x0A, 0x62]"
    unfolding demo_keys(4) tl option.case by blast
  then show ?thesis using u by (intro conjI exI [of _ r] exI [of _ s']) simp_all
qed

theorem sys_read_raw_correct_witness:
  "\<forall>events. sys_read_raw ush_ops demo_regs
     ((demo_sys [])\<lparr>sys_keys := (sys_keys (demo_sys []))\<lparr>irqs := events\<rparr>\<rparr>) = Inl Hang"
  using sys_read_raw_correct [OF demo_keys(1), of ush_ops demo_regs] by (simp add: demo_keys)

theorem exception_report_witness:
  "ser (generic_exception_handler 7 (exc_stack 7 (replicate 12 0) 0 0x101234 8 0x202) \<lparr>scr = demo_screen, ser = []\<rparr>) =
   str ''0x000000070x00000008[exception] vector=0x00000007'' @
   str (newline @ ''[exception] eip=0x00000008'' @ newline @ ''[exception] error=0x00000000'' @ newline)"
proof -
  have h: "hex_digits 7 = str ''00000007''" "hex_digits 8 = str ''00000008''" "hex_digits 0 = str ''00000000''"
    by code_simp+
  show ?thesis
    using exception_report [of "replicate 12 0" 7 "''''" 0 "0x101234" 8 "0x202" "\<lparr>scr = demo_screen, ser = []\<rparr>"]
    by (simp add: h Let_def)
qed

end
