(* ===== verification/User_Props.thy ===== *)
theory User_Props
  imports User_Edit Trap_Props
begin

text \<open>
  The user shell as a whole: what its tokenizer, its variable expansion and \<open>unset\<close> really do,
  and what the kernel makes of its output.
\<close>

section \<open>Tokenizer\<close>

text \<open>
  C40: \<open>tokenize\<close> finds at most the first word. It ends the word by storing a zero byte at its
  end, and its loop stops at that very byte, whatever follows. (Only when the word ends at
  byte 128 or later is no zero stored.) So commands never see their arguments.
\<close>

theorem tokenize_first_word_only:
  assumes "blanks input = Some n" and "n < length input" and "input ! n \<noteq> 0" and "tok_len False False (drop n input) = Some l"
    and "n + l < 128" and "n + l < length input" and "input ! 0 \<noteq> 0"
  shows "tokenize input MAX_ARGS = Inr ([n], input[n + l := 0])"
proof -
  have e: "rd (input[n + l := 0]) (n + l) = Inr 0" using assms(6) by simp
  have "tokenize_loop 32 (input[n + l := 0]) [n] (n + l) = Inr ([n], input[n + l := 0])"
    by (subst tokenize_loop.simps) (simp add: e)
  moreover have "0 < length input" using assms(2) by linarith
  ultimately show ?thesis
    using assms unfolding tokenize_def by (subst tokenize_loop.simps) (simp add: Let_def)
qed

theorem tokenize_first_word_only_witness:
  "tokenize (str ''echo hello world'' @ replicate 240 0) 32 = Inr ([0], str ''echo'' @ 0 # str ''hello world'' @ replicate 240 0)"
proof -
  let ?i = "str ''echo hello world'' @ replicate 240 0"
  have "blanks ?i = Some 0" "?i ! 0 \<noteq> 0" by (simp_all add: of_char_def)
  moreover have "tok_len False False (drop 0 ?i) = Some 4" by (simp add: of_char_def)
  ultimately have "tokenize ?i MAX_ARGS = Inr ([0], ?i[0 + 4 := 0])"
    using tokenize_first_word_only [of ?i 0 4] by simp
  then show ?thesis by (simp add: of_char_def)
qed

section \<open>Removing a variable\<close>

text \<open>
  \<open>unset NAME\<close> removes nothing: it compares the whole entry \<open>NAME=VALUE\<close>, which contains a \<^verbatim>\<open>=\<close>,
  with the argument.
\<close>

theorem unset_removes_nothing:
  assumes "env_wf u" and "0 \<in> set arg" and "0x3D \<notin> set (cstr arg)"
  shows "unset_loop [] (take (env_count u) (env_vars u)) arg = Inr None"
proof -
  have fe: "\<exists>j. find_eq e = Some (Some j)" if "0x3D \<in> set (cstr e)" for e
    using that by (induction e) (auto split: if_splits)
  have "unset_loop p es arg = Inr None" if "\<forall>e\<in>set es. entry_ok e" for p es
    using that
  proof (induction es arbitrary: p)
    case (Cons e es)
    then have e: "0 \<in> set e" "0x3D \<in> set (cstr e)" by (simp_all add: entry_ok_def)
    then obtain j r where "find_eq e = Some (Some j)" "strcmp e arg = Some r" "r \<noteq> 0"
      using fe [of e] ush.scmp_ok [OF e(1) assms(2)] assms(3) by metis
    with Cons show ?case by (simp add: env_has_eq_def)
  qed simp
  with assms(1) show ?thesis by (simp add: env_wf_def)
qed

definition demo_env :: ush where
  "demo_env = ush_boot\<lparr>env_vars := (str ''SHELL=antigravity-sh'' @ replicate 108 0) # replicate 31 (replicate 128 0), env_count := 1\<rparr>"

lemma cstr_replicate_0 [simp]: "cstr (replicate n 0) = []"
  by (cases n) simp_all

lemma demo_env_wf: "env_wf demo_env" "env_abs demo_env (str ''SHELL'') = Some (str ''antigravity-sh'')"
  by (simp_all add: env_wf_def env_abs_def demo_env_def ush_boot_def entry_ok_def entry_of_def of_char_def)

theorem unset_removes_nothing_witness:
  "env_count demo_env = 1 \<and> unset_loop [] (take (env_count demo_env) (env_vars demo_env)) (lit ''SHELL'') = Inr None"
  using unset_removes_nothing [OF demo_env_wf(1), of "lit ''SHELL''"] by (simp add: of_char_def demo_env_def)

section \<open>Variable expansion\<close>

lemma expand_plain:
  assumes "\<forall>c\<in>set t. c \<noteq> 0 \<and> c \<noteq> 0x24" and "di + length t \<le> 255" and "length dst = 256"
  shows "expand_loop (pre @ t @ rest) 256 u (length pre) di dst =
    expand_loop (pre @ t @ rest) 256 u (length pre + length t) (di + length t) (take di dst @ t @ drop (di + length t) dst)"
  using assms
proof (induction t arbitrary: pre di dst)
  case (Cons c t)
  let ?d = "dst[di := c]"
  have "expand_loop (pre @ (c # t) @ rest) 256 u (length pre) di dst =
      expand_loop ((pre @ [c]) @ t @ rest) 256 u (length (pre @ [c])) (Suc di) ?d"
    using Cons.prems by (subst expand_loop.simps) (simp add: expand_step_def)
  also have "\<dots> = expand_loop ((pre @ [c]) @ t @ rest) 256 u (length (pre @ [c]) + length t) (Suc di + length t)
      (take (Suc di) ?d @ t @ drop (Suc di + length t) ?d)"
    using Cons.prems by (intro Cons.IH) auto
  also have "take (Suc di) ?d = take di dst @ [c]" using Cons.prems by (simp add: take_Suc_conv_app_nth)
  finally show ?case by simp
qed simp

lemma scan_name_word:
  assumes "\<forall>c\<in>set nm. c \<noteq> 0 \<and> P c" and "length nm \<le> k" and "c = 0 \<or> \<not> P c"
  shows "scan_name P k (pre @ nm @ c # rest) (length pre) = Inr (nm, length pre + length nm)"
  using assms(1,2)
proof (induction nm arbitrary: pre k)
  case Nil
  then show ?case using assms(3) by (subst scan_name.simps) (auto simp: nth_append)
next
  case (Cons b nm)
  have "scan_name P (k - 1) ((pre @ [b]) @ nm @ c # rest) (length (pre @ [b])) = Inr (nm, length (pre @ [b]) + length nm)"
    using Cons.prems by (intro Cons.IH) auto
  then show ?case using Cons.prems by (subst scan_name.simps) auto
qed

lemma copy_value_eq:
  assumes "0 \<in> set val" and "di + length (cstr val) \<le> 255" and "length dst = 256"
  shows "copy_value val 256 di dst = Inr (di + length (cstr val), take di dst @ cstr val @ drop (di + length (cstr val)) dst)"
  using assms
proof (induction val arbitrary: di dst)
  case (Cons c val)
  show ?case
  proof (cases "c = 0")
    case False
    let ?d = "dst[di := c]"
    have "copy_value (c # val) 256 di dst = copy_value val 256 (Suc di) ?d" using Cons.prems False by simp
    also have "\<dots> = Inr (Suc di + length (cstr val), take (Suc di) ?d @ cstr val @ drop (Suc di + length (cstr val)) ?d)"
      using Cons.prems False by (intro Cons.IH) auto
    also have "take (Suc di) ?d = take di dst @ [c]" using Cons.prems False by (simp add: take_Suc_conv_app_nth)
    finally show ?thesis using False by simp
  qed simp
qed simp

lemma name_char_facts: "name_char c \<Longrightarrow> c \<noteq> 0 \<and> c \<noteq> 0x7B \<and> c \<noteq> 0x3D"
  by (auto simp: name_char_def)

text \<open>One variable at the start of the text.\<close>

lemma expand_variable:
  assumes "env_wf u" and "env_abs u nm = Some v" and "nm \<noteq> []" and "\<forall>c\<in>set nm. name_char c" and "length nm \<le> 63"
    and "\<not> name_char c" and "length v \<le> 255" and "length dst = 256"
  shows "expand_loop (0x24 # nm @ c # rest) 256 u 0 0 dst =
    expand_loop (0x24 # nm @ c # rest) 256 u (Suc (length nm)) (length v) (v @ drop (length v) dst)"
proof -
  have nm: "0 \<in> set (nm @ [0])" "cstr (nm @ [0]) = nm" "0x3D \<notin> set (cstr (nm @ [0]))"
    using assms(4) name_char_facts by (auto simp: cstr_id cstr_append)
  obtain p where p: "env_get (nm @ [0]) u = Inr p" "0 \<in> set p" "cstr p = v"
    using env_get_refines [OF assms(1) nm(1,3)] assms(2) nm(2) by auto
  have sc: "scan_name name_char 63 (0x24 # nm @ c # rest) (Suc 0) = Inr (nm, Suc (length nm))"
    using scan_name_word [of nm name_char 63 c "[0x24]" rest] assms(4,5,6) name_char_facts by fastforce
  have n0: "(nm @ c # rest) ! 0 \<noteq> 0x7B" using assms(3,4) name_char_facts by (cases nm) auto
  have cp: "copy_value p 256 0 dst = Inr (length v, v @ drop (length v) dst)"
    using copy_value_eq [OF p(2), of 0 dst] p(3) assms(7,8) by simp
  show ?thesis
    using sc n0 p(1) cp assms(3) by (subst expand_loop.simps) (simp add: expand_step_def)
qed

text \<open>
  C38: \<open>expand_vars\<close> can overrun its output. When the output has 254 bytes already, a \<^verbatim>\<open>$\<close> that no name
  follows is stored together with the byte after it without another test of the bound, and the
  terminator goes one byte past the 256-byte array. A line of less than 256 bytes with one
  longer variable in it does it.
\<close>

theorem expand_vars_overruns:
  assumes "env_wf u" and "env_abs u nm = Some v" and "nm \<noteq> []" and "\<forall>c\<in>set nm. name_char c" and "length nm \<le> 63"
    and "\<not> name_char b" and "\<forall>c\<in>set (b # t). c \<noteq> 0 \<and> c \<noteq> 0x24" and "length v + length (b # t) = 254"
    and "c \<noteq> 0" and "c \<noteq> 0x7B" and "\<not> name_char c" and "rest \<noteq> []" and "length dst = 256"
  shows "expand_vars (0x24 # nm @ (b # t) @ 0x24 # c # rest) dst 256 u = Inl Fault"
proof -
  let ?src = "0x24 # nm @ (b # t) @ 0x24 # c # rest"
  have v: "length v \<le> 255" using assms(8) by simp
  obtain d where d: "length d = 256" "expand_loop ?src 256 u 0 0 dst =
      expand_loop ?src 256 u (length (0x24 # nm)) (length v) d"
    using expand_variable [OF assms(1-6) v assms(13), of "t @ 0x24 # c # rest"] assms(8,13)
    by (auto intro!: that [of "v @ drop (length v) dst"])
  obtain d' where d': "length d' = 256" "expand_loop ?src 256 u (length (0x24 # nm)) (length v) d =
      expand_loop ?src 256 u (length (0x24 # nm @ b # t)) 254 d'"
    using expand_plain [OF assms(7) _ d(1), of "length v" "0x24 # nm" "0x24 # c # rest" u] assms(8) d(1)
    by (auto intro!: that [of "take (length v) d @ (b # t) @ drop (length v + length (b # t)) d"] simp: add.commute)
  let ?i = "length (0x24 # nm @ b # t)"
  have src: "?src ! ?i = 0x24" "?src ! Suc ?i = c" "Suc (Suc ?i) < length ?src"
    using assms(12) by (simp_all add: nth_append)
  have sc: "scan_name name_char 63 ?src (Suc ?i) = Inr ([], Suc ?i)"
    using scan_name_word [of "[]" name_char 63 c "0x24 # nm @ (b # t) @ [0x24]" rest] assms(11) by simp
  have "expand_loop ?src 256 u ?i 254 d' = expand_loop ?src 256 u (Suc (Suc ?i)) 256 (d'[254 := 0x24, 255 := c])"
    using src sc assms(9,10) d'(1)
    by (subst expand_loop.simps) (simp add: expand_step_def rd_def del: length_Cons length_append)
  also have "\<dots> = Inr (256, d'[254 := 0x24, 255 := c])"
    using src(3) by (subst expand_loop.simps) (simp add: Let_def del: length_Cons length_append)
  finally show ?thesis using d d' by (simp add: expand_vars_def wr_def)
qed

theorem expand_vars_overruns_witness:
  "expand_vars (str ''$SHELL '' @ replicate 239 0x78 @ str ''$ '' @ replicate 8 0) (replicate 256 0) 256 demo_env = Inl Fault"
proof -
  let ?rest = "replicate 8 (0 :: u8)"
  have "0x24 # str ''SHELL'' @ (0x20 # replicate 239 0x78) @ 0x24 # 0x20 # ?rest =
      str ''$SHELL '' @ replicate 239 0x78 @ str ''$ '' @ ?rest"
    by (simp add: of_char_def)
  moreover have "expand_vars (0x24 # str ''SHELL'' @ (0x20 # replicate 239 0x78) @ 0x24 # 0x20 # ?rest) (replicate 256 0) 256 demo_env = Inl Fault"
    by (rule expand_vars_overruns [OF demo_env_wf]) (simp_all add: name_char_def of_char_def)
  ultimately show ?thesis by simp
qed

text \<open>
  After \<^verbatim>\<open>${NAME}\<close> the loop skips one byte too many. At the end of a line that byte is the
  terminator, and the expansion goes on with whatever the buffer holds behind the line.
\<close>

lemma expand_brace_reads_past_end:
  assumes "env_wf u" and "env_abs u nm = Some v" and "\<forall>c\<in>set nm. c \<noteq> 0 \<and> c \<noteq> 0x7D \<and> c \<noteq> 0x3D" and "length nm \<le> 63"
    and "\<forall>c\<in>set t. c \<noteq> 0 \<and> c \<noteq> 0x24" and "length v + length t \<le> 255" and "length dst = 256"
  shows "\<exists>dst'. expand_vars (0x24 # 0x7B # nm @ 0x7D # 0 # t @ 0 # rest) dst 256 u = Inr (length v + length t, dst') \<and>
    take (length v + length t) dst' = v @ t"
proof -
  let ?pre = "0x24 # 0x7B # nm @ [0x7D, 0]"
  let ?src = "?pre @ t @ 0 # rest"
  have nm: "0 \<in> set (nm @ [0])" "cstr (nm @ [0]) = nm" "0x3D \<notin> set (cstr (nm @ [0]))"
    using assms(3) by (auto simp: cstr_id cstr_append)
  obtain p where p: "env_get (nm @ [0]) u = Inr p" "0 \<in> set p" "cstr p = v"
    using env_get_refines [OF assms(1) nm(1,3)] assms(2) nm(2) by auto
  have sc: "scan_name (\<lambda>c. c \<noteq> 0x7D) 63 ?src (Suc (Suc 0)) = Inr (nm, Suc (Suc (length nm)))"
    using scan_name_word [of nm "\<lambda>c. c \<noteq> 0x7D" 63 "0x7D" "[0x24, 0x7B]" "0 # t @ 0 # rest"] assms(3,4) by simp
  have "copy_value p 256 0 dst = Inr (length v, v @ drop (length v) dst)"
    using copy_value_eq [OF p(2), of 0 dst] p(3) assms(6,7) by simp
  then have "expand_loop ?src 256 u 0 0 dst = expand_loop ?src 256 u (length ?pre) (length v) (v @ drop (length v) dst)"
    using sc p(1) by (subst expand_loop.simps) (simp add: expand_step_def nth_append)
  also have "\<dots> = expand_loop ?src 256 u (length ?pre + length t) (length v + length t)
      (take (length v) (v @ drop (length v) dst) @ t @ drop (length v + length t) (v @ drop (length v) dst))"
    using assms(5-7) by (intro expand_plain) auto
  also have "\<dots> = Inr (length v + length t, v @ t @ drop (length v + length t) dst)"
    by (subst expand_loop.simps) (simp add: nth_append add.commute)
  finally show ?thesis using assms(6,7) by (simp add: expand_vars_def)
qed

section \<open>What the user sees\<close>

definition fd0 :: "ush \<Rightarrow> bool" where
  "fd0 u \<longleftrightarrow> (\<forall>fd b. UWrite fd b \<in> set (out u) \<longrightarrow> fd = 0)"

lemma fd0_emit [simp]: "fd0 (emit e u) \<longleftrightarrow> fd0 u \<and> (\<forall>fd b. e = UWrite fd b \<longrightarrow> fd = 0)"
  by (auto simp: fd0_def emit_def)

lemma fd0_say [simp]: "fd0 (say s u) = fd0 u" "fd0 (say_n n s u) = fd0 u" "fd0 (backspace_n n u) = fd0 u"
proof -
  show say: "fd0 (say s u) = fd0 u" for s u by (simp add: say_def)
  have n: "fd0 (say_n n s u) = fd0 u" for n s u by (induction n arbitrary: u) (simp_all add: say_n_def say)
  show "fd0 (say_n n s u) = fd0 u" "fd0 (backspace_n n u) = fd0 u" by (simp_all add: n backspace_n_def)
qed

lemma fd0_upd [simp]:
  "fd0 (u\<lparr>env_vars := a\<rparr>) = fd0 u" "fd0 (u\<lparr>env_count := b\<rparr>) = fd0 u" "fd0 (u\<lparr>history := a\<rparr>) = fd0 u"
  "fd0 (u\<lparr>history_count := b\<rparr>) = fd0 u" "fd0 (u\<lparr>last_exit_status := c\<rparr>) = fd0 u" "fd0 (u\<lparr>exited := d\<rparr>) = fd0 u"
  by (simp_all add: fd0_def)

named_theorems fd0_intro \<open>the operations of the shell write to descriptor 0 only\<close>

lemma fd0_write_str [fd0_intro]: "sys_write_str s u = Inr u' \<Longrightarrow> fd0 u \<Longrightarrow> fd0 u'"
  by (auto simp: sys_write_str_def guardr_def split: if_splits)

lemma fd0_env_set [fd0_intro]: "env_set a b u = Inr u' \<Longrightarrow> fd0 u \<Longrightarrow> fd0 u'"
  by (auto simp: env_set_def bindr_eq_Inr split: if_splits option.splits)

lemma fd0_history_add [fd0_intro]: "history_add l u = Inr u' \<Longrightarrow> fd0 u \<Longrightarrow> fd0 u'"
  by (auto simp: history_add_def bindr_eq_Inr split: if_splits)

lemma fd0_env_list [fd0_intro]: "env_list es u = Inr u' \<Longrightarrow> fd0 u \<Longrightarrow> fd0 u'"
  by (induction es arbitrary: u) (auto simp: bindr_eq_Inr dest!: fd0_write_str)

lemma fd0_history_list [fd0_intro]: "history_list num hs i u = Inr u' \<Longrightarrow> fd0 u \<Longrightarrow> fd0 u'"
  by (induction hs arbitrary: i u) (auto simp: bindr_eq_Inr dest!: fd0_write_str)

lemma fd0_echo [fd0_intro]: "echo_args i as u = Inr u' \<Longrightarrow> fd0 u \<Longrightarrow> fd0 u'"
  by (induction as arbitrary: i u) (auto simp: bindr_eq_Inr split: if_splits dest!: fd0_write_str)

lemma fd0_export [fd0_intro]: "export_args as b u = Inr u' \<Longrightarrow> fd0 u \<Longrightarrow> fd0 u'"
  by (induction as arbitrary: b u) (auto simp: bindr_eq_Inr Let_def split: option.splits dest!: fd0_env_set)

lemma fd0_help: "fd0 (cmd_help u) = fd0 u"
  by (simp add: cmd_help_def)

lemma ifr_eq_Inr: "ifr b x y = Inr z \<Longrightarrow> x = Inr z \<or> y = Inr z"
  by (auto simp: ifr_def bindr_eq_Inr split: if_splits)

lemma fd0_builtin [fd0_intro]: "execute_builtin num argv b u = Inr (r, u') \<Longrightarrow> fd0 u \<Longrightarrow> fd0 u'"
  unfolding execute_builtin_def
  by (auto simp: Let_def bindr_eq_Inr fd0_help simp del: echo_args.simps export_args.simps
      split: list.splits option.splits dest!: ifr_eq_Inr fd0_echo fd0_env_list fd0_export fd0_history_list)

lemma fd0_command [fd0_intro]: "execute_command ex num l u = Inr u' \<Longrightarrow> fd0 u \<Longrightarrow> fd0 u'"
  by (auto simp: execute_command_def bindr_eq_Inr split: if_splits dest!: fd0_builtin fd0_write_str)

lemma fd0_prompt [fd0_intro]: "show_prompt u = Inr u' \<Longrightarrow> fd0 u \<Longrightarrow> fd0 u'"
  by (auto simp: show_prompt_def bindr_eq_Inr split: if_splits dest!: fd0_write_str)

lemma fd0_recall [fd0_intro]: "recall i ed u = Inr (ed', u') \<Longrightarrow> fd0 u \<Longrightarrow> fd0 u'"
  by (auto simp: recall_def bindr_eq_Inr dest!: fd0_write_str)

lemma fd0_read_key [fd0_intro]: "read_key m c ed u = Inr (f, ed', u') \<Longrightarrow> fd0 u \<Longrightarrow> fd0 u'"
  unfolding read_key_def Let_def
  by (auto simp: bindr_eq_Inr split: if_splits dest!: fd0_recall fd0_write_str fd0_prompt fd0_history_add)

lemma fd0_read_keys [fd0_intro]: "read_keys ks m ed u = Inr (b, ks', u') \<Longrightarrow> fd0 u \<Longrightarrow> fd0 u'"
  by (induction ks arbitrary: ed u) (auto simp: bindr_eq_Inr split: if_splits dest!: fd0_read_key)

lemma fd0_round [fd0_intro]: "shell_round ex num ks l u = Inr (l', ks', u') \<Longrightarrow> fd0 u \<Longrightarrow> fd0 u'"
  by (auto simp: shell_round_def read_line_def bindr_eq_Inr split: if_splits
      dest!: fd0_prompt fd0_read_keys fd0_command)

lemma fd0_session [fd0_intro]: "shell_session ex num ks l u = Inr u' \<Longrightarrow> fd0 u \<Longrightarrow> fd0 u'"
proof (induction ex num ks l u rule: shell_session.induct)
  case (1 ex num ks l u)
  show ?case
  proof (cases "exited u")
    case True
    then show ?thesis using 1(2,3) by (simp add: shell_session.simps)
  next
    case False
    obtain l1 ks1 u1 where r: "shell_round ex num ks l u = Inr (l1, ks1, u1)" "shell_session ex num ks1 l1 u1 = Inr u'"
      using 1(2) False by (subst (asm) shell_session.simps) (auto simp: bindr_eq_Inr)
    from 1(1) [OF False r(1)] r(2) fd0_round [OF r(1) 1(3)] show ?thesis by auto
  qed
qed

text \<open>
  C35: Nothing that the user shell writes ever appears. In every session that ends with
  \<open>exit\<close>, all its output is written to descriptor 0, and the kernel refuses that
  descriptor: the call returns -1 and neither the screen nor the serial port changes.
\<close>

theorem user_shell_output_is_lost:
  assumes "start expanded num line keys ush_boot = Inr u" and "UWrite fd b \<in> set (out u)" and "p \<noteq> 0"
  shows "sys_write S regs fd p (of_nat (length b)) s =
    Inr (Iret (regs\<lparr>r_eax := - 1, r_ebx := 0, r_ecx := p, r_edx := of_nat (length b)\<rparr>), s)"
proof -
  have "fd0 ush_boot" by (simp add: fd0_def ush_boot_def)
  then have "fd0 u" using assms(1) by (auto simp: start_def bindr_eq_Inr dest!: fd0_env_set fd0_session)
  then have "fd = 0" using assms(2) by (auto simp: fd0_def)
  then show ?thesis using assms(3) by (simp add: sys_write_def int80_def c_syscall_handler_def)
qed

theorem user_shell_output_is_lost_witness:
  "\<exists>u. start (replicate 256 0) (replicate 8 0) (replicate 256 0) (str ''exit'' @ [0x0A]) ush_boot = Inr u \<and>
     UWrite 0 (str ''$ '') \<in> set (out u) \<and>
     (\<forall>s. sys_write ush_ops demo_regs 0 0x800100 2 s =
        Inr (Iret (demo_regs\<lparr>r_eax := - 1, r_ebx := 0, r_ecx := 0x800100, r_edx := 2\<rparr>), s))"
proof -
  have "case start (replicate 256 0) (replicate 8 0) (replicate 256 0) (str ''exit'' @ [0x0A]) ush_boot of
      Inl _ \<Rightarrow> False | Inr u \<Rightarrow> UWrite 0 (str ''$ '') \<in> set (out u)"
    by code_simp
  then obtain u where u: "start (replicate 256 0) (replicate 8 0) (replicate 256 0) (str ''exit'' @ [0x0A]) ush_boot = Inr u"
    "UWrite 0 (str ''$ '') \<in> set (out u)" by (auto split: sum.splits)
  with user_shell_output_is_lost [OF u, of "0x800100" ush_ops demo_regs] show ?thesis by simp
qed

end
