(* ===== verification/Descriptors.thy ===== *)
theory Descriptors
  imports Run
begin

text \<open>
  Segmentation and interrupt tables: \<open>gdt_set_gate\<close>, \<open>tss_init\<close> and \<open>gdt_init\<close> of
  \<^verbatim>\<open>src/kernel/main.c\<close>, and all of \<^verbatim>\<open>arch/idt.c\<close>.

  The tables are lists of the packed C structures; what the processor was told to use
  (\<^verbatim>\<open>lgdt\<close>, \<^verbatim>\<open>ltr\<close>, \<^verbatim>\<open>lidt\<close>, and the segment registers that \<^verbatim>\<open>gdt_flush.s\<close> loads) are fields of
  the state. The addresses that the linker gives to the tables and to the assembly stubs are
  parameters. The second half reads the tables the way the processor and the interrupt
  controller do, and shows what the initialisation achieves there.
\<close>

section \<open>Model\<close>

record gdt_entry =
  limit_low :: u16
  base_low :: u16
  base_middle :: u8
  access :: u8
  granularity :: u8
  base_high :: u8

record gdt_ptr =
  gp_limit :: u16
  gp_base :: u32

record tss_entry =
  prev_tss :: u32
  esp0 :: u32
  ss0 :: u32
  esp1 :: u32
  ss1 :: u32
  esp2 :: u32
  ss2 :: u32
  tss_cr3 :: u32
  tss_eip :: u32
  tss_eflags :: u32
  tss_eax :: u32
  tss_ecx :: u32
  tss_edx :: u32
  tss_ebx :: u32
  tss_esp :: u32
  tss_ebp :: u32
  tss_esi :: u32
  tss_edi :: u32
  tss_es :: u32
  tss_cs :: u32
  tss_ss :: u32
  tss_ds :: u32
  tss_fs :: u32
  tss_gs :: u32
  tss_ldt :: u32
  trap :: u16
  iomap_base :: u16

record idt_entry =
  base_lo :: u16
  sel :: u16
  always0 :: u8
  flags :: u8
  base_hi :: u16

record idt_ptr =
  ip_limit :: u16
  ip_base :: u32

record desc =
  gdt :: "gdt_entry list"
  gp :: gdt_ptr
  tss :: tss_entry
  idt :: "idt_entry list"
  ip :: idt_ptr
  gdtr :: gdt_ptr
  idtr :: idt_ptr
  tr :: u16
  seg_cs :: u16
  seg_data :: u16

text \<open>Link-time addresses.\<close>

record desc_map =
  gdt_at :: u32
  tss_at :: u32
  idt_at :: u32
  keyboard_handler_asm :: u32
  syscall_handler_asm :: u32
  page_fault_handler_asm :: u32
  isr_0 :: u32
  isr_7 :: u32
  isr_8 :: u32
  isr_10 :: u32
  isr_11 :: u32
  isr_12 :: u32
  isr_13 :: u32

definition GDT_KERNEL_CODE :: u16 where [simp]: "GDT_KERNEL_CODE = 0x08"
definition GDT_KERNEL_DATA :: u16 where [simp]: "GDT_KERNEL_DATA = 0x10"
definition GDT_USER_CODE :: u16 where [simp]: "GDT_USER_CODE = 0x1B"
definition GDT_USER_DATA :: u16 where [simp]: "GDT_USER_DATA = 0x23"
definition GDT_TSS :: u16 where [simp]: "GDT_TSS = 0x28"

text \<open>The index is a constant below 6 in every call.\<close>

definition gdt_gate :: "u32 \<Rightarrow> u32 \<Rightarrow> u8 \<Rightarrow> u8 \<Rightarrow> gdt_entry" where
  "gdt_gate base limit acc gran =
     \<lparr>limit_low = ucast (limit AND 0xFFFF), base_low = ucast (base AND 0xFFFF),
      base_middle = ucast (drop_bit 16 base AND 0xFF), access = acc,
      granularity = ucast (drop_bit 16 limit AND 0x0F) OR (gran AND 0xF0),
      base_high = ucast (drop_bit 24 base AND 0xFF)\<rparr>"

definition gdt_set_gate :: "nat \<Rightarrow> u32 \<Rightarrow> u32 \<Rightarrow> u8 \<Rightarrow> u8 \<Rightarrow> desc \<Rightarrow> desc" where
  "gdt_set_gate num base limit acc gran d = d\<lparr>gdt := (gdt d)[num := gdt_gate base limit acc gran]\<rparr>"

definition tss_zero :: tss_entry where
  "tss_zero = \<lparr>prev_tss = 0, esp0 = 0, ss0 = 0, esp1 = 0, ss1 = 0, esp2 = 0, ss2 = 0, tss_cr3 = 0, tss_eip = 0,
     tss_eflags = 0, tss_eax = 0, tss_ecx = 0, tss_edx = 0, tss_ebx = 0, tss_esp = 0, tss_ebp = 0, tss_esi = 0,
     tss_edi = 0, tss_es = 0, tss_cs = 0, tss_ss = 0, tss_ds = 0, tss_fs = 0, tss_gs = 0, tss_ldt = 0, trap = 0,
     iomap_base = 0\<rparr>"

definition tss_init :: "desc_map \<Rightarrow> u32 \<Rightarrow> u32 \<Rightarrow> desc \<Rightarrow> desc" where
  "tss_init A ss esp d =
     (let base = tss_at A; limit = 104 - 1;
          d = d\<lparr>tss := tss_zero\<lparr>ss0 := ss, esp0 := esp, iomap_base := 104\<rparr>\<rparr>
      in gdt_set_gate 5 base limit 0x89 0x00 d)"

text \<open>\<^verbatim>\<open>arch/gdt_flush.s\<close>, and \<^verbatim>\<open>ltr\<close>, which marks the descriptor of the task segment busy.\<close>

definition gdt_flush :: "desc \<Rightarrow> desc" where
  "gdt_flush d = d\<lparr>gdtr := gp d, seg_data := 0x10, seg_cs := 0x08\<rparr>"

definition ltr :: "u16 \<Rightarrow> desc \<Rightarrow> desc" where
  "ltr s d =
     (let i = unat (drop_bit 3 s) in
      d\<lparr>tr := s, gdt := (gdt d)[i := (gdt d ! i)\<lparr>access := access (gdt d ! i) OR 2\<rparr>]\<rparr>)"

definition gdt_init :: "desc_map \<Rightarrow> desc \<Rightarrow> desc" where
  "gdt_init A d =
     (let d = d\<lparr>gp := \<lparr>gp_limit = 8 * 6 - 1, gp_base = gdt_at A\<rparr>\<rparr>;
          d = gdt_set_gate 0 0 0 0 0 d;
          d = gdt_set_gate 1 0 0xFFFFFFFF 0x9A 0xCF d;
          d = gdt_set_gate 2 0 0xFFFFFFFF 0x92 0xCF d;
          d = gdt_set_gate 3 0 0xFFFFFFFF 0xFA 0xCF d;
          d = gdt_set_gate 4 0 0xFFFFFFFF 0xF2 0xCF d;
          d = tss_init A (ucast GDT_KERNEL_DATA) 0x90000 d
      in ltr 0x28 (gdt_flush d))"

definition pic_remap :: "'p ports \<Rightarrow> 'p \<Rightarrow> 'p" where
  "pic_remap P p =
     (let p = outb P 0x20 0x11 p;
          p = outb P 0xA0 0x11 p;
          p = outb P 0x21 0x20 p;
          p = outb P 0xA1 0x28 p;
          p = outb P 0x21 0x04 p;
          p = outb P 0xA1 0x02 p;
          p = outb P 0x21 0x01 p;
          p = outb P 0xA1 0x01 p;
          p = outb P 0x21 0xFF p
      in outb P 0xA1 0xFF p)"

definition idt_gate :: "u32 \<Rightarrow> u16 \<Rightarrow> u8 \<Rightarrow> idt_entry" where
  "idt_gate base s f = \<lparr>base_lo = ucast (base AND 0xFFFF), sel = s, always0 = 0, flags = f,
     base_hi = ucast (drop_bit 16 base AND 0xFFFF)\<rparr>"

definition idt_set_gate :: "u8 \<Rightarrow> u32 \<Rightarrow> u16 \<Rightarrow> u8 \<Rightarrow> desc \<Rightarrow> desc" where
  "idt_set_gate num base s f d = d\<lparr>idt := (idt d)[unat num := idt_gate base s f]\<rparr>"

definition idt_init :: "'p ports \<Rightarrow> desc_map \<Rightarrow> desc \<times> 'p \<Rightarrow> desc \<times> 'p" where
  "idt_init P A = (\<lambda>(d, p).
     let d = fold (\<lambda>i. idt_set_gate (of_nat i) 0 0x08 0) [0..<256] d;
         p = pic_remap P p;
         d = idt_set_gate 0x21 (keyboard_handler_asm A) 0x08 0x8E d;
         d = idt_set_gate 0x80 (syscall_handler_asm A) 0x08 0xEE d;
         d = idt_set_gate 0x0E (page_fault_handler_asm A) 0x08 0x8E d;
         d = idt_set_gate 0x00 (isr_0 A) 0x08 0x8E d;
         d = idt_set_gate 0x07 (isr_7 A) 0x08 0x8E d;
         d = idt_set_gate 0x08 (isr_8 A) 0x08 0x8E d;
         d = idt_set_gate 0x0A (isr_10 A) 0x08 0x8E d;
         d = idt_set_gate 0x0B (isr_11 A) 0x08 0x8E d;
         d = idt_set_gate 0x0C (isr_12 A) 0x08 0x8E d;
         d = idt_set_gate 0x0D (isr_13 A) 0x08 0x8E d;
         d = d\<lparr>ip := \<lparr>ip_limit = 8 * 256 - 1, ip_base = idt_at A\<rparr>\<rparr>;
         d = d\<lparr>idtr := ip d\<rparr>
     in (d, outb P 0x21 0xFD p))"

section \<open>How the processor reads the tables\<close>

definition seg_base :: "gdt_entry \<Rightarrow> u32" where
  "seg_base e = ucast (base_low e) OR push_bit 16 (ucast (base_middle e)) OR push_bit 24 (ucast (base_high e))"

definition seg_limit :: "gdt_entry \<Rightarrow> u32" where
  "seg_limit e =
     (let l = ucast (limit_low e) OR push_bit 16 (ucast (granularity e AND 0x0F))
      in if bit (granularity e) 7 then push_bit 12 l OR 0xFFF else l)"

definition seg_present :: "gdt_entry \<Rightarrow> bool" where
  "seg_present e \<longleftrightarrow> bit (access e) 7"

definition seg_dpl :: "gdt_entry \<Rightarrow> nat" where
  "seg_dpl e = unat (drop_bit 5 (access e) AND 3)"

definition seg_code :: "gdt_entry \<Rightarrow> bool" where
  "seg_code e \<longleftrightarrow> bit (access e) 4 \<and> bit (access e) 3"

definition seg_data_rw :: "gdt_entry \<Rightarrow> bool" where
  "seg_data_rw e \<longleftrightarrow> bit (access e) 4 \<and> \<not> bit (access e) 3 \<and> bit (access e) 1"

text \<open>The descriptor that a selector names, if it lies within the limit of the table.\<close>

definition select :: "desc \<Rightarrow> u16 \<Rightarrow> gdt_entry option" where
  "select d s =
     (let i = unat (drop_bit 3 s) in
      if i \<noteq> 0 \<and> 8 * i + 7 \<le> unat (gp_limit (gdtr d)) then Some (gdt d ! i) else None)"

definition flat :: "nat \<Rightarrow> gdt_entry \<Rightarrow> bool" where
  "flat dpl e \<longleftrightarrow> seg_base e = 0 \<and> seg_limit e = 0xFFFFFFFF \<and> seg_present e \<and> seg_dpl e = dpl"

definition gate_target :: "idt_entry \<Rightarrow> u32" where
  "gate_target g = ucast (base_lo g) OR push_bit 16 (ucast (base_hi g))"

definition gate_dpl :: "idt_entry \<Rightarrow> nat" where
  "gate_dpl g = unat (drop_bit 5 (flags g) AND 3)"

definition gate_present :: "idt_entry \<Rightarrow> bool" where
  "gate_present g \<longleftrightarrow> bit (flags g) 7 \<and> flags g AND 0x1F = 0x0E"

text \<open>
  Where control goes on vector \<open>v\<close>: the code segment and entry point of the gate. An
  \<^verbatim>\<open>int\<close> instruction at privilege level \<open>cpl\<close> also needs \<open>cpl \<le> DPL\<close> of the gate.
\<close>

definition vector_entry :: "desc \<Rightarrow> nat \<Rightarrow> (gdt_entry \<times> u32) option" where
  "vector_entry d v =
     (if 8 * v + 7 \<le> unat (ip_limit (idtr d)) \<and> gate_present (idt d ! v)
      then map_option (\<lambda>e. (e, gate_target (idt d ! v))) (select d (sel (idt d ! v))) else None)"

definition soft_int :: "desc \<Rightarrow> nat \<Rightarrow> nat \<Rightarrow> (gdt_entry \<times> u32) option" where
  "soft_int d cpl v = (if cpl \<le> gate_dpl (idt d ! v) then vector_entry d v else None)"

text \<open>
  A pair of 8259A interrupt controllers: a command byte with bit 4 set starts the
  initialisation sequence and clears the mask; the next data bytes are the vector base, the
  cascade word (unless single) and the mode word (if announced); any other data byte is
  the mask.
\<close>

record chip =
  icw :: nat
  single :: bool
  need4 :: bool
  vbase :: u8
  imr :: u8

definition chip_command :: "u8 \<Rightarrow> chip \<Rightarrow> chip" where
  "chip_command v c = (if bit v 4 then c\<lparr>icw := 2, single := bit v 1, need4 := bit v 0, imr := 0\<rparr> else c)"

definition chip_data :: "u8 \<Rightarrow> chip \<Rightarrow> chip" where
  "chip_data v c =
     (if icw c = 2 then c\<lparr>vbase := v AND 0xF8, icw := (if \<not> single c then 3 else if need4 c then 4 else 0)\<rparr>
      else if icw c = 3 then c\<lparr>icw := (if need4 c then 4 else 0)\<rparr>
      else if icw c = 4 then c\<lparr>icw := 0\<rparr>
      else c\<lparr>imr := v\<rparr>)"

definition pic_ports :: "(chip \<times> chip) ports" where
  "pic_ports = \<lparr>inb = (\<lambda>p d. (0, d)),
     outb = (\<lambda>p v (m, s).
       if p = 0x20 then (chip_command v m, s) else if p = 0x21 then (chip_data v m, s)
       else if p = 0xA0 then (m, chip_command v s) else if p = 0xA1 then (m, chip_data v s) else (m, s)),
     insw = (\<lambda>p n d. ([], d))\<rparr>"

text \<open>The vector on which the interrupt line \<open>n\<close> (0 to 15) is delivered, if it is not masked.\<close>

definition irq_vector :: "chip \<times> chip \<Rightarrow> nat \<Rightarrow> nat option" where
  "irq_vector = (\<lambda>(m, s) n.
     if n < 8 then (if bit (imr m) n then None else Some (unat (vbase m) + n))
     else if n < 16 \<and> \<not> bit (imr m) 2 \<and> \<not> bit (imr s) (n - 8) then Some (unat (vbase s) + (n - 8)) else None)"

section \<open>Encoding and decoding of descriptors\<close>

lemma mask_16: "(0xFFFF :: 'a::len word) = mask 16"
  by (simp add: mask_eq_exp_minus_1)

text \<open>Every base address survives the split into three fields, and the low 20 bits of every limit.\<close>

lemma seg_base_gate [simp]: "seg_base (gdt_gate base limit a g) = base"
proof (rule bit_word_eqI)
  fix n assume "n < LENGTH(32)"
  then consider "n < 16" | "16 \<le> n" "n < 24" | "24 \<le> n" "n < 32" by fastforce
  then show "bit (seg_base (gdt_gate base limit a g)) n = bit base n"
    by cases (auto simp: seg_base_def gdt_gate_def bit_simps and_FF mask_16)
qed

lemma gate_target_gate [simp]: "gate_target (idt_gate base s f) = base"
proof (rule bit_word_eqI)
  fix n assume "n < LENGTH(32)"
  then consider "n < 16" | "16 \<le> n" "n < 32" by fastforce
  then show "bit (gate_target (idt_gate base s f)) n = bit base n"
    by cases (auto simp: gate_target_def idt_gate_def bit_simps mask_16)
qed

lemma flat_gate:
  "flat 0 (gdt_gate 0 0xFFFFFFFF 0x9A 0xCF)" "seg_code (gdt_gate 0 0xFFFFFFFF 0x9A 0xCF)"
  "flat 0 (gdt_gate 0 0xFFFFFFFF 0x92 0xCF)" "seg_data_rw (gdt_gate 0 0xFFFFFFFF 0x92 0xCF)"
  "flat 3 (gdt_gate 0 0xFFFFFFFF 0xFA 0xCF)" "seg_code (gdt_gate 0 0xFFFFFFFF 0xFA 0xCF)"
  "flat 3 (gdt_gate 0 0xFFFFFFFF 0xF2 0xCF)" "seg_data_rw (gdt_gate 0 0xFFFFFFFF 0xF2 0xCF)"
  unfolding flat_def seg_base_gate by (code_simp)+

lemma gdt_init_tables:
  assumes "length (gdt d) = 6"
  shows "gdt (gdt_init A d) =
     [gdt_gate 0 0 0 0, gdt_gate 0 0xFFFFFFFF 0x9A 0xCF, gdt_gate 0 0xFFFFFFFF 0x92 0xCF,
      gdt_gate 0 0xFFFFFFFF 0xFA 0xCF, gdt_gate 0 0xFFFFFFFF 0xF2 0xCF, gdt_gate (tss_at A) 103 0x8B 0]"
    "gdtr (gdt_init A d) = \<lparr>gp_limit = 47, gp_base = gdt_at A\<rparr>" "tr (gdt_init A d) = 0x28"
    "tss (gdt_init A d) = tss_zero\<lparr>ss0 := 0x10, esp0 := 0x90000, iomap_base := 104\<rparr>"
    "idt (gdt_init A d) = idt d" "idtr (gdt_init A d) = idtr d"
proof -
  obtain a b c e f g where "gdt d = [a, b, c, e, f, g]"
    using assms by (auto simp: length_Suc_conv eval_nat_numeral)
  then show "gdt (gdt_init A d) =
     [gdt_gate 0 0 0 0, gdt_gate 0 0xFFFFFFFF 0x9A 0xCF, gdt_gate 0 0xFFFFFFFF 0x92 0xCF,
      gdt_gate 0 0xFFFFFFFF 0xFA 0xCF, gdt_gate 0 0xFFFFFFFF 0xF2 0xCF, gdt_gate (tss_at A) 103 0x8B 0]"
    by (simp add: gdt_init_def gdt_set_gate_def tss_init_def gdt_flush_def ltr_def Let_def gdt_gate_def)
qed (simp_all add: gdt_init_def gdt_set_gate_def tss_init_def gdt_flush_def ltr_def Let_def)

lemma idt_clear:
  "n \<le> 256 \<Longrightarrow> length (idt d) = 256 \<Longrightarrow>
   fold (\<lambda>i. idt_set_gate (of_nat i) 0 0x08 0) [0..<n] d =
   d\<lparr>idt := replicate n (idt_gate 0 8 0) @ drop n (idt d)\<rparr>"
proof (induction n)
  case (Suc n)
  have "unat (of_nat n :: u8) = n" using Suc.prems by (simp add: unat_of_nat take_bit_nat_eq_self)
  then show ?case
    using Suc by (simp add: idt_set_gate_def list_update_append Cons_nth_drop_Suc [symmetric] replicate_append_same)
qed simp

definition vectors :: "desc_map \<Rightarrow> (nat \<times> u32) list" where
  "vectors A = [(0x21, keyboard_handler_asm A), (0x80, syscall_handler_asm A), (0x0E, page_fault_handler_asm A),
     (0x00, isr_0 A), (0x07, isr_7 A), (0x08, isr_8 A), (0x0A, isr_10 A), (0x0B, isr_11 A), (0x0C, isr_12 A),
     (0x0D, isr_13 A)]"

lemma idt_init_tables:
  assumes "length (idt d) = 256" and "v < 256"
  shows "idt (fst (idt_init P A (d, p))) ! v =
     (case map_of (vectors A) v of None \<Rightarrow> idt_gate 0 8 0
      | Some h \<Rightarrow> idt_gate h 8 (if v = 0x80 then 0xEE else 0x8E))"
  using assms(2)
  by (simp add: idt_init_def idt_clear [OF _ assms(1)] idt_set_gate_def vectors_def nth_list_update Let_def
      del: upt.simps) (simp add: nth_append)

lemma idt_init_kept:
  "gdt (fst (idt_init P A (d, p))) = gdt d" "gdtr (fst (idt_init P A (d, p))) = gdtr d"
  "tss (fst (idt_init P A (d, p))) = tss d"
  "idtr (fst (idt_init P A (d, p))) = \<lparr>ip_limit = 2047, ip_base = idt_at A\<rparr>"
proof -
  have "gdt (fold (\<lambda>i. idt_set_gate (f i) 0 8 0) xs d) = gdt d \<and> gdtr (fold (\<lambda>i. idt_set_gate (f i) 0 8 0) xs d) = gdtr d \<and>
    tss (fold (\<lambda>i. idt_set_gate (f i) 0 8 0) xs d) = tss d" for f :: "nat \<Rightarrow> u8" and xs
    by (induction xs arbitrary: d) (simp_all add: idt_set_gate_def)
  then show "gdt (fst (idt_init P A (d, p))) = gdt d" "gdtr (fst (idt_init P A (d, p))) = gdtr d"
    "tss (fst (idt_init P A (d, p))) = tss d"
    "idtr (fst (idt_init P A (d, p))) = \<lparr>ip_limit = 2047, ip_base = idt_at A\<rparr>"
    by (simp_all add: idt_init_def idt_set_gate_def Let_def del: upt.simps)
qed

lemma gate_flags:
  "gate_present (idt_gate h 8 0x8E)" "gate_present (idt_gate h 8 0xEE)" "\<not> gate_present (idt_gate h 8 0)"
  "gate_dpl (idt_gate h 8 0x8E) = 0" "gate_dpl (idt_gate h 8 0xEE) = 3" "sel (idt_gate h s f) = s"
  by (simp_all add: gate_present_def gate_dpl_def idt_gate_def bit_numeral_rec)

lemma pic_out [simp]:
  "outb pic_ports 0x20 v (m, s) = (chip_command v m, s)" "outb pic_ports 0x21 v (m, s) = (chip_data v m, s)"
  "outb pic_ports 0xA0 v (m, s) = (m, chip_command v s)" "outb pic_ports 0xA1 v (m, s) = (m, chip_data v s)"
  by (simp_all add: pic_ports_def)

lemma chip_init:
  "chip_data 1 (chip_data w (chip_data b (chip_command 0x11 c))) =
   c\<lparr>icw := 0, single := False, need4 := True, vbase := b AND 0xF8, imr := 0\<rparr>"
  by (simp add: chip_command_def chip_data_def bit_numeral_rec)

lemma pic_init:
  "snd (idt_init pic_ports A (d, (m, s))) =
     (m\<lparr>icw := 0, single := False, need4 := True, vbase := 0x20, imr := 0xFD\<rparr>,
      s\<lparr>icw := 0, single := False, need4 := True, vbase := 0x28, imr := 0xFF\<rparr>)"
proof -
  have "snd (idt_init pic_ports A (d, (m, s))) = outb pic_ports 0x21 0xFD (pic_remap pic_ports (m, s))"
    by (simp only: idt_init_def Let_def prod.case snd_conv)
  also have "\<dots> = (chip_data 0xFD (chip_data 0xFF (m\<lparr>icw := 0, single := False, need4 := True, vbase := 0x20, imr := 0\<rparr>)),
      chip_data 0xFF (s\<lparr>icw := 0, single := False, need4 := True, vbase := 0x28, imr := 0\<rparr>))"
    by (simp only: pic_remap_def Let_def pic_out chip_init) simp
  finally show ?thesis by (simp add: chip_data_def)
qed

section \<open>What the initialisation achieves\<close>

text \<open>
  C15: After \<open>gdt_init\<close> the kernel selectors 0x08 and 0x10 name present ring-0 code and data
  segments, the user selectors 0x1B and 0x23 ring-3 code and data segments, each of them the
  whole flat address space; selector 0x28 and the task register name the task segment, with the kernel
  stack 0x10:0x90000 and no I/O permission bitmap within its limit; no other selector
  names a descriptor.
\<close>

theorem gdt_init_correct:
  assumes "length (gdt d) = 6"
  shows "\<exists>kc kd uc ud ts. let d' = gdt_init A d in
     select d' GDT_KERNEL_CODE = Some kc \<and> flat 0 kc \<and> seg_code kc \<and>
     select d' GDT_KERNEL_DATA = Some kd \<and> flat 0 kd \<and> seg_data_rw kd \<and>
     select d' GDT_USER_CODE = Some uc \<and> flat 3 uc \<and> seg_code uc \<and>
     select d' GDT_USER_DATA = Some ud \<and> flat 3 ud \<and> seg_data_rw ud \<and>
     tr d' = GDT_TSS \<and> select d' GDT_TSS = Some ts \<and> seg_base ts = tss_at A \<and> seg_limit ts = 103 \<and>
     seg_present ts \<and> ss0 (tss d') = 0x10 \<and> esp0 (tss d') = 0x90000 \<and>
     seg_limit ts < ucast (iomap_base (tss d')) \<and>
     (\<forall>s. unat s \<notin> {8..<48} \<longrightarrow> select d' s = None)"
proof -
  have far: "select (gdt_init A d) s = None" if "unat s \<notin> {8..<48}" for s
    using that by (auto simp: select_def gdt_init_tables [OF assms] Let_def unat_drop_bit div_eq_0_iff not_less)
  have sel: "select (gdt_init A d) 0x08 = Some (gdt_gate 0 0xFFFFFFFF 0x9A 0xCF)"
    "select (gdt_init A d) 0x10 = Some (gdt_gate 0 0xFFFFFFFF 0x92 0xCF)"
    "select (gdt_init A d) 0x1B = Some (gdt_gate 0 0xFFFFFFFF 0xFA 0xCF)"
    "select (gdt_init A d) 0x23 = Some (gdt_gate 0 0xFFFFFFFF 0xF2 0xCF)"
    "select (gdt_init A d) 0x28 = Some (gdt_gate (tss_at A) 103 0x8B 0)"
    by (simp_all add: select_def gdt_init_tables [OF assms])
  have ts: "seg_limit (gdt_gate b 103 0x8B 0) = 103" "seg_present (gdt_gate b 103 0x8B 0)" for b
    by (simp_all add: seg_limit_def seg_present_def gdt_gate_def bit_numeral_rec)
  show ?thesis
    using far by (simp add: sel ts flat_gate gdt_init_tables [OF assms] Let_def)
qed

lemma entry_points:
  fixes P :: "'p ports" and A :: desc_map and p :: 'p and d :: desc and v :: nat
  assumes "length (gdt d) = 6" and "length (idt d) = 256" and "v < 256"
  defines "d' \<equiv> fst (idt_init P A (gdt_init A d, p))"
  shows "vector_entry d' v = map_option (\<lambda>h. (gdt_gate 0 0xFFFFFFFF 0x9A 0xCF, h)) (map_of (vectors A) v)"
    and "gate_dpl (idt d' ! v) = (if v = 0x80 then 3 else 0)"
proof -
  have i: "length (idt (gdt_init A d)) = 256" by (simp add: gdt_init_tables [OF assms(1)] assms(2))
  have sel8: "select d' 8 = Some (gdt_gate 0 0xFFFFFFFF 0x9A 0xCF)"
    by (simp add: d'_def select_def idt_init_kept gdt_init_tables [OF assms(1)])
  have v80: "map_of (vectors A) 0x80 \<noteq> None" by (simp add: vectors_def)
  show "vector_entry d' v = map_option (\<lambda>h. (gdt_gate 0 0xFFFFFFFF 0x9A 0xCF, h)) (map_of (vectors A) v)"
    using assms(3) unfolding vector_entry_def d'_def idt_init_tables [OF i assms(3)] idt_init_kept
    by (auto simp: gate_flags sel8 [unfolded d'_def] split: option.split)
  show "gate_dpl (idt d' ! v) = (if v = 0x80 then 3 else 0)"
    using v80 unfolding d'_def idt_init_tables [OF i assms(3)]
    by (auto simp: gate_flags split: option.split) (simp add: gate_dpl_def idt_gate_def)
qed

text \<open>
  C14: After \<open>gdt_init\<close> and \<open>idt_init\<close> the only vector that ring-3 code can raise with
  \<^verbatim>\<open>int\<close> is 0x80: it enters \<open>syscall_handler_asm\<close> on the flat ring-0 code segment; every other
  one is refused. Of the sixteen interrupt lines only the keyboard's (line 1) is let through,
  and its vector enters \<open>keyboard_handler_asm\<close>, from whatever state the controllers were in.
\<close>

theorem interrupt_entry_points:
  assumes "length (gdt d) = 6" and "length (idt d) = 256" and "v < 256"
  shows "\<exists>kc. flat 0 kc \<and> seg_code kc \<and>
     soft_int (fst (idt_init pic_ports A (gdt_init A d, pics))) 3 v =
       (if v = 0x80 then Some (kc, syscall_handler_asm A) else None) \<and>
     irq_vector (snd (idt_init pic_ports A (gdt_init A d, pics))) n = (if n = 1 then Some 0x21 else None) \<and>
     vector_entry (fst (idt_init pic_ports A (gdt_init A d, pics))) 0x21 = Some (kc, keyboard_handler_asm A)"
proof (intro exI conjI)
  let ?d = "fst (idt_init pic_ports A (gdt_init A d, pics))"
  show "flat 0 (gdt_gate 0 0xFFFFFFFF 0x9A 0xCF)" "seg_code (gdt_gate 0 0xFFFFFFFF 0x9A 0xCF)"
    by (fact flat_gate)+
  show "soft_int ?d 3 v = (if v = 0x80 then Some (gdt_gate 0 0xFFFFFFFF 0x9A 0xCF, syscall_handler_asm A) else None)"
    unfolding soft_int_def entry_points [OF assms] by (simp add: vectors_def)
  show "vector_entry ?d 0x21 = Some (gdt_gate 0 0xFFFFFFFF 0x9A 0xCF, keyboard_handler_asm A)"
    by (subst entry_points [OF assms(1,2)]) (simp_all add: vectors_def)
  obtain m s where p: "pics = (m, s)" by fastforce
  have "bit (0xFD :: u8) n \<longleftrightarrow> n \<noteq> 1" if "n < 8"
    using that by (auto simp: bit_numeral_rec numeral_eq_Suc less_Suc_eq split: nat.split)
  then show "irq_vector (snd (idt_init pic_ports A (gdt_init A d, pics))) n = (if n = 1 then Some 0x21 else None)"
    by (auto simp: p pic_init irq_vector_def bit_numeral_rec)
qed

definition demo_desc :: desc where
  "demo_desc = \<lparr>gdt = replicate 6 (gdt_gate 0 0 0 0), gp = \<lparr>gp_limit = 0, gp_base = 0\<rparr>, tss = tss_zero,
     idt = replicate 256 (idt_gate 0 0 0), ip = \<lparr>ip_limit = 0, ip_base = 0\<rparr>, gdtr = \<lparr>gp_limit = 0, gp_base = 0\<rparr>,
     idtr = \<lparr>ip_limit = 0, ip_base = 0\<rparr>, tr = 0, seg_cs = 0, seg_data = 0\<rparr>"

theorem gdt_init_correct_witness:
  "\<forall>A. \<exists>uc. select (gdt_init A demo_desc) 0x1B = Some uc \<and> flat 3 uc \<and> seg_code uc"
proof -
  have "length (gdt demo_desc) = 6" by (simp add: demo_desc_def)
  from gdt_init_correct [OF this] show ?thesis by (simp add: Let_def) blast
qed

theorem interrupt_entry_points_witness:
  "\<forall>A pics. soft_int (fst (idt_init pic_ports A (gdt_init A demo_desc, pics))) 3 0x0E = None \<and>
     irq_vector (snd (idt_init pic_ports A (gdt_init A demo_desc, pics))) 0 = None"
  using interrupt_entry_points [of demo_desc "0x0E" _ _ 0] by (fastforce simp: demo_desc_def)

end
