(* ===== verification/Kernel_Shell.thy ===== *)
theory Kernel_Shell
  imports Ext2_Cmd Traps Descriptors Memory_Init Line_Buffer
begin

text \<open>
  The kernel's own shell in \<^verbatim>\<open>src/kernel/main.c\<close>: line editor, history, command dispatch, starting of
  programs, and the parsing of the boot command line.

  The state \<open>kern\<close> has the file system (with the console and the memory manager), the
  keyboard, the descriptor tables and the variables of the file; \<open>world\<close> bundles what the
  linker and the files outside the repository provide: addresses, the string routines, the loader by inode,
  the task system. Accesses outside an array are \<open>Fault\<close>. Leaving the kernel for ring 3 is
  an outcome of its own, because control comes back somewhere else.
\<close>

section \<open>State\<close>

definition SHELL_BUF_SIZE :: nat where [simp]: "SHELL_BUF_SIZE = 256"
definition MAX_HISTORY :: nat where [simp]: "MAX_HISTORY = 30"
definition COLOR_BLACK :: u8 where [simp]: "COLOR_BLACK = 0"
definition COLOR_GREEN :: u8 where [simp]: "COLOR_GREEN = 2"
definition COLOR_LIGHT_CYAN :: u8 where [simp]: "COLOR_LIGHT_CYAN = 11"
definition COLOR_YELLOW :: u8 where [simp]: "COLOR_YELLOW = 14"

record 'd kern =
  vol :: "'d fs"
  kkeys :: keys
  tabs :: desc
  g_init_path :: "u8 list"
  g_history :: "u8 list list"
  g_history_count :: nat
  g_history_idx :: int
  g_cwd_inode :: u32
  g_shell_needs_reset :: bool
  input_buffer :: "u8 list"
  shell_pos :: nat
  shell_len :: int
  g_user_kernel_esp :: u32
  g_mb_info_addr :: u32

record 'd world =
  w_link :: link_map
  w_ports :: "'d ports"
  w_str :: str_ops
  w_junk :: "u8 list"
  w_desc :: desc_map
  w_esp :: u32
  user_program_at :: u32
  user_msg_at :: u32
  fs_gdt_at :: u32
  gdt_buffer_at :: u32
  load_elf_program_from_inode :: "u32 \<Rightarrow> 'd kern \<Rightarrow> stop + (bool \<times> u32) \<times> 'd kern"
  task_create :: "u32 \<Rightarrow> u32 \<Rightarrow> 'd kern \<Rightarrow> stop + 'd kern"
  vfs_init :: "'d kern \<Rightarrow> 'd kern"
  auto_enter_user_mode :: "'d kern \<Rightarrow> stop + 'd kern"

datatype kout = Returned | To_user u32 u32

abbreviation kcon :: "(console \<Rightarrow> console) \<Rightarrow> 'd kern \<Rightarrow> 'd kern" where
  "kcon f k \<equiv> k\<lparr>vol := upd_con f (vol k)\<rparr>"

definition onvol :: "('d fs \<Rightarrow> stop + 'd fs) \<Rightarrow> 'd kern \<Rightarrow> stop + 'd kern" where
  "onvol f k = bindr (f (vol k)) (\<lambda>s. Inr (k\<lparr>vol := s\<rparr>))"

section \<open>The boot command line\<close>

partial_function (option) cmdline_scan :: "mem \<Rightarrow> u32 \<Rightarrow> u32 option option" where
  "cmdline_scan m p =
     (if m p = 0 then Some None
      else if map (\<lambda>i. m (p + of_nat i)) [0..<5] = str ''init='' then Some (Some p)
      else cmdline_scan m (p + 1))"

fun init_value :: "nat \<Rightarrow> mem \<Rightarrow> u32 \<Rightarrow> u8 list" where
  "init_value 0 m a = []"
| "init_value (Suc n) m a = (if m a \<noteq> 0 \<and> m a \<noteq> 0x20 then m a # init_value n m (a + 1) else [])"

definition parse_init_cmdline :: "u32 \<Rightarrow> 'd kern \<Rightarrow> stop + 'd kern" where
  "parse_init_cmdline mb_info_addr k =
     (let m = mm_mem (kmm (vol k)); mb = read_mb m mb_info_addr in
      if mb_flags mb AND push_bit 2 1 = 0 \<or> mb_cmdline mb = 0 then Inr k
      else bindr (orelse (cmdline_scan m (mb_cmdline mb)) Hang) (\<lambda>r.
        case r of None \<Rightarrow> Inr k
        | Some p \<Rightarrow>
            bindr (blit (g_init_path k) 0 (init_value 127 m (p + 5) @ [0])) (\<lambda>path. Inr (k\<lparr>g_init_path := path\<rparr>))))"

section \<open>Starting programs\<close>

definition run_user_program_at :: "'d world \<Rightarrow> u32 \<Rightarrow> 'd kern \<Rightarrow> kout \<times> 'd kern" where
  "run_user_program_at W entry_point k =
     (let user_stack_top = USER_STACK_TOP;
          d = (tabs k)\<lparr>tss := (tss (tabs k))\<lparr>esp0 := w_esp W\<rparr>\<rparr>
      in (To_user entry_point user_stack_top, k\<lparr>tabs := d, g_user_kernel_esp := w_esp W\<rparr>))"

definition report_error :: "(console \<Rightarrow> console) \<Rightarrow> 'd kern \<Rightarrow> 'd kern" where
  "report_error msg k = kcon (put vga_reset_color \<circ> msg \<circ> put (vga_set_color COLOR_WHITE COLOR_RED)) k"

definition run_user_program_from_file :: "'d world \<Rightarrow> u8 list \<Rightarrow> 'd kern \<Rightarrow> stop + bool \<times> 'd kern" where
  "run_user_program_from_file W filepath k =
     (let k = kcon (dbg_msg ''user'' ''loading program from file'') k in
      bindr (resolve_path (w_link W) (w_ports W) (w_str W) (w_junk W) (Some filepath) (vol k)) (\<lambda>(inode_num, s).
      let k = k\<lparr>vol := s\<rparr> in
      if inode_num = 0 then
        Inr (False, report_error (puts newline \<circ> put (vga_puts filepath) \<circ> puts ''Error: File not found - '')
                      (kcon (dbg_msg ''user'' ''file not found'') k))
      else bindr (get_inode (w_ports W) (w_junk W) inode_num (vol k)) (\<lambda>(inode, s).
        let k = k\<lparr>vol := s\<rparr>; type = i_mode inode AND 0xF000 in
        if type = 0x4000 then
          Inr (False, report_error (puts ('' is a directory, not an executable'' @ newline) \<circ> put (vga_puts filepath) \<circ> puts ''Error: '')
                        (kcon (dbg_msg ''user'' ''target is a directory'') k))
        else if type \<noteq> 0x8000 then
          Inr (False, report_error (puts ('')'' @ newline) \<circ> print_hex (ucast (i_mode inode)) \<circ>
                                    puts ''Error: Invalid file type (mode=0x'')
                        (kcon (dbg_msg ''user'' ''invalid executable type'') k))
        else if i_size inode = 0 then
          Inr (False, report_error (puts (''Error: File is empty'' @ newline)) (kcon (dbg_msg ''user'' ''file is empty'') k))
        else bindr (load_elf_program_from_inode W inode_num k) (\<lambda>((ok, entry_point), k).
          if \<not> ok then
            Inr (False, report_error (puts (''Error: Invalid or unsupported ELF'' @ newline))
                          (kcon (dbg_msg ''user'' ''elf load failed'') k))
          else
            bindr (task_create W entry_point USER_STACK_TOP
                    (kcon (put vga_reset_color \<circ> dbg_msg ''user'' ''launching user program'' \<circ>
                           put (vga_set_color COLOR_GREEN COLOR_BLACK)) k)) (\<lambda>k.
              Inr (True, kcon (put vga_reset_color \<circ> dbg_msg ''user'' ''program returned'' \<circ>
                               put (vga_set_color COLOR_YELLOW COLOR_BLACK)) k))))))"

section \<open>Commands\<close>

definition help_text :: string where
  "help_text =
     ''commands: help, ls, clear, cd, ./program'' @ newline @
     ''  - help            Show this help message'' @ newline @
     ''  - ls [path]       List directory contents'' @ newline @
     ''  - cd <path>       Change directory'' @ newline @
     ''  - clear           Clear screen'' @ newline @
     ''  - ./program       Execute program from current directory'' @ newline @
     ''  - /path/program   Execute program from absolute path'' @ newline"

text \<open>The machine code that the command \<open>test_ring3\<close> assembles in \<open>user_program\<close>.\<close>

definition store_test_program :: "u32 \<Rightarrow> u32 \<Rightarrow> mem \<Rightarrow> mem" where
  "store_test_program a user_msg m =
     (let m = m(a := 0xB8);
          m = store32 (a + 1) SYS_WRITE m;
          m = m(a + 5 := 0xBB);
          m = store32 (a + 6) 1 m;
          m = m(a + 10 := 0xB9);
          m = store32 (a + 11) user_msg m;
          m = m(a + 15 := 0xBA);
          m = store32 (a + 16) 27 m;
          m = m(a + 20 := 0xCD);
          m = m(a + 21 := 0x80);
          m = m(a + 22 := 0xB8);
          m = store32 (a + 23) SYS_EXIT m;
          m = m(a + 27 := 0xBB);
          m = store32 (a + 28) 0 m;
          m = m(a + 32 := 0xCD)
      in m(a + 33 := 0x80))"

definition cmd_eq :: "'d world \<Rightarrow> u8 list \<Rightarrow> string \<Rightarrow> stop + bool" where
  "cmd_eq W cmd s = bindr (orelse (op_strcmp (w_str W) cmd (lit s)) Fault) (\<lambda>r. Inr (r = 0))"

definition cmd_starts :: "'d world \<Rightarrow> u8 list \<Rightarrow> string \<Rightarrow> stop + bool" where
  "cmd_starts W cmd s = bindr (orelse (op_strncmp (w_str W) cmd (lit s) (length s)) Fault) (\<lambda>r. Inr (r = 0))"

definition ls_path :: "'d world \<Rightarrow> u8 list \<Rightarrow> 'd fs \<Rightarrow> stop + 'd fs" where
  "ls_path W path s =
     bindr (resolve_path (w_link W) (w_ports W) (w_str W) (w_junk W) (Some path) s) (\<lambda>(target_inode, s).
       if target_inode \<noteq> 0 then
         bindr (get_inode (w_ports W) (w_junk W) target_inode s) (\<lambda>(inode, s).
           if i_mode inode AND 0xF000 = 0x4000 then ext2_ls (w_link W) (w_ports W) (w_junk W) target_inode s
           else Inr (upd_con (puts ('': Not a directory'' @ newline) \<circ> put (vga_puts path) \<circ> puts ''ls: '') s))
       else Inr (upd_con (puts (''ls: No such file or directory'' @ newline)) s))"

definition handle_command :: "'d world \<Rightarrow> u8 list \<Rightarrow> 'd kern \<Rightarrow> stop + kout \<times> 'd kern" where
  "handle_command W cmd k =
     (let ret = (\<lambda>k. Inr (Returned, k)); L = w_link W; P = w_ports W; S = w_str W; junk = w_junk W in
      ifr (cmd_eq W cmd ''help'') (ret (kcon (puts help_text) k)) (
      ifr (cmd_eq W cmd ''test_ring3'')
        (let k = kcon (puts (''Switching to Ring 3...'' @ newline)) k;
             s = vol k;
             m = store_test_program (user_program_at W) (user_msg_at W) (mm_mem (kmm s));
             k = kcon (puts (''Launching program with syscall support...'' @ newline))
                   (k\<lparr>vol := s\<lparr>kmm := (kmm s)\<lparr>mm_mem := m\<rparr>\<rparr>\<rparr>)
         in Inr (run_user_program_at W (user_program_at W) k)) (
      ifr (cmd_eq W cmd ''cat'') (ret (kcon (puts (''cat: Missing filename.'' @ newline)) k)) (
      ifr (cmd_eq W cmd ''cd'') (ret k) (
      ifr (cmd_starts W cmd ''cd '') (bindr (onvol (ext2_cd L P S junk (Some (drop 3 cmd))) k) ret) (
      ifr (cmd_starts W cmd ''cat '') (bindr (onvol (ext2_cat L P S junk (Some (drop 4 cmd))) k) ret) (
      ifr (cmd_eq W cmd ''ls'') (bindr (onvol (ext2_ls L P junk (g_cwd_inode k)) k) ret) (
      ifr (cmd_starts W cmd ''ls '') (bindr (onvol (ls_path W (drop 3 cmd)) k) ret) (
      ifr (cmd_eq W cmd ''clear'') (ret (kcon (put clear_screen) k)) (
      bindr (rd cmd 0) (\<lambda>c.
      if c = 0 then ret k
      else ifr (if c = 0x2F then Inr True else cmd_starts W cmd ''./'')
        (bindr (run_user_program_from_file W cmd k) (\<lambda>(_, k). ret k))
        (ret (report_error (puts newline \<circ> put (vga_puts cmd) \<circ> puts ''unknown command: '') k)))))))))))))"

section \<open>The line editor\<close>

definition shell_reset :: "'d kern \<Rightarrow> 'd kern" where
  "shell_reset k = k\<lparr>g_shell_needs_reset := True\<rparr>"

text \<open>\<open>shell_backspace\<close>, which no code calls.\<close>

definition shell_backspace :: "nat \<Rightarrow> console \<Rightarrow> nat \<times> console" where
  "shell_backspace p c = (if p = 0 then (p, c) else (p - 1, ser_puts (str [CHR 0x08, CHR '' '', CHR 0x08]) c))"

definition prompt :: "u8 list \<Rightarrow> console \<Rightarrow> console" where
  "prompt path c =
     (let c = put (vga_set_color COLOR_GREEN COLOR_BLACK) c;
          c = puts ''Kernel:'' c;
          c = put (vga_set_color COLOR_LIGHT_CYAN COLOR_BLACK) c;
          c = put (vga_puts path) c;
          c = put (vga_set_color COLOR_WHITE COLOR_BLACK) c
      in puts ''> '' c)"

definition putcs :: "u8 list \<Rightarrow> console \<Rightarrow> console" where
  "putcs bs = put (fold vga_putc bs)"

definition erase :: "nat \<Rightarrow> console \<Rightarrow> console" where
  "erase n = (putcs [0x08, 0x20, 0x08]) ^^ n"

text \<open>The bytes \<open>buf[a]\<close>, ..., \<open>buf[b - 1]\<close> that a loop prints.\<close>

definition bytes_between :: "u8 list \<Rightarrow> nat \<Rightarrow> int \<Rightarrow> stop + u8 list" where
  "bytes_between buf a b =
     (if int a < b then guardr (nat b \<le> length buf) Fault (Inr (take (nat b - a) (drop a buf))) else Inr [])"

text \<open>The part of the ENTER branch that records the line.\<close>

definition khistory_add :: "str_ops \<Rightarrow> u8 list \<Rightarrow> 'd kern \<Rightarrow> stop + 'd kern" where
  "khistory_add S line k =
     bindr (if g_history_count k = 0 then Inr 1
            else bindr (rd (g_history k) ((g_history_count k - 1) mod MAX_HISTORY)) (\<lambda>l. orelse (op_strcmp S l line) Fault)) (\<lambda>d.
     if d = 0 then Inr k
     else if g_history_count k < MAX_HISTORY then
       bindr (rd (g_history k) (g_history_count k)) (\<lambda>row.
       bindr (orelse (op_strcpy S row line) Fault) (\<lambda>row.
         Inr (k\<lparr>g_history := (g_history k)[g_history_count k := row], g_history_count := g_history_count k + 1\<rparr>)))
     else
       bindr (orelse (scroll (op_strcpy S) (g_history k)) Fault) (\<lambda>h.
       bindr (rd h (MAX_HISTORY - 1)) (\<lambda>row.
       bindr (orelse (op_strcpy S row line) Fault) (\<lambda>row. Inr (k\<lparr>g_history := h[MAX_HISTORY - 1 := row]\<rparr>)))))"

text \<open>ENTER, once the line in \<open>input_buffer\<close> is terminated: \<open>b\<close> is the buffer.\<close>

definition run_line :: "'d world \<Rightarrow> u8 list \<Rightarrow> 'd kern \<Rightarrow> stop + kout \<times> 'd kern" where
  "run_line W b k =
     (let k = kcon (puts newline) (k\<lparr>input_buffer := b\<rparr>) in
      bindr (if 0 < shell_pos k then khistory_add (w_str W) b k else Inr k) (\<lambda>k.
      bindr (handle_command W b (k\<lparr>g_history_idx := int (g_history_count k)\<rparr>)) (\<lambda>(r, k).
        case r of To_user e s \<Rightarrow> Inr (r, k)
        | Returned \<Rightarrow>
            Inr (Returned, kcon (prompt (g_cwd_path (vol k)))
              (k\<lparr>shell_pos := 0, shell_len := 0, input_buffer := replicate SHELL_BUF_SIZE 0\<rparr>)))))"

definition key_enter :: "'d world \<Rightarrow> 'd kern \<Rightarrow> stop + kout \<times> 'd kern" where
  "key_enter W k = bindr (wr (input_buffer k) (shell_pos k) 0) (\<lambda>b. run_line W b k)"

text \<open>The history line \<open>i\<close> is loaded into the buffer; \<open>shell_len\<close> is not changed.\<close>

definition load_line :: "'d world \<Rightarrow> int \<Rightarrow> 'd kern \<Rightarrow> stop + 'd kern" where
  "load_line W i k =
     guardr (0 \<le> i) Fault (
     bindr (rd (g_history k) (nat i)) (\<lambda>h.
     bindr (orelse (op_strcpy (w_str W) (input_buffer k) h) Fault) (\<lambda>b.
     bindr (orelse (op_strlen (w_str W) b) Fault) (\<lambda>n.
       Inr (kcon (put (vga_puts b)) (k\<lparr>input_buffer := b, shell_pos := n, g_history_idx := i\<rparr>))))))"

definition key_up :: "'d world \<Rightarrow> 'd kern \<Rightarrow> stop + 'd kern" where
  "key_up W k =
     (if 0 < g_history_count k \<and> 0 < g_history_idx k
      then load_line W (g_history_idx k - 1) (kcon (erase (shell_pos k)) k) else Inr k)"

definition key_down :: "'d world \<Rightarrow> 'd kern \<Rightarrow> stop + 'd kern" where
  "key_down W k =
     (if g_history_idx k < int (g_history_count k) then
        let k = kcon (erase (shell_pos k)) k; i = g_history_idx k + 1 in
        if i = int (g_history_count k) then
          bindr (wr (input_buffer k) 0 0) (\<lambda>b. Inr (k\<lparr>input_buffer := b, shell_pos := 0, g_history_idx := i\<rparr>))
        else load_line W i k
      else Inr k)"

definition key_backspace :: "'d kern \<Rightarrow> stop + 'd kern" where
  "key_backspace k =
     (if 0 < shell_pos k then
        let p = shell_pos k - 1; n = shell_len k - 1 in
        bindr (shift_down p (nat n) (input_buffer k)) (\<lambda>b.
        bindr (bytes_between b p n) (\<lambda>shown.
          Inr (kcon (putcs (0x08 # shown @ 0x20 # replicate (nat (n + 1 - int p)) 0x08))
            (k\<lparr>input_buffer := b, shell_pos := p, shell_len := n\<rparr>))))
      else Inr k)"

definition key_left :: "'d kern \<Rightarrow> stop + 'd kern" where
  "key_left k = Inr (if 0 < shell_pos k then kcon (putcs [0x08]) (k\<lparr>shell_pos := shell_pos k - 1\<rparr>) else k)"

definition key_right :: "'d kern \<Rightarrow> stop + 'd kern" where
  "key_right k =
     (if int (shell_pos k) < shell_len k then
        bindr (rd (input_buffer k) (shell_pos k)) (\<lambda>c. Inr (kcon (putcs [c]) (k\<lparr>shell_pos := shell_pos k + 1\<rparr>)))
      else Inr k)"

definition key_insert :: "u8 \<Rightarrow> 'd kern \<Rightarrow> stop + 'd kern" where
  "key_insert c k =
     (if shell_len k < int SHELL_BUF_SIZE - 1 then
        let p = shell_pos k; n = shell_len k + 1 in
        bindr (bindr (shift_up p (nat (shell_len k)) (input_buffer k)) (\<lambda>b. wr b p c)) (\<lambda>b.
        bindr (bytes_between b p n) (\<lambda>shown.
          Inr (kcon (putcs (shown @ replicate (nat (n - int (p + 1))) 0x08))
            (k\<lparr>input_buffer := b, shell_pos := p + 1, shell_len := n\<rparr>))))
      else Inr k)"

definition stay :: "stop + 'd kern \<Rightarrow> stop + kout \<times> 'd kern" where
  "stay m = bindr m (\<lambda>k. Inr (Returned, k))"

definition shell_key :: "'d world \<Rightarrow> u8 \<Rightarrow> 'd kern \<Rightarrow> stop + kout \<times> 'd kern" where
  "shell_key W c k =
     (if c = 0x0A then key_enter W k
      else if c = 0x11 then stay (key_up W k)
      else if c = 0x12 then stay (key_down W k)
      else if c = 0x08 then stay (key_backspace k)
      else if c = 0x13 then stay (key_left k)
      else if c = 0x14 then stay (key_right k)
      else stay (key_insert c k))"

definition shell_start :: "'d kern \<Rightarrow> 'd kern" where
  "shell_start k =
     (if g_shell_needs_reset k
      then kcon (prompt (g_cwd_path (vol k)) \<circ> puts newline)
        (k\<lparr>g_shell_needs_reset := False, shell_pos := 0, shell_len := 0, input_buffer := replicate SHELL_BUF_SIZE 0\<rparr>)
      else k)"

text \<open>
  The endless loop of \<open>shell_loop\<close>, cut off after \<open>n\<close> keys; it can also end by leaving for
  ring 3.
\<close>

fun shell_rounds :: "'d world \<Rightarrow> nat \<Rightarrow> 'd kern \<Rightarrow> stop + kout \<times> 'd kern" where
  "shell_rounds W 0 k = Inr (Returned, k)"
| "shell_rounds W (Suc n) k =
     bindr (wait_key (kkeys k)) (\<lambda>(c, ks).
     bindr (shell_key W c (k\<lparr>kkeys := ks\<rparr>)) (\<lambda>(r, k).
       case r of To_user e s \<Rightarrow> Inr (r, k) | Returned \<Rightarrow> shell_rounds W n k))"

definition shell_loop :: "'d world \<Rightarrow> nat \<Rightarrow> 'd kern \<Rightarrow> stop + kout \<times> 'd kern" where
  "shell_loop W n k = shell_rounds W n (shell_start k)"

definition run_shell :: "'d world \<Rightarrow> nat \<Rightarrow> 'd kern \<Rightarrow> stop + kout \<times> 'd kern" where
  "run_shell W n k =
     shell_loop W n (kcon (prompt (lit ''/'') \<circ> puts (''Welcome to Kernel Shell '' @ newline) \<circ>
       put (vga_set_color COLOR_YELLOW COLOR_BLACK)) k)"

end
