(* ===== verification/Boot.thy ===== *)
theory Boot
  imports Kernel_Shell
begin

text \<open>
  \<open>kmain\<close> of \<^verbatim>\<open>src/kernel/main.c\<close>: the order in which the components are brought up, the checks on
  the volume, and the ways in which booting ends.

  The kernel state is the one of the shell. All port accesses go to one device \<open>dev (vol k)\<close>,
  so what the serial port and the interrupt controllers are told is seen by the drive, too.
\<close>

section \<open>Model\<close>

datatype boot_end = Panicked | Spinning

text \<open>What \<open>ata_init\<close> prints.\<close>

definition ata_messages :: "ata_error + unit \<Rightarrow> console \<Rightarrow> console" where
  "ata_messages r c =
     (let c = dbg_msg ''ata'' ''initializing controller'' c in
      case r of
        Inl InitTimedOut \<Rightarrow> dbg_msg ''ata'' ''initialization timed out'' c
      | Inl NoDevice \<Rightarrow> dbg_msg ''ata'' ''no device detected (bus floating)'' c
      | Inl DeviceError \<Rightarrow> dbg_msg ''ata'' ''device reported error during init'' c
      | Inl DriveNotReady \<Rightarrow> dbg_msg ''ata'' ''drive not ready (DRDY timeout)'' c
      | Inr _ \<Rightarrow> dbg_msg ''ata'' ''device detected and ready'' c)"

text \<open>What \<open>memory_init\<close> and the \<open>heap_init\<close> that it calls print; \<open>s\<close> is the state before, \<open>s'\<close> the one after.\<close>

definition memory_messages :: "link_map \<Rightarrow> u32 \<Rightarrow> u32 \<Rightarrow> mm \<Rightarrow> mm \<Rightarrow> console \<Rightarrow> console" where
  "memory_messages L mb_magic mb_info_addr s s' c =
     (if g_paging_ready s then c
      else
        let c = dbg_msg ''mm'' ''initializing memory subsystem'' c;
            c = dbg_kv ''mm'' ''mb_magic'' mb_magic c;
            c = dbg_kv ''mm'' ''mb_info'' mb_info_addr c;
            c = (if g_heap_ready s then c
                 else dbg_kv ''mm'' ''heap_size'' HEAP_SIZE (dbg_kv ''mm'' ''heap_base'' (g_heap_at L) c));
            c = dbg_kv ''mm'' ''total_bytes'' (g_total_memory_bytes s') c
        in dbg_kv ''mm'' ''frames'' (g_total_frames s') c)"

definition kpanic :: "string \<Rightarrow> 'd kern \<Rightarrow> stop + boot_end \<times> 'd kern" where
  "kpanic msg k = Inr (Panicked, kcon (panic (str msg)) (k\<lparr>kkeys := (kkeys k)\<lparr>iflag := False\<rparr>\<rparr>))"

text \<open>The store through the pointer \<open>0xB8000\<close>: the first cell of the screen.\<close>

definition poke_screen :: "vga \<Rightarrow> vga" where
  "poke_screen v = v\<lparr>video_mem := (video_mem v)[0 := 0x4F41]\<rparr>"

text \<open>From \<open>serial_init\<close> to the end of \<open>memory_init\<close>.\<close>

definition boot_tables :: "'d world \<Rightarrow> u32 \<Rightarrow> u32 \<Rightarrow> 'd kern \<Rightarrow> stop + 'd kern" where
  "boot_tables W mb_magic mb_info_addr k =
     (let k = k\<lparr>vol := (vol k)\<lparr>dev := serial_init (w_ports W) (dev (vol k))\<rparr>\<rparr>;
          k = kcon (put clear_screen) k;
          k = k\<lparr>tabs := gdt_init (w_desc W) (tabs k)\<rparr>;
          k = kcon (dbg_msg ''boot'' ''gdt initialized'') k;
          (t, d) = idt_init (w_ports W) (w_desc W) (tabs k, dev (vol k));
          k = k\<lparr>tabs := t, vol := (vol k)\<lparr>dev := d\<rparr>\<rparr>;
          k = kcon (dbg_msg ''boot'' ''idt initialized'') k
      in bindr (orelse (memory_init (w_link W) mb_magic mb_info_addr (kmm (vol k))) Hang) (\<lambda>s.
           Inr (kcon (dbg_msg ''boot'' ''kernel booting'' \<circ> memory_messages (w_link W) mb_magic mb_info_addr (kmm (vol k)) s)
             (k\<lparr>vol := (vol k)\<lparr>kmm := s\<rparr>\<rparr>))))"

text \<open>The body of the test for the magic number; \<open>sb\<close> is the superblock that was read.\<close>

definition boot_volume :: "'d world \<Rightarrow> ext2_superblock \<Rightarrow> 'd kern \<Rightarrow> stop + boot_end \<times> 'd kern" where
  "boot_volume W sb k =
     (let k = kcon (dbg_msg ''fs'' ''ext2 magic ok'') k in
      bindr (onvol (fs_init sb) k) (\<lambda>k.
      let k = kcon (dbg_kv ''fs'' ''superblock_block_size'' (push_bit (unat (s_log_block_size sb)) 1024)) k;
          k = kcon (dbg_kv ''fs'' ''first_data_block'' (s_first_data_block sb)) k;
          k = kcon (dbg_kv ''fs'' ''runtime_block_size'' (g_block_size (vol k))) k;
          fs_gdt_block_id = s_first_data_block sb + 1
      in bindr (read_fs_block (w_ports W) fs_gdt_block_id (vol k)) (\<lambda>(bs, s).
         bindr (into (replicate 4096 0) bs) (\<lambda>gdt_buffer.
         let gdt0 = read_group_desc gdt_buffer;
             k = k\<lparr>vol := s\<lparr>fs_gdt := Some gdt0, g_sb := Some sb\<rparr>\<rparr>;
             k = kcon (dbg_kv ''fs'' ''fs_gdt_addr'' (fs_gdt_at W)) k;
             k = kcon (dbg_kv ''fs'' ''fs_gdt_value'' (gdt_buffer_at W)) k;
             k = kcon (dbg_kv ''fs'' ''gdt0_inode_table'' (bg_inode_table gdt0)) k
         in if bg_inode_table gdt0 = 0 \<or> 0x10000 < bg_inode_table gdt0 then
              Inr (Spinning, kcon (dbg_msg ''fs'' ''fatal: gdt corrupted or wrong buffer offset'') k)
            else bindr (get_inode (w_ports W) (w_junk W) 2 (vol k)) (\<lambda>(root_inode, s).
              let k = k\<lparr>vol := s\<rparr> in
              if i_mode root_inode AND 0xF000 = 0x4000 then
                let k = kcon (dbg_msg ''fs'' ''root inode is a directory'') k;
                    k = vfs_init W k;
                    k = kcon (dbg_msg ''fs'' ''vfs initialized'') k;
                    k = kcon (dbg_msg ''boot'' ''interrupts enabled'') k;
                    k = k\<lparr>kkeys := (kkeys k)\<lparr>iflag := True\<rparr>\<rparr>
                in bindr (auto_enter_user_mode W k) (\<lambda>k. Inr (Spinning, k))
              else kpanic ''Filesystem Error'' (kcon (dbg_kv ''fs'' ''root_inode_mode'' (ucast (i_mode root_inode))) k))))))"

definition kmain :: "'d world \<Rightarrow> u32 \<Rightarrow> u32 \<Rightarrow> 'd kern \<Rightarrow> stop + boot_end \<times> 'd kern" where
  "kmain W mb_magic mb_info_addr k =
     (let k = kcon (dbg_msg ''boot'' ''kmain entry'') k;
          k = kcon (dbg_kv ''boot'' ''mb_magic'' mb_magic) k;
          k = kcon (dbg_kv ''boot'' ''mb_info'' mb_info_addr) k;
          k = kcon (put poke_screen) k;
          (r, d) = ata_init (w_ports W) (dev (vol k));
          k = kcon (ata_messages r) (k\<lparr>vol := (vol k)\<lparr>dev := d\<rparr>\<rparr>)
      in if isl r then kpanic ''ATA subsystem failed to initialize.'' k
         else
           bindr (parse_init_cmdline mb_info_addr (k\<lparr>g_mb_info_addr := mb_info_addr\<rparr>)) (\<lambda>k.
           bindr (boot_tables W mb_magic mb_info_addr k) (\<lambda>k.
           bindr (onvol (probe_ext2_partition (w_ports W)) k) (\<lambda>k.
           bindr (orelse (disk_read (w_ports W) (ext2_start_lba (vol k) + 2) 2 (dev (vol k))) Hang) (\<lambda>(bs, d).
           bindr (into (replicate 1024 0) bs) (\<lambda>sb_buffer.
           let k = kcon (dbg_msg ''fs'' ''superblock read complete'') (k\<lparr>vol := (vol k)\<lparr>dev := d\<rparr>\<rparr>);
               sb = read_superblock sb_buffer
           in if s_magic sb = 0xEF53 then boot_volume W sb k
              else kpanic ''Error: Not an Ext2 filesystem (Magic mismatch).'' k))))))"

end
