(* ===== verification/Kernel_Shell_Props.thy ===== *)
theory Kernel_Shell_Props
  imports Kernel_Shell Ext2_Image Trap_Props
begin

text \<open>
  Properties of the kernel shell: its line editor against a text with a cursor, its history, its
  buffer overflow, its command dispatch, and the boot command line.
\<close>

section \<open>The line editor\<close>

definition kedit_key :: "u8 \<Rightarrow> cursor_text \<Rightarrow> cursor_text" where
  "kedit_key c = (\<lambda>(b, a).
     if c = 0x08 then (butlast b, a)
     else if c = 0x13 then (if b = [] then (b, a) else (butlast b, last b # a))
     else if c = 0x14 then (case a of [] \<Rightarrow> (b, a) | x # a' \<Rightarrow> (b @ [x], a'))
     else if length b + length a < 255 then (b @ [c], a) else (b, a))"

definition shell_text :: "'d kern \<Rightarrow> cursor_text \<Rightarrow> bool" where
  "shell_text k t \<longleftrightarrow> length (input_buffer k) = 256 \<and> 0 \<le> shell_len k \<and>
     shows_text (input_buffer k) (shell_pos k) (nat (shell_len k)) t"

fun shell_keys :: "'d world \<Rightarrow> u8 list \<Rightarrow> 'd kern \<Rightarrow> stop + kout \<times> 'd kern" where
  "shell_keys W [] k = Inr (Returned, k)"
| "shell_keys W (c # cs) k =
     bindr (shell_key W c k) (\<lambda>(r, k). case r of To_user e s \<Rightarrow> Inr (r, k) | Returned \<Rightarrow> shell_keys W cs k)"

lemma bytes_between_ok: "b \<le> int (length buf) \<Longrightarrow> \<exists>bs. bytes_between buf a b = Inr bs"
  by (auto simp: bytes_between_def guardr_def)

lemma key_insert_ok:
  assumes "shell_text k (b, a)"
  shows "\<exists>k'. key_insert c k = Inr k' \<and> shell_text k' (if length b + length a < 255 then (b @ [c], a) else (b, a))"
proof -
  have t: "length (input_buffer k) = 256" "0 \<le> shell_len k" "shows_text (input_buffer k) (shell_pos k) (nat (shell_len k)) (b, a)"
    using assms by (auto simp: shell_text_def)
  note d = shows_textD [OF t(3)]
  show ?thesis
  proof (cases "shell_len k < 255")
    case True
    obtain b' where b': "bindr (shift_up (shell_pos k) (nat (shell_len k)) (input_buffer k)) (\<lambda>x. wr x (shell_pos k) c) = Inr b'"
      "length b' = 256" "shows_text b' (Suc (shell_pos k)) (Suc (nat (shell_len k))) (b @ [c], a)"
      using insert_text [OF t(3), of c] t(1) nat_less_iff [OF t(2), of 255] True by auto
    obtain bs where "bytes_between b' (shell_pos k) (shell_len k + 1) = Inr bs"
      using bytes_between_ok [of "shell_len k + 1" b'] b'(2) True by auto
    with b' True t(2) d(2) show ?thesis
      by (auto simp: key_insert_def Let_def shell_text_def nat_add_distrib)
  next
    case False
    then have "\<not> length b + length a < 255" using d(2) t(2) by linarith
    with False assms show ?thesis by (auto simp: key_insert_def)
  qed
qed

lemma key_backspace_ok:
  assumes "shell_text k (b, a)"
  shows "\<exists>k'. key_backspace k = Inr k' \<and> shell_text k' (butlast b, a)"
proof -
  have t: "length (input_buffer k) = 256" "0 \<le> shell_len k" "shows_text (input_buffer k) (shell_pos k) (nat (shell_len k)) (b, a)"
    using assms by (auto simp: shell_text_def)
  note d = shows_textD [OF t(3)]
  show ?thesis
  proof (cases "0 < shell_pos k")
    case True
    have n: "nat (shell_len k) - 1 = nat (shell_len k - 1)" "0 \<le> shell_len k - 1" using True d(1,2) t(2) by linarith+
    obtain b' where b': "shift_down (shell_pos k - 1) (nat (shell_len k - 1)) (input_buffer k) = Inr b'"
      "length b' = 256" "shows_text b' (shell_pos k - 1) (nat (shell_len k - 1)) (butlast b, a)"
      using delete_text [OF t(3) True] t(1) unfolding n(1) by auto
    obtain bs where "bytes_between b' (shell_pos k - 1) (shell_len k - 1) = Inr bs"
      using bytes_between_ok [of "shell_len k - 1" b'] b'(2) d(3) t(1,2) by fastforce
    with b' True n(2) show ?thesis by (auto simp: key_backspace_def Let_def shell_text_def)
  next
    case False
    then have "b = []" using d(1) by simp
    with False assms show ?thesis by (auto simp: key_backspace_def)
  qed
qed

lemma key_moves_ok:
  assumes "shell_text k (b, a)"
  shows "\<exists>k'. key_left k = Inr k' \<and> shell_text k' (if b = [] then (b, a) else (butlast b, last b # a))"
    and "\<exists>k'. key_right k = Inr k' \<and> shell_text k' (case a of [] \<Rightarrow> (b, a) | x # a' \<Rightarrow> (b @ [x], a'))"
proof -
  have t: "length (input_buffer k) = 256" "0 \<le> shell_len k" "shows_text (input_buffer k) (shell_pos k) (nat (shell_len k)) (b, a)"
    using assms by (auto simp: shell_text_def)
  note d = shows_textD [OF t(3)]
  show "\<exists>k'. key_left k = Inr k' \<and> shell_text k' (if b = [] then (b, a) else (butlast b, last b # a))"
    using assms d(1) by (auto simp: key_left_def shell_text_def shows_text_def)
  show "\<exists>k'. key_right k = Inr k' \<and> shell_text k' (case a of [] \<Rightarrow> (b, a) | x # a' \<Rightarrow> (b @ [x], a'))"
  proof (cases a)
    case Nil
    then have "\<not> int (shell_pos k) < shell_len k" using d(1,2) t(2) by simp
    then show ?thesis using assms Nil by (auto simp: key_right_def)
  next
    case (Cons x a')
    then have "int (shell_pos k) < shell_len k" "shell_pos k < 256" using d(1-3) t(1,2) by auto
    then show ?thesis using assms Cons t(1) by (auto simp: key_right_def shell_text_def shows_text_def)
  qed
qed

lemma shell_key_edits:
  assumes "shell_text k t" and "c \<notin> {0x0A, 0x11, 0x12}"
  shows "\<exists>k'. shell_key W c k = Inr (Returned, k') \<and> shell_text k' (kedit_key c t)"
proof -
  obtain b a where t: "t = (b, a)" by fastforce
  from key_insert_ok [of k b a c] key_backspace_ok [of k b a] key_moves_ok [of k b a] assms
  show ?thesis unfolding t kedit_key_def shell_key_def stay_def by (auto split: if_splits)
qed

text \<open>
  C18: Typing, backspace and the left and right keys keep the line buffer of the kernel shell in
  step with a text with a cursor, and never leave the 256-byte array. ENTER then runs the part of
  the text before the cursor only; what stands behind the cursor is dropped.
\<close>

theorem kernel_editor_correct:
  assumes "shell_text k t" and "set cs \<inter> {0, 0x0A, 0x11, 0x12} = {}" and "0 \<notin> set (fst t)" and "0 \<notin> set (snd t)"
  shows "\<exists>k' cmd. shell_keys W cs k = Inr (Returned, k') \<and> shell_text k' (fold kedit_key cs t) \<and>
    shell_key W 0x0A k' = run_line W cmd k' \<and> cstr cmd = fst (fold kedit_key cs t)"
  using assms
proof (induction cs arbitrary: k t)
  case Nil
  obtain b a where t: "t = (b, a)" by fastforce
  have s: "shows_text (input_buffer k) (shell_pos k) (nat (shell_len k)) (b, a)"
    using Nil(1) t by (auto simp: shell_text_def)
  note d = shows_textD [OF s]
  have p: "shell_pos k < length (input_buffer k)" using d(1-3) by linarith
  then have "(input_buffer k)[shell_pos k := 0] = b @ 0 # drop (Suc (shell_pos k)) (input_buffer k)"
    using d(4) by (simp add: upd_conv_take_nth_drop)
  then show ?case using Nil t p by (auto simp: shell_key_def key_enter_def)
next
  case (Cons c cs)
  then obtain k1 where k1: "shell_key W c k = Inr (Returned, k1)" "shell_text k1 (kedit_key c t)"
    using shell_key_edits [of k t c W] by auto
  have "0 \<notin> set (fst (kedit_key c t)) \<and> 0 \<notin> set (snd (kedit_key c t))"
    using Cons.prems(2-4) by (cases t) (auto simp: kedit_key_def dest: in_set_butlastD last_in_set split: list.splits)
  with Cons.IH [OF k1(2)] Cons.prems(2) k1(1) show ?case by simp
qed

section \<open>History\<close>

definition khist_wf :: "'d kern \<Rightarrow> bool" where
  "khist_wf k \<longleftrightarrow> rows_wf 256 30 (g_history k) (g_history_count k)"

definition khist_entries :: "'d kern \<Rightarrow> u8 list list" where
  "khist_entries k = lines_of (g_history k) (g_history_count k)"

text \<open>ENTER records a line only when it is not empty.\<close>

definition record_line :: "str_ops \<Rightarrow> u8 list \<Rightarrow> 'd kern \<Rightarrow> stop + 'd kern" where
  "record_line S line k = (if hd line = 0 then Inr k else khistory_add S line k)"

lemma khist_last:
  assumes "khist_wf k" and "0 < g_history_count k"
  shows "(g_history_count k - 1) mod 30 < length (g_history k)" "0 \<in> set (g_history k ! ((g_history_count k - 1) mod 30))"
    "khist_entries k \<noteq> []" "last (khist_entries k) = cstr (g_history k ! ((g_history_count k - 1) mod 30))"
proof -
  have c: "g_history_count k \<le> length (g_history k)" "g_history_count k \<le> 30"
    using assms(1) by (simp_all add: khist_wf_def rows_wf_def)
  then have m: "(g_history_count k - 1) mod 30 = g_history_count k - 1" using assms(2) by simp
  show l: "(g_history_count k - 1) mod 30 < length (g_history k)" using c assms(2) unfolding m by linarith
  have "g_history k ! (g_history_count k - 1) \<in> set (take (g_history_count k) (g_history k))"
    using c assms(2) by (auto simp: in_set_conv_nth intro!: exI [of _ "g_history_count k - 1"])
  then show "0 \<in> set (g_history k ! ((g_history_count k - 1) mod 30))"
    using assms(1) unfolding m by (auto simp: khist_wf_def rows_wf_def row_ok_def)
  show ne: "khist_entries k \<noteq> []" using c assms(2) by (auto simp: khist_entries_def lines_of_def)
  show "last (khist_entries k) = cstr (g_history k ! ((g_history_count k - 1) mod 30))"
    unfolding m last_conv_nth [OF ne] using c assms(2) by (simp add: khist_entries_def lines_of_def min_def)
qed

context c_strings
begin

abbreviation ops :: str_ops where
  "ops \<equiv> \<lparr>op_strlen = slen, op_strcmp = scmp, op_strncmp = sncmp, op_strcpy = scpy\<rparr>"

lemma record_line_ok:
  assumes wf: "khist_wf k" and l: "0 \<in> set line" "length (cstr line) < 256"
  shows "\<exists>k'. record_line ops line k = Inr k' \<and> khist_wf k' \<and> khist_entries k' = hist_add 30 (cstr line) (khist_entries k)"
proof -
  obtain c line' where ln: "line = c # line'" using l(1) by (cases line) auto
  have len: "length (g_history k) = 30" "g_history_count k \<le> 30" "length (khist_entries k) = g_history_count k"
    using wf by (auto simp: khist_wf_def rows_wf_def khist_entries_def lines_of_def)
  have rw: "rows_wf 256 30 (g_history k) (g_history_count k)" using wf by (simp add: khist_wf_def)
  have cmp: "\<exists>d. (if g_history_count k = 0 then Inr 1
        else bindr (rd (g_history k) ((g_history_count k - 1) mod 30)) (\<lambda>l. orelse (scmp l line) Fault)) = Inr d \<and>
      (d = 0 \<longleftrightarrow> khist_entries k \<noteq> [] \<and> last (khist_entries k) = cstr line)"
  proof (cases "g_history_count k = 0")
    case True
    then show ?thesis by (simp add: khist_entries_def lines_of_def)
  next
    case False
    note h = khist_last [OF wf, simplified neq0_conv [symmetric], OF False]
    from scmp_ok [OF h(2) l(1)] h False show ?thesis by auto
  qed
  then obtain d where d: "(if g_history_count k = 0 then Inr 1
        else bindr (rd (g_history k) ((g_history_count k - 1) mod 30)) (\<lambda>l. orelse (scmp l line) Fault)) = Inr d"
    "d = 0 \<longleftrightarrow> khist_entries k \<noteq> [] \<and> last (khist_entries k) = cstr line" by blast
  consider "c = 0" | "c \<noteq> 0" "d = 0" | "c \<noteq> 0" "d \<noteq> 0" "g_history_count k < 30" | "c \<noteq> 0" "d \<noteq> 0" "g_history_count k = 30"
    using len(2) by linarith
  then show ?thesis
  proof cases
    case 1 then show ?thesis using wf ln by (auto simp: record_line_def hist_add_def)
  next
    case 2 then show ?thesis using wf ln d by (auto simp: record_line_def khistory_add_def hist_add_def)
  next
    case 3
    obtain r where "scpy (g_history k ! g_history_count k) line = Some r"
      "rows_wf 256 30 ((g_history k)[g_history_count k := r]) (Suc (g_history_count k))"
      "lines_of ((g_history k)[g_history_count k := r]) (Suc (g_history_count k)) = khist_entries k @ [cstr line]"
      using append_line [OF rw 3(3) l] by (auto simp: khist_entries_def)
    then show ?thesis using 3 d len ln
      by (auto simp: record_line_def khistory_add_def hist_add_def khist_wf_def khist_entries_def)
  next
    case 4
    obtain rows' r where "scroll scpy (g_history k) = Some rows'" "length rows' = 30" "scpy (rows' ! 29) line = Some r"
      "rows_wf 256 30 (rows'[29 := r]) 30" "lines_of (rows'[29 := r]) 30 = tl (khist_entries k) @ [cstr line]"
      using scroll_line [OF rw [unfolded 4(3)] _ l] 4(3) by (auto simp: khist_entries_def)
    then show ?thesis using 4 d len ln
      by (auto simp: record_line_def khistory_add_def hist_add_def khist_wf_def khist_entries_def)
  qed
qed

end

sublocale c_strings \<subseteq> kh: line_history khist_wf khist_entries "record_line ops" 30 256
  by unfold_locales (simp, rule record_line_ok)

section \<open>Recalled lines\<close>

text \<open>
  C36: Recalling a line sets the cursor but not the length of the line, and typing tests the length
  only. After recalling a line of 255 bytes, the second key typed is stored
  outside the 256-byte line buffer.
\<close>

theorem kernel_shell_overruns_line:
  assumes S: "string_lib (w_str W)" and b: "length (input_buffer k) = 256" and wf: "khist_wf k"
    and idx: "0 < g_history_count k" "g_history_idx k = int (g_history_count k)"
    and full: "length (cstr (g_history k ! (g_history_count k - 1))) = 255" and len: "shell_len k = 0"
    and c: "{c, c'} \<inter> {0x0A, 0x11, 0x12, 0x08, 0x13, 0x14} = {}"
  shows "shell_keys W [0x11, c, c'] k = Inl Fault"
proof -
  let ?n = "g_history_count k - 1" let ?h = "g_history k ! (g_history_count k - 1)"
  have n: "?n < length (g_history k)" "g_history_count k \<le> 30" using wf idx(1) by (auto simp: khist_wf_def rows_wf_def)
  have z: "0 \<in> set ?h" using khist_last(2) [OF wf idx(1)] n idx(1) by simp
  have cp: "op_strcpy (w_str W) (input_buffer k) ?h = Some (cstr ?h @ 0 # drop 256 (input_buffer k))"
    using c_strings.scpy_ok [OF S z, of "input_buffer k"] full b by simp
  have sl: "op_strlen (w_str W) (cstr ?h @ 0 # drop 256 (input_buffer k)) = Some 255"
    using c_strings.slen_ok [OF S, of "cstr ?h @ 0 # drop 256 (input_buffer k)"] full by simp
  define b1 where "b1 = cstr ?h @ [0]"
  have b1: "length b1 = 256" using full by (simp add: b1_def)
  have i: "nat (g_history_idx k - 1) = ?n" "0 \<le> g_history_idx k - 1" "0 < g_history_idx k" using idx by simp_all
  obtain k1 where k1: "key_up W k = Inr k1" "input_buffer k1 = b1" "shell_pos k1 = 255" "shell_len k1 = 0"
    using n i idx(1) cp sl b len by (auto simp: key_up_def load_line_def b1_def)
  obtain k2 where k2: "key_insert c k1 = Inr k2" "length (input_buffer k2) = 256" "shell_pos k2 = 256" "shell_len k2 = 1"
    using k1 b1 by (auto simp: key_insert_def Let_def shift_up.simps bytes_between_def)
  have "key_insert c' k2 = Inl Fault"
    using k2 by (simp add: key_insert_def Let_def shift_up.simps wr_def)
  then show ?thesis using k1(1) k2(1) c by (simp add: shell_key_def stay_def)
qed

section \<open>Commands\<close>

lemma cmd_eq_lib:
  assumes "string_lib (w_str W)" and "0 \<in> set cmd" and "0 \<notin> set (str s)"
  shows "cmd_eq W cmd s = Inr (cstr cmd = str s)"
  using c_strings.keyword [OF assms] by (auto simp: cmd_eq_def)

lemma cmd_starts_lib:
  assumes "string_lib (w_str W)" and "0 \<in> set cmd" and "0 \<notin> set (str s)"
  shows "cmd_starts W cmd s = Inr (take (length s) (cstr cmd) = str s)"
proof -
  obtain r where r: "op_strncmp (w_str W) cmd (lit s) (length s) = Some r"
    "r = 0 \<longleftrightarrow> cstr (take (length s) cmd) = cstr (take (length s) (lit s))"
    using c_strings.sncmp_ok [OF assms(1), of cmd "length s" "lit s"] assms(2) by auto
  have "cstr (take n xs) = take n (cstr xs)" for n and xs :: "u8 list"
    by (induction xs arbitrary: n) (auto simp: take_Cons' cstr_def)
  then show ?thesis using r assms(3) by (simp add: cmd_starts_def cstr_id)
qed

text \<open>What the code outside the repository must not do: change \<open>g_cwd_inode\<close>.\<close>

definition keeps_cwd :: "'d world \<Rightarrow> bool" where
  "keeps_cwd W \<longleftrightarrow>
     (\<forall>n k r k'. load_elf_program_from_inode W n k = Inr (r, k') \<longrightarrow> g_cwd_inode k' = g_cwd_inode k) \<and>
     (\<forall>e t k k'. task_create W e t k = Inr k' \<longrightarrow> g_cwd_inode k' = g_cwd_inode k)"

lemma run_file_cwd:
  assumes "keeps_cwd W" and "run_user_program_from_file W f k = Inr (r, k')"
  shows "g_cwd_inode k' = g_cwd_inode k"
  using assms unfolding keeps_cwd_def run_user_program_from_file_def Let_def
  by (auto simp: bindr_eq_Inr report_error_def split: if_splits)

lemma ifr_eq_InrE: "ifr b x y = Inr z \<Longrightarrow> (x = Inr z \<Longrightarrow> P) \<Longrightarrow> (y = Inr z \<Longrightarrow> P) \<Longrightarrow> P"
  by (auto simp: ifr_def bindr_eq_Inr split: if_splits)

lemma handle_command_cwd:
  assumes "keeps_cwd W" and "handle_command W cmd k = Inr (r, k')"
  shows "g_cwd_inode k' = g_cwd_inode k"
  using assms(2) unfolding handle_command_def Let_def
  by (elim ifr_eq_InrE)
    (auto simp: bindr_eq_Inr onvol_def run_user_program_at_def report_error_def
      dest: run_file_cwd [OF assms(1)] elim!: ifr_eq_InrE split: if_splits)

lemma load_line_cwd: "load_line W i k = Inr k' \<Longrightarrow> g_cwd_inode k' = g_cwd_inode k"
  by (auto simp: load_line_def guardr_def bindr_eq_Inr split: if_splits)

lemma history_cwd: "khistory_add S l k = Inr k' \<Longrightarrow> g_cwd_inode k' = g_cwd_inode k"
  by (auto simp: khistory_add_def bindr_eq_Inr split: if_splits)

lemma edit_cwd:
  "key_up W k = Inr k' \<Longrightarrow> g_cwd_inode k' = g_cwd_inode k"
  "key_down W k = Inr k' \<Longrightarrow> g_cwd_inode k' = g_cwd_inode k"
  "key_backspace k = Inr k' \<Longrightarrow> g_cwd_inode k' = g_cwd_inode k"
  "key_left k = Inr k' \<Longrightarrow> g_cwd_inode k' = g_cwd_inode k"
  "key_right k = Inr k' \<Longrightarrow> g_cwd_inode k' = g_cwd_inode k"
  "key_insert c k = Inr k' \<Longrightarrow> g_cwd_inode k' = g_cwd_inode k"
  by (auto simp: key_up_def key_down_def key_backspace_def key_left_def key_right_def key_insert_def Let_def bindr_eq_Inr
      dest!: load_line_cwd split: if_splits)

lemma kout_case_eq_Inr:
  assumes "(case r of Returned \<Rightarrow> Inr (Returned, k1) | To_user e s \<Rightarrow> Inr (r, k)) = Inr (r', k')"
  shows "k' = k1 \<or> k' = k"
  using assms by (cases r) auto

lemma enter_cwd:
  assumes "keeps_cwd W" and "key_enter W k = Inr (r, k')"
  shows "g_cwd_inode k' = g_cwd_inode k"
  using assms(2) unfolding key_enter_def run_line_def Let_def
  by (auto simp: bindr_eq_Inr split: if_splits
      dest!: kout_case_eq_Inr handle_command_cwd [OF assms(1)] history_cwd)

lemma shell_key_cwd: "keeps_cwd W \<Longrightarrow> shell_key W c k = Inr (r, k') \<Longrightarrow> g_cwd_inode k' = g_cwd_inode k"
  by (auto simp: shell_key_def stay_def bindr_eq_Inr split: if_splits dest: enter_cwd edit_cwd)

lemma shell_keys_cwd: "keeps_cwd W \<Longrightarrow> shell_keys W cs k = Inr (r, k') \<Longrightarrow> g_cwd_inode k' = g_cwd_inode k"
proof (induction cs arbitrary: k)
  case (Cons c cs)
  then obtain r1 k1 where k1: "shell_key W c k = Inr (r1, k1)"
    "(case r1 of To_user e s \<Rightarrow> Inr (r1, k1) | Returned \<Rightarrow> shell_keys W cs k1) = Inr (r, k')"
    by (auto simp: bindr_eq_Inr)
  then show ?case using Cons.IH [of k1] shell_key_cwd [OF Cons.prems(1) k1(1)] Cons.prems(1) by (cases r1) auto
qed auto

text \<open>
  C37: \<open>ls\<close> without an argument lists the root directory for ever. It lists \<open>g_cwd_inode\<close>, which is 2
  at boot and which no command changes; \<open>cd\<close> changes another variable.
\<close>

theorem ls_ignores_cd:
  assumes "string_lib (w_str W)" and "keeps_cwd W" and "g_cwd_inode k = 2"
    and "shell_keys W cs k = Inr (r, k')" and "0 \<in> set cmd" and "cstr cmd = str ''ls''"
  shows "handle_command W cmd k' =
    bindr (ext2_ls (w_link W) (w_ports W) (w_junk W) 2 (vol k')) (\<lambda>s. Inr (Returned, k'\<lparr>vol := s\<rparr>))"
proof -
  have cwd: "g_cwd_inode k' = 2" using shell_keys_cwd [OF assms(2,4)] assms(3) by simp
  note eq = cmd_eq_lib [OF assms(1,5)] cmd_starts_lib [OF assms(1,5)]
  show ?thesis
    unfolding handle_command_def Let_def by (simp add: eq assms(6) of_char_def onvol_def cwd bindr_def split: sum.split)
qed

end
