(* ===== verification/Boot_Props.thy ===== *)
theory Boot_Props
  imports Boot Kernel_Shell_Props
begin

text \<open>
  Properties of booting: the boot command line, the volume that \<open>kmain\<close> accepts and the
  state in which it hands over to the first user program, and the volumes it refuses.
\<close>

section \<open>The boot command line\<close>

fun init_arg :: "u8 list \<Rightarrow> u8 list option" where
  "init_arg [] = None"
| "init_arg (c # s) = (if take 5 (c # s) = str ''init='' then Some (drop 5 (c # s)) else init_arg s)"

text \<open>The bytes of \<open>s\<close> and a terminator stand at \<open>p\<close>.\<close>

definition text_at :: "mem \<Rightarrow> u32 \<Rightarrow> u8 list \<Rightarrow> bool" where
  "text_at m p s \<longleftrightarrow> (\<forall>i \<le> length s. m (p + of_nat i) = (s @ [0]) ! i) \<and> 0 \<notin> set s"

lemma text_at_Cons: "text_at m p (c # s) \<longleftrightarrow> m p = c \<and> c \<noteq> 0 \<and> text_at m (p + 1) s"
proof -
  have "(\<forall>i \<le> length (c # s). m (p + of_nat i) = ((c # s) @ [0]) ! i) \<longleftrightarrow>
      m p = c \<and> (\<forall>i \<le> length s. m (p + 1 + of_nat i) = (s @ [0]) ! i)"
    by (auto simp: All_less_Suc2 less_Suc_eq_le [symmetric] add.assoc simp del: less_Suc_eq_le)
  then show ?thesis by (auto simp: text_at_def)
qed

lemma text_at_Nil: "text_at m p [] \<longleftrightarrow> m p = 0"
  by (simp add: text_at_def)

lemma text_at_drop: "text_at m p s \<Longrightarrow> n \<le> length s \<Longrightarrow> text_at m (p + of_nat n) (drop n s)"
  by (induction n arbitrary: p s) (auto simp: text_at_Cons Suc_le_length_iff add.assoc [symmetric])

lemma text_at_prefix:
  assumes "text_at m p s" and "0 \<notin> set t"
  shows "map (\<lambda>i. m (p + of_nat i)) [0..<length t] = t \<longleftrightarrow> take (length t) s = t"
  using assms
proof (induction t arbitrary: p s)
  case (Cons c t)
  have "map (\<lambda>i. m (p + of_nat i)) [0..<length (c # t)] = m p # map (\<lambda>i. m (p + 1 + of_nat i)) [0..<length t]"
    by (simp add: map_upt_Suc add.assoc del: upt_Suc)
  then show ?case using Cons by (cases s) (auto simp: text_at_Cons text_at_Nil)
qed simp

lemma init_key: "length (str ''init='') = 5" "0 \<notin> set (str ''init='')"
  by (simp_all add: of_char_def)

lemma cmdline_scan_ok:
  assumes "text_at m p s"
  shows "\<exists>r. cmdline_scan m p = Some r \<and>
    (case init_arg s of None \<Rightarrow> r = None | Some v \<Rightarrow> \<exists>q. r = Some q \<and> text_at m (q + 5) v)"
  using assms
proof (induction s arbitrary: p)
  case Nil
  then show ?case by (subst cmdline_scan.simps) (simp add: text_at_Nil)
next
  case (Cons c s)
  have p: "map (\<lambda>i. m (p + of_nat i)) [0..<5] = str ''init='' \<longleftrightarrow> take 5 (c # s) = str ''init=''"
    using text_at_prefix [OF Cons.prems init_key(2)] unfolding init_key(1) .
  have m: "m p = c" "c \<noteq> 0" "text_at m (p + 1) s" using Cons.prems by (simp_all add: text_at_Cons)
  have step: "cmdline_scan m p = (if take 5 (c # s) = str ''init='' then Some (Some p) else cmdline_scan m (p + 1))"
    by (subst cmdline_scan.simps) (simp only: p m(1,2) if_False)
  show ?case
  proof (cases "take 5 (c # s) = str ''init=''")
    case True
    have "5 \<le> length (c # s)" using arg_cong [OF True, of length] unfolding length_take init_key(1) by linarith
    from text_at_drop [OF Cons.prems this] show ?thesis unfolding step using True by simp
  next
    case False
    then have "cmdline_scan m p = cmdline_scan m (p + 1)" "init_arg (c # s) = init_arg s"
      unfolding step init_arg.simps by (rule if_not_P)+
    then show ?thesis using Cons.IH [OF m(3)] by (simp only:)
  qed
qed

lemma init_value_text: "text_at m p s \<Longrightarrow> init_value n m p = take n (takeWhile (\<lambda>c. c \<noteq> 0x20) s)"
proof (induction n arbitrary: p s)
  case (Suc n)
  then show ?case by (cases s) (auto simp: text_at_Cons text_at_Nil)
qed simp

lemma init_arg_set: "init_arg s = Some v \<Longrightarrow> set v \<subseteq> set s"
  by (induction s) (auto split: if_splits dest: in_set_dropD)

lemma parse_init_ok:
  assumes "text_at (mm_mem (kmm (vol k))) (mb_cmdline (read_mb (mm_mem (kmm (vol k))) info)) s"
    and "length (g_init_path k) = 128"
  shows "\<exists>path. parse_init_cmdline info k = Inr (k\<lparr>g_init_path := path\<rparr>) \<and> length path = 128 \<and>
    (let mb = read_mb (mm_mem (kmm (vol k))) info in
     cstr path = (if bit (mb_flags mb) 2 \<and> mb_cmdline mb \<noteq> 0
        then (case init_arg s of None \<Rightarrow> cstr (g_init_path k) | Some v \<Rightarrow> take 127 (takeWhile (\<lambda>c. c \<noteq> 0x20) v))
        else cstr (g_init_path k)))"
proof -
  let ?m = "mm_mem (kmm (vol k))" and ?mb = "read_mb (mm_mem (kmm (vol k))) info"
  have bit2: "mb_flags ?mb AND 4 = 0 \<longleftrightarrow> \<not> bit (mb_flags ?mb) 2"
    using bit_iff_and_push_bit_not_eq_0 [of "mb_flags ?mb" 2] by simp
  obtain r where r: "cmdline_scan ?m (mb_cmdline ?mb) = Some r"
    "case init_arg s of None \<Rightarrow> r = None | Some v \<Rightarrow> \<exists>q. r = Some q \<and> text_at ?m (q + 5) v"
    using cmdline_scan_ok [OF assms(1)] by blast
  show ?thesis
  proof (cases "init_arg s")
    case None
    then show ?thesis using r assms(2) by (auto simp: parse_init_cmdline_def Let_def bit2 intro!: exI [of _ "g_init_path k"])
  next
    case (Some v)
    then obtain q where q: "r = Some q" "text_at ?m (q + 5) v" using r(2) by auto
    let ?t = "take 127 (takeWhile (\<lambda>c. c \<noteq> 0x20) v)"
    have "0 \<notin> set v" using q(2) by (simp add: text_at_def)
    then have "0 \<notin> set ?t" by (auto dest!: in_set_takeD set_takeWhileD)
    then have "cstr (?t @ 0 # drop (Suc (length ?t)) (g_init_path k)) = ?t" by (rule cstr_append_0)
    then show ?thesis using r(1) q(1) Some assms(2)
      by (auto simp: parse_init_cmdline_def Let_def bit2 init_value_text [OF q(2)] blit_def min_def
          intro: exI [of _ "g_init_path k"])
  qed
qed

text \<open>
  C30: \<open>parse_init_cmdline\<close> returns. If the boot loader passed a command line and \<^verbatim>\<open>init=\<close> occurs in
  it, even inside a word, the path of the first program is what follows the first occurrence,
  up to a blank and cut to 127 bytes; otherwise it stays what it was. Nothing else changes.
\<close>

theorem parse_init_cmdline_correct:
  assumes "text_at (mm_mem (kmm (vol k))) (mb_cmdline (read_mb (mm_mem (kmm (vol k))) info)) s"
    and "length (g_init_path k) = 128"
  shows "\<exists>path. parse_init_cmdline info k = Inr (k\<lparr>g_init_path := path\<rparr>) \<and> length path = 128 \<and>
    (let mb = read_mb (mm_mem (kmm (vol k))) info in
     cstr path = (if bit (mb_flags mb) 2 \<and> mb_cmdline mb \<noteq> 0
        then (case init_arg s of None \<Rightarrow> cstr (g_init_path k) | Some v \<Rightarrow> take 127 (takeWhile (\<lambda>c. c \<noteq> 0x20) v))
        else cstr (g_init_path k)))"
  by (rule parse_init_ok [OF assms])

section \<open>The volume\<close>

text \<open>Where the volume starts, its superblock, and how \<open>kmain\<close> should set up the file system on it.\<close>

definition boot_lba :: "(nat \<Rightarrow> u8 list) \<Rightarrow> u32" where
  "boot_lba sec =
     (if le16 (sec 0) 510 = 0xAA55 then
        (case filter (\<lambda>i. partition_type (read_partition (sec 0) i) = 0x83) [0..<4] of
           i # _ \<Rightarrow> start_lba (read_partition (sec 0) i) | [] \<Rightarrow> 0)
      else 0)"

definition boot_sb :: "(nat \<Rightarrow> u8 list) \<Rightarrow> ext2_superblock" where
  "boot_sb sec = read_superblock (sec (unat (boot_lba sec) + 2) @ sec (unat (boot_lba sec) + 3))"

definition opened :: "(nat \<Rightarrow> u8 list) \<Rightarrow> 'd fs \<Rightarrow> 'd fs" where
  "opened sec s =
     (let sb = boot_sb sec; bs = push_bit (unat (s_log_block_size sb)) 1024
      in s\<lparr>ext2_start_lba := boot_lba sec, g_block_size := bs, g_inode_size := 128, g_inodes_per_block := bs div 128\<rparr>)"

definition mounted :: "(nat \<Rightarrow> u8 list) \<Rightarrow> 'd fs \<Rightarrow> 'd fs" where
  "mounted sec s =
     (let s = opened sec s; sb = boot_sb sec
      in s\<lparr>g_sb := Some sb, fs_gdt := Some (read_group_desc (vblock sec s (s_first_data_block sb + 1)))\<rparr>)"

text \<open>The volumes within the limits of the file system code.\<close>

definition good_volume :: "(nat \<Rightarrow> u8 list) \<Rightarrow> 'd fs \<Rightarrow> bool" where
  "good_volume sec s \<longleftrightarrow>
     (let sb = boot_sb sec; table = bg_inode_table (the (fs_gdt (mounted sec s))) in
      unat (boot_lba sec) + 8 * (2 ^ 20 + 1) \<le> 2 ^ 28 \<and> s_magic sb = 0xEF53 \<and> s_log_block_size sb \<le> 2 \<and>
      (s_rev_level sb = 0 \<or> s_inode_size sb = 128) \<and> s_first_data_block sb < 0x100000 \<and>
      table \<noteq> 0 \<and> table \<le> 0x10000 \<and> unat table + unat (s_inodes_count sb) \<le> 0x100000 \<and> 2 \<le> s_inodes_count sb \<and>
      is_dir (slot_inode sec (mounted sec s) 2))"

text \<open>A drive that passes \<open>ata_init\<close> and does not listen on the other ports that booting uses.\<close>

definition boot_drive :: "'d ports \<Rightarrow> (nat \<Rightarrow> u8 list) \<Rightarrow> ('d \<Rightarrow> bool) \<Rightarrow> 'd \<Rightarrow> bool" where
  "boot_drive P sec idle d \<longleftrightarrow> disk_ok P sec idle \<and>
     (\<exists>d'. ata_init P d = (Inr (), d') \<and> idle d') \<and>
     (\<forall>p v d. p \<in> {0x3F8, 0x3F9, 0x3FB, 0x20, 0x21, 0xA0, 0xA1} \<and> idle d \<longrightarrow> idle (outb P p v d))"

definition static_buffers :: "'d fs \<Rightarrow> bool" where
  "static_buffers s \<longleftrightarrow> length (safe_inode_buf s) = 4096 \<and> length (find_block_buf s) = 4096 \<and>
     length (lookup_block_buf s) = 4096 \<and> length (ls_block_buf s) = 4096 \<and>
     length (cat_block_buf s) = 4096 \<and> length (cat_indirect_buf s) = 4096"

text \<open>The kernel before \<open>kmain\<close>, with memory in which the multiboot data lie.\<close>

definition boot_state_ok :: "'d world \<Rightarrow> u32 \<Rightarrow> u32 \<Rightarrow> 'd kern \<Rightarrow> bool" where
  "boot_state_ok W mg info k \<longleftrightarrow>
     mm_link (w_link W) \<and> unat (kernel_end_at (w_link W)) \<le> 0xFFFFF000 \<and>
     (\<exists>es. boot_info (w_link W) mg info (mm_mem (kmm (vol k))) es) \<and>
     \<not> g_paging_ready (kmm (vol k)) \<and> \<not> g_heap_ready (kmm (vol k)) \<and>
     (\<exists>s. text_at (mm_mem (kmm (vol k))) (mb_cmdline (read_mb (mm_mem (kmm (vol k))) info)) s) \<and>
     length (g_init_path k) = 128 \<and> length (gdt (tabs k)) = 6 \<and> length (idt (tabs k)) = 256 \<and>
     static_buffers (vol k) \<and> length (w_junk W) = 128"

section \<open>The steps of booting\<close>

lemma mounted_conf: "fs_conf (mounted sec s) = fs_conf (mounted sec s')"
  by (simp add: fs_conf_def mounted_def opened_def vblock_def Let_def)

lemma good_volume_cong: "good_volume sec s = good_volume sec s'"
  using mounted_conf [of sec s s'] slot_inode_conf [OF mounted_conf [of sec s s']]
  by (simp add: good_volume_def fs_conf_def Let_def)

lemma idle_tables:
  assumes "boot_drive P sec idle d0" and "idle d"
  shows "idle (serial_init P d)" and "idle (snd (idt_init P A (t, d)))"
  using assms by (simp_all add: boot_drive_def serial_init_def idt_init_def pic_remap_def Let_def)

lemma boot_tables_ok:
  assumes "boot_drive (w_ports W) sec idle d0" and "idle (dev (vol k))"
    and "memory_init (w_link W) mg info (kmm (vol k)) = Some s"
  shows "\<exists>k' d. boot_tables W mg info k = Inr k' \<and> idle (dev (vol k')) \<and> kmm (vol k') = s \<and>
    tabs k' = fst (idt_init (w_ports W) (w_desc W) (gdt_init (w_desc W) (tabs k), d)) \<and>
    static_buffers (vol k') = static_buffers (vol k) \<and> g_init_path k' = g_init_path k"
proof -
  obtain t d' where t: "idt_init (w_ports W) (w_desc W) (gdt_init (w_desc W) (tabs k), serial_init (w_ports W) (dev (vol k))) = (t, d')"
    by fastforce
  have "idle d'" using idle_tables [OF assms(1)] assms(2) t by (metis snd_conv)
  then show ?thesis using assms(3) t
    by (auto simp: boot_tables_def static_buffers_def intro!: exI [of _ "serial_init (w_ports W) (dev (vol k))"])
qed

lemma probe_ok:
  assumes "disk_ok P sec idle" and "idle (dev s)"
  shows "\<exists>d c. probe_ext2_partition P s = Inr (s\<lparr>dev := d, ext2_start_lba := boot_lba sec, con := c\<rparr>) \<and> idle d"
proof -
  obtain d where "disk_read P 0 1 (dev s) = Some (sec 0, d)" "idle d"
    using disk_read_ok [OF assms, of 1 0] by auto
  then show ?thesis
    by (intro exI [of _ d]) (auto simp: probe_ext2_partition_def boot_lba_def split: list.split)
qed

lemma read_fs_block_conf:
  "read_fs_block P b (s\<lparr>fs_gdt := x, g_sb := y\<rparr>) =
     bindr (read_fs_block P b s) (\<lambda>(bs, s). Inr (bs, s\<lparr>fs_gdt := x, g_sb := y\<rparr>))"
  by (auto simp: read_fs_block_def Let_def bindr_def split: sum.splits prod.splits)

lemma read_group_desc_append: "32 \<le> length bs \<Longrightarrow> read_group_desc (bs @ r) = read_group_desc bs"
  by (cases "bs = []") (simp_all add: read_group_desc_def le16_def le32_def byte_at_def nth_append)

lemma small_log: "x \<le> 2 \<Longrightarrow> push_bit (unat (x :: u32)) (1024 :: u32) \<in> {1024, 2048, 4096}"
  by (cases "unat x = 0"; cases "unat x = 1"; cases "unat x = 2") (auto simp: word_le_nat_alt)

lemma mounted_ready:
  assumes "disk_ok P sec idle" and "idle (dev s)" and "good_volume sec s" and "static_buffers s"
  shows "fs_ready P sec idle (mounted sec s)"
proof -
  note g = assms(3) [unfolded good_volume_def Let_def]
  have "push_bit (unat (s_log_block_size (boot_sb sec))) (1024 :: u32) \<in> {1024, 2048, 4096}" using g by (intro small_log) blast
  then show ?thesis using assms(1,2,4) g
    by (simp add: fs_ready_def mounted_def opened_def static_buffers_def Let_def)
qed

text \<open>The state in which \<open>auto_enter_user_mode\<close> is called, from the one before \<open>vfs_init\<close>.\<close>

definition hand_over :: "'d world \<Rightarrow> 'd kern \<Rightarrow> 'd kern" where
  "hand_over W k =
     (let k = kcon (dbg_msg ''boot'' ''interrupts enabled'' \<circ> dbg_msg ''fs'' ''vfs initialized'') (vfs_init W k)
      in k\<lparr>kkeys := (kkeys k)\<lparr>iflag := True\<rparr>\<rparr>)"

lemma fs_init_ok:
  assumes "good_volume sec s" and "ext2_start_lba s = boot_lba sec"
  shows "\<exists>c. fs_init (boot_sb sec) s = Inr ((opened sec s)\<lparr>con := c\<rparr>)"
proof -
  note g = assms(1) [unfolded good_volume_def Let_def]
  have "s_log_block_size (boot_sb sec) < 21" using g by (auto simp: word_less_nat_alt word_le_nat_alt)
  moreover have "(if s_rev_level (boot_sb sec) \<ge> 1 then ucast (s_inode_size (boot_sb sec)) else 128) = (128 :: u32)"
    using g by (auto simp: word_le_nat_alt)
  ultimately show ?thesis using assms(2) by (cases s) (auto simp: fs_init_def opened_def Let_def guardr_def)
qed

text \<open>The two reads of \<open>boot_volume\<close>, from any state that differs from the expected one in the console only.\<close>

lemma boot_gdt_read:
  assumes D: "disk_ok P sec idle" and g: "good_volume sec s0" and S: "static_buffers s" "idle (dev s)"
    and o: "ext2_start_lba s = boot_lba sec" "g_block_size s = g_block_size (opened sec s0)" "g_inode_size s = 128"
  shows "\<exists>d. read_fs_block P (s_first_data_block (boot_sb sec) + 1) s =
      Inr (vblock sec (opened sec s0) (s_first_data_block (boot_sb sec) + 1), s\<lparr>dev := d\<rparr>) \<and> idle d"
proof -
  let ?b = "s_first_data_block (boot_sb sec) + 1"
  define m where "m = mounted sec s0"
  define t where "t = s\<lparr>fs_gdt := fs_gdt m, g_sb := g_sb m\<rparr>"
  have "fs_ready P sec idle (mounted sec s)"
    using mounted_ready [OF D S(2) _ S(1)] g good_volume_cong by blast
  moreover have "fs_conf t = fs_conf (mounted sec s)"
    using o mounted_conf [of sec s s0] by (simp add: t_def m_def fs_conf_def mounted_def opened_def Let_def)
  ultimately have R: "fs_ready P sec idle t"
    using S by (auto simp: fs_ready_def fs_conf_def t_def static_buffers_def)
  have b: "?b \<le> 0x100000"
    using g by (auto simp: good_volume_def Let_def word_le_nat_alt word_less_nat_alt unat_word_ariths)
  obtain d where d: "read_fs_block P ?b t = Inr (vblock sec t ?b, t\<lparr>dev := d\<rparr>)" "idle d"
    using read_fs_block_ok [OF R b] by blast
  have v: "vblock sec t ?b = vblock sec (opened sec s0) ?b"
    using o by (simp add: vblock_def t_def opened_def Let_def)
  from d(1) obtain s1 where s1: "read_fs_block P ?b s = Inr (vblock sec t ?b, s1)"
    "t\<lparr>dev := d\<rparr> = s1\<lparr>fs_gdt := fs_gdt m, g_sb := g_sb m\<rparr>"
    unfolding t_def read_fs_block_conf by (auto simp: bindr_eq_Inr)
  obtain d' where d': "s1 = s\<lparr>dev := d'\<rparr>"
    using s1(1) by (auto simp: read_fs_block_def Let_def bindr_eq_Inr split: if_splits)
  have "d' = d" using arg_cong [OF s1(2), of dev] by (simp add: d')
  with s1(1) d(2) show ?thesis by (auto simp: v d')
qed

lemma boot_volume_ok:
  assumes D: "disk_ok (w_ports W) sec idle" "idle (dev (vol k))" and g: "good_volume sec (vol k)"
    and S: "static_buffers (vol k)" and lba: "ext2_start_lba (vol k) = boot_lba sec" and j: "length (w_junk W) = 128"
  shows "\<exists>k1. boot_volume W (boot_sb sec) k = bindr (auto_enter_user_mode W (hand_over W k1)) (\<lambda>k. Inr (Spinning, k)) \<and>
    fs_ready (w_ports W) sec idle (vol k1) \<and> fs_conf (vol k1) = fs_conf (mounted sec (vol k)) \<and>
    kmm (vol k1) = kmm (vol k) \<and> tabs k1 = tabs k \<and> g_init_path k1 = g_init_path k"
proof -
  let ?P = "w_ports W" and ?sb = "boot_sb sec" and ?o = "opened sec (vol k)" and ?m = "mounted sec (vol k)"
  let ?b = "s_first_data_block ?sb + 1" let ?v = "vblock sec ?o ?b"
  note gv = g [unfolded good_volume_def Let_def]
  obtain c1 where fi: "fs_init ?sb (upd_con (dbg_msg ''fs'' ''ext2 magic ok'') (vol k)) = Inr (?o\<lparr>con := c1\<rparr>)"
    using fs_init_ok [of sec "upd_con (dbg_msg ''fs'' ''ext2 magic ok'') (vol k)"] g lba
      good_volume_cong [of sec _ "vol k"] by (auto simp: opened_def Let_def)
  have gd: "\<exists>d. read_fs_block ?P ?b (?o\<lparr>con := c\<rparr>) = Inr (?v, ?o\<lparr>con := c, dev := d\<rparr>) \<and> idle d" for c
    using boot_gdt_read [OF D(1) g, of "?o\<lparr>con := c\<rparr>"] D(2) S by (simp add: opened_def static_buffers_def Let_def)
  have len: "1024 \<le> length ?v" "length ?v \<le> 4096"
    using length_vblock [OF mounted_ready [OF D g S], of ?b] fs_ready_block_size [OF mounted_ready [OF D g S]]
    by (auto simp: mounted_def vblock_def Let_def)
  have gdt0: "read_group_desc (?v @ drop (length ?v) (replicate 4096 0)) = the (fs_gdt ?m)"
    using len(1) by (simp add: read_group_desc_append mounted_def Let_def)
  have root: "\<exists>s'. get_inode ?P (w_junk W) 2 (?m\<lparr>dev := d, con := c\<rparr>) = Inr (slot_inode sec ?m 2, s') \<and>
      fs_ready ?P sec idle s' \<and> quiet (?m\<lparr>dev := d, con := c\<rparr>) s'" if "idle d" for d c
  proof -
    have cf: "fs_conf (?m\<lparr>dev := d, con := c\<rparr>) = fs_conf ?m" by (simp add: fs_conf_def)
    have "fs_ready ?P sec idle (?m\<lparr>dev := d, con := c\<rparr>)"
      using mounted_ready [OF D g S] that by (simp add: fs_ready_def)
    moreover have "valid_inode (?m\<lparr>dev := d, con := c\<rparr>) 2"
      unfolding valid_inode_conf [OF cf] using gv by (simp add: valid_inode_def mounted_def Let_def)
    ultimately show ?thesis using get_inode_ok [OF _ _ j] slot_inode_conf [OF cf] by metis
  qed
  define c2 where "c2 = dbg_kv ''fs'' ''runtime_block_size'' (g_block_size ?o) (dbg_kv ''fs'' ''first_data_block''
    (s_first_data_block ?sb) (dbg_kv ''fs'' ''superblock_block_size'' (push_bit (unat (s_log_block_size ?sb)) 1024) c1))"
  define c3 where "c3 = dbg_kv ''fs'' ''gdt0_inode_table'' (bg_inode_table (the (fs_gdt ?m)))
    (dbg_kv ''fs'' ''fs_gdt_value'' (gdt_buffer_at W) (dbg_kv ''fs'' ''fs_gdt_addr'' (fs_gdt_at W) c2))"
  obtain d where d: "read_fs_block ?P ?b (?o\<lparr>con := c2\<rparr>) = Inr (?v, ?o\<lparr>con := c2, dev := d\<rparr>)" "idle d"
    using gd by blast
  obtain s' where s': "get_inode ?P (w_junk W) 2 (?m\<lparr>dev := d, con := c3\<rparr>) = Inr (slot_inode sec ?m 2, s')"
    "fs_ready ?P sec idle s'" "quiet (?m\<lparr>dev := d, con := c3\<rparr>) s'" using root [OF d(2)] by blast
  have m: "?o\<lparr>con := c, dev := d, fs_gdt := Some (the (fs_gdt ?m)), g_sb := Some ?sb\<rparr>\<lparr>con := c3\<rparr> = ?m\<lparr>dev := d, con := c3\<rparr>" for c
    by (simp add: mounted_def Let_def)
  let ?k1 = "kcon (dbg_msg ''fs'' ''root inode is a directory'') (k\<lparr>vol := s'\<rparr>)"
  have tb: "\<not> 0x10000 < bg_inode_table (the (fs_gdt ?m))" using gv by (simp add: not_less)
  have "boot_volume W ?sb k = bindr (auto_enter_user_mode W (hand_over W ?k1)) (\<lambda>k. Inr (Spinning, k))"
    using fi d(1) gdt0 m len s'(1) gv tb
    by (simp add: boot_volume_def onvol_def Let_def c2_def [symmetric] c3_def [symmetric] into_def hand_over_def is_dir_def comp_def)
  moreover have "fs_ready ?P sec idle (vol ?k1)" using s'(2) by (simp add: fs_ready_def)
  moreover have "fs_conf (vol ?k1) = fs_conf ?m" using s'(3) by (simp add: quiet_def fs_conf_def)
  moreover have "kmm (vol ?k1) = kmm (vol k)" using s'(3) by (simp add: quiet_def mounted_def opened_def Let_def)
  ultimately show ?thesis by (intro exI [of _ ?k1]) simp
qed

section \<open>Booting\<close>

text \<open>Every step of \<open>kmain\<close> before the superblock is examined succeeds on a drive that keeps the protocol.\<close>

lemma kmain_reads_superblock:
  assumes D: "boot_drive (w_ports W) sec idle (dev (vol k))" and B: "boot_state_ok W mg info k"
    and lba: "unat (boot_lba sec) + 8 * (2 ^ 20 + 1) \<le> 2 ^ 28"
  shows "\<exists>k' d. kmain W mg info k =
      (if s_magic (boot_sb sec) = 0xEF53 then boot_volume W (boot_sb sec) k'
       else kpanic ''Error: Not an Ext2 filesystem (Magic mismatch).'' k') \<and>
    idle (dev (vol k')) \<and> static_buffers (vol k') \<and> ext2_start_lba (vol k') = boot_lba sec \<and>
    memory_init (w_link W) mg info (kmm (vol k)) = Some (kmm (vol k')) \<and> heap_inv (w_link W) (kmm (vol k')) \<and>
    tabs k' = fst (idt_init (w_ports W) (w_desc W) (gdt_init (w_desc W) (tabs k), d))"
proof -
  let ?P = "w_ports W"
  obtain es where es: "boot_info (w_link W) mg info (mm_mem (kmm (vol k))) es" using B by (auto simp: boot_state_ok_def)
  obtain s where mi: "memory_init (w_link W) mg info (kmm (vol k)) = Some s" "heap_inv (w_link W) s"
    using memory_init_ok [OF _ _ es] B by (auto simp: boot_state_ok_def)
  obtain d1 where d1: "ata_init ?P (dev (vol k)) = (Inr (), d1)" "idle d1" using D by (auto simp: boot_drive_def)
  have dk: "disk_ok ?P sec idle" using D by (simp add: boot_drive_def)
  define k1 where "k1 = k\<lparr>vol := (vol k)\<lparr>dev := d1, con := ata_messages (Inr ()) (put poke_screen (dbg_kv ''boot'' ''mb_info'' info
    (dbg_kv ''boot'' ''mb_magic'' mg (dbg_msg ''boot'' ''kmain entry'' (con (vol k))))))\<rparr>, g_mb_info_addr := info\<rparr>"
  have k1: "kmm (vol k1) = kmm (vol k)" "dev (vol k1) = d1" "tabs k1 = tabs k" "g_init_path k1 = g_init_path k"
    "static_buffers (vol k1)" using B by (simp_all add: k1_def boot_state_ok_def static_buffers_def)
  obtain path where path: "parse_init_cmdline info k1 = Inr (k1\<lparr>g_init_path := path\<rparr>)"
    using parse_init_ok [of k1] B k1 by (fastforce simp: boot_state_ok_def)
  obtain k2 d where k2: "boot_tables W mg info (k1\<lparr>g_init_path := path\<rparr>) = Inr k2" "idle (dev (vol k2))"
    "kmm (vol k2) = s" "tabs k2 = fst (idt_init ?P (w_desc W) (gdt_init (w_desc W) (tabs k), d))" "static_buffers (vol k2)"
    using boot_tables_ok [OF D, of "k1\<lparr>g_init_path := path\<rparr>" mg info s] k1 d1(2) mi(1) by auto
  obtain d3 c3 where k3: "probe_ext2_partition ?P (vol k2) = Inr ((vol k2)\<lparr>dev := d3, ext2_start_lba := boot_lba sec, con := c3\<rparr>)" "idle d3"
    using probe_ok [OF dk k2(2)] by blast
  let ?a = "unat (boot_lba sec) + 2"
  obtain d4 where d4: "disk_read ?P (of_nat ?a) (of_nat 2) d3 = Some (concat (map sec [?a..<?a + 2]), d4)" "idle d4"
    using disk_read_ok [OF dk k3(2), of 2 ?a] lba by auto
  have a: "of_nat ?a = boot_lba sec + 2" "concat (map sec [?a..<?a + 2]) = sec ?a @ sec (unat (boot_lba sec) + 3)"
    by (simp_all add: upt_rec numeral_eq_Suc)
  have sb: "into (replicate 1024 0) (sec ?a @ sec (unat (boot_lba sec) + 3)) = Inr (sec ?a @ sec (unat (boot_lba sec) + 3))"
    by (simp add: into_def disk_ok_length [OF dk])
  let ?k' = "kcon (dbg_msg ''fs'' ''superblock read complete'')
    (k2\<lparr>vol := (vol k2)\<lparr>ext2_start_lba := boot_lba sec, dev := d4, con := c3\<rparr>\<rparr>)"
  have "kmain W mg info k =
      (if s_magic (boot_sb sec) = 0xEF53 then boot_volume W (boot_sb sec) ?k'
       else kpanic ''Error: Not an Ext2 filesystem (Magic mismatch).'' ?k')"
    using d1(1) path k2(1) k3(1) d4(1) sb unfolding a
    by (simp add: kmain_def onvol_def boot_sb_def k1_def)
  then show ?thesis using mi k2 d4(2) by (intro exI [of _ ?k'] exI [of _ d]) (simp add: static_buffers_def)
qed

lemma mounted_on_volume:
  assumes "good_volume sec s"
  shows "on_volume sec (mounted sec s)"
proof -
  have sb: "volume_sb sec (mounted sec s) = boot_sb sec" by (simp add: volume_sb_def boot_sb_def mounted_def opened_def Let_def)
  have v: "vblock sec (mounted sec s) b = vblock sec (opened sec s) b" for b by (simp add: mounted_def Let_def vblock_def)
  have "group_desc sec (mounted sec s) 0 = read_group_desc (vblock sec (opened sec s) (s_first_data_block (boot_sb sec) + 1))"
    by (simp add: group_desc_def sb v Let_def)
  then show ?thesis using assms
    by (auto simp: on_volume_def volume_inode_size_def sb good_volume_def Let_def) (auto simp: mounted_def opened_def Let_def)
qed

text \<open>
  C8: On a drive that keeps the protocol and holds a volume within the limits of the file
  system code, \<open>kmain\<close> reaches \<open>auto_enter_user_mode\<close> with interrupts enabled. Before
  \<open>vfs_init\<close> the file system is configured from that volume, wherever its partition starts
  (its variables hold the superblock, the first group descriptor and the sizes that the
  sectors give), and ready for every read; \<open>memory_init\<close> has succeeded and the heap invariant holds; and the
  descriptor tables let ring 3 raise vector 0x80, and no other, into the system call
  handler.
\<close>

theorem kmain_boots:
  assumes "boot_drive (w_ports W) sec idle (dev (vol k))" and "boot_state_ok W mg info k" and "good_volume sec (vol k)"
  shows "\<exists>k1. kmain W mg info k = bindr (auto_enter_user_mode W (hand_over W k1)) (\<lambda>k. Inr (Spinning, k)) \<and>
    fs_ready (w_ports W) sec idle (vol k1) \<and> fs_conf (vol k1) = fs_conf (mounted sec (vol k)) \<and> on_volume sec (vol k1) \<and>
    memory_init (w_link W) mg info (kmm (vol k)) = Some (kmm (vol k1)) \<and> heap_inv (w_link W) (kmm (vol k1)) \<and>
    (\<forall>v < 256. map_option snd (soft_int (tabs k1) 3 v) = (if v = 0x80 then Some (syscall_handler_asm (w_desc W)) else None)) \<and>
    iflag (kkeys (hand_over W k1))"
proof -
  note gv = assms(3) [unfolded good_volume_def Let_def]
  obtain k' d where k': "kmain W mg info k = boot_volume W (boot_sb sec) k'" "idle (dev (vol k'))" "static_buffers (vol k')"
    "ext2_start_lba (vol k') = boot_lba sec" "memory_init (w_link W) mg info (kmm (vol k)) = Some (kmm (vol k'))"
    "heap_inv (w_link W) (kmm (vol k'))"
    "tabs k' = fst (idt_init (w_ports W) (w_desc W) (gdt_init (w_desc W) (tabs k), d))"
    using kmain_reads_superblock [OF assms(1,2)] gv by auto
  have "length (w_junk W) = 128" "disk_ok (w_ports W) sec idle"
    using assms(1,2) by (simp_all add: boot_state_ok_def boot_drive_def)
  then obtain k1 where k1: "boot_volume W (boot_sb sec) k' = bindr (auto_enter_user_mode W (hand_over W k1)) (\<lambda>k. Inr (Spinning, k))"
    "fs_ready (w_ports W) sec idle (vol k1)" "fs_conf (vol k1) = fs_conf (mounted sec (vol k'))"
    "kmm (vol k1) = kmm (vol k')" "tabs k1 = tabs k'"
    using boot_volume_ok [where sec = sec and idle = idle, OF _ k'(2) _ k'(3,4)] assms(3) good_volume_cong by blast
  have "map_option snd (soft_int (tabs k1) 3 v) = (if v = 0x80 then Some (syscall_handler_asm (w_desc W)) else None)"
    if "v < 256" for v
  proof -
    have "length (gdt (tabs k)) = 6" "length (idt (tabs k)) = 256" using assms(2) by (simp_all add: boot_state_ok_def)
    note ep = entry_points [OF this that, of "w_ports W" "w_desc W" d]
    show ?thesis unfolding soft_int_def k1(5) k'(7) ep by (simp add: vectors_def)
  qed
  moreover have "iflag (kkeys (hand_over W k1))" by (simp add: hand_over_def Let_def)
  moreover have c: "fs_conf (vol k1) = fs_conf (mounted sec (vol k))" using k1(3) mounted_conf [of sec "vol k" "vol k'"] k'(4) by simp
  moreover have "on_volume sec (vol k1)" using mounted_on_volume [OF assms(3)] spec_conf(5) [OF c] by simp
  ultimately show ?thesis using k'(1,5,6) k1(1,2,4) by (intro exI [of _ k1]) simp
qed

text \<open>
  C31: \<open>kmain\<close> refuses what it cannot boot from: if \<open>ata_init\<close> fails, or if the drive holds a
  volume without the magic number of ext2, it panics with interrupts disabled, and no user
  program is entered.
\<close>

theorem kmain_refuses:
  assumes "(\<exists>e d. ata_init (w_ports W) (dev (vol k)) = (Inl e, d)) \<or>
    boot_drive (w_ports W) sec idle (dev (vol k)) \<and> boot_state_ok W mg info k \<and>
    unat (boot_lba sec) + 8 * (2 ^ 20 + 1) \<le> 2 ^ 28 \<and> s_magic (boot_sb sec) \<noteq> 0xEF53"
  shows "\<exists>k'. kmain W mg info k = Inr (Panicked, k') \<and> \<not> iflag (kkeys k')"
  using assms
proof (elim disjE exE conjE)
  fix e d assume "ata_init (w_ports W) (dev (vol k)) = (Inl e, d)"
  then show ?thesis by (simp add: kmain_def kpanic_def)
next
  assume "boot_drive (w_ports W) sec idle (dev (vol k))" "boot_state_ok W mg info k"
    "unat (boot_lba sec) + 8 * (2 ^ 20 + 1) \<le> 2 ^ 28" "s_magic (boot_sb sec) \<noteq> 0xEF53"
  with kmain_reads_superblock [of W sec idle k mg info] show ?thesis by (auto simp: kpanic_def)
qed

section \<open>A concrete boot\<close>

text \<open>The volume of the file system examples with a superblock and a group descriptor, on a raw disk.\<close>

definition boot_block :: "nat \<Rightarrow> u8 list" where
  "boot_block b =
     (if b = 1 then [32, 0, 0, 0] @ replicate 16 0 @ [1] @ replicate 35 0 @ [0x53, 0xEF] @ replicate 966 0
      else if b = 2 then replicate 8 0 @ [5, 0, 0, 0] @ replicate 1012 0
      else img_block b)"

definition boot_sec :: "nat \<Rightarrow> u8 list" where
  "boot_sec lba = take 512 (drop (512 * (lba mod 2)) (boot_block (lba div 2)))"

definition demo_world :: "ide world" where
  "demo_world = \<lparr>w_link = boot_link, w_ports = ide_ports boot_sec, w_str = ush_ops, w_junk = replicate 128 0,
     w_desc = \<lparr>gdt_at = 0x110000, tss_at = 0x110100, idt_at = 0x111000, keyboard_handler_asm = 0x100100,
       syscall_handler_asm = 0x100200, page_fault_handler_asm = 0x100300, isr_0 = 0x100400, isr_7 = 0x100410,
       isr_8 = 0x100420, isr_10 = 0x100430, isr_11 = 0x100440, isr_12 = 0x100450, isr_13 = 0x100460\<rparr>,
     w_esp = 0x90000, user_program_at = 0x120000, user_msg_at = 0x121000, fs_gdt_at = 0x122000, gdt_buffer_at = 0x123000,
     load_elf_program_from_inode = (\<lambda>n k. Inr ((False, 0), k)), task_create = (\<lambda>e t k. Inr k),
     vfs_init = (\<lambda>k. k), auto_enter_user_mode = (\<lambda>k. Inr k)\<rparr>"

definition demo_kern :: "ide kern" where
  "demo_kern = \<lparr>vol = img_fs\<lparr>kmm := mm_boot, g_sb := None, fs_gdt := None\<rparr>,
     kkeys = \<lparr>kb = kbd_boot, irqs = [], iflag = False\<rparr>, tabs = demo_desc,
     g_init_path = str ''./shell.elf'' @ replicate 117 0, g_history = replicate 30 (replicate 256 0),
     g_history_count = 0, g_history_idx = -1, g_cwd_inode = 2, g_shell_needs_reset = True,
     input_buffer = replicate 256 0, shell_pos = 0, shell_len = 0, g_user_kernel_esp = 0, g_mb_info_addr = 0\<rparr>"

lemma length_boot_block: "length (boot_block b) = 1024"
  by (simp add: boot_block_def length_img_block)

lemma boot_disk: "disk_ok (ide_ports boot_sec) boot_sec (\<lambda>d. left d = 0)"
  by (rule ide_ok) (auto simp: boot_sec_def length_boot_block)

lemma demo_drive: "boot_drive (ide_ports boot_sec) boot_sec (\<lambda>d. left d = 0) ide_idle"
proof -
  have i: "inb (ide_ports boot_sec) p (ide_idle\<lparr>t_device := v\<rparr>) = (0x40, ide_idle\<lparr>t_device := v\<rparr>)"
    "inb (ide_ports boot_sec) p ide_idle = (0x40, ide_idle)" for p v
    by (simp_all add: ide_ports_def ide_inb_def ide_idle_def)
  have o: "outb (ide_ports boot_sec) 0x3F6 v ide_idle = ide_idle"
    "outb (ide_ports boot_sec) 0x1F6 v ide_idle = ide_idle\<lparr>t_device := v\<rparr>" for v
    by (simp_all add: ide_ports_def ide_outb_def)
  have "wait_not_busy (ide_ports boot_sec) 100000 ide_idle = (100000, ide_idle)"
    using wait_not_busy.simps(2) [of "ide_ports boot_sec" 99999 ide_idle] by (simp add: i)
  then have "ata_init (ide_ports boot_sec) ide_idle = (Inr (), ide_idle\<lparr>t_device := 0xE0\<rparr>)"
    by (simp add: ata_init_def o wait_ready.simps i)
  then show ?thesis
    using boot_disk by (auto simp: boot_drive_def ide_idle_def) (simp_all add: ide_ports_def ide_outb_def)
qed

lemma demo_lba: "boot_lba boot_sec = 0"
  by (simp add: boot_lba_def boot_sec_def boot_block_def img_block_def le16_def byte_at_def)

lemma demo_sb_bytes: "boot_sec 2 @ boot_sec 3 = boot_block 1"
  by (simp add: boot_sec_def length_boot_block)

lemma demo_sb:
  "s_magic (boot_sb boot_sec) = 0xEF53" "s_log_block_size (boot_sb boot_sec) = 0" "s_rev_level (boot_sb boot_sec) = 0"
  "s_first_data_block (boot_sb boot_sec) = 1" "s_inodes_count (boot_sb boot_sec) = 32"
proof -
  have "boot_sb boot_sec = read_superblock (boot_block 1)"
    by (simp only: boot_sb_def demo_lba unsigned_0 add_0 demo_sb_bytes)
  then show "s_magic (boot_sb boot_sec) = 0xEF53" "s_log_block_size (boot_sb boot_sec) = 0" "s_rev_level (boot_sb boot_sec) = 0"
    "s_first_data_block (boot_sb boot_sec) = 1" "s_inodes_count (boot_sb boot_sec) = 32"
    by (simp_all add: boot_block_def read_superblock_def le16_def le32_def byte_at_def nth_append)
qed

lemma demo_vblock:
  assumes "ext2_start_lba s = 0" and "g_block_size s = 1024"
  shows "vblock boot_sec s b = boot_block (unat b)"
proof -
  have e: "2 * n mod 2 = 0" "2 * n div 2 = n" "Suc (2 * n) mod 2 = 1" "Suc (2 * n) div 2 = n" for n :: nat by simp_all
  have "vblock boot_sec s b = boot_sec (2 * unat b) @ boot_sec (Suc (2 * unat b))"
    using assms by (simp add: vblock_def upt_rec mult.commute Let_def)
  also have "\<dots> = take 512 (boot_block (unat b)) @ take 512 (drop 512 (boot_block (unat b)))"
    unfolding boot_sec_def e by simp
  finally show ?thesis by (simp add: length_boot_block)
qed

lemma demo_table: "bg_inode_table (the (fs_gdt (mounted boot_sec s))) = 5"
  by (simp add: mounted_def Let_def demo_sb demo_vblock opened_def demo_lba)
    (simp add: boot_block_def read_group_desc_def le32_def byte_at_def nth_append)

lemma demo_root: "is_dir (slot_inode boot_sec (mounted boot_sec s) 2)"
proof -
  have "vblock boot_sec (mounted boot_sec s) 5 = img_block 5"
    by (subst demo_vblock) (simp_all add: mounted_def opened_def demo_lba demo_sb boot_block_def Let_def)
  then have "slot_bytes boot_sec (mounted boot_sec s) 2 = img_inode 0x41ED 1024 20"
    by (simp add: slot_bytes_def demo_table Let_def img_block_def img_inode_def)
      (simp add: mounted_def opened_def demo_sb Let_def)
  then show ?thesis using img_inodes(1) img_inode_bytes(1) by (simp add: is_dir_def slot_inode_def)
qed

lemma demo_volume: "good_volume boot_sec s"
  by (simp add: good_volume_def demo_lba demo_sb demo_table demo_root Let_def)

lemma demo_state: "boot_state_ok demo_world 0 0 demo_kern"
  using boot_link_ok boot_fresh boot_plain [of boot_link "mm_mem mm_boot"]
  by (auto simp: boot_state_ok_def demo_world_def demo_kern_def static_buffers_def img_fs_def demo_desc_def
      intro!: exI [of _ "[]"]) (simp add: text_at_Nil mm_boot_def)

definition demo_cmdline :: mem where
  "demo_cmdline = (\<lambda>_. 0)(0x9000 := 4, 0x9011 := 0x91, 0x9100 := 0x69, 0x9101 := 0x6E, 0x9102 := 0x69, 0x9103 := 0x74,
     0x9104 := 0x3D, 0x9105 := 0x61, 0x9106 := 0x20, 0x9107 := 0x62)"

theorem parse_init_cmdline_correct_witness:
  "let k = demo_kern\<lparr>vol := (vol demo_kern)\<lparr>kmm := mm_boot\<lparr>mm_mem := demo_cmdline\<rparr>\<rparr>\<rparr> in
     \<exists>path. parse_init_cmdline 0x9000 k = Inr (k\<lparr>g_init_path := path\<rparr>) \<and> cstr path = [0x61]"
proof -
  define k where "k = demo_kern\<lparr>vol := (vol demo_kern)\<lparr>kmm := mm_boot\<lparr>mm_mem := demo_cmdline\<rparr>\<rparr>\<rparr>"
  have m: "mm_mem (kmm (vol k)) = demo_cmdline" by (simp add: k_def)
  have mb: "mb_flags (read_mb demo_cmdline 0x9000) = 4" "mb_cmdline (read_mb demo_cmdline 0x9000) = 0x9100"
    by (simp_all add: read_mb_def demo_cmdline_def load32_def)
  have "text_at demo_cmdline 0x9100 [0x69, 0x6E, 0x69, 0x74, 0x3D, 0x61, 0x20, 0x62]"
    by (simp add: text_at_Cons text_at_Nil demo_cmdline_def)
  then have t: "text_at (mm_mem (kmm (vol k))) (mb_cmdline (read_mb (mm_mem (kmm (vol k))) 0x9000)) [0x69, 0x6E, 0x69, 0x74, 0x3D, 0x61, 0x20, 0x62]"
    unfolding m mb .
  have "length (g_init_path k) = 128" by (simp add: k_def demo_kern_def)
  from parse_init_cmdline_correct [OF t this] show ?thesis
    unfolding m by (simp add: k_def [symmetric] mb of_char_def bit_numeral_rec) blast
qed

theorem kmain_boots_witness:
  "\<exists>k1. kmain demo_world 0 0 demo_kern = Inr (Spinning, hand_over demo_world k1) \<and>
     fs_ready (ide_ports boot_sec) boot_sec (\<lambda>d. left d = 0) (vol k1) \<and> heap_inv boot_link (kmm (vol k1))"
proof -
  have d: "boot_drive (w_ports demo_world) boot_sec (\<lambda>d. left d = 0) (dev (vol demo_kern))"
    using demo_drive by (simp add: demo_world_def demo_kern_def img_fs_def)
  from kmain_boots [OF d demo_state demo_volume] show ?thesis by (auto simp: demo_world_def)
qed

theorem kmain_refuses_witness:
  "\<exists>k'. kmain (demo_world\<lparr>w_ports := \<lparr>inb = (\<lambda>p d. (0xFF, d)), outb = (\<lambda>p v d. d), insw = (\<lambda>p n d. ([], d))\<rparr>\<rparr>) 0 0 demo_kern =
     Inr (Panicked, k') \<and> \<not> iflag (kkeys k')"
proof -
  let ?P = "\<lparr>inb = (\<lambda>p d. (0xFF, d)), outb = (\<lambda>p v d. d), insw = (\<lambda>p n d. ([], d))\<rparr> :: ide ports"
  have w: "wait_not_busy ?P n d = (- 1, d)" for n d by (induction n) simp_all
  have "ata_init ?P d = (Inl NoDevice, d)" for d by (simp add: ata_init_def w wait_ready.simps)
  then show ?thesis
    using kmain_refuses [of "demo_world\<lparr>w_ports := ?P\<rparr>" demo_kern boot_sec "\<lambda>_. True" 0 0] by auto
qed

end
