(* ===== verification/Shell_Props.thy ===== *)
theory Shell_Props
  imports User_Props User_Env Boot_Props
begin

text \<open>
  Properties that concern both shells, and the witnesses of the properties of the kernel
  shell, on the kernel and the volume of the boot example.
\<close>

section \<open>Histories\<close>

fun run_all :: "('a \<Rightarrow> 's \<Rightarrow> stop + 's) \<Rightarrow> 'a list \<Rightarrow> 's \<Rightarrow> stop + 's" where
  "run_all f [] s = Inr s"
| "run_all f (x # xs) s = bindr (f x s) (run_all f xs)"

definition last_lines :: "nat \<Rightarrow> 'a list \<Rightarrow> 'a list" where
  "last_lines n xs = drop (length xs - n) xs"

context line_history
begin

lemma run_all_recent:
  assumes "inv s" and "entries s = []" and "\<forall>l\<in>set ls. 0 \<in> set l \<and> length (cstr l) < width \<and> cstr l \<noteq> []"
    and eq: "\<And>l s. cstr l \<noteq> [] \<Longrightarrow> f l s = add l s"
  shows "\<exists>s'. run_all f ls s = Inr s' \<and> inv s' \<and> entries s' = last_lines cap (remdups_adj (map cstr ls))"
proof -
  have "run_all f ls s = add_all ls s" using assms(3)
    by (induction ls arbitrary: s) (auto simp: eq bindr_def split: sum.split)
  moreover have "filter (\<lambda>l. l \<noteq> []) (map cstr ls) = map cstr ls" using assms(3) by (simp add: filter_id_conv)
  moreover have "entries s = recent (log [])" by (simp add: assms(2) recent_def log_def)
  ultimately show ?thesis
    using add_all_recent [OF assms(1), of "[]" ls] assms(3) by (auto simp: recent_def log_def last_lines_def)
qed

end

lemma kernel_history:
  assumes "string_lib S"
  shows "line_history khist_wf (khist_entries :: 'd kern \<Rightarrow> _) (record_line S) 30 256"
proof
  fix k :: "'d kern" and line :: "u8 list"
  assume "khist_wf k" "0 \<in> set line" "length (cstr line) < 256"
  from c_strings.record_line_ok [OF assms this]
  show "\<exists>k'. record_line S line k = Inr k' \<and> khist_wf k' \<and> khist_entries k' = hist_add 30 (cstr line) (khist_entries k)"
    by (cases S) simp
qed simp

text \<open>
  C21: Both shells remember the most recent lines: starting from an empty history, after any
  sequence of non-empty lines the kernel shell holds the last 30 and the user
  shell the last 16 of them, oldest first, a line repeated immediately being stored once.
\<close>

theorem histories_keep_recent_lines:
  assumes S: "string_lib S" and k: "khist_wf k" "khist_entries k = []" and u: "hist_wf u" "hist_entries u = []"
    and ls: "\<forall>l\<in>set ls. 0 \<in> set l \<and> length (cstr l) < 256 \<and> cstr l \<noteq> []"
  shows "\<exists>k' u'. run_all (khistory_add S) ls k = Inr k' \<and> run_all history_add ls u = Inr u' \<and>
    khist_entries k' = last_lines 30 (remdups_adj (map cstr ls)) \<and>
    hist_entries u' = last_lines 16 (remdups_adj (map cstr ls))"
proof -
  have "khistory_add S l k = record_line S l k" if "cstr l \<noteq> []" for l and k :: "'a kern"
    using that by (cases l) (auto simp: record_line_def)
  then obtain k' where "run_all (khistory_add S) ls k = Inr k'" "khist_entries k' = last_lines 30 (remdups_adj (map cstr ls))"
    using line_history.run_all_recent [OF kernel_history [OF S] k ls] by blast
  moreover obtain u' where "run_all history_add ls u = Inr u'" "hist_entries u' = last_lines 16 (remdups_adj (map cstr ls))"
    using uh.run_all_recent [OF u ls refl] by blast
  ultimately show ?thesis by blast
qed

section \<open>Witnesses\<close>

lemma demo_khist: "khist_wf demo_kern" "khist_entries demo_kern = []"
  by (simp_all add: khist_wf_def khist_entries_def rows_wf_def lines_of_def demo_kern_def)

lemma demo_text: "shell_text demo_kern ([], [])"
  by (simp add: shell_text_def shows_text_def demo_kern_def)

theorem histories_keep_recent_lines_witness:
  "\<exists>k' u'. run_all (khistory_add ush_ops) [lit ''ls'', lit ''ls'', lit ''cd''] demo_kern = Inr k' \<and>
     run_all history_add [lit ''ls'', lit ''ls'', lit ''cd''] ush_boot = Inr u' \<and>
     khist_entries k' = [[0x6C, 0x73], [0x63, 0x64]] \<and> hist_entries u' = [[0x6C, 0x73], [0x63, 0x64]]"
proof -
  have u: "hist_wf ush_boot" "hist_entries ush_boot = []"
    by (simp_all add: hist_wf_def rows_wf_def ush_boot_def hist_entries_def lines_of_def)
  have l: "cstr (lit ''ls'') = [0x6C, 0x73]" "cstr (lit ''cd'') = [0x63, 0x64]" by (simp_all add: of_char_def)
  then have "\<forall>l\<in>set [lit ''ls'', lit ''ls'', lit ''cd'']. 0 \<in> set l \<and> length (cstr l) < 256 \<and> cstr l \<noteq> []"
    by simp
  from histories_keep_recent_lines [OF ush_ops_lib demo_khist u this] show ?thesis by (simp add: l last_lines_def)
qed

theorem kernel_editor_correct_witness:
  "\<exists>k' cmd. shell_keys demo_world [0x6C, 0x78, 0x08, 0x73, 0x61, 0x13] demo_kern = Inr (Returned, k') \<and>
     shell_key demo_world 0x0A k' = run_line demo_world cmd k' \<and> cstr cmd = [0x6C, 0x73]"
  using kernel_editor_correct [OF demo_text, of "[0x6C, 0x78, 0x08, 0x73, 0x61, 0x13]" demo_world]
  by (auto simp: kedit_key_def)

theorem kernel_shell_overruns_line_witness:
  "let k = demo_kern\<lparr>g_history := (replicate 255 0x61 @ [0]) # replicate 29 (replicate 256 0), g_history_count := 1, g_history_idx := 1\<rparr>
   in shell_keys demo_world [0x11, 0x62, 0x63] k = Inl Fault"
proof -
  define k where "k = demo_kern\<lparr>g_history := (replicate 255 0x61 @ [0]) # replicate 29 (replicate 256 0), g_history_count := 1, g_history_idx := 1\<rparr>"
  have l: "length (cstr (g_history k ! (g_history_count k - 1))) = 255" by (simp add: k_def)
  have "khist_wf k" "length (input_buffer k) = 256" "0 < g_history_count k" "g_history_idx k = int (g_history_count k)" "shell_len k = 0"
    by (simp_all add: khist_wf_def rows_wf_def row_ok_def k_def demo_kern_def)
  moreover have "string_lib (w_str demo_world)" using ush_ops_lib by (simp add: demo_world_def)
  ultimately have "shell_keys demo_world [0x11, 0x62, 0x63] k = Inl Fault"
    using kernel_shell_overruns_line [of demo_world k "0x62" "0x63"] l by simp
  then show ?thesis by (simp add: k_def)
qed

theorem ls_ignores_cd_witness:
  "\<exists>k'. shell_keys demo_world [0x63, 0x64] demo_kern = Inr (Returned, k') \<and>
     handle_command demo_world (lit ''ls'') k' =
       bindr (ext2_ls boot_link (ide_ports boot_sec) (replicate 128 0) 2 (vol k')) (\<lambda>s. Inr (Returned, k'\<lparr>vol := s\<rparr>))"
proof -
  have lib: "string_lib (w_str demo_world)" using ush_ops_lib by (simp add: demo_world_def)
  have cwd: "keeps_cwd demo_world" "g_cwd_inode demo_kern = 2" by (simp_all add: keeps_cwd_def demo_world_def demo_kern_def)
  have ls: "0 \<in> set (lit ''ls'')" "cstr (lit ''ls'') = str ''ls''" by (simp_all add: of_char_def)
  obtain k1 where k1: "shell_key demo_world 0x63 demo_kern = Inr (Returned, k1)" "shell_text k1 (kedit_key 0x63 ([], []))"
    using shell_key_edits [OF demo_text, of "0x63" demo_world] by auto
  obtain k' where "shell_key demo_world 0x64 k1 = Inr (Returned, k')" using shell_key_edits [OF k1(2), of "0x64" demo_world] by auto
  with k1 have r: "shell_keys demo_world [0x63, 0x64] demo_kern = Inr (Returned, k')" by simp
  from ls_ignores_cd [OF lib cwd r ls] r show ?thesis by (auto simp: demo_world_def)
qed

end
