(* ===== verification/Spec2Isabelle.thy ===== *)
theory Spec2Isabelle
  imports Heap_Props Mm_Props Vga Keyboard Elf_Props Ext2_Cd Shell_Props
begin

text \<open>
  Verification of a small i386 kernel: its memory manager, drivers, file system, program
  loader, interrupt and system call layer, kernel shell and boot sequence, and the user
  shell it starts.

  \<^bold>\<open>The program.\<close> \<open>kmain\<close> (\<^verbatim>\<open>src/kernel/main.c\<close>) resets the drive, reads the boot command line,
  sets up the serial port, the screen, the descriptor tables, the interrupt controllers
  and memory, mounts the ext2 volume and enters the first user program. From then on the
  processor is in a user program or in one of the handlers: the keyboard interrupt fills a
  ring buffer, a system call prints from or reads keys into user memory, an exception
  or a page fault prints a report. The kernel shell edits lines and calls the file system and the
  loader; these allocate from the kernel heap and read from the ATA driver.

  \<^bold>\<open>Modelling.\<close> Memory is a function from 32-bit addresses to bytes and machine integers
  are words, so wrap-around is that of the code. Variables of a file are a record that its operations
  return updated. Errors are values. A store or load outside a C array is \<open>Inl Fault\<close>, waiting for ever
  \<open>Inl Hang\<close> (or \<open>None\<close> where nothing else can fail). Device registers are reached through an interface of port
  operations (\<open>ports\<close>) on a device state. Loops are recursive; those that may not end are partial functions into \<open>option\<close>, and the
  theorems say that they return.

  \<^bold>\<open>Theories and components.\<close>
    \<^item> \<open>Kernel_Prelude\<close>: words, lists and the shared automation. \<open>Run\<close>: results with faults, and the port interface.
      \<open>Cstring\<close>: C strings and the contract \<open>c_strings\<close> of the string routines.
    \<^item> \<open>Mm_State\<close>, \<open>Memory_Bytes\<close>, \<open>Heap\<close>, \<open>Heap_Spec\<close>, \<open>Heap_Correct\<close>, \<open>Heap_Api\<close>, \<open>Heap_Props\<close>: the heap
      and the byte routines of \<^verbatim>\<open>arch/memory.c\<close>. The doubly linked block list in memory refines a
      list of sizes; \<open>Allocator\<close> is the contract its callers use.
    \<^item> \<open>Frames\<close>, \<open>Frame_Pool\<close>, \<open>Paging\<close>, \<open>Address_Space\<close>, \<open>Memory_Init\<close>, \<open>Mm_Props\<close>: the frame
      allocator, the page tables and \<open>memory_init\<close> of \<^verbatim>\<open>arch/memory.c\<close>; the tables are read as the
      processor walks them.
    \<^item> \<open>Vga\<close>, \<open>Console\<close>: \<^verbatim>\<open>arch/vga.c\<close>, \<^verbatim>\<open>arch/serial.c\<close>, \<^verbatim>\<open>include/debug.h\<close>, \<^verbatim>\<open>arch/panic.c\<close> and \<open>print_hex\<close>. The screen
      refines a tape of lines.
    \<^item> \<open>Bounded_Queue\<close>, \<open>Keyboard\<close>: \<^verbatim>\<open>arch/keyboard.c\<close>, with a step relation for the
      interleaving of interrupts and reads.
    \<^item> \<open>Elf\<close>, \<open>Elf_Props\<close>: \<^verbatim>\<open>arch/elf.c\<close> against a specification on the bytes of the file.
    \<^item> \<open>Ata\<close>: \<^verbatim>\<open>arch/ata.c\<close>, \<^verbatim>\<open>arch/disk.c\<close> over a drive that keeps the PIO protocol (\<open>ata_drive\<close>).
    \<^item> \<open>Ext2\<close>, \<open>Ext2_Dir\<close>, \<open>Ext2_Cmd\<close>: \<^verbatim>\<open>fs/disk_io.c\<close>, \<^verbatim>\<open>fs/inode.c\<close>, \<^verbatim>\<open>arch/path.c\<close>, \<^verbatim>\<open>arch/ext2_lookup.c\<close>, \<^verbatim>\<open>arch/ext2_ls.c\<close>,
      \<^verbatim>\<open>arch/ext2_cat.c\<close>, \<^verbatim>\<open>arch/ext2_cd.c\<close>, \<^verbatim>\<open>arch/load.c\<close>. \<open>Ext2_Volume\<close>, \<open>Ext2_Walk\<close>, \<open>Ext2_Lookup\<close>, \<open>Ext2_File\<close>,
      \<open>Ext2_Path\<close>, \<open>Ext2_Props\<close>, \<open>Ext2_Cd\<close> compare them with the blocks, inodes, directories and paths of the
      volume; \<open>Ext2_Image\<close> is a concrete one.
    \<^item> \<open>Descriptors\<close>: GDT and TSS of \<^verbatim>\<open>src/kernel/main.c\<close>, \<^verbatim>\<open>arch/idt.c\<close>, and how the processor and the
      interrupt controllers read what they are given.
    \<^item> \<open>Traps\<close>, \<open>Trap_Props\<close>: exceptions, page faults (\<^verbatim>\<open>arch/memory.c\<close>) and system calls (\<^verbatim>\<open>src/kernel/main.c\<close>, \<^verbatim>\<open>include/syscall.h\<close>).
    \<^item> \<open>Line_Buffer\<close>: arrays edited in place, and the contract \<open>line_history\<close> of a history, shared by both shells.
      \<open>Kernel_Shell\<close>, \<open>Kernel_Shell_Props\<close>: shell and program start of \<^verbatim>\<open>src/kernel/main.c\<close>.
      \<open>User_Shell\<close>, \<open>User_Env\<close>, \<open>User_Edit\<close>, \<open>User_Props\<close>: \<^verbatim>\<open>user/shell.c\<close>. \<open>Shell_Props\<close>: what both have in common.
    \<^item> \<open>Boot\<close>, \<open>Boot_Props\<close>: \<open>kmain\<close>, the composition of the components.

  \<^bold>\<open>What is shown.\<close> The heap stays consistent under every sequence of calls, and each call does what
  its name says. Memory initialisation returns, frees exactly the usable frames and
  keeps user mode out of the kernel. The loader implements its specification and writes to the user
  region, the heap and the page tables only. Directory search, path
  resolution, \<open>cat\<close>, \<open>cd\<close> and file loading agree with the volume. No key is lost or
  reordered between the interrupt handler and its readers, except when the buffer is full. Ring 3 enters the kernel through vector 0x80 only.
  The system calls do what they promise on mapped buffers. Both line editors refine a text
  with a cursor, both histories the end of a log, the environment of the user shell a map. On a
  good volume the kernel boots into a state in which the assumptions of the file system
  and heap theorems hold; otherwise it panics. Other theorems pin down where the
  code does not do what it means to: stores outside buffers, unchecked
  addresses, waits that never end, and results that are lost.

  \<^bold>\<open>Contracts.\<close> Code outside the repository, and hardware, are parameters: the string routines
  (\<open>string_lib\<close>), the reader of the virtual file system (\<open>vfs_contract\<close>), the drive (\<open>disk_ok\<close>, \<open>boot_drive\<close>), the
  serial port (\<open>uart\<close>), the loader by inode and the task system (\<open>keeps_cwd\<close>), \<open>vfs_init\<close> and \<open>auto_enter_user_mode\<close>. Each
  contract is met by an instance in the witnesses. The addresses that the linker chooses are a
  \<open>link_map\<close>; the properties need its objects to be disjoint.

  \<^bold>\<open>Bounds.\<close> The endless loops of the shells run over a given sequence of keys or a given
  number of rounds (\<open>shell_rounds\<close>); the statements hold for every sequence and every number. The
  keyboard interrupts to come are a list, so a wait that no interrupt ends is \<open>Hang\<close>; an interrupt is taken while
  waiting, or at any step of \<open>kstep\<close> in \<open>Keyboard\<close>. The
  bounded polling loops of the drivers have the counts of the code. The file system theorems need
  128-byte inodes, blocks of at most 4096 bytes and a volume below the 28-bit sector limit; what happens
  with larger inodes is a theorem of its own.

  \<^bold>\<open>Not modelled.\<close> The assembly files (\<^verbatim>\<open>boot.s\<close>, \<^verbatim>\<open>arch/idt.s\<close>, \<^verbatim>\<open>arch/io.s\<close>): register saving and the instructions
  behind the port interface; of \<^verbatim>\<open>arch/gdt_flush.s\<close> the effect on the segment registers is modelled. \<^verbatim>\<open>fs/vfs.c\<close>,
  \<^verbatim>\<open>fs/exec_elf.c\<close>, \<^verbatim>\<open>kernel/task.c\<close>, \<^verbatim>\<open>kernel/auto_user.c\<close> and \<^verbatim>\<open>arch/string.c\<close> are not in the repository. The debug messages that
  the frame allocator, the disk driver and the loader send to the serial port are left out. Timing, caches and
  interrupts that arrive while a page table is being changed are outside the model, as are the
  backups and the preprocessor output that the makefile does not build.
\<close>

end
